(* ===== verification/Go_Prelude.thy ===== *)
theory Go_Prelude
  imports Main "HOL-Library.Word"
begin

text \<open>
  Shared ground of the development: the Go values the program computes with (bytes, sized
  unsigned integers, slices), the outcome of a Go call (a value, an error, a run-time panic),
  the error values the module builds and the way \<^verbatim>\<open>errors.Is\<close> and \<^verbatim>\<open>errors.As\<close>
  look through them, the few \<^verbatim>\<open>fmt\<close> verbs its messages use, and big-endian integers
  (\<^verbatim>\<open>encoding/binary\<close>).

  Lengths and offsets the code computes from slice lengths and wire fields are never
  negative and far below the range of Go's \<^verbatim>\<open>int\<close>: they are \<open>nat\<close>. An
  \<^verbatim>\<open>int\<close> a caller passes in may be negative: it is \<open>int\<close>. A fixed-width value is
  a word of its width, so that conversions and sums wrap as they do in Go.
\<close>

unbundle bit_operations_syntax

named_theorems go_simps "evaluation rules for outcomes, indexing and slicing"

section \<open>Values\<close>

type_synonym byte = "8 word"
type_synonym uint16 = "16 word"
type_synonym uint32 = "32 word"
type_synonym bytes = "byte list"

section \<open>Text: the verbs of fmt the messages use\<close>

definition digit_char :: "nat \<Rightarrow> char" where
  "digit_char d = char_of (d + (if d < 10 then 48 else 55))"

definition lower_digit_char :: "nat \<Rightarrow> char" where
  "lower_digit_char d = char_of (d + (if d < 10 then 48 else 87))"

fun utoa :: "nat \<Rightarrow> string" where
  "utoa n = (if n < 10 then [digit_char n] else utoa (n div 10) @ [digit_char (n mod 10)])"

declare utoa.simps [simp del]

text \<open>\<^verbatim>\<open>%d\<close>\<close>
definition itoa :: "int \<Rightarrow> string" where
  "itoa i = (if i < 0 then ''-'' @ utoa (nat (- i)) else utoa (nat i))"

text \<open>\<^verbatim>\<open>%02X\<close> of a byte and \<^verbatim>\<open>%04X\<close> of a 16-bit value\<close>
definition hex02 :: "byte \<Rightarrow> string" where
  "hex02 b = [digit_char (unat b div 16), digit_char (unat b mod 16)]"

definition hex04 :: "uint16 \<Rightarrow> string" where
  "hex04 w = [digit_char (unat w div 4096), digit_char (unat w div 256 mod 16),
              digit_char (unat w div 16 mod 16), digit_char (unat w mod 16)]"

section \<open>Errors\<close>

text \<open>The package-level error values (\<^verbatim>\<open>errors.New\<close>) of wire, server, client and
  capture, and the two context errors: values compared by identity.\<close>

datatype sentinel =
    ErrShortS7Header | ErrInvalidS7ProtocolID | ErrShortS7AckHeader | ErrS7PayloadLength
  | ErrTruncatedItemHeader | ErrTruncatedItemPayload | ErrInvalidParamLength
  | ErrInvalidDataLength | ErrUnknownBlockType | ErrOutOfRange | ErrMalformedRequest
  | ErrUnknownArea | ErrAreaExists | ErrSpanOutOfRange | ErrServerClosed
  | ErrNotConnected | ErrProtocolFailure | ErrRequestExceedsPDU | ErrNilReadResult
  | ErrFormat | DeadlineExceeded | Canceled

definition sentinel_text :: "sentinel \<Rightarrow> string" where
  "sentinel_text s = (case s of
      ErrShortS7Header \<Rightarrow> ''data too short for S7 header''
    | ErrInvalidS7ProtocolID \<Rightarrow> ''invalid S7 protocol ID''
    | ErrShortS7AckHeader \<Rightarrow> ''data too short for S7 ack header''
    | ErrS7PayloadLength \<Rightarrow> ''S7 payload shorter than parameter/data lengths''
    | ErrTruncatedItemHeader \<Rightarrow> ''read response item header truncated''
    | ErrTruncatedItemPayload \<Rightarrow> ''read response item payload truncated or overrun''
    | ErrInvalidParamLength \<Rightarrow> ''invalid parameter section length''
    | ErrInvalidDataLength \<Rightarrow> ''invalid data section length''
    | ErrUnknownBlockType \<Rightarrow> ''unknown block type''
    | ErrOutOfRange \<Rightarrow> ''value out of range for its wire field''
    | ErrMalformedRequest \<Rightarrow> ''malformed S7 request''
    | ErrUnknownArea \<Rightarrow> ''s7 server: area not registered''
    | ErrAreaExists \<Rightarrow> ''s7 server: area already registered''
    | ErrSpanOutOfRange \<Rightarrow> ''s7 server: span outside the area''
    | ErrServerClosed \<Rightarrow> ''s7 server: closed''
    | ErrNotConnected \<Rightarrow> ''not connected''
    | ErrProtocolFailure \<Rightarrow> ''protocol failure''
    | ErrRequestExceedsPDU \<Rightarrow> ''request exceeds negotiated PDU size''
    | ErrNilReadResult \<Rightarrow> ''read result is nil''
    | ErrFormat \<Rightarrow> ''capture: unsupported or malformed capture file''
    | DeadlineExceeded \<Rightarrow> ''context deadline exceeded''
    | Canceled \<Rightarrow> ''context canceled'')"

text \<open>
  An error value. \<open>Errorf\<close> is \<^verbatim>\<open>fmt.Errorf\<close> with its rendered text and the operands of
  its \<^verbatim>\<open>%w\<close> verbs; \<open>Join\<close> is \<^verbatim>\<open>errors.Join\<close>. \<open>NetError\<close> is an
  error of the transport below this module that implements \<^verbatim>\<open>net.Error\<close>, with the
  answer of its \<^verbatim>\<open>Timeout\<close> method.
\<close>

datatype go_error =
    Sentinel sentinel
  | S7Error byte byte string
  | UnsupportedSyntaxError byte
  | ValidationError string
  | PDURefMismatchError uint16 uint16
  | NetError bool string
  | OtherError string
  | Errorf string "go_error list"
  | Join "go_error list"

text \<open>\<^verbatim>\<open>errors.Is\<close> against a package-level value: depth first through the wrapped errors.\<close>

fun errors_is :: "go_error \<Rightarrow> sentinel \<Rightarrow> bool" where
  "errors_is (Sentinel s) t = (s = t)"
| "errors_is (Errorf _ es) t = list_ex (\<lambda>e. errors_is e t) es"
| "errors_is (Join es) t = list_ex (\<lambda>e. errors_is e t) es"
| "errors_is _ t = False"

text \<open>\<^verbatim>\<open>errors.As\<close> for \<^verbatim>\<open>*wire.S7Error\<close>: whether one is in the tree.\<close>

fun as_S7Error :: "go_error \<Rightarrow> bool" where
  "as_S7Error (S7Error _ _ _) = True"
| "as_S7Error (Errorf _ es) = list_ex as_S7Error es"
| "as_S7Error (Join es) = list_ex as_S7Error es"
| "as_S7Error _ = False"

text \<open>\<^verbatim>\<open>errors.As\<close> for \<^verbatim>\<open>net.Error\<close>: the first one in the tree, by the answer of its
  \<^verbatim>\<open>Timeout\<close> method. The context's deadline error is one.\<close>

fun as_net_error :: "go_error \<Rightarrow> bool option" where
  "as_net_error (Sentinel s) = (if s = DeadlineExceeded then Some True else None)"
| "as_net_error (NetError t _) = Some t"
| "as_net_error (Errorf _ es) =
     (case [t. Some t \<leftarrow> map as_net_error es] of [] \<Rightarrow> None | t # _ \<Rightarrow> Some t)"
| "as_net_error (Join es) =
     (case [t. Some t \<leftarrow> map as_net_error es] of [] \<Rightarrow> None | t # _ \<Rightarrow> Some t)"
| "as_net_error _ = None"

text \<open>\<^verbatim>\<open>errors.Join\<close> separates the texts of its operands by newlines.\<close>

fun join_lines :: "string list \<Rightarrow> string" where
  "join_lines [] = []"
| "join_lines [s] = s"
| "join_lines (s # t # ss) = s @ CHR 0x0A # join_lines (t # ss)"

text \<open>The \<^verbatim>\<open>Error\<close> method.\<close>

fun error_text :: "go_error \<Rightarrow> string" where
  "error_text (Sentinel s) = sentinel_text s"
| "error_text (S7Error c d m) =
     (if m \<noteq> [] then m else ''S7 error: class=0x'' @ hex02 c @ '', code=0x'' @ hex02 d)"
| "error_text (UnsupportedSyntaxError b) = ''unsupported syntax ID 0x'' @ hex02 b"
| "error_text (ValidationError m) = m"
| "error_text (PDURefMismatchError e g) =
     ''S7 response PDU ref mismatch: expected '' @ utoa (unat e) @ '', got '' @ utoa (unat g)"
| "error_text (NetError _ m) = m"
| "error_text (OtherError m) = m"
| "error_text (Errorf m _) = m"
| "error_text (Join es) = join_lines (map error_text es)"

text \<open>\<^verbatim>\<open>fmt.Errorf("%w: ...", sentinel, ...)\<close>, the shape of most errors of wire and server,
  and \<^verbatim>\<open>fmt.Errorf("...: %w", err)\<close>, the shape a caller wraps with.\<close>

definition wrap_sentinel :: "sentinel \<Rightarrow> string \<Rightarrow> go_error" where
  "wrap_sentinel s m = Errorf (sentinel_text s @ '': '' @ m) [Sentinel s]"

definition wrap_error :: "string \<Rightarrow> go_error \<Rightarrow> go_error" where
  "wrap_error m e = Errorf (m @ '': '' @ error_text e) [e]"

lemma errors_is_wrap_sentinel [simp]: "errors_is (wrap_sentinel s m) t \<longleftrightarrow> s = t"
  by (simp add: wrap_sentinel_def)

lemma errors_is_wrap_error [simp]: "errors_is (wrap_error m e) t \<longleftrightarrow> errors_is e t"
  by (simp add: wrap_error_def)

lemma as_S7Error_wrap [simp]:
  "\<not> as_S7Error (wrap_sentinel s m)" "as_S7Error (wrap_error m e) \<longleftrightarrow> as_S7Error e"
  by (simp_all add: wrap_sentinel_def wrap_error_def)

lemma as_net_error_wrap [simp]:
  "as_net_error (wrap_sentinel s m) = (if s = DeadlineExceeded then Some True else None)"
  "as_net_error (wrap_error m e) = as_net_error e"
  by (simp_all add: wrap_sentinel_def wrap_error_def split: option.split)

section \<open>Outcomes\<close>

text \<open>The outcome of a call: its value, its error, or a run-time panic (an index or a slice
  bound out of range).\<close>

datatype 'a res = Ok 'a | Err go_error | Panic

primrec bindR :: "'a res \<Rightarrow> ('a \<Rightarrow> 'b res) \<Rightarrow> 'b res" where
  "bindR (Ok x) f = f x"
| "bindR (Err e) f = Err e"
| "bindR Panic f = Panic"

lemma bindR_cong:
  "m = m' \<Longrightarrow> (\<And>x. m' = Ok x \<Longrightarrow> f x = g x) \<Longrightarrow> bindR m f = bindR m' g"
  by (cases m') auto

lemma bindR_assoc: "bindR (bindR m f) g = bindR m (\<lambda>x. bindR (f x) g)"
  by (cases m) simp_all

lemma bindR_eq_Ok: "bindR m f = Ok y \<longleftrightarrow> (\<exists>x. m = Ok x \<and> f x = Ok y)"
  by (cases m) simp_all

lemma bindR_eq_Err: "bindR m f = Err e \<longleftrightarrow> m = Err e \<or> (\<exists>x. m = Ok x \<and> f x = Err e)"
  by (cases m) simp_all

lemma bindR_eq_Panic: "bindR m f = Panic \<longleftrightarrow> m = Panic \<or> (\<exists>x. m = Ok x \<and> f x = Panic)"
  by (cases m) simp_all

lemma bindR_not_Panic:
  "m \<noteq> Panic \<Longrightarrow> (\<And>x. m = Ok x \<Longrightarrow> f x \<noteq> Panic) \<Longrightarrow> bindR m f \<noteq> Panic"
  by (cases m) simp_all

section \<open>Indexing and slicing\<close>

text \<open>Bounds of slices stay in terms of lengths, which linear arithmetic decides, and offsets
  stay sums.\<close>

declare length_greater_0_conv [iff del]
declare add_2_eq_Suc [simp del] add_2_eq_Suc' [simp del]

text \<open>
  \<^verbatim>\<open>xs[i]\<close> and \<^verbatim>\<open>xs[lo:hi]\<close>. Go checks a slice expression's upper bound against the
  capacity, which may exceed the length; the model panics past the length already, so a
  proof that it never does is stronger than the same fact of the code.
\<close>

definition idx :: "'a list \<Rightarrow> nat \<Rightarrow> 'a res" where
  "idx xs i = (if i < length xs then Ok (xs ! i) else Panic)"

definition go_slice :: "'a list \<Rightarrow> nat \<Rightarrow> nat \<Rightarrow> 'a list res" where
  "go_slice xs lo hi =
     (if lo \<le> hi \<and> hi \<le> length xs then Ok (take (hi - lo) (drop lo xs)) else Panic)"

lemma idx_Ok [go_simps]: "i < length xs \<Longrightarrow> idx xs i = Ok (xs ! i)"
  by (simp add: idx_def)

lemma go_slice_Ok [go_simps]:
  "lo \<le> hi \<Longrightarrow> hi \<le> length xs \<Longrightarrow> go_slice xs lo hi = Ok (take (hi - lo) (drop lo xs))"
  by (simp add: go_slice_def)

lemma go_slice_length: "go_slice xs lo hi = Ok ys \<Longrightarrow> length ys = hi - lo"
  by (auto simp: go_slice_def split: if_splits)

text \<open>\<^verbatim>\<open>copy(xs[i:], ys)\<close>: as many bytes as both slices hold, in place.\<close>

definition copy_at :: "'a list \<Rightarrow> nat \<Rightarrow> 'a list \<Rightarrow> 'a list res" where
  "copy_at xs i ys =
     bindR (go_slice xs i (length xs)) (\<lambda>tl.
     Ok (take i xs @ take (length tl) ys @ drop (length ys) tl))"

lemma copy_at_Ok [go_simps]:
  "i + length ys \<le> length xs \<Longrightarrow>
   copy_at xs i ys = Ok (take i xs @ ys @ drop (i + length ys) xs)"
  by (simp add: copy_at_def go_simps add.commute)

section \<open>Big-endian integers\<close>

definition be16 :: "byte \<Rightarrow> byte \<Rightarrow> uint16" where
  "be16 a b = push_bit 8 (ucast a) OR ucast b"

definition be32 :: "byte \<Rightarrow> byte \<Rightarrow> byte \<Rightarrow> byte \<Rightarrow> uint32" where
  "be32 a b c d =
     push_bit 24 (ucast a) OR push_bit 16 (ucast b) OR push_bit 8 (ucast c) OR ucast d"

text \<open>\<^verbatim>\<open>binary.BigEndian.Uint16(xs[i:i+2])\<close> and its 32-bit twin; \<^verbatim>\<open>PutUint16\<close> and
  \<^verbatim>\<open>PutUint32\<close> as the bytes they store.\<close>

definition u16at :: "bytes \<Rightarrow> nat \<Rightarrow> uint16 res" where
  "u16at xs i = bindR (go_slice xs i (i + 2)) (\<lambda>b. bindR (idx b 1) (\<lambda>lo. bindR (idx b 0) (\<lambda>hi.
     Ok (be16 hi lo))))"

definition u32at :: "bytes \<Rightarrow> nat \<Rightarrow> uint32 res" where
  "u32at xs i = bindR (go_slice xs i (i + 4)) (\<lambda>b. bindR (idx b 3) (\<lambda>b3. bindR (idx b 2) (\<lambda>b2.
     bindR (idx b 1) (\<lambda>b1. bindR (idx b 0) (\<lambda>b0. Ok (be32 b0 b1 b2 b3))))))"

definition put16 :: "uint16 \<Rightarrow> bytes" where
  "put16 v = [ucast (drop_bit 8 v), ucast v]"

definition put32 :: "uint32 \<Rightarrow> bytes" where
  "put32 v = [ucast (drop_bit 24 v), ucast (drop_bit 16 v), ucast (drop_bit 8 v), ucast v]"

lemma u16at_Ok [go_simps]:
  "i + 2 \<le> length xs \<Longrightarrow> u16at xs i = Ok (be16 (xs ! i) (xs ! (i + 1)))"
  by (simp add: u16at_def go_simps)

lemma u16at_offset:
  "i + 4 \<le> length xs \<Longrightarrow> u16at xs (i + 2) = Ok (be16 (xs ! (i + 2)) (xs ! (i + 3)))"
  by (simp add: u16at_Ok numeral_eq_Suc)

lemma u16at_not_Ok: "length xs < i + 2 \<Longrightarrow> u16at xs i = Panic"
  by (simp add: u16at_def go_slice_def)

lemma u32at_Ok [go_simps]:
  "i + 4 \<le> length xs \<Longrightarrow>
   u32at xs i = Ok (be32 (xs ! i) (xs ! (i + 1)) (xs ! (i + 2)) (xs ! (i + 3)))"
  by (simp add: u32at_def go_simps)

lemma length_put [simp]: "length (put16 v) = 2" "length (put32 w) = 4"
  by (simp_all add: put16_def put32_def)

lemma be16_split [simp]: "be16 (ucast (drop_bit 8 v)) (ucast v) = v"
  unfolding be16_def
  by (rule bit_word_eqI) (auto simp: bit_simps)

lemma be32_split [simp]:
  "be32 (ucast (drop_bit 24 v)) (ucast (drop_bit 16 v)) (ucast (drop_bit 8 v)) (ucast v) = v"
  unfolding be32_def
proof (rule bit_word_eqI)
  fix n :: nat
  assume "n < LENGTH(32)"
  then consider "n < 8" | "8 \<le> n" "n < 16" | "16 \<le> n" "n < 24" | "24 \<le> n" "n < 32"
    by fastforce
  then show "bit (push_bit 24 (ucast (ucast (drop_bit 24 v) :: byte)) OR
      push_bit 16 (ucast (ucast (drop_bit 16 v) :: byte)) OR
      push_bit 8 (ucast (ucast (drop_bit 8 v) :: byte)) OR ucast (ucast v :: byte) :: uint32) n
    = bit v n"
    by cases (auto simp: bit_simps)
qed

lemma u32at_put32: "u32at (put32 v) 0 = Ok v"
  by (simp add: u32at_Ok) (simp add: put32_def)

lemma u16at_put16: "u16at (put16 v) 0 = Ok v"
  by (simp add: u16at_Ok) (simp add: put16_def)

lemma be16_zero [simp]: "be16 0 b = ucast b"
  by (simp add: be16_def)

lemma put16_be16 [simp]: "put16 (be16 a b) = [a, b]"
proof -
  have "ucast (drop_bit 8 (be16 a b)) = a"
    unfolding be16_def by (rule bit_word_eqI) (auto simp: bit_simps dest: bit_imp_le_length)
  moreover have "ucast (be16 a b) = b"
    unfolding be16_def by (rule bit_word_eqI) (auto simp: bit_simps)
  ultimately show ?thesis by (simp add: put16_def)
qed

lemma unat_byte_less [simp]: "unat (b :: byte) < 256"
  using unsigned_less [of b, where ?'a = nat] by simp

lemma unat_uint16_less [simp]: "unat (w :: uint16) < 65536"
  using unsigned_less [of w, where ?'a = nat] by simp

lemma unat_word_of_nat_uint16 [simp]: "n \<le> 65535 \<Longrightarrow> unat (word_of_nat n :: uint16) = n"
  by (simp add: unsigned_of_nat take_bit_eq_mod)

lemma unat_word_of_int_uint16 [simp]:
  "0 \<le> v \<Longrightarrow> v \<le> 65535 \<Longrightarrow> unat (word_of_int v :: uint16) = nat v"
  using unat_word_of_nat_uint16 [of "nat v"] by simp

lemma unat_ucast_byte [simp]: "unat (ucast (b :: byte) :: uint16) = unat b"
  by (simp add: unsigned_ucast_eq take_bit_eq_mod order_less_trans [OF unat_byte_less])

lemma unat_be16: "unat (be16 a b) = 256 * unat a + unat b"
proof -
  have "256 * unat a + unat b < 65536"
    using unat_byte_less [of a] unat_byte_less [of b] by linarith
  moreover
  have "be16 a b = push_bit 8 (ucast a) + ucast b"
    unfolding be16_def
    by (subst disjunctive_add) (auto simp: bit_simps dest: bit_imp_le_length)
  ultimately show ?thesis
    by (simp add: unat_word_ariths push_bit_eq_mult mult.commute)
qed

end
