(* ===== verification/Wire_S7.thy ===== *)
theory Wire_S7
  imports Go_Prelude
begin

text \<open>
  Package wire, the parts every PDU shares: the S7 header (\<^verbatim>\<open>wire/s7.go\<close>), the protocol
  errors and their texts (\<^verbatim>\<open>wire/errors.go\<close>, \<^verbatim>\<open>wire/param_error.go\<close>), the TSAP of
  a rack and slot (\<^verbatim>\<open>wire/cotp.go\<close>), Setup Communication from the client's side
  (\<^verbatim>\<open>wire/pdu_setup.go\<close>) and the frame inspector (\<^verbatim>\<open>wire/inspect.go\<close>).
\<close>

section \<open>Constants\<close>

abbreviation ROSCTRJob :: byte where "ROSCTRJob \<equiv> 0x01"
abbreviation ROSCTRAck :: byte where "ROSCTRAck \<equiv> 0x02"
abbreviation ROSCTRAckData :: byte where "ROSCTRAckData \<equiv> 0x03"
abbreviation ROSCTRUserdata :: byte where "ROSCTRUserdata \<equiv> 0x07"

abbreviation FuncSetupComm :: byte where "FuncSetupComm \<equiv> 0xF0"
abbreviation FuncReadVar :: byte where "FuncReadVar \<equiv> 0x04"
abbreviation FuncWriteVar :: byte where "FuncWriteVar \<equiv> 0x05"
abbreviation FuncDownloadStart :: byte where "FuncDownloadStart \<equiv> 0x1A"
abbreviation FuncDownload :: byte where "FuncDownload \<equiv> 0x1B"
abbreviation FuncDownloadEnd :: byte where "FuncDownloadEnd \<equiv> 0x1C"
abbreviation FuncUploadStart :: byte where "FuncUploadStart \<equiv> 0x1D"
abbreviation FuncUpload :: byte where "FuncUpload \<equiv> 0x1E"
abbreviation FuncUploadEnd :: byte where "FuncUploadEnd \<equiv> 0x1F"
abbreviation FuncPIService :: byte where "FuncPIService \<equiv> 0x28"
abbreviation FuncPLCStop :: byte where "FuncPLCStop \<equiv> 0x29"

abbreviation RetCodeSuccess :: byte where "RetCodeSuccess \<equiv> 0xFF"
abbreviation RetCodeHWFault :: byte where "RetCodeHWFault \<equiv> 0x01"
abbreviation RetCodeAccessFault :: byte where "RetCodeAccessFault \<equiv> 0x03"
abbreviation RetCodeAddressFault :: byte where "RetCodeAddressFault \<equiv> 0x05"
abbreviation RetCodeDataTypeFault :: byte where "RetCodeDataTypeFault \<equiv> 0x06"
abbreviation RetCodeDataSizeFault :: byte where "RetCodeDataSizeFault \<equiv> 0x07"
abbreviation RetCodeBusy :: byte where "RetCodeBusy \<equiv> 0x09"
abbreviation RetCodeNotAvailable :: byte where "RetCodeNotAvailable \<equiv> 0x0A"

definition functionCodeNames :: "byte \<rightharpoonup> string" where
  "functionCodeNames = map_of
    [(0x00, ''CPU services''), (0x01, ''Mode transition''),
     (FuncSetupComm, ''Setup communication''), (FuncReadVar, ''Read Var''),
     (FuncWriteVar, ''Write Var''), (FuncDownloadStart, ''Request download''),
     (FuncDownload, ''Download block''), (FuncDownloadEnd, ''Download ended''),
     (FuncUploadStart, ''Start upload''), (FuncUpload, ''Upload''), (FuncUploadEnd, ''End upload''),
     (FuncPIService, ''PI-Service''), (FuncPLCStop, ''PLC Stop'')]"

definition FunctionCodeString :: "byte \<Rightarrow> string" where
  "FunctionCodeString code =
     (case functionCodeNames code of Some s \<Rightarrow> s | None \<Rightarrow> ''0x'' @ hex02 code)"

section \<open>Protocol errors\<close>

definition errClassNames :: "byte \<rightharpoonup> string" where
  "errClassNames = map_of
    [(0x00, ''No error''), (0x81, ''Application relationship''), (0x82, ''Object definition''),
     (0x83, ''No resources available''), (0x84, ''Error on service processing''),
     (0x85, ''Error on supplies''), (0x87, ''Access error'')]"

definition ErrClassString :: "byte \<Rightarrow> string" where
  "ErrClassString c = (case errClassNames c of Some s \<Rightarrow> s | None \<Rightarrow> ''class 0x'' @ hex02 c)"

definition HeaderErrorString :: "byte \<Rightarrow> byte \<Rightarrow> string" where
  "HeaderErrorString class code =
    (if class = 0x00 then
       (if code = 0 then []
        else ''header error class=0x'' @ hex02 class @ '' code=0x'' @ hex02 code)
     else if class = 0x87 then
       (if code = 0x00 then ''no access rights''
        else if code = 0x01 then ''invalid address''
        else if code = 0x04 then ''invalid data type''
        else ''access error code=0x'' @ hex02 code)
     else if class = 0x82 then ''object does not exist''
     else if class = 0x83 then ''resource busy''
     else ''S7 error class=0x'' @ hex02 class @ '' code=0x'' @ hex02 code)"

definition NewS7Error :: "byte \<Rightarrow> byte \<Rightarrow> go_error" where
  "NewS7Error class code = S7Error class code (HeaderErrorString class code)"

definition ItemReturnCodeString :: "byte \<Rightarrow> string" where
  "ItemReturnCodeString code =
    (if code = RetCodeSuccess then ''success''
     else if code = RetCodeHWFault then ''hardware fault''
     else if code = RetCodeAccessFault then ''access denied''
     else if code = RetCodeAddressFault then ''invalid address''
     else if code = RetCodeDataTypeFault then ''data type not supported''
     else if code = RetCodeDataSizeFault then ''data size mismatch''
     else if code = RetCodeBusy then ''object busy''
     else if code = RetCodeNotAvailable then ''object not available''
     else ''return code 0x'' @ hex02 code)"

definition ReturnCodeError :: "byte \<Rightarrow> go_error option" where
  "ReturnCodeError code =
     (if code = RetCodeSuccess then None else Some (S7Error 0 code (ItemReturnCodeString code)))"

definition paramErrorCodeNames :: "uint16 \<rightharpoonup> string" where
  "paramErrorCodeNames = map_of [
     (0x0000, ''no error''),
     (0x0110, ''invalid block number''),
     (0x0111, ''invalid request length''),
     (0x0112, ''invalid parameter''),
     (0x0113, ''invalid block type''),
     (0x0114, ''block not found''),
     (0x0115, ''block already exists''),
     (0x0116, ''block is write-protected''),
     (0x0117, ''block/OS update too large''),
     (0x0118, ''invalid block number''),
     (0x0119, ''incorrect password''),
     (0x011A, ''PG resource error''),
     (0x011B, ''PLC resource error''),
     (0x011C, ''protocol error''),
     (0x011D, ''too many blocks (module restriction)''),
     (0x011E, ''no connection to database or invalid S7DOS handle''),
     (0x011F, ''result buffer too small''),
     (0x0120, ''end of block list''),
     (0x0140, ''insufficient memory''),
     (0x0141, ''job cannot be processed (lack of resources)''),
     (0x8001, ''service cannot be performed while block is in current status''),
     (0x8003, ''S7 protocol error: error while transferring block''),
     (0x8100, ''application error: service unknown to remote module''),
     (0x8104, ''service not implemented or frame error''),
     (0x8204, ''type specification for object inconsistent''),
     (0x8205, ''copied block already exists and is not linked''),
     (0x8301, ''insufficient memory or storage medium not accessible''),
     (0x8302, ''too few resources or processor resources not available''),
     (0x8304, ''no further parallel upload possible (resource bottleneck)''),
     (0x8305, ''function not available''),
     (0x8306, ''insufficient work memory''),
     (0x8307, ''not enough retentive work memory''),
     (0x8401, ''S7 protocol error: invalid service sequence''),
     (0x8402, ''service cannot execute (status of addressed object)''),
     (0x8404, ''S7 protocol: function cannot be performed''),
     (0x8405, ''remote block in DISABLE state (CFB)''),
     (0x8500, ''S7 protocol error: wrong frames''),
     (0x8503, ''alarm from module: service canceled prematurely''),
     (0x8701, ''error addressing object (e.g. area length error)''),
     (0x8702, ''requested service not supported by module''),
     (0x8703, ''access to object refused''),
     (0x8704, ''access error: object damaged''),
     (0xD001, ''protocol error: illegal job number''),
     (0xD002, ''parameter error: illegal job variant''),
     (0xD003, ''parameter error: debugging function not supported by module''),
     (0xD004, ''parameter error: illegal job status''),
     (0xD005, ''parameter error: illegal job termination''),
     (0xD006, ''parameter error: illegal link disconnection ID''),
     (0xD007, ''parameter error: illegal number of buffer elements''),
     (0xD008, ''parameter error: illegal scan rate''),
     (0xD009, ''parameter error: illegal number of executions''),
     (0xD00A, ''parameter error: illegal trigger event''),
     (0xD00B, ''parameter error: illegal trigger condition''),
     (0xD011, ''parameter error: block does not exist''),
     (0xD012, ''parameter error: wrong address in block''),
     (0xD014, ''parameter error: block being deleted/overwritten''),
     (0xD015, ''parameter error: illegal tag address''),
     (0xD016, ''parameter error: test jobs not possible (errors in user program)''),
     (0xD017, ''parameter error: illegal trigger number''),
     (0xD025, ''parameter error: invalid path''),
     (0xD031, ''internal protocol error''),
     (0xD032, ''parameter error: wrong result buffer length''),
     (0xD033, ''protocol error: wrong job length''),
     (0xD03F, ''coding error in parameter section''),
     (0xD041, ''data error: illegal status list ID''),
     (0xD042, ''data error: illegal tag address''),
     (0xD043, ''data error: referenced job not found''),
     (0xD044, ''data error: illegal tag value''),
     (0xD045, ''data error: exiting ODIS control not allowed in HOLD''),
     (0xD046, ''data error: illegal measuring stage (run-time measurement)''),
     (0xD047, ''data error: illegal hierarchy in Read job list''),
     (0xD048, ''data error: illegal deletion ID in Delete job''),
     (0xD049, ''invalid substitute ID in Replace job''),
     (0xD04A, ''error executing program status''),
     (0xD05F, ''coding error in data section''),
     (0xD061, ''resource error: no memory space for job''),
     (0xD062, ''resource error: job list full''),
     (0xD063, ''resource error: trigger event occupied''),
     (0xD081, ''function not permitted in current mode''),
     (0xD082, ''mode error: cannot exit HOLD mode''),
     (0xD0A1, ''function not permitted in current protection level''),
     (0xD0A2, ''function not possible (function modifying memory running)''),
     (0xD0A3, ''too many modify tag jobs active on I/O''),
     (0xD0A4, ''forcing has already been established''),
     (0xD0A5, ''referenced job not found''),
     (0xD0A6, ''job cannot be disabled/enabled''),
     (0xD0A7, ''job cannot be deleted (e.g. currently being read)''),
     (0xD0A8, ''job cannot be replaced (e.g. being read or deleted)''),
     (0xD0A9, ''job cannot be read (e.g. currently being deleted)''),
     (0xD0AA, ''time limit exceeded in processing operation''),
     (0xD0AB, ''invalid job parameters in process operation''),
     (0xD0AC, ''invalid job data in process operation''),
     (0xD0AD, ''operating mode already set''),
     (0xD0AE, ''job set up over different connection''),
     (0xD0C1, ''at least one error while accessing tag(s)''),
     (0xD0C2, ''change to STOP/HOLD mode''),
     (0xD201, ''syntax error in block name''),
     (0xD202, ''syntax error in function parameters''),
     (0xD209, ''one of the given blocks not found on module''),
     (0xD20E, ''no (further) block available''),
     (0xD210, ''invalid block number''),
     (0xD216, ''invalid user program - reset module''),
     (0xD231, ''loaded OB cannot be copied (priority class does not exist)''),
     (0xD232, ''block number of loaded block illegal''),
     (0xD234, ''block exists twice''),
     (0xD235, ''block contains incorrect checksum''),
     (0xD241, ''function not permitted in current protection level''),
     (0xD250, ''update and module ID or version do not match''),
     (0xD251, ''incorrect sequence of operating system components''),
     (0xD252, ''checksum error''),
     (0xD2A1, ''another block function or trigger on block active''),
     (0xD2A2, ''trigger active on block; complete debugging first''),
     (0xD2A3, ''block not active (linked), occupied, or marked for deletion''),
     (0xD2A4, ''block already being processed by another block function''),
     (0xD401, ''information function unavailable''),
     (0xD402, ''information function unavailable''),
     (0xD601, ''syntax error in function parameter''),
     (0xD602, ''incorrect password entered''),
     (0xD801, ''at least one tag address invalid''),
     (0xD802, ''specified job does not exist''),
     (0xDC01, ''date and/or time invalid'')]"

definition ParamErrorCodeString :: "uint16 \<Rightarrow> string" where
  "ParamErrorCodeString code =
     (case paramErrorCodeNames code of
        Some s \<Rightarrow> s | None \<Rightarrow> ''parameter error 0x'' @ hex04 code)"

definition ParamErrorFromParam :: "bytes \<Rightarrow> (uint16 \<times> bool) res" where
  "ParamErrorFromParam param =
     (if length param < 4 then Ok (0, False)
      else bindR (u16at param 2) (\<lambda>code. Ok (code, True)))"

definition NewS7ErrorWithParam :: "byte \<Rightarrow> byte \<Rightarrow> bytes \<Rightarrow> go_error res" where
  "NewS7ErrorWithParam class code param =
     bindR (ParamErrorFromParam param) (\<lambda>(paramCode, ok).
       if ok \<and> paramCode \<noteq> 0 then Ok (S7Error class code (ParamErrorCodeString paramCode))
       else Ok (NewS7Error class code))"

section \<open>The S7 header\<close>

abbreviation S7HeaderSize :: nat where "S7HeaderSize \<equiv> 10"

record S7Header =
  ProtocolID :: byte
  ROSCTR :: byte
  RedundancyID :: uint16
  PDURef :: uint16
  ParamLength :: uint16
  DataLength :: uint16
  ErrorClass :: byte
  ErrorCode :: byte

definition IsAck :: "byte \<Rightarrow> bool" where "IsAck r \<longleftrightarrow> r = ROSCTRAck"
definition IsAckData :: "byte \<Rightarrow> bool" where "IsAckData r \<longleftrightarrow> r = ROSCTRAckData"
definition IsJob :: "byte \<Rightarrow> bool" where "IsJob r \<longleftrightarrow> r = ROSCTRJob"
definition IsUserdata :: "byte \<Rightarrow> bool" where "IsUserdata r \<longleftrightarrow> r = ROSCTRUserdata"

definition checkedUint16 :: "string \<Rightarrow> int \<Rightarrow> uint16 res" where
  "checkedUint16 name v =
     (if v < 0 \<or> 65535 < v
      then Err (wrap_sentinel ErrOutOfRange (name @ '' '' @ itoa v @ '' not in 0..65535''))
      else Ok (word_of_int v))"

text \<open>\<open>s7Header\<close> fills a fresh 10-byte buffer field by field.\<close>

definition s7Header :: "byte \<Rightarrow> uint16 \<Rightarrow> uint16 \<Rightarrow> uint16 \<Rightarrow> bytes" where
  "s7Header rosctr pduRef paramLen dataLen =
     [0x32, rosctr] @ put16 0 @ put16 pduRef @ put16 paramLen @ put16 dataLen"

definition EncodeS7Header :: "byte \<Rightarrow> uint16 \<Rightarrow> int \<Rightarrow> int \<Rightarrow> bytes res" where
  "EncodeS7Header rosctr pduRef paramLen dataLen =
     bindR (checkedUint16 ''parameter length'' paramLen) (\<lambda>p.
     bindR (checkedUint16 ''data length'' dataLen) (\<lambda>d.
     Ok (s7Header rosctr pduRef p d)))"

definition encodeMessage :: "byte \<Rightarrow> uint16 \<Rightarrow> bytes \<Rightarrow> bytes \<Rightarrow> bytes res" where
  "encodeMessage rosctr pduRef param data =
     bindR (EncodeS7Header rosctr pduRef (int (length param)) (int (length data))) (\<lambda>header.
     Ok (header @ param @ data))"

definition ParseS7Header :: "bytes \<Rightarrow> (S7Header \<times> bytes) res" where
  "ParseS7Header data =
    (if length data < S7HeaderSize then Err (Sentinel ErrShortS7Header) else
     bindR (idx data 0) (\<lambda>pid.
     if pid \<noteq> 0x32 then Err (wrap_sentinel ErrInvalidS7ProtocolID (''got 0x'' @ hex02 pid)) else
     bindR (idx data 1) (\<lambda>rosctr.
     bindR (u16at data 2) (\<lambda>red.
     bindR (u16at data 4) (\<lambda>ref.
     bindR (u16at data 6) (\<lambda>pl.
     bindR (u16at data 8) (\<lambda>dl.
     let h = \<lparr>ProtocolID = pid, ROSCTR = rosctr, RedundancyID = red, PDURef = ref,
              ParamLength = pl, DataLength = dl, ErrorClass = 0, ErrorCode = 0\<rparr> in
     bindR
       (if IsAckData rosctr \<or> IsAck rosctr then
          (if length data < S7HeaderSize + 2 then Err (Sentinel ErrShortS7AckHeader) else
           bindR (idx data 10) (\<lambda>ec.
           bindR (idx data 11) (\<lambda>ed.
           Ok (h\<lparr>ErrorClass := ec, ErrorCode := ed\<rparr>, 12))))
        else Ok (h, S7HeaderSize)) (\<lambda>(h, offset).
     let need = unat (ParamLength h) + unat (DataLength h) in
     bindR (go_slice data offset (length data)) (\<lambda>rest.
     if length rest < need
     then Err (wrap_sentinel ErrS7PayloadLength
            (''need '' @ utoa need @ '', got '' @ utoa (length rest)))
     else Ok (h, rest))))))))))"

section \<open>TSAP of a rack and slot\<close>

definition EncodeRackSlotTSAP :: "byte \<Rightarrow> byte \<Rightarrow> byte" where
  "EncodeRackSlotTSAP rack slot = push_bit 5 (rack AND 0x07) OR (slot AND 0x1F)"

definition ValidateRackSlot :: "int \<Rightarrow> int \<Rightarrow> go_error option" where
  "ValidateRackSlot rack slot =
     (if rack < 0 \<or> 7 < rack then Some (OtherError (''rack must be 0..7, got '' @ itoa rack))
      else if slot < 0 \<or> 31 < slot then Some (OtherError (''slot must be 0..31, got '' @ itoa slot))
      else None)"

definition BuildTSAP :: "int \<Rightarrow> int \<Rightarrow> int \<Rightarrow> uint16 res" where
  "BuildTSAP connType rack slot =
     (case ValidateRackSlot rack slot of
        Some err \<Rightarrow> Err err
      | None \<Rightarrow>
         if connType < 0 \<or> 0xFF < connType
         then Err (OtherError (''connection type must be 0..255, got '' @ itoa connType))
         else
           (let low = EncodeRackSlotTSAP (word_of_int (rack AND 0x07)) (word_of_int (slot AND 0x1F))
            in Ok (push_bit 8 (word_of_int connType) OR ucast low)))"

section \<open>Setup Communication, client side\<close>

definition EncodeSetupCommRequest :: "uint16 \<Rightarrow> int \<Rightarrow> int \<Rightarrow> int \<Rightarrow> bytes res" where
  "EncodeSetupCommRequest pduRef maxAmqCalling maxAmqCalled pduSize =
     bindR (checkedUint16 ''max AmQ calling'' maxAmqCalling) (\<lambda>calling.
     bindR (checkedUint16 ''max AmQ called'' maxAmqCalled) (\<lambda>called.
     bindR (checkedUint16 ''PDU size'' pduSize) (\<lambda>size.
     encodeMessage ROSCTRJob pduRef
       ([FuncSetupComm, 0x00] @ put16 calling @ put16 called @ put16 size) [])))"

record SetupComm =
  MaxAmqCalling :: nat
  MaxAmqCalled :: nat
  PDUSize :: nat

definition ParseSetupCommResponse :: "bytes \<Rightarrow> SetupComm res" where
  "ParseSetupCommResponse data =
     (if length data < 8 then Err (S7Error 0 0 ''setup comm response too short'') else
      bindR (idx data 0) (\<lambda>fn.
      if fn \<noteq> FuncSetupComm then Err (S7Error 0 0 ''not a setup comm response'') else
      bindR (u16at data 2) (\<lambda>calling.
      bindR (u16at data 4) (\<lambda>called.
      bindR (u16at data 6) (\<lambda>size.
      Ok \<lparr>MaxAmqCalling = unat calling, MaxAmqCalled = unat called, PDUSize = unat size\<rparr>)))))"

section \<open>Frame inspection\<close>

text \<open>The COTP decoder belongs to go-cotp: it is the parameter \<open>decode\<close>, giving the TPDU
  type and, for a data TPDU, its user data.\<close>

record FrameSummary =
  TPDULength :: nat
  COTPType :: byte
  fsROSCTR :: byte
  fsFunction :: byte
  fsParamLength :: nat
  fsDataLength :: nat
  fsErrorClass :: byte
  fsErrorCode :: byte

definition InspectTPDU :: "(bytes \<Rightarrow> (byte \<times> bytes option) res) \<Rightarrow> bytes \<Rightarrow> FrameSummary res" where
  "InspectTPDU decode tpdu =
     (case decode tpdu of
        Panic \<Rightarrow> Panic
      | Err e \<Rightarrow> Err (wrap_error ''parse cotp'' e)
      | Ok (typ, dt) \<Rightarrow>
         (let s = \<lparr>TPDULength = length tpdu, COTPType = typ, fsROSCTR = 0, fsFunction = 0,
                   fsParamLength = 0, fsDataLength = 0, fsErrorClass = 0, fsErrorCode = 0\<rparr>;
              s7Payload = (case dt of Some u \<Rightarrow> u | None \<Rightarrow> []) in
          if length s7Payload = 0 then Ok s else
          bindR (idx s7Payload 0) (\<lambda>b.
          if b \<noteq> 0x32 then Ok s else
          (case ParseS7Header s7Payload of
             Panic \<Rightarrow> Panic
           | Err e \<Rightarrow> Err (wrap_error ''parse s7 header'' e)
           | Ok (h, rest) \<Rightarrow>
              (let s1 = s\<lparr>fsROSCTR := ROSCTR h, fsParamLength := unat (ParamLength h),
                          fsDataLength := unat (DataLength h), fsErrorClass := ErrorClass h,
                          fsErrorCode := ErrorCode h\<rparr> in
               if 0 < length rest then bindR (idx rest 0) (\<lambda>f. Ok (s1\<lparr>fsFunction := f\<rparr>))
               else Ok s1)))))"

section \<open>Facts about the header\<close>

lemma checkedUint16_Ok:
  "0 \<le> v \<Longrightarrow> v \<le> 65535 \<Longrightarrow> checkedUint16 name v = Ok (word_of_int v)"
  by (simp add: checkedUint16_def)

lemma checkedUint16_length:
  "n \<le> 65535 \<Longrightarrow> checkedUint16 name (int n) = Ok (word_of_nat n)"
  by (simp add: checkedUint16_def)

lemma length_s7Header [simp]: "length (s7Header r ref p d) = S7HeaderSize"
  by (simp add: s7Header_def)

lemma EncodeS7Header_length:
  "p \<le> 65535 \<Longrightarrow> d \<le> 65535 \<Longrightarrow>
   EncodeS7Header r ref (int p) (int d) = Ok (s7Header r ref (word_of_nat p) (word_of_nat d))"
  by (simp add: EncodeS7Header_def checkedUint16_length)

lemma encodeMessage_Ok:
  "length param \<le> 65535 \<Longrightarrow> length data \<le> 65535 \<Longrightarrow>
   encodeMessage r ref param data =
     Ok (s7Header r ref (word_of_nat (length param)) (word_of_nat (length data)) @ param @ data)"
  by (simp add: encodeMessage_def EncodeS7Header_length)

lemma encodeMessage_eq_Ok:
  "encodeMessage r ref param data = Ok msg \<longleftrightarrow>
     length param \<le> 65535 \<and> length data \<le> 65535 \<and>
     msg = s7Header r ref (word_of_nat (length param)) (word_of_nat (length data)) @ param @ data"
  by (auto simp: encodeMessage_def EncodeS7Header_def checkedUint16_def)

lemma s7Header_nth [simp]:
  "s7Header r ref p d ! 0 = 0x32" "s7Header r ref p d ! Suc 0 = r"
  "be16 (s7Header r ref p d ! 2) (s7Header r ref p d ! 3) = 0"
  "be16 (s7Header r ref p d ! 4) (s7Header r ref p d ! 5) = ref"
  "be16 (s7Header r ref p d ! 6) (s7Header r ref p d ! 7) = p"
  "be16 (s7Header r ref p d ! 8) (s7Header r ref p d ! 9) = d"
  by (simp_all add: s7Header_def put16_def)

lemma nth_s7Header_append [simp]:
  "i < S7HeaderSize \<Longrightarrow> (s7Header r ref p d @ xs) ! i = s7Header r ref p d ! i"
  by (simp add: nth_append)

text \<open>The decoder on a message that is long enough: what the nested reads compute.\<close>

definition header_fields :: "bytes \<Rightarrow> byte \<Rightarrow> byte \<Rightarrow> S7Header" where
  "header_fields data ec ed =
     \<lparr>ProtocolID = 0x32, ROSCTR = data ! 1, RedundancyID = be16 (data ! 2) (data ! 3),
      PDURef = be16 (data ! 4) (data ! 5), ParamLength = be16 (data ! 6) (data ! 7),
      DataLength = be16 (data ! 8) (data ! 9), ErrorClass = ec, ErrorCode = ed\<rparr>"

definition payload_need :: "bytes \<Rightarrow> nat" where
  "payload_need data = unat (be16 (data ! 6) (data ! 7)) + unat (be16 (data ! 8) (data ! 9))"

lemma ParseS7Header_plain:
  assumes "S7HeaderSize \<le> length data" "data ! 0 = 0x32"
    "data ! 1 \<noteq> ROSCTRAck" "data ! 1 \<noteq> ROSCTRAckData"
  shows "ParseS7Header data =
    (if length data - S7HeaderSize < payload_need data
     then Err (wrap_sentinel ErrS7PayloadLength (''need '' @ utoa (payload_need data) @
            '', got '' @ utoa (length data - S7HeaderSize)))
     else Ok (header_fields data 0 0, drop S7HeaderSize data))"
  using assms
  by (simp add: ParseS7Header_def go_simps IsAck_def IsAckData_def header_fields_def
      payload_need_def Let_def)

lemma ParseS7Header_ack:
  assumes "S7HeaderSize + 2 \<le> length data" "data ! 0 = 0x32"
    "data ! 1 = ROSCTRAck \<or> data ! 1 = ROSCTRAckData"
  shows "ParseS7Header data =
    (if length data - 12 < payload_need data
     then Err (wrap_sentinel ErrS7PayloadLength (''need '' @ utoa (payload_need data) @
            '', got '' @ utoa (length data - 12)))
     else Ok (header_fields data (data ! 10) (data ! 11), drop 12 data))"
  using assms
  by (auto simp: ParseS7Header_def go_simps IsAck_def IsAckData_def header_fields_def
      payload_need_def Let_def)

lemma ParseS7Header_short_ack:
  assumes "S7HeaderSize \<le> length data" "length data < S7HeaderSize + 2" "data ! 0 = 0x32"
    "data ! 1 = ROSCTRAck \<or> data ! 1 = ROSCTRAckData"
  shows "ParseS7Header data = Err (Sentinel ErrShortS7AckHeader)"
  using assms
  by (auto simp: ParseS7Header_def go_simps IsAck_def IsAckData_def Let_def)

lemma ParseS7Header_invalid:
  "length data < S7HeaderSize \<Longrightarrow> ParseS7Header data = Err (Sentinel ErrShortS7Header)"
  "S7HeaderSize \<le> length data \<Longrightarrow> data ! 0 \<noteq> 0x32 \<Longrightarrow>
   ParseS7Header data = Err (wrap_sentinel ErrInvalidS7ProtocolID (''got 0x'' @ hex02 (data ! 0)))"
  by (simp_all add: ParseS7Header_def go_simps)

lemma ParseS7Header_cases:
  obtains (short) "length data < S7HeaderSize"
  | (foreign) "S7HeaderSize \<le> length data" "data ! 0 \<noteq> 0x32"
  | (plain) "S7HeaderSize \<le> length data" "data ! 0 = 0x32"
      "data ! 1 \<noteq> ROSCTRAck" "data ! 1 \<noteq> ROSCTRAckData"
  | (short_ack) "S7HeaderSize \<le> length data" "length data < S7HeaderSize + 2" "data ! 0 = 0x32"
      "data ! 1 = ROSCTRAck \<or> data ! 1 = ROSCTRAckData"
  | (ack) "S7HeaderSize + 2 \<le> length data" "data ! 0 = 0x32"
      "data ! 1 = ROSCTRAck \<or> data ! 1 = ROSCTRAckData"
  by (meson le_less_linear)

text \<open>The header decoder is safe on any input: it returns a header with the rest of the
  message or an error, and never indexes out of range. What it returns it has checked: the
  message starts with the S7 protocol ID, the rest holds at least the declared parameter and
  data bytes, and it is the message after the 10-byte header (12 bytes for an acknowledgement,
  which is then at least that long and supplies the error fields).\<close>

lemma ParseS7Header_safe:
  "case ParseS7Header data of
     Panic \<Rightarrow> False
   | Err _ \<Rightarrow> True
   | Ok (h, rest) \<Rightarrow>
       10 \<le> length data \<and> data ! 0 = 0x32 \<and> ROSCTR h = data ! 1 \<and>
       PDURef h = be16 (data ! 4) (data ! 5) \<and>
       unat (ParamLength h) + unat (DataLength h) \<le> length rest \<and>
       (if data ! 1 \<in> {ROSCTRAck, ROSCTRAckData}
        then 12 \<le> length data \<and> rest = drop 12 data \<and>
             ErrorClass h = data ! 10 \<and> ErrorCode h = data ! 11
        else rest = drop 10 data \<and> ErrorClass h = 0 \<and> ErrorCode h = 0)"
proof (cases data rule: ParseS7Header_cases)
  case short
  then show ?thesis by (simp add: ParseS7Header_invalid)
next
  case foreign
  then show ?thesis by (simp add: ParseS7Header_invalid)
next
  case plain
  then show ?thesis
    by (simp add: ParseS7Header_plain header_fields_def payload_need_def)
next
  case short_ack
  then show ?thesis by (simp add: ParseS7Header_short_ack)
next
  case ack
  then show ?thesis
    by (auto simp: ParseS7Header_ack header_fields_def payload_need_def)
qed

lemma ParseS7Header_message:
  assumes "length param \<le> 65535" "length data \<le> 65535" "\<not> IsAck r" "\<not> IsAckData r"
  shows "ParseS7Header
      (s7Header r ref (word_of_nat (length param)) (word_of_nat (length data)) @ param @ data) =
    Ok (\<lparr>ProtocolID = 0x32, ROSCTR = r, RedundancyID = 0, PDURef = ref,
         ParamLength = word_of_nat (length param), DataLength = word_of_nat (length data),
         ErrorClass = 0, ErrorCode = 0\<rparr>, param @ data)"
  using assms
  by (subst ParseS7Header_plain)
    (simp_all add: IsAck_def IsAckData_def header_fields_def payload_need_def)

text \<open>Encoding and decoding a job or user data message are inverse: a message built from a
  parameter and a data section decodes to its type, its PDU reference, the lengths of the two
  sections and exactly the two sections.\<close>

lemma ParseS7Header_encodeMessage:
  assumes "encodeMessage r ref param data = Ok msg" "\<not> IsAck r" "\<not> IsAckData r"
  shows "\<exists>h. ParseS7Header msg = Ok (h, param @ data) \<and> ROSCTR h = r \<and> PDURef h = ref \<and>
    unat (ParamLength h) = length param \<and> unat (DataLength h) = length data \<and>
    ErrorClass h = 0 \<and> ErrorCode h = 0"
  using assms by (auto simp: encodeMessage_eq_Ok ParseS7Header_message)

section \<open>Facts about the TSAP\<close>

lemma EncodeRackSlotTSAP_unat:
  assumes "0 \<le> rack" "rack \<le> 7" "0 \<le> slot" "slot \<le> 31"
  shows "unat (EncodeRackSlotTSAP (word_of_int (rack AND 7)) (word_of_int (slot AND 31)))
    = 32 * nat rack + nat slot"
proof -
  have "rack \<in> {0..7}" "slot \<in> {0..31}" using assms by auto
  moreover have "\<forall>r \<in> {0..7::int}. \<forall>s \<in> {0..31::int}.
    unat (EncodeRackSlotTSAP (word_of_int (r AND 7)) (word_of_int (s AND 31))) = 32 * nat r + nat s"
    by code_simp
  ultimately show ?thesis by blast
qed

lemma unat_shifted_or:
  "unat (push_bit 8 (word_of_int c :: uint16) OR ucast (low :: byte)) = 256 * nat c + unat low"
  if "0 \<le> c" "c \<le> 255"
proof -
  have *: "unat (word_of_int c :: uint16) = nat c" using that by simp
  have "256 * nat c + unat low < 65536" using that unat_byte_less [of low] by linarith
  moreover have "push_bit 8 (word_of_int c :: uint16) OR ucast low =
      push_bit 8 (word_of_int c :: uint16) + ucast low"
    by (rule sym, rule disjunctive_add) (auto simp: bit_simps dest: bit_imp_le_length)
  ultimately show ?thesis
    by (simp add: unat_word_ariths push_bit_eq_mult * mult.commute)
qed

text \<open>A TSAP is built exactly for a connection type 0..255, rack 0..7 and slot 0..31, and
  then it determines all three: the high byte is the connection type, the top three bits of
  the low byte are the rack and the other five the slot. Other inputs are refused.\<close>

lemma BuildTSAP_fields:
  "case BuildTSAP c r s of
     Panic \<Rightarrow> False
   | Err _ \<Rightarrow> \<not> (c \<in> {0..255} \<and> r \<in> {0..7} \<and> s \<in> {0..31})
   | Ok t \<Rightarrow> c \<in> {0..255} \<and> r \<in> {0..7} \<and> s \<in> {0..31} \<and>
       int (unat t div 256) = c \<and> int (unat t mod 256 div 32) = r \<and> int (unat t mod 32) = s"
proof (cases "c \<in> {0..255} \<and> r \<in> {0..7} \<and> s \<in> {0..31}")
  case True
  define low where
    "low = EncodeRackSlotTSAP (word_of_int (r AND 0x07)) (word_of_int (s AND 0x1F))"
  have "unat low = 32 * nat r + nat s"
    unfolding low_def using True by (intro EncodeRackSlotTSAP_unat) auto
  moreover have "BuildTSAP c r s = Ok (push_bit 8 (word_of_int c) OR ucast low)"
    using True by (simp add: BuildTSAP_def ValidateRackSlot_def low_def)
  moreover have "unat (push_bit 8 (word_of_int c :: uint16) OR ucast low) = 256 * nat c + unat low"
    using True by (intro unat_shifted_or) auto
  moreover have "(32 * nat r + nat s) div 256 = 0" "(32 * nat r + nat s) div 32 = nat r"
    "(32 * nat r + nat s) mod 256 = 32 * nat r + nat s"
    using True by auto
  moreover have "(256 * nat c + (32 * nat r + nat s)) mod 32 = nat s"
  proof -
    have "256 * nat c + (32 * nat r + nat s) = nat s + 32 * (8 * nat c + nat r)" by simp
    moreover have "nat s < 32" using True by auto
    ultimately show ?thesis by (simp only: mod_mult_self2 mod_less)
  qed
  ultimately show ?thesis
    using True by simp
next
  case False
  then show ?thesis by (auto simp: BuildTSAP_def ValidateRackSlot_def Let_def)
qed

end
