(* ===== verification/Wire_RW.thy ===== *)
theory Wire_RW
  imports Wire_S7
begin

text \<open>
  Package wire, Read Var and Write Var from the client's side (\<^verbatim>\<open>wire/pdu_rw.go\<close>): area
  and syntax codes, the S7ANY address encoders with their range checks, the request encoders,
  the response decoders and the typed readers of one item.
\<close>

section \<open>Areas, syntax IDs and transport sizes\<close>

abbreviation AreaDataRecord :: byte where "AreaDataRecord \<equiv> 0x01"
abbreviation AreaSysInfo :: byte where "AreaSysInfo \<equiv> 0x03"
abbreviation AreaSysFlags :: byte where "AreaSysFlags \<equiv> 0x05"
abbreviation AreaS7200AN :: byte where "AreaS7200AN \<equiv> 0x06"
abbreviation AreaS7200AO :: byte where "AreaS7200AO \<equiv> 0x07"
abbreviation AreaPeripheral :: byte where "AreaPeripheral \<equiv> 0x80"
abbreviation AreaInputs :: byte where "AreaInputs \<equiv> 0x81"
abbreviation AreaOutputs :: byte where "AreaOutputs \<equiv> 0x82"
abbreviation AreaMerkers :: byte where "AreaMerkers \<equiv> 0x83"
abbreviation AreaDB :: byte where "AreaDB \<equiv> 0x84"
abbreviation AreaDI :: byte where "AreaDI \<equiv> 0x85"
abbreviation AreaLocal :: byte where "AreaLocal \<equiv> 0x86"
abbreviation AreaV :: byte where "AreaV \<equiv> 0x87"
abbreviation AreaCounter :: byte where "AreaCounter \<equiv> 0x1C"
abbreviation AreaTimer :: byte where "AreaTimer \<equiv> 0x1D"
abbreviation AreaIECCounter200 :: byte where "AreaIECCounter200 \<equiv> 30"
abbreviation AreaIECTimer200 :: byte where "AreaIECTimer200 \<equiv> 31"

abbreviation SyntaxIDS7Any :: byte where "SyntaxIDS7Any \<equiv> 0x10"
abbreviation SyntaxIDDBRead :: byte where "SyntaxIDDBRead \<equiv> 0xB0"
abbreviation SyntaxID1200Symbolic :: byte where "SyntaxID1200Symbolic \<equiv> 0xB2"
abbreviation SyntaxIDDriveES :: byte where "SyntaxIDDriveES \<equiv> 0xA2"

abbreviation TransportSizeBit :: byte where "TransportSizeBit \<equiv> 0x01"
abbreviation TransportSizeByte :: byte where "TransportSizeByte \<equiv> 0x02"
abbreviation TransportSizeChar :: byte where "TransportSizeChar \<equiv> 0x03"
abbreviation TransportSizeWord :: byte where "TransportSizeWord \<equiv> 0x04"
abbreviation TransportSizeInt :: byte where "TransportSizeInt \<equiv> 0x05"
abbreviation TransportSizeDWord :: byte where "TransportSizeDWord \<equiv> 0x06"
abbreviation TransportSizeDInt :: byte where "TransportSizeDInt \<equiv> 0x07"
abbreviation TransportSizeReal :: byte where "TransportSizeReal \<equiv> 0x08"

abbreviation DataTransportSizeNull :: byte where "DataTransportSizeNull \<equiv> 0x00"
abbreviation DataTransportSizeBit :: byte where "DataTransportSizeBit \<equiv> 0x03"
abbreviation DataTransportSizeByte :: byte where "DataTransportSizeByte \<equiv> 0x04"
abbreviation DataTransportSizeInt :: byte where "DataTransportSizeInt \<equiv> 0x05"
abbreviation DataTransportSizeDInt :: byte where "DataTransportSizeDInt \<equiv> 0x06"
abbreviation DataTransportSizeReal :: byte where "DataTransportSizeReal \<equiv> 0x07"
abbreviation DataTransportSizeOctet :: byte where "DataTransportSizeOctet \<equiv> 0x09"

definition hexByte :: "byte \<Rightarrow> string" where
  "hexByte b = (let hex = ''0123456789ABCDEF'' in
     [hex ! unat (drop_bit 4 b), hex ! unat (b AND 0x0F)])"

definition ValidateRequestSyntax :: "byte \<Rightarrow> go_error option" where
  "ValidateRequestSyntax syn =
     (if syn = SyntaxIDS7Any then None else Some (UnsupportedSyntaxError syn))"

definition ValidateArea :: "byte \<Rightarrow> go_error option" where
  "ValidateArea area =
     (if area \<in> set [AreaDataRecord, AreaInputs, AreaOutputs, AreaMerkers, AreaDB, AreaDI, AreaLocal,
        AreaV, AreaCounter, AreaTimer, AreaIECCounter200, AreaIECTimer200, AreaPeripheral,
        AreaSysInfo, AreaSysFlags, AreaS7200AN, AreaS7200AO]
      then None else Some (S7Error 0 0 (''unsupported area code 0x'' @ hexByte area)))"

definition areaNames :: "byte \<rightharpoonup> string" where
  "areaNames = map_of
    [(AreaDataRecord, ''RECORD''), (AreaSysInfo, ''SI200''), (AreaSysFlags, ''SF200''),
     (AreaS7200AN, ''AI200''), (AreaS7200AO, ''AO200''),
     (AreaPeripheral, ''P''), (AreaInputs, ''I''), (AreaOutputs, ''Q''), (AreaMerkers, ''M''),
     (AreaDB, ''DB''), (AreaDI, ''DI''), (AreaLocal, ''L''), (AreaV, ''V''),
     (AreaCounter, ''C''), (AreaTimer, ''T''), (30, ''C200''), (31, ''T200'')]"

definition AreaString :: "byte \<Rightarrow> string" where
  "AreaString area = (case areaNames area of Some s \<Rightarrow> s | None \<Rightarrow> ''0x'' @ hex02 area)"

definition syntaxIDNames :: "byte \<rightharpoonup> string" where
  "syntaxIDNames = map_of
    [(SyntaxIDS7Any, ''S7ANY''), (0x11, ''ParameterShort''), (0x12, ''ParameterExtended''),
     (0x13, ''PBC-R_ID''), (0x15, ''ALARM_LOCKFREE''), (0x16, ''ALARM_IND''), (0x19, ''ALARM_ACK''),
     (0x1a, ''ALARM_QUERYREQ''), (0x1c, ''NOTIFY_IND''),
     (0x82, ''NCK''), (0x83, ''NCK_M''), (0x84, ''NCK_I''),
     (SyntaxIDDriveES, ''DRIVEESANY''), (SyntaxID1200Symbolic, ''1200SYM''),
     (SyntaxIDDBRead, ''DBREAD'')]"

definition SyntaxIDString :: "byte \<Rightarrow> string" where
  "SyntaxIDString syn = (case syntaxIDNames syn of Some s \<Rightarrow> s | None \<Rightarrow> ''0x'' @ hex02 syn)"

definition responseTransportSizeNames :: "byte \<rightharpoonup> string" where
  "responseTransportSizeNames = map_of
    [(DataTransportSizeNull, ''NULL''), (DataTransportSizeBit, ''BIT''),
     (DataTransportSizeByte, ''BYTE/WORD/DWORD''), (DataTransportSizeInt, ''INTEGER''),
     (DataTransportSizeDInt, ''DINTEGER''), (DataTransportSizeReal, ''REAL''),
     (DataTransportSizeOctet, ''OCTET STRING'')]"

definition ResponseTransportSize_String :: "byte \<Rightarrow> string" where
  "ResponseTransportSize_String r =
     (case responseTransportSizeNames r of Some s \<Rightarrow> s | None \<Rightarrow> ''0x'' @ hex02 r)"

section \<open>S7ANY addresses\<close>

record S7AnyAddress =
  saArea :: byte
  saDBNumber :: int
  saStart :: int
  saSize :: int

record S7AnyBitAddress =
  sbArea :: byte
  sbDBNumber :: int
  sbByteOffset :: int
  sbBitOffset :: int

abbreviation MaxS7AnyDBNumber :: int where "MaxS7AnyDBNumber \<equiv> 65535"
abbreviation MaxS7AnyByteOffset :: int where "MaxS7AnyByteOffset \<equiv> 0x1FFFFF"
abbreviation MaxS7AnyCount :: int where "MaxS7AnyCount \<equiv> 65535"
abbreviation MaxReadVarItems :: nat where "MaxReadVarItems \<equiv> 255"
abbreviation MaxWriteVarBytes :: nat where "MaxWriteVarBytes \<equiv> 8191"

text \<open>The error of a field that does not fit: name, value and upper bound.\<close>

definition range_error :: "string \<Rightarrow> int \<Rightarrow> int \<Rightarrow> go_error" where
  "range_error name v bound =
     wrap_sentinel ErrOutOfRange (name @ '' '' @ itoa v @ '' not in 0..'' @ itoa bound)"

definition putS7Any :: "byte \<Rightarrow> uint16 \<Rightarrow> uint16 \<Rightarrow> byte \<Rightarrow> uint32 \<Rightarrow> bytes" where
  "putS7Any transport count dbNumber area startBit =
     [0x12, 0x0A, SyntaxIDS7Any, transport] @ put16 count @ put16 dbNumber @
     [area, ucast (drop_bit 16 startBit AND 0xFF), ucast (drop_bit 8 startBit AND 0xFF),
      ucast (startBit AND 0xFF)]"

definition EncodeS7Any :: "S7AnyAddress \<Rightarrow> bytes res" where
  "EncodeS7Any addr =
     (if saDBNumber addr < 0 \<or> MaxS7AnyDBNumber < saDBNumber addr
      then Err (range_error ''DB number'' (saDBNumber addr) MaxS7AnyDBNumber)
      else if saStart addr < 0 \<or> MaxS7AnyByteOffset < saStart addr
      then Err (range_error ''start'' (saStart addr) MaxS7AnyByteOffset)
      else if saSize addr < 0 \<or> MaxS7AnyCount < saSize addr
      then Err (range_error ''size'' (saSize addr) MaxS7AnyCount)
      else Ok (putS7Any TransportSizeByte (word_of_int (saSize addr)) (word_of_int (saDBNumber addr))
             (saArea addr) (push_bit 3 (word_of_int (saStart addr)))))"

definition EncodeS7AnyBit :: "S7AnyBitAddress \<Rightarrow> bytes res" where
  "EncodeS7AnyBit addr =
     (if sbDBNumber addr < 0 \<or> MaxS7AnyDBNumber < sbDBNumber addr
      then Err (range_error ''DB number'' (sbDBNumber addr) MaxS7AnyDBNumber)
      else if sbByteOffset addr < 0 \<or> MaxS7AnyByteOffset < sbByteOffset addr
      then Err (range_error ''byte offset'' (sbByteOffset addr) MaxS7AnyByteOffset)
      else if sbBitOffset addr < 0 \<or> 7 < sbBitOffset addr
      then Err (range_error ''bit offset'' (sbBitOffset addr) 7)
      else Ok (putS7Any TransportSizeBit 1 (word_of_int (sbDBNumber addr)) (sbArea addr)
             (push_bit 3 (word_of_int (sbByteOffset addr)) OR word_of_int (sbBitOffset addr))))"

definition ValidateS7AnyAddress :: "S7AnyAddress \<Rightarrow> unit res" where
  "ValidateS7AnyAddress addr = bindR (EncodeS7Any addr) (\<lambda>_. Ok ())"

definition ValidateS7AnyBitAddress :: "S7AnyBitAddress \<Rightarrow> unit res" where
  "ValidateS7AnyBitAddress addr = bindR (EncodeS7AnyBit addr) (\<lambda>_. Ok ())"

section \<open>Requests\<close>

definition EncodeReadVarBitRequest :: "uint16 \<Rightarrow> S7AnyBitAddress \<Rightarrow> bytes res" where
  "EncodeReadVarBitRequest pduRef addr =
     bindR (EncodeS7AnyBit addr) (\<lambda>item.
     encodeMessage ROSCTRJob pduRef ([FuncReadVar, 1] @ item) [])"

definition EncodeWriteVarBitRequest :: "uint16 \<Rightarrow> S7AnyBitAddress \<Rightarrow> bool \<Rightarrow> bytes res" where
  "EncodeWriteVarBitRequest pduRef addr v =
     bindR (EncodeS7AnyBit addr) (\<lambda>item.
     let payload = (if v then 1 else 0) in
     encodeMessage ROSCTRJob pduRef ([FuncWriteVar, 1] @ item)
       [0x00, DataTransportSizeBit, 0x00, 0x01, payload, 0x00])"

abbreviation ReadVarRequestOverhead :: nat where "ReadVarRequestOverhead \<equiv> 24"
abbreviation WriteVarRequestOverhead :: nat where "WriteVarRequestOverhead \<equiv> 28"

fun encodeItems :: "S7AnyAddress list \<Rightarrow> bytes res" where
  "encodeItems [] = Ok []"
| "encodeItems (addr # addrs) =
     bindR (EncodeS7Any addr) (\<lambda>item. bindR (encodeItems addrs) (\<lambda>rest. Ok (item @ rest)))"

definition EncodeReadVarRequest :: "uint16 \<Rightarrow> S7AnyAddress list \<Rightarrow> bytes res" where
  "EncodeReadVarRequest pduRef addrs =
     (if MaxReadVarItems < length addrs
      then Err (wrap_sentinel ErrOutOfRange (utoa (length addrs) @ '' items, at most 255''))
      else
        bindR (encodeItems addrs) (\<lambda>items.
        encodeMessage ROSCTRJob pduRef ([FuncReadVar, word_of_nat (length addrs)] @ items) []))"

definition EncodeWriteVarRequest :: "uint16 \<Rightarrow> S7AnyAddress \<Rightarrow> bytes \<Rightarrow> bytes res" where
  "EncodeWriteVarRequest pduRef addr v =
     (let bits = length v * 8 in
      if 65535 < bits
      then Err (wrap_sentinel ErrOutOfRange (''write of '' @ utoa (length v) @ '' bytes, at most 8191''))
      else
        bindR (EncodeS7Any addr) (\<lambda>item.
        let data = [RetCodeSuccess, 0x04] @ put16 (word_of_nat bits) @ v in
        encodeMessage ROSCTRJob pduRef ([FuncWriteVar, 1] @ item)
          (if length data mod 2 \<noteq> 0 then data @ [0x00] else data)))"

section \<open>Responses\<close>

record ReadVarItem =
  ReturnCode :: byte
  RawTransportSize :: byte
  RawLength :: uint16
  Data :: bytes

definition NormalizeResponseDataLength :: "byte \<Rightarrow> uint16 \<Rightarrow> nat res" where
  "NormalizeResponseDataLength transportSize rawLength =
     (if transportSize \<in> {DataTransportSizeBit, DataTransportSizeByte, DataTransportSizeInt}
      then Ok ((unat rawLength + 7) div 8)
      else if transportSize \<in> {DataTransportSizeDInt, DataTransportSizeReal, DataTransportSizeOctet}
      then Ok (unat rawLength)
      else Err (S7Error 0 0 (''unknown response transport size 0x'' @ hexByte transportSize)))"

definition item_error :: "nat \<Rightarrow> sentinel \<Rightarrow> go_error" where
  "item_error offset s =
     wrap_error (''read response item at offset '' @ utoa offset) (Sentinel s)"

text \<open>After an odd payload one fill byte is skipped; it may be missing only after the last item.\<close>

definition skip_fill :: "bytes \<Rightarrow> nat \<Rightarrow> nat \<Rightarrow> nat \<Rightarrow> bool \<Rightarrow> nat res" where
  "skip_fill data offset byteLen nxt isLastItem =
     (if byteLen mod 2 \<noteq> 0 then
        (if length data \<le> nxt \<and> \<not> isLastItem then Err (item_error offset ErrTruncatedItemPayload)
         else Ok (if nxt < length data then nxt + 1 else nxt))
      else Ok nxt)"

definition decodeReadResponseItem :: "bytes \<Rightarrow> nat \<Rightarrow> bool \<Rightarrow> (ReadVarItem \<times> nat) res" where
  "decodeReadResponseItem data offset isLastItem =
    (if length data < offset + 4 then Err (item_error offset ErrTruncatedItemHeader) else
     bindR (idx data offset) (\<lambda>retCode.
     bindR (idx data (offset + 1)) (\<lambda>transportSize.
     bindR (u16at data (offset + 2)) (\<lambda>rawLength.
     let item = \<lparr>ReturnCode = retCode, RawTransportSize = transportSize,
                 RawLength = rawLength, Data = []\<rparr> in
     if retCode \<noteq> RetCodeSuccess then
       (let nxt = offset + 4 in
        if transportSize = 0x00 then Ok (item, nxt)
        else if rawLength = 0 then Ok (item, nxt)
        else
          bindR (NormalizeResponseDataLength transportSize rawLength) (\<lambda>byteLen.
          if length data < nxt + byteLen then Err (item_error offset ErrTruncatedItemPayload) else
          bindR (skip_fill data offset byteLen (nxt + byteLen) isLastItem) (\<lambda>nxt.
          Ok (item, nxt))))
     else
       bindR (NormalizeResponseDataLength transportSize rawLength) (\<lambda>byteLen.
       if length data < offset + 4 + byteLen then Err (item_error offset ErrTruncatedItemPayload) else
       bindR (go_slice data (offset + 4) (offset + 4 + byteLen)) (\<lambda>d.
       bindR (skip_fill data offset byteLen (offset + 4 + byteLen) isLastItem) (\<lambda>nxt.
       Ok (item\<lparr>Data := d\<rparr>, nxt))))))))"

text \<open>The loop over the announced number of items; the last one is decoded with one item left.\<close>

fun decodeReadItems :: "bytes \<Rightarrow> nat \<Rightarrow> nat \<Rightarrow> ReadVarItem list res" where
  "decodeReadItems data 0 offset = Ok []"
| "decodeReadItems data (Suc k) offset =
     bindR (decodeReadResponseItem data offset (k = 0)) (\<lambda>(item, nxt).
     bindR (decodeReadItems data k nxt) (\<lambda>items. Ok (item # items)))"

definition ParseReadVarResponse :: "bytes \<Rightarrow> bytes \<Rightarrow> ReadVarItem list res" where
  "ParseReadVarResponse param data =
    (if length param < 2 then Err (S7Error 0 0 ''read response param too short'') else
     bindR (idx param 0) (\<lambda>fn.
     if fn \<noteq> FuncReadVar then Err (S7Error 0 0 ''not a read var response'') else
     bindR (idx param 1) (\<lambda>n. decodeReadItems data (unat n) 0)))"

definition ParseWriteVarResponseCodes :: "bytes \<Rightarrow> bytes \<Rightarrow> bytes res" where
  "ParseWriteVarResponseCodes param data =
    (if length param < 2 then Err (S7Error 0 0 ''write response param too short'') else
     bindR (idx param 0) (\<lambda>fn.
     if fn \<noteq> FuncWriteVar then Err (S7Error 0 0 ''not a write var response'') else
     bindR (idx param 1) (\<lambda>b.
     let n = unat b in
     if n = 0 \<or> length data < n
     then Err (S7Error 0 0 (''write response: '' @ utoa (length data) @ '' item codes for '' @
                 utoa n @ '' items''))
     else go_slice data 0 n)))"

fun firstCodeError :: "nat \<Rightarrow> nat \<Rightarrow> bytes \<Rightarrow> go_error option" where
  "firstCodeError n i [] = None"
| "firstCodeError n i (c # cs) =
     (case ReturnCodeError c of
        Some err \<Rightarrow>
          Some (if n = 1 then err
                else wrap_error (''write item '' @ utoa i @ '' of '' @ utoa n) err)
      | None \<Rightarrow> firstCodeError n (i + 1) cs)"

definition ParseWriteVarResponse :: "bytes \<Rightarrow> bytes \<Rightarrow> unit res" where
  "ParseWriteVarResponse param data =
     bindR (ParseWriteVarResponseCodes param data) (\<lambda>codes.
     case firstCodeError (length codes) 0 codes of Some err \<Rightarrow> Err err | None \<Rightarrow> Ok ())"

section \<open>Typed readers of one item\<close>

definition decodeSuccessItem :: "ReadVarItem \<Rightarrow> nat \<Rightarrow> bytes res" where
  "decodeSuccessItem item need =
     (if ReturnCode item \<noteq> RetCodeSuccess
      then Err (S7Error 0 0 ''item not success, cannot decode'')
      else if length (Data item) < need
      then Err (S7Error 0 0 (''item payload too short: need '' @ utoa need @ '', got '' @
                  utoa (length (Data item))))
      else Ok (Data item))"

definition DecodeAsByte :: "ReadVarItem \<Rightarrow> byte res" where
  "DecodeAsByte item = bindR (decodeSuccessItem item 1) (\<lambda>data. idx data 0)"

definition DecodeAsBit :: "ReadVarItem \<Rightarrow> bool res" where
  "DecodeAsBit item =
     (if ReturnCode item \<noteq> RetCodeSuccess
      then Err (S7Error 0 0 ''item not success, cannot decode'')
      else if RawTransportSize item \<noteq> DataTransportSizeBit
      then Err (S7Error 0 0 (''expected BIT response transport size, got 0x'' @
                  hexByte (RawTransportSize item)))
      else
        (let byteLen = (unat (RawLength item) + 7) div 8 in
         if byteLen \<noteq> 1 \<or> length (Data item) < 1
         then Err (S7Error 0 0 (''bit response payload length invalid: normalized='' @ utoa byteLen @
                     '' data='' @ utoa (length (Data item))))
         else bindR (idx (Data item) 0) (\<lambda>b. Ok (b AND 0x01 \<noteq> 0))))"

definition DecodeAsWord :: "ReadVarItem \<Rightarrow> uint16 res" where
  "DecodeAsWord item = bindR (decodeSuccessItem item 2) (\<lambda>data. u16at data 0)"

definition DecodeAsDWord :: "ReadVarItem \<Rightarrow> uint32 res" where
  "DecodeAsDWord item = bindR (decodeSuccessItem item 4) (\<lambda>data. u32at data 0)"

text \<open>Signed results are the 16 or 32 bits of Go's \<^verbatim>\<open>int16\<close> and \<^verbatim>\<open>int32\<close> (read them
  with \<open>sint\<close>); a float32 is its IEEE 754 bit pattern, which is what
  \<^verbatim>\<open>math.Float32frombits\<close> takes.\<close>

definition DecodeAsInt :: "ReadVarItem \<Rightarrow> 16 word res" where
  "DecodeAsInt item = bindR (decodeSuccessItem item 2) (\<lambda>data.
     bindR (idx data 0) (\<lambda>b0. bindR (idx data 1) (\<lambda>b1. Ok (push_bit 8 (ucast b0) OR ucast b1))))"

definition DecodeAsDInt :: "ReadVarItem \<Rightarrow> 32 word res" where
  "DecodeAsDInt item = bindR (decodeSuccessItem item 4) (\<lambda>data.
     bindR (idx data 0) (\<lambda>b0. bindR (idx data 1) (\<lambda>b1. bindR (idx data 2) (\<lambda>b2.
     bindR (idx data 3) (\<lambda>b3.
     Ok (push_bit 24 (ucast b0) OR push_bit 16 (ucast b1) OR push_bit 8 (ucast b2) OR ucast b3))))))"

definition DecodeAsReal :: "ReadVarItem \<Rightarrow> uint32 res" where
  "DecodeAsReal item = bindR (decodeSuccessItem item 4) (\<lambda>data. u32at data 0)"

section \<open>Facts about response items\<close>

text \<open>What a decoded item must satisfy: the payload is the one its own length field announces.\<close>

definition item_ok :: "ReadVarItem \<Rightarrow> bool" where
  "item_ok it \<longleftrightarrow>
     (if ReturnCode it = RetCodeSuccess
      then NormalizeResponseDataLength (RawTransportSize it) (RawLength it) = Ok (length (Data it))
      else Data it = [])"

lemma Normalize_not_Panic [simp]: "NormalizeResponseDataLength t n \<noteq> Panic"
  by (simp add: NormalizeResponseDataLength_def)

lemma skip_fill_not_Panic [simp]: "skip_fill data off n nxt isLast \<noteq> Panic"
  by (simp add: skip_fill_def)

lemma skip_fill_bounds:
  "skip_fill data off n nxt isLast = Ok nxt' \<Longrightarrow> nxt \<le> length data \<Longrightarrow> nxt \<le> nxt' \<and> nxt' \<le> length data"
  by (auto simp: skip_fill_def split: if_splits)

lemma decodeReadResponseItem_eq:
  assumes "offset + 4 \<le> length data"
  shows "decodeReadResponseItem data offset isLast =
    (let rc = data ! offset; ts = data ! (offset + 1);
         rl = be16 (data ! (offset + 2)) (data ! (offset + 3)); nxt = offset + 4;
         item = \<lparr>ReturnCode = rc, RawTransportSize = ts, RawLength = rl, Data = []\<rparr> in
     if rc \<noteq> RetCodeSuccess \<and> (ts = 0 \<or> rl = 0) then Ok (item, nxt) else
     bindR (NormalizeResponseDataLength ts rl) (\<lambda>n.
     if length data < nxt + n then Err (item_error offset ErrTruncatedItemPayload) else
     bindR (skip_fill data offset n (nxt + n) isLast) (\<lambda>nxt'.
     Ok (if rc = RetCodeSuccess then item\<lparr>Data := take n (drop nxt data)\<rparr> else item, nxt'))))"
proof -
  have *: "idx data offset = Ok (data ! offset)"
    "idx data (Suc offset) = Ok (data ! (Suc offset))"
    "u16at data (offset + 2) = Ok (be16 (data ! (offset + 2)) (data ! (offset + 3)))"
    using assms by (simp_all add: idx_Ok u16at_offset)
  show ?thesis
    using assms
    by (auto simp: decodeReadResponseItem_def * Let_def go_slice_def not_less
        intro!: arg_cong [where f = "bindR _"] ext)
qed

lemma decodeReadResponseItem_short:
  "length data < offset + 4 \<Longrightarrow>
   decodeReadResponseItem data offset isLast = Err (item_error offset ErrTruncatedItemHeader)"
  by (simp add: decodeReadResponseItem_def)

lemma decodeReadResponseItem_not_Panic [simp]:
  "decodeReadResponseItem data offset isLast \<noteq> Panic"
proof (cases "offset + 4 \<le> length data")
  case True
  then show ?thesis
    by (simp add: decodeReadResponseItem_eq Let_def bindR_eq_Panic)
next
  case False
  then show ?thesis by (simp add: decodeReadResponseItem_short)
qed

lemma decodeReadResponseItem_Ok:
  assumes "decodeReadResponseItem data offset isLast = Ok (item, nxt)"
  shows "item_ok item \<and> offset + 4 + length (Data item) \<le> nxt \<and> nxt \<le> length data"
proof -
  from assms have len: "offset + 4 \<le> length data"
    by (simp add: decodeReadResponseItem_def split: if_splits)
  show ?thesis
    using assms len
    by (auto simp: decodeReadResponseItem_eq Let_def bindR_eq_Ok item_ok_def
        split: if_splits dest!: skip_fill_bounds)
qed

lemma decodeReadItems_not_Panic [simp]: "decodeReadItems data k offset \<noteq> Panic"
  by (induction data k offset rule: decodeReadItems.induct) (auto simp: bindR_eq_Panic)

lemma decodeReadItems_Ok:
  assumes "decodeReadItems data k offset = Ok items"
  shows "length items = k \<and> list_all item_ok items \<and>
    (0 < k \<longrightarrow> offset + sum_list (map (\<lambda>it. 4 + length (Data it)) items) \<le> length data)"
  using assms
proof (induction data k offset arbitrary: items rule: decodeReadItems.induct)
  case (1 data offset)
  then show ?case by simp
next
  case (2 data k offset)
  from "2.prems" obtain it nxt its where
    d: "decodeReadResponseItem data offset (k = 0) = Ok (it, nxt)"
    and r: "decodeReadItems data k nxt = Ok its" and items: "items = it # its"
    by (auto simp: bindR_eq_Ok)
  note IH = "2.IH" [OF r]
  show ?case
    using IH decodeReadResponseItem_Ok [OF d] r
    by (cases k) (auto simp: items)
qed

text \<open>The Read Var response decoder is safe on any parameter and data section a peer may
  send: it never indexes out of range. When it succeeds the parameter section names the Read
  Var function, it has exactly as many items as that section announces, each successful item
  carries exactly the payload its own transport size and length field announce, a refused item
  carries none, and headers and payloads together lie inside the data section.\<close>

lemma ParseReadVarResponse_safe:
  "case ParseReadVarResponse param data of
     Panic \<Rightarrow> False
   | Err _ \<Rightarrow> True
   | Ok items \<Rightarrow>
       2 \<le> length param \<and> param ! 0 = FuncReadVar \<and> length items = unat (param ! 1) \<and>
       list_all item_ok items \<and>
       sum_list (map (\<lambda>it. 4 + length (Data it)) items) \<le> length data"
proof (cases "2 \<le> length param \<and> param ! 0 = FuncReadVar")
  case True
  then have *: "ParseReadVarResponse param data = decodeReadItems data (unat (param ! 1)) 0"
    by (simp add: ParseReadVarResponse_def go_simps)
  show ?thesis
  proof (cases "decodeReadItems data (unat (param ! 1)) 0")
    case (Ok items)
    then show ?thesis
      using True decodeReadItems_Ok [OF Ok] by (cases "items = []") (auto simp: *)
  qed (simp_all add: * True)
next
  case False
  then show ?thesis by (auto simp: ParseReadVarResponse_def go_simps)
qed

end
