(* ===== verification/Wire_Server.thy ===== *)
theory Wire_Server
  imports Wire_RW
begin

text \<open>
  Package wire, the server's side (\<^verbatim>\<open>wire/pdu_server.go\<close>): decoders of the jobs a client
  sends (Setup Communication, Read Var with S7ANY and DBREAD items, Write Var) and encoders of
  the Ack-Data answers, with the facts that no decoder can index out of range.
\<close>

abbreviation AckDataHeaderSize :: nat where "AckDataHeaderSize \<equiv> 12"
abbreviation dbReadAreaSize :: nat where "dbReadAreaSize \<equiv> 5"
abbreviation varSpecSize :: nat where "varSpecSize \<equiv> 12"

text \<open>\<^verbatim>\<open>fmt.Errorf("%w: ...", ErrMalformedRequest, ...)\<close>\<close>

abbreviation malformed :: "string \<Rightarrow> go_error" where
  "malformed m \<equiv> wrap_sentinel ErrMalformedRequest m"

section \<open>Setup Communication\<close>

definition ParseSetupCommRequest :: "bytes \<Rightarrow> SetupComm res" where
  "ParseSetupCommRequest param =
    (if length param < 8
     then Err (malformed (''setup communication parameter '' @ utoa (length param) @ '' bytes, need 8''))
     else
     bindR (idx param 0) (\<lambda>fn.
     if fn \<noteq> FuncSetupComm
     then Err (malformed (''function 0x'' @ hex02 fn @ '' is not setup communication''))
     else
     bindR (u16at param 2) (\<lambda>calling.
     bindR (u16at param 4) (\<lambda>called.
     bindR (u16at param 6) (\<lambda>size.
     Ok \<lparr>MaxAmqCalling = unat calling, MaxAmqCalled = unat called, PDUSize = unat size\<rparr>)))))"

definition EncodeAckData :: "uint16 \<Rightarrow> byte \<Rightarrow> byte \<Rightarrow> bytes \<Rightarrow> bytes \<Rightarrow> bytes res" where
  "EncodeAckData pduRef errClass errCode param data =
     bindR (EncodeS7Header ROSCTRAckData pduRef (int (length param)) (int (length data))) (\<lambda>header.
     Ok (header @ [errClass, errCode] @ param @ data))"

definition EncodeSetupCommResponse :: "uint16 \<Rightarrow> int \<Rightarrow> int \<Rightarrow> int \<Rightarrow> bytes res" where
  "EncodeSetupCommResponse pduRef maxAmqCalling maxAmqCalled pduSize =
     bindR (checkedUint16 ''max AmQ calling'' maxAmqCalling) (\<lambda>calling.
     bindR (checkedUint16 ''max AmQ called'' maxAmqCalled) (\<lambda>called.
     bindR (checkedUint16 ''PDU size'' pduSize) (\<lambda>size.
     EncodeAckData pduRef 0 0
       ([FuncSetupComm, 0] @ put16 calling @ put16 called @ put16 size) [])))"

section \<open>Item specifications\<close>

record VarSpec =
  vsSyntax :: byte
  vsTransportSize :: byte
  vsCount :: uint16
  vsDBNumber :: uint16
  vsArea :: byte
  vsStartBit :: uint32

definition zeroSpec :: VarSpec where
  "zeroSpec = \<lparr>vsSyntax = 0, vsTransportSize = 0, vsCount = 0, vsDBNumber = 0, vsArea = 0,
               vsStartBit = 0\<rparr>"

record DBReadArea =
  draLength :: byte
  draDBNumber :: uint16
  draStart :: uint16

text \<open>The loop that fills \<open>n\<close> ranges, from range \<open>i\<close> on.\<close>

fun dbReadAreas :: "bytes \<Rightarrow> nat \<Rightarrow> nat \<Rightarrow> DBReadArea list res" where
  "dbReadAreas b 0 i = Ok []"
| "dbReadAreas b (Suc n) i =
     bindR (go_slice b (4 + i * dbReadAreaSize) (length b)) (\<lambda>r.
     bindR (idx r 0) (\<lambda>len.
     bindR (u16at r 1) (\<lambda>db.
     bindR (u16at r 3) (\<lambda>start.
     bindR (dbReadAreas b n (i + 1)) (\<lambda>rs.
     Ok (\<lparr>draLength = len, draDBNumber = db, draStart = start\<rparr> # rs))))))"

definition parseDBRead :: "bytes \<Rightarrow> DBReadArea list res" where
  "parseDBRead b =
    (if length b < 4 then Err (OtherError (''DBREAD item of '' @ utoa (length b) @ '' bytes'')) else
     bindR (idx b 3) (\<lambda>c.
     let n = unat c in
     if n = 0 \<or> length b \<noteq> 4 + n * dbReadAreaSize
     then Err (OtherError (''DBREAD item of '' @ utoa (length b) @ '' bytes for '' @ utoa n @ '' ranges''))
     else dbReadAreas b n 0))"

text \<open>One pass of the loop of \<open>parseVarSpecs\<close>: item \<open>i\<close>, which starts at \<open>off\<close>.\<close>

definition parseVarSpec :: "bytes \<Rightarrow> nat \<Rightarrow> nat \<Rightarrow> (VarSpec \<times> nat) res" where
  "parseVarSpec param i off =
    (if length param < off + 2 then Err (malformed (''item '' @ utoa i @ '' truncated'')) else
     bindR (idx param off) (\<lambda>typ.
     if typ \<noteq> 0x12
     then Err (malformed (''item '' @ utoa i @ '' specification type 0x'' @ hex02 typ)) else
     bindR (idx param (off + 1)) (\<lambda>len.
     let end = off + 2 + unat len in
     if length param < end
     then Err (malformed (''item '' @ utoa i @ '' length '' @ utoa (unat len) @
            '' overruns the parameter'')) else
     bindR (if 1 \<le> unat len then idx param (off + 2) else Ok 0) (\<lambda>syn.
     bindR
       (if syn = SyntaxIDS7Any then
          (if end - off \<noteq> varSpecSize
           then Err (malformed (''item '' @ utoa i @ '' S7ANY length '' @ utoa (unat len)))
           else
             bindR (go_slice param off end) (\<lambda>b.
             bindR (idx b 3) (\<lambda>ts.
             bindR (u16at b 4) (\<lambda>cnt.
             bindR (u16at b 6) (\<lambda>db.
             bindR (idx b 8) (\<lambda>area.
             bindR (idx b 9) (\<lambda>b9. bindR (idx b 10) (\<lambda>b10. bindR (idx b 11) (\<lambda>b11.
             Ok \<lparr>vsSyntax = syn, vsTransportSize = ts, vsCount = cnt, vsDBNumber = db,
                 vsArea = area,
                 vsStartBit = push_bit 16 (ucast b9) OR push_bit 8 (ucast b10) OR ucast b11\<rparr>)))))))))
        else Ok (zeroSpec\<lparr>vsSyntax := syn\<rparr>)) (\<lambda>spec.
     if vsSyntax spec = SyntaxIDDBRead then
       bindR (go_slice param off end) (\<lambda>b.
       case parseDBRead b of
         Panic \<Rightarrow> Panic
       | Err e \<Rightarrow>
           Err (Errorf (sentinel_text ErrMalformedRequest @ '': item '' @ utoa i @ '': '' @ error_text e)
                  [Sentinel ErrMalformedRequest, e])
       | Ok _ \<Rightarrow> Ok (spec, end))
     else Ok (spec, end))))))"

fun parseVarSpecItems :: "bytes \<Rightarrow> nat \<Rightarrow> nat \<Rightarrow> nat \<Rightarrow> (VarSpec list \<times> nat) res" where
  "parseVarSpecItems param 0 i off = Ok ([], off)"
| "parseVarSpecItems param (Suc n) i off =
     bindR (parseVarSpec param i off) (\<lambda>(spec, end).
     bindR (parseVarSpecItems param n (i + 1) end) (\<lambda>(specs, off').
     Ok (spec # specs, off')))"

definition parseVarSpecs :: "bytes \<Rightarrow> byte \<Rightarrow> VarSpec list res" where
  "parseVarSpecs param fn =
    (if length param < 2
     then Err (malformed (''parameter '' @ utoa (length param) @ '' bytes, need 2'')) else
     bindR (idx param 0) (\<lambda>f.
     if f \<noteq> fn
     then Err (malformed (''function 0x'' @ hex02 f @ '', want 0x'' @ hex02 fn)) else
     bindR (idx param 1) (\<lambda>c.
     let n = unat c in
     if n = 0 then Err (malformed ''no items'') else
     bindR (parseVarSpecItems param n 0 2) (\<lambda>(specs, off).
     if off \<noteq> length param
     then Err (malformed (itoa (int (length param) - int off) @ '' bytes after the items''))
     else Ok specs))))"

definition ParseReadVarRequest :: "bytes \<Rightarrow> VarSpec list res" where
  "ParseReadVarRequest param = parseVarSpecs param FuncReadVar"

text \<open>The second walk over a decoded job that keeps the ranges of its DBREAD items; any other
  item has none (\<^verbatim>\<open>nil\<close>).\<close>

fun dbReadRanges :: "bytes \<Rightarrow> VarSpec list \<Rightarrow> nat \<Rightarrow> DBReadArea list list res" where
  "dbReadRanges param [] off = Ok []"
| "dbReadRanges param (s # specs) off =
     bindR (idx param (off + 1)) (\<lambda>len.
     let end = off + 2 + unat len in
     bindR
       (if vsSyntax s = SyntaxIDDBRead then
          bindR (go_slice param off end) (\<lambda>b.
          case parseDBRead b of Ok rs \<Rightarrow> Ok rs | Err _ \<Rightarrow> Ok [] | Panic \<Rightarrow> Panic)
        else Ok []) (\<lambda>rs.
     bindR (dbReadRanges param specs end) (\<lambda>rss. Ok (rs # rss))))"

definition ParseReadVarDBRead :: "bytes \<Rightarrow> DBReadArea list list res" where
  "ParseReadVarDBRead param =
     bindR (parseVarSpecs param FuncReadVar) (\<lambda>specs. dbReadRanges param specs 2)"

section \<open>Write Var jobs\<close>

record WriteVarData =
  wdReturnCode :: byte
  wdTransportSize :: byte
  wdRawLength :: uint16
  wdData :: bytes

definition writeDataBytes :: "byte \<Rightarrow> uint16 \<Rightarrow> nat res" where
  "writeDataBytes transport raw =
     (if transport \<in> {DataTransportSizeBit, DataTransportSizeDInt, DataTransportSizeReal,
        DataTransportSizeOctet}
      then Ok (unat raw)
      else if transport \<in> {DataTransportSizeByte, DataTransportSizeInt} then
        (if unat raw mod 8 \<noteq> 0
         then Err (malformed (''length '' @ utoa (unat raw) @ '' bits is not whole bytes''))
         else Ok (unat raw div 8))
      else Err (malformed (''data transport size 0x'' @ hex02 transport)))"

text \<open>One pass of the data item loop; \<open>left\<close> is the number of items after this one.\<close>

definition parseWriteItem :: "bytes \<Rightarrow> nat \<Rightarrow> nat \<Rightarrow> nat \<Rightarrow> (WriteVarData \<times> nat) res" where
  "parseWriteItem data left i off =
    (if length data < off + 4
     then Err (malformed (''data item '' @ utoa i @ '' header truncated'')) else
     bindR (idx data off) (\<lambda>rc.
     bindR (idx data (off + 1)) (\<lambda>ts.
     bindR (u16at data (off + 2)) (\<lambda>raw.
     case writeDataBytes ts raw of
       Panic \<Rightarrow> Panic
     | Err e \<Rightarrow> Err (wrap_error (''data item '' @ utoa i) e)
     | Ok n \<Rightarrow>
        (let start = off + 4 in
         if length data < start + n
         then Err (malformed (''data item '' @ utoa i @ '' payload truncated'')) else
         bindR (go_slice data start (start + n)) (\<lambda>d.
         Ok (\<lparr>wdReturnCode = rc, wdTransportSize = ts, wdRawLength = raw, wdData = d\<rparr>,
             if n mod 2 \<noteq> 0 \<and> 0 < left then start + n + 1 else start + n)))))))"

fun parseWriteItems :: "bytes \<Rightarrow> nat \<Rightarrow> nat \<Rightarrow> nat \<Rightarrow> (WriteVarData list \<times> nat) res" where
  "parseWriteItems data 0 i off = Ok ([], off)"
| "parseWriteItems data (Suc left) i off =
     bindR (parseWriteItem data left i off) (\<lambda>(item, nxt).
     bindR (parseWriteItems data left (i + 1) nxt) (\<lambda>(items, off').
     Ok (item # items, off')))"

definition ParseWriteVarRequest :: "bytes \<Rightarrow> bytes \<Rightarrow> (VarSpec list \<times> WriteVarData list) res" where
  "ParseWriteVarRequest param data =
     bindR (parseVarSpecs param FuncWriteVar) (\<lambda>specs.
     bindR (parseWriteItems data (length specs) 0 0) (\<lambda>(items, off).
     if length data < off \<or> off + 1 < length data
     then Err (malformed (itoa (int (length data) - int off) @ '' bytes after the data items''))
     else Ok (specs, items)))"

section \<open>Answers\<close>

record ReadVarResult =
  rrReturnCode :: byte
  rrTransportSize :: byte
  rrRawLength :: uint16
  rrData :: bytes

definition ReadVarResultSize :: "ReadVarResult \<Rightarrow> bool \<Rightarrow> nat" where
  "ReadVarResultSize item isLast =
     (let n = 4 + length (rrData item) in
      if \<not> isLast \<and> length (rrData item) mod 2 \<noteq> 0 then n + 1 else n)"

text \<open>The data section of a Read Var answer: every item but the last is padded to even length.\<close>

fun readVarItemBytes :: "ReadVarResult list \<Rightarrow> bytes" where
  "readVarItemBytes [] = []"
| "readVarItemBytes (item # items) =
     [rrReturnCode item, rrTransportSize item] @ put16 (rrRawLength item) @ rrData item @
     (if items \<noteq> [] \<and> length (rrData item) mod 2 \<noteq> 0 then [0x00] else []) @
     readVarItemBytes items"

definition EncodeReadVarResponse :: "uint16 \<Rightarrow> ReadVarResult list \<Rightarrow> bytes res" where
  "EncodeReadVarResponse pduRef items =
     (if 255 < length items
      then Err (wrap_sentinel ErrOutOfRange (utoa (length items) @ '' items, at most 255''))
      else EncodeAckData pduRef 0 0 [FuncReadVar, word_of_nat (length items)]
             (readVarItemBytes items))"

definition EncodeWriteVarResponse :: "uint16 \<Rightarrow> bytes \<Rightarrow> bytes res" where
  "EncodeWriteVarResponse pduRef codes =
     (if 255 < length codes
      then Err (wrap_sentinel ErrOutOfRange (utoa (length codes) @ '' items, at most 255''))
      else EncodeAckData pduRef 0 0 [FuncWriteVar, word_of_nat (length codes)] codes)"

section \<open>Facts: the decoders are safe\<close>

definition dbReadArea_at :: "bytes \<Rightarrow> nat \<Rightarrow> DBReadArea" where
  "dbReadArea_at b i =
     (let r = drop (4 + i * dbReadAreaSize) b in
      \<lparr>draLength = r ! 0, draDBNumber = be16 (r ! 1) (r ! 2), draStart = be16 (r ! 3) (r ! 4)\<rparr>)"

lemma dbReadAreas_eq:
  "4 + (i + n) * dbReadAreaSize \<le> length b \<Longrightarrow>
   dbReadAreas b n i = Ok (map (dbReadArea_at b) [i..<i + n])"
proof (induction b n i rule: dbReadAreas.induct)
  case (1 b i)
  then show ?case by simp
next
  case (2 b n i)
  let ?r = "drop (4 + i * dbReadAreaSize) b"
  from "2.prems" have len: "dbReadAreaSize \<le> length ?r" by simp
  then have r: "idx ?r 0 = Ok (?r ! 0)" "u16at ?r 1 = Ok (be16 (?r ! 1) (?r ! 2))"
    "u16at ?r 3 = Ok (be16 (?r ! 3) (?r ! 4))"
    by (simp_all add: idx_def u16at_Ok numeral_2_eq_2 del: nth_drop length_drop)
  have s: "go_slice b (4 + i * dbReadAreaSize) (length b) = Ok ?r"
    using "2.prems" by (simp add: go_slice_Ok)
  have IH: "dbReadAreas b n (i + 1) = Ok (map (dbReadArea_at b) [i + 1..<i + 1 + n])"
    using "2.prems" by (intro "2.IH") simp
  have "[i..<i + Suc n] = i # [i + 1..<i + 1 + n]"
    by (simp add: upt_conv_Cons)
  then show ?case
    by (simp only: dbReadAreas.simps s bindR.simps r IH list.map dbReadArea_at_def [of b i] Let_def)
qed

lemma parseDBRead_not_Panic [simp]: "parseDBRead b \<noteq> Panic"
  by (auto simp: parseDBRead_def idx_Ok dbReadAreas_eq Let_def)

lemma parseDBRead_Ok:
  "parseDBRead b = Ok rs \<Longrightarrow>
   0 < length rs \<and> length b = 4 + length rs * dbReadAreaSize \<and>
   rs = map (dbReadArea_at b) [0..<length rs]"
  by (auto simp: parseDBRead_def idx_Ok dbReadAreas_eq Let_def split: if_splits)

text \<open>Where an item of a parameter section ends.\<close>

definition item_end :: "bytes \<Rightarrow> nat \<Rightarrow> nat" where
  "item_end param off = off + 2 + unat (param ! (off + 1))"

definition s7any_at :: "bytes \<Rightarrow> nat \<Rightarrow> VarSpec" where
  "s7any_at param off =
     (let b = drop off param in
      \<lparr>vsSyntax = SyntaxIDS7Any, vsTransportSize = b ! 3, vsCount = be16 (b ! 4) (b ! 5),
       vsDBNumber = be16 (b ! 6) (b ! 7), vsArea = b ! 8,
       vsStartBit = push_bit 16 (ucast (b ! 9)) OR push_bit 8 (ucast (b ! 10)) OR ucast (b ! 11)\<rparr>)"

definition item_syntax :: "bytes \<Rightarrow> nat \<Rightarrow> byte" where
  "item_syntax param off = (if 1 \<le> unat (param ! (off + 1)) then param ! (off + 2) else 0)"

lemma parseVarSpec_eq:
  assumes "off + 2 \<le> length param" "param ! off = 0x12" "item_end param off \<le> length param"
  shows "parseVarSpec param i off =
    (let nxt = item_end param off; syn = item_syntax param off in
     if syn = SyntaxIDS7Any then
       (if nxt - off \<noteq> varSpecSize
        then Err (malformed (''item '' @ utoa i @ '' S7ANY length '' @ utoa (unat (param ! (off + 1)))))
        else Ok (s7any_at param off, nxt))
     else if syn = SyntaxIDDBRead then
       (case parseDBRead (take (nxt - off) (drop off param)) of
          Panic \<Rightarrow> Panic
        | Err e \<Rightarrow>
            Err (Errorf (sentinel_text ErrMalformedRequest @ '': item '' @ utoa i @ '': '' @ error_text e)
                   [Sentinel ErrMalformedRequest, e])
        | Ok _ \<Rightarrow> Ok (zeroSpec\<lparr>vsSyntax := syn\<rparr>, nxt))
     else Ok (zeroSpec\<lparr>vsSyntax := syn\<rparr>, nxt))"
proof -
  let ?nxt = "item_end param off"
  have i: "idx param off = Ok 0x12" "idx param (off + 1) = Ok (param ! (off + 1))"
    using assms(1,2) by (simp_all add: idx_Ok)
  have syn: "(if 1 \<le> unat (param ! (off + 1)) then idx param (off + 2) else Ok 0)
      = Ok (item_syntax param off)"
    using assms(3) by (simp add: item_syntax_def item_end_def idx_Ok)
  have sl: "go_slice param off ?nxt = Ok (take (?nxt - off) (drop off param))"
    using assms(3) by (simp add: go_slice_Ok item_end_def)
  let ?b = "take varSpecSize (drop off param)"
  have s7: "idx ?b 3 = Ok (drop off param ! 3)"
    "u16at ?b 4 = Ok (be16 (drop off param ! 4) (drop off param ! 5))"
    "u16at ?b 6 = Ok (be16 (drop off param ! 6) (drop off param ! 7))"
    "idx ?b 8 = Ok (drop off param ! 8)" "idx ?b 9 = Ok (drop off param ! 9)"
    "idx ?b 10 = Ok (drop off param ! 10)" "idx ?b 11 = Ok (drop off param ! 11)"
    if "?nxt - off = varSpecSize"
    using that assms(3) by (simp_all add: idx_Ok u16at_Ok item_end_def del: nth_drop)
  show ?thesis
    using assms(1,3)
    by (simp add: parseVarSpec_def i syn sl s7 s7any_at_def zeroSpec_def Let_def
        item_end_def [symmetric] del: One_nat_def add_Suc_right nth_drop cong: res.case_cong)
qed

lemma parseVarSpec_refused:
  assumes "\<not> (off + 2 \<le> length param \<and> param ! off = 0x12 \<and> item_end param off \<le> length param)"
  shows "\<exists>m. parseVarSpec param i off = Err (malformed m)"
  using assms
  by (cases "off + 2 \<le> length param")
    (auto simp: parseVarSpec_def idx_Ok item_end_def Let_def)

lemma parseVarSpec_not_Panic [simp]: "parseVarSpec param i off \<noteq> Panic"
proof (cases "off + 2 \<le> length param \<and> param ! off = 0x12 \<and> item_end param off \<le> length param")
  case True
  then show ?thesis by (auto simp: parseVarSpec_eq Let_def split: res.split)
next
  case False
  then show ?thesis using parseVarSpec_refused [OF False, of i] by auto
qed

lemma parseVarSpec_Ok:
  assumes "parseVarSpec param i off = Ok (spec, nxt)"
  shows "off + 2 \<le> length param \<and> nxt = item_end param off \<and> nxt \<le> length param \<and>
    vsSyntax spec = item_syntax param off \<and>
    (vsSyntax spec = SyntaxIDDBRead \<longrightarrow>
       (\<exists>rs. parseDBRead (take (nxt - off) (drop off param)) = Ok rs))"
proof (cases "off + 2 \<le> length param \<and> param ! off = 0x12 \<and> item_end param off \<le> length param")
  case True
  then show ?thesis
    using assms
    by (cases "parseDBRead (take (item_end param off - off) (drop off param))")
      (auto simp: parseVarSpec_eq Let_def s7any_at_def split: if_splits)
next
  case False
  then show ?thesis using assms parseVarSpec_refused [OF False, of i] by auto
qed

lemma parseVarSpecItems_not_Panic [simp]: "parseVarSpecItems param n i off \<noteq> Panic"
  by (induction param n i off rule: parseVarSpecItems.induct) (auto simp: bindR_eq_Panic)

lemma parseVarSpecItems_length:
  "parseVarSpecItems param n i off = Ok (specs, off') \<Longrightarrow> length specs = n"
  by (induction param n i off arbitrary: specs off' rule: parseVarSpecItems.induct)
    (auto simp: bindR_eq_Ok)

lemma parseVarSpecItems_ranges:
  assumes "parseVarSpecItems param n i off = Ok (specs, off')"
  shows "\<exists>rss. dbReadRanges param specs off = Ok rss \<and> length rss = length specs"
  using assms
proof (induction param n i off arbitrary: specs off' rule: parseVarSpecItems.induct)
  case (1 param i off)
  then show ?case by simp
next
  case (2 param n i off)
  from "2.prems" obtain spec e specs' where
    s: "parseVarSpec param i off = Ok (spec, e)"
    and r: "parseVarSpecItems param n (i + 1) e = Ok (specs', off')"
    and specs: "specs = spec # specs'"
    by (auto simp: bindR_eq_Ok)
  from "2.IH" [OF r] obtain rss where
    rss: "dbReadRanges param specs' e = Ok rss" "length rss = length specs'" by blast
  from parseVarSpec_Ok [OF s] have e: "off + 2 \<le> length param" "e = item_end param off"
    "e \<le> length param" and
    db: "vsSyntax spec = SyntaxIDDBRead \<longrightarrow> (\<exists>rs. parseDBRead (take (e - off) (drop off param)) = Ok rs)"
    by auto
  have i: "idx param (off + 1) = Ok (param ! (off + 1))" using e by (simp add: idx_Ok)
  have "off \<le> e" using e by (simp add: item_end_def)
  then have g: "go_slice param off e = Ok (take (e - off) (drop off param))"
    using e by (simp add: go_slice_Ok)
  show ?case
    using db rss
    by (cases "vsSyntax spec = SyntaxIDDBRead")
      (auto simp: specs i Let_def g e(2) [unfolded item_end_def, symmetric] simp del: One_nat_def add_Suc_right)
qed

lemma parseVarSpecs_not_Panic [simp]: "parseVarSpecs param fn \<noteq> Panic"
  by (auto simp: parseVarSpecs_def go_simps bindR_eq_Panic Let_def idx_def)

lemma parseVarSpecs_Ok:
  assumes "parseVarSpecs param fn = Ok specs"
  shows "2 \<le> length param \<and> param ! 0 = fn \<and> 0 < length specs \<and> length specs = unat (param ! 1) \<and>
    parseVarSpecItems param (length specs) 0 2 = Ok (specs, length param)"
proof -
  have *: "2 \<le> length param \<and> param ! 0 = fn \<and> unat (param ! 1) \<noteq> 0 \<and>
    parseVarSpecItems param (unat (param ! 1)) 0 2 = Ok (specs, length param)"
    using assms
    by (auto simp: parseVarSpecs_def idx_def Let_def bindR_eq_Ok split: if_splits)
  then show ?thesis using parseVarSpecItems_length by fastforce
qed

lemma ParseReadVarDBRead_length:
  assumes "ParseReadVarRequest param = Ok specs"
  shows "\<exists>rss. ParseReadVarDBRead param = Ok rss \<and> length rss = length specs"
  using assms parseVarSpecItems_ranges
  by (fastforce simp: ParseReadVarDBRead_def ParseReadVarRequest_def dest: parseVarSpecs_Ok)

lemma writeDataBytes_not_Panic [simp]: "writeDataBytes t n \<noteq> Panic"
  by (simp add: writeDataBytes_def)

lemma parseWriteItem_eq:
  assumes "off + 4 \<le> length data"
  shows "parseWriteItem data left i off =
    (let rc = data ! off; ts = data ! (off + 1); raw = be16 (data ! (off + 2)) (data ! (off + 3)) in
     case writeDataBytes ts raw of
       Panic \<Rightarrow> Panic
     | Err e \<Rightarrow> Err (wrap_error (''data item '' @ utoa i) e)
     | Ok n \<Rightarrow>
        if length data < off + 4 + n
        then Err (malformed (''data item '' @ utoa i @ '' payload truncated''))
        else Ok (\<lparr>wdReturnCode = rc, wdTransportSize = ts, wdRawLength = raw,
                  wdData = take n (drop (off + 4) data)\<rparr>,
                 if n mod 2 \<noteq> 0 \<and> 0 < left then off + 4 + n + 1 else off + 4 + n))"
proof -
  have *: "idx data off = Ok (data ! off)" "idx data (Suc off) = Ok (data ! Suc off)"
    "u16at data (off + 2) = Ok (be16 (data ! (off + 2)) (data ! (off + 3)))"
    using assms by (simp_all add: idx_Ok u16at_offset)
  show ?thesis
    using assms by (simp add: parseWriteItem_def * Let_def go_slice_def split: res.split)
qed

lemma parseWriteItem_not_Panic [simp]: "parseWriteItem data left i off \<noteq> Panic"
proof (cases "off + 4 \<le> length data")
  case True
  then show ?thesis by (auto simp: parseWriteItem_eq Let_def split: res.split)
next
  case False
  then show ?thesis by (simp add: parseWriteItem_def)
qed

lemma parseWriteItems_not_Panic [simp]: "parseWriteItems data n i off \<noteq> Panic"
  by (induction data n i off rule: parseWriteItems.induct) (auto simp: bindR_eq_Panic)

lemma parseWriteItems_length:
  "parseWriteItems data n i off = Ok (items, off') \<Longrightarrow> length items = n"
  by (induction data n i off arbitrary: items off' rule: parseWriteItems.induct)
    (auto simp: bindR_eq_Ok)

lemma ParseWriteVarRequest_not_Panic [simp]: "ParseWriteVarRequest param data \<noteq> Panic"
  by (auto simp: ParseWriteVarRequest_def bindR_eq_Panic)

lemma ParseWriteVarRequest_length:
  "ParseWriteVarRequest param data = Ok (specs, items) \<Longrightarrow> length items = length specs"
  by (auto simp: ParseWriteVarRequest_def bindR_eq_Ok dest: parseWriteItems_length split: if_splits)

lemma dbReadAreas_not_Err [simp]:
  "4 + (i + n) * dbReadAreaSize \<le> length b \<Longrightarrow> dbReadAreas b n i \<noteq> Err e"
  by (simp add: dbReadAreas_eq)

lemma parseVarSpec_Err:
  assumes "parseVarSpec param i off = Err e"
  shows "errors_is e ErrMalformedRequest"
proof (cases "off + 2 \<le> length param \<and> param ! off = 0x12 \<and> item_end param off \<le> length param")
  case True
  then show ?thesis
    using assms by (auto simp: parseVarSpec_eq Let_def split: if_splits res.splits)
next
  case False
  then show ?thesis using assms parseVarSpec_refused [OF False, of i] by auto
qed

lemma parseVarSpecItems_Err:
  "parseVarSpecItems param n i off = Err e \<Longrightarrow> errors_is e ErrMalformedRequest"
  by (induction param n i off rule: parseVarSpecItems.induct)
    (auto simp: bindR_eq_Err dest: parseVarSpec_Err)

lemma parseVarSpecs_Err: "parseVarSpecs param fn = Err e \<Longrightarrow> errors_is e ErrMalformedRequest"
  by (auto simp: parseVarSpecs_def idx_def Let_def bindR_eq_Err dest: parseVarSpecItems_Err
      split: if_splits)

lemma writeDataBytes_Err: "writeDataBytes t n = Err e \<Longrightarrow> errors_is e ErrMalformedRequest"
  by (auto simp: writeDataBytes_def split: if_splits)

lemma parseWriteItem_Err:
  assumes "parseWriteItem data left i off = Err e"
  shows "errors_is e ErrMalformedRequest"
proof (cases "off + 4 \<le> length data")
  case True
  then show ?thesis
    using assms
    by (auto simp: parseWriteItem_eq Let_def dest: writeDataBytes_Err split: res.splits if_splits)
next
  case False
  then show ?thesis using assms by (auto simp: parseWriteItem_def)
qed

lemma parseWriteItems_Err:
  "parseWriteItems data n i off = Err e \<Longrightarrow> errors_is e ErrMalformedRequest"
  by (induction data n i off rule: parseWriteItems.induct)
    (auto simp: bindR_eq_Err dest: parseWriteItem_Err)

lemma ParseWriteVarRequest_Err:
  "ParseWriteVarRequest param data = Err e \<Longrightarrow> errors_is e ErrMalformedRequest"
  by (auto simp: ParseWriteVarRequest_def bindR_eq_Err dest: parseVarSpecs_Err parseWriteItems_Err
      split: if_splits)

text \<open>The server's job decoders are safe on any bytes a client may send: they never index
  out of range, and every refusal is an \<^verbatim>\<open>ErrMalformedRequest\<close>. A decoded Read Var job has
  as many items as it announces, at least one, and the DBREAD walk over the same section gives
  one range list per item; a decoded Write Var job has one data item per item.\<close>

lemma request_decoders_safe:
  "(case ParseReadVarRequest param of
      Panic \<Rightarrow> False
    | Err e \<Rightarrow> errors_is e ErrMalformedRequest \<and> ParseReadVarDBRead param = Err e
    | Ok specs \<Rightarrow> 2 \<le> length param \<and> 0 < length specs \<and> length specs = unat (param ! 1) \<and>
        (\<exists>rss. ParseReadVarDBRead param = Ok rss \<and> length rss = length specs)) \<and>
   (case ParseWriteVarRequest param data of
      Panic \<Rightarrow> False
    | Err e \<Rightarrow> errors_is e ErrMalformedRequest
    | Ok (specs, items) \<Rightarrow> length items = length specs)"
proof
  show "case ParseReadVarRequest param of
      Panic \<Rightarrow> False
    | Err e \<Rightarrow> errors_is e ErrMalformedRequest \<and> ParseReadVarDBRead param = Err e
    | Ok specs \<Rightarrow> 2 \<le> length param \<and> 0 < length specs \<and> length specs = unat (param ! 1) \<and>
        (\<exists>rss. ParseReadVarDBRead param = Ok rss \<and> length rss = length specs)"
  proof (cases "ParseReadVarRequest param")
    case (Ok specs)
    then show ?thesis
      using ParseReadVarDBRead_length [OF Ok]
      by (auto simp: ParseReadVarRequest_def dest!: parseVarSpecs_Ok)
  qed (auto simp: ParseReadVarRequest_def ParseReadVarDBRead_def dest: parseVarSpecs_Err)
next
  show "case ParseWriteVarRequest param data of
      Panic \<Rightarrow> False
    | Err e \<Rightarrow> errors_is e ErrMalformedRequest
    | Ok (specs, items) \<Rightarrow> length items = length specs"
    by (auto split: res.split dest: ParseWriteVarRequest_Err ParseWriteVarRequest_length)
qed

end
