(* ===== verification/Wire_Roundtrip.thy ===== *)
theory Wire_Roundtrip
  imports Wire_Server
begin

text \<open>
  Both sides of the wire together: what the client's encoders of \<^verbatim>\<open>wire/pdu_rw.go\<close> and
  \<^verbatim>\<open>wire/pdu_setup.go\<close> write, the server's decoders of \<^verbatim>\<open>wire/pdu_server.go\<close> read back, and the
  server's answers read back on the client's side.
\<close>

section \<open>Facts: what one side encodes the other decodes\<close>

lemma length_putS7Any [simp]: "length (putS7Any t c db a sb) = varSpecSize"
  by (simp add: putS7Any_def)

lemma start_bit_bytes:
  "push_bit 16 (ucast (ucast (drop_bit 16 sb AND 0xFF) :: byte)) OR
   push_bit 8 (ucast (ucast (drop_bit 8 sb AND 0xFF) :: byte)) OR
   ucast (ucast (sb AND 0xFF) :: byte) = take_bit 24 (sb :: uint32)"
proof (rule bit_word_eqI)
  fix n :: nat
  assume "n < LENGTH(32)"
  have m: "(0xFF :: uint32) = mask 8" by (simp add: mask_eq_exp_minus_1)
  consider "n < 8" | "8 \<le> n" "n < 16" | "16 \<le> n" "n < 24" | "24 \<le> n" by fastforce
  then show "bit (push_bit 16 (ucast (ucast (drop_bit 16 sb AND 0xFF) :: byte)) OR
      push_bit 8 (ucast (ucast (drop_bit 8 sb AND 0xFF) :: byte)) OR
      ucast (ucast (sb AND 0xFF) :: byte) :: uint32) n = bit (take_bit 24 sb) n"
    unfolding m by cases (auto simp: bit_simps)
qed

lemma parseVarSpec_putS7Any:
  "parseVarSpec (pre @ putS7Any t c db a sb @ post) i (length pre) =
     Ok (\<lparr>vsSyntax = SyntaxIDS7Any, vsTransportSize = t, vsCount = c, vsDBNumber = db,
          vsArea = a, vsStartBit = take_bit 24 sb\<rparr>, length pre + varSpecSize)"
proof -
  let ?p = "pre @ putS7Any t c db a sb @ post"
  have nth: "?p ! (length pre + k) = putS7Any t c db a sb ! k" if "k < varSpecSize" for k
    using that by (simp add: nth_append)
  have e: "item_end ?p (length pre) = length pre + varSpecSize"
    using nth [of 1] by (simp add: item_end_def putS7Any_def)
  have syn: "item_syntax ?p (length pre) = SyntaxIDS7Any"
    using nth [of 1] nth [of 2] by (simp add: item_syntax_def putS7Any_def)
  have ty: "?p ! length pre = 0x12"
    using nth [of 0] by (simp add: putS7Any_def)
  have s7: "s7any_at ?p (length pre) =
      \<lparr>vsSyntax = SyntaxIDS7Any, vsTransportSize = t, vsCount = c, vsDBNumber = db,
       vsArea = a, vsStartBit = take_bit 24 sb\<rparr>"
    by (simp add: s7any_at_def nth putS7Any_def put16_def start_bit_bytes nth_append)
  show ?thesis
    by (subst parseVarSpec_eq) (simp_all add: e syn ty s7 Let_def)
qed

text \<open>When an item specification is the one of an address the client encoded.\<close>

definition addr_matches :: "S7AnyAddress \<Rightarrow> VarSpec \<Rightarrow> bool" where
  "addr_matches addr spec \<longleftrightarrow>
     vsSyntax spec = SyntaxIDS7Any \<and> vsTransportSize spec = TransportSizeByte \<and>
     uint (vsCount spec) = saSize addr \<and> uint (vsDBNumber spec) = saDBNumber addr \<and>
     vsArea spec = saArea addr \<and> uint (vsStartBit spec) = 8 * saStart addr"

definition bit_addr_matches :: "S7AnyBitAddress \<Rightarrow> VarSpec \<Rightarrow> bool" where
  "bit_addr_matches addr spec \<longleftrightarrow>
     vsSyntax spec = SyntaxIDS7Any \<and> vsTransportSize spec = TransportSizeBit \<and>
     vsCount spec = 1 \<and> uint (vsDBNumber spec) = sbDBNumber addr \<and>
     vsArea spec = sbArea addr \<and>
     uint (vsStartBit spec) = 8 * sbByteOffset addr + sbBitOffset addr"

lemma uint_word_of_int_uint16 [simp]:
  "0 \<le> v \<Longrightarrow> v \<le> 65535 \<Longrightarrow> uint (word_of_int v :: uint16) = v"
  by (simp add: uint_word_of_int_eq take_bit_eq_mod)

lemma uint_start_bit:
  assumes "0 \<le> start" "start \<le> MaxS7AnyByteOffset" "0 \<le> b" "b \<le> 7"
  shows "uint (take_bit 24 (push_bit 3 (word_of_int start) OR word_of_int b :: uint32))
    = 8 * start + b"
proof -
  have "take_bit 24 (push_bit 3 start OR b) = 8 * start + b"
  proof -
    have "push_bit 3 start OR b = push_bit 3 start + b"
    proof (rule sym, rule disjunctive_add)
      fix n
      have "take_bit 3 b = b" using assms by (simp add: take_bit_int_eq_self_iff)
      then have "bit b n \<longleftrightarrow> n < 3 \<and> bit b n" by (metis bit_take_bit_iff)
      then show "\<not> bit (push_bit 3 start) n \<or> \<not> bit b n" by (auto simp: bit_push_bit_iff)
    qed
    then show ?thesis using assms by (simp add: push_bit_eq_mult take_bit_eq_mod)
  qed
  moreover have "push_bit 3 (word_of_int start) OR word_of_int b = (word_of_int (push_bit 3 start OR b) :: uint32)"
    by (rule bit_word_eqI) (auto simp: bit_or_iff bit_push_bit_iff bit_word_of_int_iff)
  ultimately show ?thesis
    by (simp add: unsigned_take_bit_eq uint_word_of_int_eq)
qed

lemma EncodeS7Any_eq_Ok:
  "EncodeS7Any addr = Ok item \<longleftrightarrow>
     0 \<le> saDBNumber addr \<and> saDBNumber addr \<le> MaxS7AnyDBNumber \<and>
     0 \<le> saStart addr \<and> saStart addr \<le> MaxS7AnyByteOffset \<and>
     0 \<le> saSize addr \<and> saSize addr \<le> MaxS7AnyCount \<and>
     item = putS7Any TransportSizeByte (word_of_int (saSize addr)) (word_of_int (saDBNumber addr))
       (saArea addr) (push_bit 3 (word_of_int (saStart addr)))"
  by (auto simp: EncodeS7Any_def)

lemma EncodeS7Any_parsed:
  assumes "EncodeS7Any addr = Ok item"
  shows "length item = varSpecSize \<and>
    (\<exists>spec. addr_matches addr spec \<and>
       (\<forall>pre post i. parseVarSpec (pre @ item @ post) i (length pre) =
          Ok (spec, length pre + varSpecSize)))"
  using assms uint_start_bit [of "saStart addr" 0]
  by (auto simp: EncodeS7Any_eq_Ok parseVarSpec_putS7Any addr_matches_def)

lemma EncodeS7AnyBit_eq_Ok:
  "EncodeS7AnyBit addr = Ok item \<longleftrightarrow>
     0 \<le> sbDBNumber addr \<and> sbDBNumber addr \<le> MaxS7AnyDBNumber \<and>
     0 \<le> sbByteOffset addr \<and> sbByteOffset addr \<le> MaxS7AnyByteOffset \<and>
     0 \<le> sbBitOffset addr \<and> sbBitOffset addr \<le> 7 \<and>
     item = putS7Any TransportSizeBit 1 (word_of_int (sbDBNumber addr)) (sbArea addr)
       (push_bit 3 (word_of_int (sbByteOffset addr)) OR word_of_int (sbBitOffset addr))"
  by (auto simp: EncodeS7AnyBit_def)

lemma EncodeS7AnyBit_parsed:
  assumes "EncodeS7AnyBit addr = Ok item"
  shows "length item = varSpecSize \<and>
    (\<exists>spec. bit_addr_matches addr spec \<and>
       (\<forall>pre post i. parseVarSpec (pre @ item @ post) i (length pre) =
          Ok (spec, length pre + varSpecSize)))"
  using assms uint_start_bit [of "sbByteOffset addr" "sbBitOffset addr"]
  by (auto simp: EncodeS7AnyBit_eq_Ok parseVarSpec_putS7Any bit_addr_matches_def)

lemma encodeItems_parsed:
  assumes "encodeItems addrs = Ok items"
  shows "length items = varSpecSize * length addrs \<and>
    (\<forall>pre i. \<exists>specs. list_all2 addr_matches addrs specs \<and>
       parseVarSpecItems (pre @ items) (length addrs) i (length pre) =
         Ok (specs, length (pre @ items)))"
  using assms
proof (induction addrs arbitrary: items)
  case Nil
  then show ?case by simp
next
  case (Cons addr addrs)
  from Cons.prems obtain item items' where
    e: "EncodeS7Any addr = Ok item" and r: "encodeItems addrs = Ok items'"
    and items: "items = item @ items'"
    by (auto simp: bindR_eq_Ok)
  from EncodeS7Any_parsed [OF e] obtain spec where
    len: "length item = varSpecSize" and m: "addr_matches addr spec" and
    s: "\<And>pre post i. parseVarSpec (pre @ item @ post) i (length pre) = Ok (spec, length pre + varSpecSize)"
    by auto
  note IH = Cons.IH [OF r]
  show ?case
  proof (intro conjI allI)
    show "length items = varSpecSize * length (addr # addrs)"
      using IH len by (simp add: items)
  next
    fix pre i
    from IH obtain specs where
      ms: "list_all2 addr_matches addrs specs" and
      "parseVarSpecItems ((pre @ item) @ items') (length addrs) (i + 1) (length (pre @ item)) =
         Ok (specs, length ((pre @ item) @ items'))"
      by blast
    then have "parseVarSpecItems (pre @ items) (length (addr # addrs)) i (length pre) =
        Ok (spec # specs, length (pre @ items))"
      by (simp add: items s len)
    with m ms show "\<exists>specs. list_all2 addr_matches (addr # addrs) specs \<and>
       parseVarSpecItems (pre @ items) (length (addr # addrs)) i (length pre) =
         Ok (specs, length (pre @ items))"
      by blast
  qed
qed

lemma parseVarSpecs_encoded:
  assumes "encodeItems addrs = Ok items" "addrs \<noteq> []" "length addrs \<le> 255"
  shows "\<exists>specs. parseVarSpecs ([fn, word_of_nat (length addrs)] @ items) fn = Ok specs \<and>
    list_all2 addr_matches addrs specs"
proof -
  have u: "unat (word_of_nat (length addrs) :: byte) = length addrs"
    using assms(3) by (simp add: unsigned_of_nat take_bit_eq_mod)
  let ?pre = "[fn, word_of_nat (length addrs)]"
  from encodeItems_parsed [OF assms(1)] obtain specs where
    "list_all2 addr_matches addrs specs" and
    "parseVarSpecItems (?pre @ items) (length addrs) 0 (length ?pre) = Ok (specs, length (?pre @ items))"
    by blast
  then show ?thesis
    using assms(2) by (auto simp: parseVarSpecs_def idx_def u Let_def numeral_2_eq_2)
qed

subsection \<open>Requests\<close>

lemma job_parsed:
  assumes "encodeMessage ROSCTRJob ref param data = Ok msg"
  obtains h where "ParseS7Header msg = Ok (h, param @ data)" "PDURef h = ref" "IsJob (ROSCTR h)"
    "unat (ParamLength h) = length param" "unat (DataLength h) = length data"
    "length msg = S7HeaderSize + length param + length data"
  using assms that
  by (simp add: encodeMessage_eq_Ok ParseS7Header_message IsAck_def IsAckData_def IsJob_def)

lemma ReadVarRequest_parsed:
  assumes "EncodeReadVarRequest ref addrs = Ok msg" "addrs \<noteq> []"
  shows "\<exists>h param specs. ParseS7Header msg = Ok (h, param) \<and> PDURef h = ref \<and> IsJob (ROSCTR h) \<and>
    length msg = 12 + 12 * length addrs \<and> ParseReadVarRequest param = Ok specs \<and>
    list_all2 addr_matches addrs specs"
proof -
  from assms(1) obtain items where n: "length addrs \<le> 255" and items: "encodeItems addrs = Ok items"
    and "encodeMessage ROSCTRJob ref ([FuncReadVar, word_of_nat (length addrs)] @ items) [] = Ok msg"
    by (auto simp: EncodeReadVarRequest_def bindR_eq_Ok not_less split: if_splits)
  moreover from items have "length items = 12 * length addrs" using encodeItems_parsed by blast
  moreover obtain specs where "parseVarSpecs ([FuncReadVar, word_of_nat (length addrs)] @ items) FuncReadVar = Ok specs"
    "list_all2 addr_matches addrs specs"
    using parseVarSpecs_encoded [OF items assms(2) n] by blast
  ultimately show ?thesis
    by (auto simp: ParseReadVarRequest_def elim!: job_parsed)
qed

lemma ParseWriteVarRequest_one:
  assumes spec: "\<And>pre post i. parseVarSpec (pre @ item @ post) i (length pre) =
      Ok (spec, length pre + varSpecSize)" and len: "length item = varSpecSize"
    and data: "parseWriteItem data 0 0 0 = Ok (wd, off)" and off: "off \<le> length data" "length data \<le> off + 1"
  shows "ParseWriteVarRequest ([FuncWriteVar, 1] @ item) data = Ok ([spec], [wd])"
proof -
  have "parseVarSpec ([FuncWriteVar, 1] @ item @ []) 0 (length [FuncWriteVar, 1 :: byte]) =
      Ok (spec, length [FuncWriteVar, 1 :: byte] + varSpecSize)"
    by (rule spec)
  then have "parseVarSpecs ([FuncWriteVar, 1] @ item) FuncWriteVar = Ok [spec]"
    using len by (simp add: parseVarSpecs_def idx_def numeral_2_eq_2)
  then show ?thesis
    using data off by (simp add: ParseWriteVarRequest_def)
qed

lemma parseWriteItem_bytes:
  assumes "length v \<le> MaxWriteVarBytes"
  shows "parseWriteItem ([rc, DataTransportSizeByte] @ put16 (word_of_nat (length v * 8)) @ v @ post) 0 0 0 =
    Ok (\<lparr>wdReturnCode = rc, wdTransportSize = DataTransportSizeByte,
         wdRawLength = word_of_nat (length v * 8), wdData = v\<rparr>, 4 + length v)"
proof -
  have "unat (word_of_nat (length v * 8) :: uint16) = length v * 8"
    using assms by (simp add: unat_word_of_nat_uint16 del: of_nat_mult)
  then show ?thesis
    by (simp add: parseWriteItem_def writeDataBytes_def put16_def idx_def u16at_def go_slice_def
        del: of_nat_mult)
qed

lemma mod_2_add_4: "(4 + n) mod 2 = (n mod 2 :: nat)"
  by presburger

lemma EncodeWriteVarRequest_job:
  assumes "EncodeWriteVarRequest ref addr v = Ok msg"
  obtains item data spec wd where "encodeMessage ROSCTRJob ref ([FuncWriteVar, 1] @ item) data = Ok msg"
    "ParseWriteVarRequest ([FuncWriteVar, 1] @ item) data = Ok ([spec], [wd])" "addr_matches addr spec"
    "wdTransportSize wd = DataTransportSizeByte" "wdData wd = v"
    "length item = varSpecSize" "length data = 4 + length v + length v mod 2"
proof -
  define post :: bytes where "post = (if length v mod 2 \<noteq> 0 then [0x00] else [])"
  define data where "data = [RetCodeSuccess, 0x04] @ put16 (word_of_nat (length v * 8)) @ v @ post"
  from assms obtain item where len: "length v \<le> MaxWriteVarBytes" and item: "EncodeS7Any addr = Ok item"
    and msg: "encodeMessage ROSCTRJob ref ([FuncWriteVar, 1] @ item) data = Ok msg"
    by (auto simp: EncodeWriteVarRequest_def bindR_eq_Ok Let_def data_def post_def mod_2_add_4
        split: if_splits)
  from EncodeS7Any_parsed [OF item] obtain spec where m: "addr_matches addr spec" and i12: "length item = varSpecSize" and
    p: "\<And>pre post i. parseVarSpec (pre @ item @ post) i (length pre) = Ok (spec, length pre + varSpecSize)"
    by auto
  have "length post \<le> 1" by (simp add: post_def)
  with ParseWriteVarRequest_one [OF p i12 parseWriteItem_bytes [OF len, of RetCodeSuccess post]]
  have "\<exists>wd. ParseWriteVarRequest ([FuncWriteVar, 1] @ item) data = Ok ([spec], [wd]) \<and>
      wdTransportSize wd = DataTransportSizeByte \<and> wdData wd = v"
    by (simp add: data_def)
  moreover have "length data = 4 + length v + length v mod 2"
    by (simp add: data_def post_def)
  ultimately show thesis using that msg m i12 by blast
qed

lemma WriteVarRequest_parsed:
  assumes "EncodeWriteVarRequest ref addr v = Ok msg"
  shows "\<exists>h param data spec item. ParseS7Header msg = Ok (h, param @ data) \<and> PDURef h = ref \<and>
    unat (ParamLength h) = length param \<and> unat (DataLength h) = length data \<and>
    length msg = 28 + length v + length v mod 2 \<and>
    ParseWriteVarRequest param data = Ok ([spec], [item]) \<and> addr_matches addr spec \<and>
    wdTransportSize item = DataTransportSizeByte \<and> wdData item = v"
  using assms
proof (rule EncodeWriteVarRequest_job)
  fix item data spec wd
  assume a: "encodeMessage ROSCTRJob ref ([FuncWriteVar, 1] @ item) data = Ok msg"
    "ParseWriteVarRequest ([FuncWriteVar, 1] @ item) data = Ok ([spec], [wd])" "addr_matches addr spec"
    "wdTransportSize wd = DataTransportSizeByte" "wdData wd = v"
    "length item = varSpecSize" "length data = 4 + length v + length v mod 2"
  from a(1) obtain h where "ParseS7Header msg = Ok (h, ([FuncWriteVar, 1] @ item) @ data)"
    "PDURef h = ref" "unat (ParamLength h) = length ([FuncWriteVar, 1] @ item)"
    "unat (DataLength h) = length data"
    "length msg = S7HeaderSize + length ([FuncWriteVar, 1] @ item) + length data"
    by (rule job_parsed)
  with a show ?thesis
    by (intro exI [of _ h] exI [of _ "[FuncWriteVar, 1] @ item"] exI [of _ data] exI [of _ spec]) auto
qed

lemma EncodeReadVarBitRequest_job:
  assumes "EncodeReadVarBitRequest ref addr = Ok msg"
  obtains item spec where "EncodeS7AnyBit addr = Ok item"
    "encodeMessage ROSCTRJob ref ([FuncReadVar, 1] @ item) [] = Ok msg"
    "ParseReadVarRequest ([FuncReadVar, 1] @ item) = Ok [spec]" "bit_addr_matches addr spec"
proof -
  from assms obtain item where item: "EncodeS7AnyBit addr = Ok item"
    and r: "encodeMessage ROSCTRJob ref ([FuncReadVar, 1] @ item) [] = Ok msg"
    by (auto simp: EncodeReadVarBitRequest_def bindR_eq_Ok)
  from EncodeS7AnyBit_parsed [OF item] obtain spec where m: "bit_addr_matches addr spec"
    and i12: "length item = varSpecSize"
    and p: "\<And>pre post i. parseVarSpec (pre @ item @ post) i (length pre) = Ok (spec, length pre + varSpecSize)"
    by auto
  have "parseVarSpec ([FuncReadVar, 1] @ item @ []) 0 (length [FuncReadVar, 1 :: byte]) =
      Ok (spec, length [FuncReadVar, 1 :: byte] + varSpecSize)"
    by (rule p)
  then have "ParseReadVarRequest ([FuncReadVar, 1] @ item) = Ok [spec]"
    using i12 by (simp add: ParseReadVarRequest_def parseVarSpecs_def idx_def numeral_2_eq_2)
  with that item r m show thesis by blast
qed

text \<open>The data section of a bit write.\<close>

definition bit_data :: "bool \<Rightarrow> bytes" where
  "bit_data v = [0x00, DataTransportSizeBit, 0x00, 0x01, if v then 1 else 0, 0x00]"

definition bit_item :: "bool \<Rightarrow> WriteVarData" where
  "bit_item v = \<lparr>wdReturnCode = 0, wdTransportSize = DataTransportSizeBit, wdRawLength = 1,
     wdData = [if v then 1 else 0]\<rparr>"

lemma EncodeWriteVarBitRequest_job:
  assumes "EncodeWriteVarBitRequest ref addr v = Ok msg"
  obtains item spec where "EncodeS7AnyBit addr = Ok item"
    "encodeMessage ROSCTRJob ref ([FuncWriteVar, 1] @ item) (bit_data v) = Ok msg"
    "ParseWriteVarRequest ([FuncWriteVar, 1] @ item) (bit_data v) = Ok ([spec], [bit_item v])"
    "ParseReadVarRequest ([FuncReadVar, 1] @ item) = Ok [spec]" "bit_addr_matches addr spec"
proof -
  from assms obtain item where item: "EncodeS7AnyBit addr = Ok item"
    and w: "encodeMessage ROSCTRJob ref ([FuncWriteVar, 1] @ item) (bit_data v) = Ok msg"
    by (auto simp: EncodeWriteVarBitRequest_def bindR_eq_Ok Let_def bit_data_def)
  from EncodeS7AnyBit_parsed [OF item] obtain spec where m: "bit_addr_matches addr spec"
    and i12: "length item = varSpecSize"
    and p: "\<And>pre post i. parseVarSpec (pre @ item @ post) i (length pre) = Ok (spec, length pre + varSpecSize)"
    by auto
  have "parseVarSpec ([FuncReadVar, 1] @ item @ []) 0 (length [FuncReadVar, 1 :: byte]) =
      Ok (spec, length [FuncReadVar, 1 :: byte] + varSpecSize)"
    by (rule p)
  then have r: "ParseReadVarRequest ([FuncReadVar, 1] @ item) = Ok [spec]"
    using i12 by (simp add: ParseReadVarRequest_def parseVarSpecs_def idx_def numeral_2_eq_2)
  have "parseWriteItem (bit_data v) 0 0 0 = Ok (bit_item v, 5)"
    by (simp add: bit_data_def bit_item_def parseWriteItem_def writeDataBytes_def idx_def u16at_def
        go_slice_def be16_def)
  from ParseWriteVarRequest_one [OF p i12 this]
  have "ParseWriteVarRequest ([FuncWriteVar, 1] @ item) (bit_data v) = Ok ([spec], [bit_item v])"
    by (simp add: bit_data_def)
  with that item w r m show thesis by blast
qed

lemma VarBitRequest_parsed:
  assumes "EncodeReadVarBitRequest ref addr = Ok rmsg" "EncodeWriteVarBitRequest ref addr v = Ok wmsg"
  shows "\<exists>h param spec h' wparam data item.
    ParseS7Header rmsg = Ok (h, param) \<and> PDURef h = ref \<and> ParseReadVarRequest param = Ok [spec] \<and>
    ParseS7Header wmsg = Ok (h', wparam @ data) \<and> PDURef h' = ref \<and>
    unat (ParamLength h') = length wparam \<and> unat (DataLength h') = length data \<and>
    ParseWriteVarRequest wparam data = Ok ([spec], [item]) \<and> bit_addr_matches addr spec \<and>
    wdTransportSize item = DataTransportSizeBit \<and> wdData item = [if v then 1 else 0]"
proof -
  from assms(2) obtain item spec where item: "EncodeS7AnyBit addr = Ok item"
    and w: "encodeMessage ROSCTRJob ref ([FuncWriteVar, 1] @ item) (bit_data v) = Ok wmsg"
    and pw: "ParseWriteVarRequest ([FuncWriteVar, 1] @ item) (bit_data v) = Ok ([spec], [bit_item v])"
    and pr: "ParseReadVarRequest ([FuncReadVar, 1] @ item) = Ok [spec]" and m: "bit_addr_matches addr spec"
    by (rule EncodeWriteVarBitRequest_job)
  from assms(1) item have r: "encodeMessage ROSCTRJob ref ([FuncReadVar, 1] @ item) [] = Ok rmsg"
    by (simp add: EncodeReadVarBitRequest_def)
  from r obtain h where h: "ParseS7Header rmsg = Ok (h, ([FuncReadVar, 1] @ item) @ [])" "PDURef h = ref"
    by (rule job_parsed)
  from w obtain h' where h': "ParseS7Header wmsg = Ok (h', ([FuncWriteVar, 1] @ item) @ bit_data v)"
    "PDURef h' = ref" "unat (ParamLength h') = length ([FuncWriteVar, 1] @ item)"
    "unat (DataLength h') = length (bit_data v)"
    by (rule job_parsed)
  show ?thesis
    by (rule exI [of _ h], rule exI [of _ "[FuncReadVar, 1] @ item"], rule exI [of _ spec],
        rule exI [of _ h'], rule exI [of _ "[FuncWriteVar, 1] @ item"], rule exI [of _ "bit_data v"],
        rule exI [of _ "bit_item v"])
      (use h h' pr pw m in \<open>simp add: bit_item_def\<close>)
qed

subsection \<open>Answers\<close>

lemma EncodeAckData_eq_Ok:
  "EncodeAckData ref c d param data = Ok msg \<longleftrightarrow>
     length param \<le> 65535 \<and> length data \<le> 65535 \<and>
     msg = s7Header ROSCTRAckData ref (word_of_nat (length param)) (word_of_nat (length data)) @
       [c, d] @ param @ data"
  by (auto simp: EncodeAckData_def EncodeS7Header_def checkedUint16_def)

lemma ack_parsed:
  assumes "EncodeAckData ref c d param data = Ok msg"
  shows "ParseS7Header msg =
    Ok (\<lparr>ProtocolID = 0x32, ROSCTR = ROSCTRAckData, RedundancyID = 0, PDURef = ref,
         ParamLength = word_of_nat (length param), DataLength = word_of_nat (length data),
         ErrorClass = c, ErrorCode = d\<rparr>, param @ data) \<and>
    length msg = AckDataHeaderSize + length param + length data \<and>
    length param \<le> 65535 \<and> length data \<le> 65535"
proof -
  have msg: "msg = s7Header ROSCTRAckData ref (word_of_nat (length param)) (word_of_nat (length data)) @
       [c, d] @ param @ data" and len: "length param \<le> 65535" "length data \<le> 65535"
    using assms by (simp_all add: EncodeAckData_eq_Ok)
  have nth: "msg ! 10 = c" "msg ! 11 = d" by (simp_all add: msg nth_append)
  have need: "payload_need msg = length param + length data"
    using len by (simp add: payload_need_def msg unat_word_of_nat_uint16)
  have fields: "header_fields msg c d = \<lparr>ProtocolID = 0x32, ROSCTR = ROSCTRAckData, RedundancyID = 0,
      PDURef = ref, ParamLength = word_of_nat (length param), DataLength = word_of_nat (length data),
      ErrorClass = c, ErrorCode = d\<rparr>"
    by (simp add: header_fields_def msg)
  have "length msg = AckDataHeaderSize + length param + length data" "drop 12 msg = param @ data"
    "msg ! 0 = 0x32" "msg ! 1 = ROSCTRAckData"
    by (simp_all add: msg)
  then show ?thesis
    using len ParseS7Header_ack [of msg] by (simp add: need nth fields)
qed

text \<open>When the server's result for an item is one a Read Var answer can carry: a success item
  has exactly the payload its length field announces, a refusal has none.\<close>

definition result_ok :: "ReadVarResult \<Rightarrow> bool" where
  "result_ok r \<longleftrightarrow>
     (if rrReturnCode r = RetCodeSuccess
      then NormalizeResponseDataLength (rrTransportSize r) (rrRawLength r) = Ok (length (rrData r))
      else rrTransportSize r = 0 \<and> rrData r = [])"

definition item_of_result :: "ReadVarResult \<Rightarrow> ReadVarItem" where
  "item_of_result r = \<lparr>ReturnCode = rrReturnCode r, RawTransportSize = rrTransportSize r,
     RawLength = rrRawLength r, Data = rrData r\<rparr>"

definition fill :: "ReadVarResult \<Rightarrow> bool \<Rightarrow> bytes" where
  "fill r isLast = (if \<not> isLast \<and> length (rrData r) mod 2 \<noteq> 0 then [0] else [])"

lemma decodeReadResponseItem_encoded:
  assumes "result_ok r" "isLast \<Longrightarrow> post = []"
  shows "decodeReadResponseItem
      (pre @ ([rrReturnCode r, rrTransportSize r] @ put16 (rrRawLength r) @ rrData r @ fill r isLast) @ post)
      (length pre) isLast =
    Ok (item_of_result r, length pre + 4 + length (rrData r @ fill r isLast))"
proof -
  let ?d = "pre @ ([rrReturnCode r, rrTransportSize r] @ put16 (rrRawLength r) @ rrData r @ fill r isLast) @ post"
  have "length pre + 4 \<le> length ?d" by simp
  moreover have "?d ! length pre = rrReturnCode r" "?d ! Suc (length pre) = rrTransportSize r"
    "be16 (?d ! (length pre + 2)) (?d ! (length pre + 3)) = rrRawLength r"
    by (simp_all add: nth_append put16_def)
  moreover have "take (length (rrData r)) (drop (length pre + 4) ?d) = rrData r"
    by (simp add: put16_def)
  ultimately show ?thesis
    using assms
    by (auto simp: decodeReadResponseItem_eq result_ok_def item_of_result_def skip_fill_def fill_def
        Let_def split: if_splits)
qed

lemma decodeReadItems_encoded:
  "list_all result_ok items \<Longrightarrow>
   decodeReadItems (pre @ readVarItemBytes items) (length items) (length pre) =
     Ok (map item_of_result items)"
proof (induction items arbitrary: pre)
  case Nil
  then show ?case by simp
next
  case (Cons r items)
  let ?b = "[rrReturnCode r, rrTransportSize r] @ put16 (rrRawLength r) @ rrData r @ fill r (items = [])"
  have b: "readVarItemBytes (r # items) = ?b @ readVarItemBytes items"
    by (simp add: fill_def)
  have "decodeReadResponseItem (pre @ ?b @ readVarItemBytes items) (length pre) (items = []) =
      Ok (item_of_result r, length (pre @ ?b))"
    using decodeReadResponseItem_encoded [of r "items = []" "readVarItemBytes items" pre] Cons.prems
    by simp
  moreover have "decodeReadItems ((pre @ ?b) @ readVarItemBytes items) (length items) (length (pre @ ?b)) =
      Ok (map item_of_result items)"
    by (rule Cons.IH) (use Cons.prems in simp)
  ultimately show ?case
    unfolding b by (simp add: length_0_conv)
qed

lemma ReadVarResponse_parsed:
  assumes "EncodeReadVarResponse ref items = Ok msg" "list_all result_ok items"
  shows "\<exists>h param data. ParseS7Header msg = Ok (h, param @ data) \<and> IsAckData (ROSCTR h) \<and>
    PDURef h = ref \<and> ErrorClass h = 0 \<and> ErrorCode h = 0 \<and>
    unat (ParamLength h) = length param \<and> unat (DataLength h) = length data \<and>
    ParseReadVarResponse param data = Ok (map item_of_result items)"
proof -
  let ?param = "[FuncReadVar, word_of_nat (length items)] :: bytes"
  from assms(1) have n: "length items \<le> 255"
    and e: "EncodeAckData ref 0 0 ?param (readVarItemBytes items) = Ok msg"
    by (auto simp: EncodeReadVarResponse_def split: if_splits)
  have "unat (word_of_nat (length items) :: byte) = length items"
    using n by (simp add: unsigned_of_nat take_bit_eq_mod)
  then have "ParseReadVarResponse ?param (readVarItemBytes items) = Ok (map item_of_result items)"
    using decodeReadItems_encoded [OF assms(2), of "[]"] by (simp add: ParseReadVarResponse_def idx_def)
  with ack_parsed [OF e] show ?thesis
    by (intro exI [of _ ?param] exI [of _ "readVarItemBytes items"] exI)
      (auto simp: IsAckData_def unat_word_of_nat_uint16)
qed

lemma ReturnCodeError_eq_None: "ReturnCodeError c = None \<longleftrightarrow> c = RetCodeSuccess"
  by (simp add: ReturnCodeError_def)

lemma firstCodeError_eq_None: "firstCodeError n i codes = None \<longleftrightarrow> (\<forall>c \<in> set codes. c = RetCodeSuccess)"
proof (induction codes arbitrary: i)
  case (Cons c codes)
  then show ?case
    using ReturnCodeError_eq_None [of c] by (auto split: option.splits)
qed simp

lemma WriteVarResponse_parsed:
  assumes "EncodeWriteVarResponse ref codes = Ok msg" "codes \<noteq> []"
  shows "\<exists>h param data. ParseS7Header msg = Ok (h, param @ data) \<and> IsAckData (ROSCTR h) \<and>
    PDURef h = ref \<and> ErrorClass h = 0 \<and> ErrorCode h = 0 \<and>
    unat (ParamLength h) = length param \<and> unat (DataLength h) = length data \<and>
    ParseWriteVarResponseCodes param data = Ok codes \<and>
    (ParseWriteVarResponse param data = Ok () \<longleftrightarrow> (\<forall>c \<in> set codes. c = 0xFF))"
proof -
  let ?param = "[FuncWriteVar, word_of_nat (length codes)] :: bytes"
  from assms(1) have n: "length codes \<le> 255" and e: "EncodeAckData ref 0 0 ?param codes = Ok msg"
    by (auto simp: EncodeWriteVarResponse_def split: if_splits)
  have "unat (word_of_nat (length codes) :: byte) = length codes"
    using n by (simp add: unsigned_of_nat take_bit_eq_mod)
  then have c: "ParseWriteVarResponseCodes ?param codes = Ok codes"
    using assms(2) by (simp add: ParseWriteVarResponseCodes_def idx_def go_slice_def Let_def)
  then have "ParseWriteVarResponse ?param codes = Ok () \<longleftrightarrow> (\<forall>c \<in> set codes. c = 0xFF)"
    using firstCodeError_eq_None [of "length codes" 0 codes]
    by (auto simp: ParseWriteVarResponse_def split: option.splits)
  with c ack_parsed [OF e] show ?thesis
    by (intro exI [of _ ?param] exI [of _ codes] exI)
      (auto simp: IsAckData_def unat_word_of_nat_uint16)
qed

subsection \<open>Setup Communication\<close>

lemma setup_param_parsed:
  "ParseSetupCommRequest ([FuncSetupComm, 0] @ put16 a @ put16 b @ put16 c) =
     Ok \<lparr>MaxAmqCalling = unat a, MaxAmqCalled = unat b, PDUSize = unat c\<rparr>"
  "ParseSetupCommResponse ([FuncSetupComm, 0] @ put16 a @ put16 b @ put16 c) =
     Ok \<lparr>MaxAmqCalling = unat a, MaxAmqCalled = unat b, PDUSize = unat c\<rparr>"
  by (simp_all add: ParseSetupCommRequest_def ParseSetupCommResponse_def go_simps put16_def)

lemma checkedUint16_eq_Ok:
  "checkedUint16 name v = Ok w \<longleftrightarrow> 0 \<le> v \<and> v \<le> 65535 \<and> w = word_of_int v"
  by (auto simp: checkedUint16_def)

lemma SetupComm_parsed:
  assumes "EncodeSetupCommRequest ref a b s = Ok req" "EncodeSetupCommResponse ref a' b' s' = Ok resp"
  shows "\<exists>h param h' param' q q'.
    ParseS7Header req = Ok (h, param) \<and> PDURef h = ref \<and> IsJob (ROSCTR h) \<and>
    ParseSetupCommRequest param = Ok q \<and>
    int (MaxAmqCalling q) = a \<and> int (MaxAmqCalled q) = b \<and> int (PDUSize q) = s \<and>
    ParseS7Header resp = Ok (h', param') \<and> PDURef h' = ref \<and> IsAckData (ROSCTR h') \<and>
    ParseSetupCommResponse param' = Ok q' \<and>
    int (MaxAmqCalling q') = a' \<and> int (MaxAmqCalled q') = b' \<and> int (PDUSize q') = s'"
proof -
  let ?p = "\<lambda>a b s. [FuncSetupComm, 0] @ put16 (word_of_int a) @ put16 (word_of_int b) @ put16 (word_of_int s)"
  have r: "0 \<le> a" "a \<le> 65535" "0 \<le> b" "b \<le> 65535" "0 \<le> s" "s \<le> 65535"
      "0 \<le> a'" "a' \<le> 65535" "0 \<le> b'" "b' \<le> 65535" "0 \<le> s'" "s' \<le> 65535"
    and req: "encodeMessage ROSCTRJob ref (?p a b s) [] = Ok req"
    and resp: "EncodeAckData ref 0 0 (?p a' b' s') [] = Ok resp"
    using assms
    by (simp_all add: EncodeSetupCommRequest_def EncodeSetupCommResponse_def bindR_eq_Ok
        checkedUint16_eq_Ok)
  from req obtain h where "ParseS7Header req = Ok (h, ?p a b s @ [])" "PDURef h = ref" "IsJob (ROSCTR h)"
    by (rule job_parsed)
  moreover from ack_parsed [OF resp] obtain h' where
    "ParseS7Header resp = Ok (h', ?p a' b' s' @ [])" "PDURef h' = ref" "IsAckData (ROSCTR h')"
    by (auto simp: IsAckData_def)
  ultimately show ?thesis
    using r
    by - (rule exI [of _ h], rule exI [of _ "?p a b s"], rule exI [of _ h'], rule exI [of _ "?p a' b' s'"],
        simp only: setup_param_parsed, simp)
qed

end
