(* ===== verification/Client_Core.thy ===== *)
theory Client_Core
  imports Wire_Roundtrip
begin

text \<open>
  The client's connection (\<^verbatim>\<open>client/client.go\<close>, \<^verbatim>\<open>client/options.go\<close>,
  \<^verbatim>\<open>client/handshake.go\<close>): options, connect with or without rack and slot detection, Setup
  Communication, PDU references and the request/response exchange.

  The network below the client is not part of the module: the record \<open>transport\<close> holds what
  the client calls of it (dialling, the TP0 connection of go-cotp, contexts and timers), as
  functions on a world \<open>'w\<close>. A context is the caller's, the background
  context, or one derived from either by a timeout.
  Every exported operation of the client holds the request mutex for its whole run, so each is
  one function from the client and the world to a result, the client and the world. Logging is
  left out.
\<close>

section \<open>The transport below the client\<close>

datatype go_ctx = CallerCtx | BackgroundCtx | WithTimeout go_ctx int

record ('w, 'r, 'c) transport =
  trDial :: "'w \<Rightarrow> go_ctx \<Rightarrow> string \<Rightarrow> int \<Rightarrow> 'r res \<times> 'w"
  trConnect :: "'w \<Rightarrow> go_ctx \<Rightarrow> 'r \<Rightarrow> bytes \<Rightarrow> bytes \<Rightarrow> nat \<Rightarrow> 'c res \<times> 'w"
  trClose :: "'w \<Rightarrow> 'c \<Rightarrow> unit res \<times> 'w"
  trIsErrClosed :: "go_error \<Rightarrow> bool"
  trWrite :: "'w \<Rightarrow> go_ctx \<Rightarrow> 'c \<Rightarrow> bytes \<Rightarrow> unit res \<times> 'w"
  trRead :: "'w \<Rightarrow> go_ctx \<Rightarrow> 'c \<Rightarrow> bytes res \<times> 'w"
  trCtxErr :: "'w \<Rightarrow> go_ctx \<Rightarrow> unit res \<times> 'w"
  trSleep :: "'w \<Rightarrow> go_ctx \<Rightarrow> int \<Rightarrow> unit res \<times> 'w"

text \<open>
  \<open>trDial\<close> is \<^verbatim>\<open>net.Dialer{Timeout}.DialContext\<close>, \<open>trConnect\<close> is \<^verbatim>\<open>cotp.Connect\<close> with
  the local and remote selectors and the TPDU length, \<open>trIsErrClosed\<close> is
  \<^verbatim>\<open>errors.Is(err, cotp.ErrClosed)\<close>, \<open>trCtxErr\<close> is \<^verbatim>\<open>ctx.Err()\<close>, and \<open>trSleep\<close> waits for a
  duration unless the context ends first, whose error it then gives. Sequencing:
\<close>

definition bindW :: "'a res \<times> 'w \<Rightarrow> ('a \<Rightarrow> 'w \<Rightarrow> 'b res \<times> 'w) \<Rightarrow> 'b res \<times> 'w" where
  "bindW m f = (case m of (Ok x, w) \<Rightarrow> f x w | (Err e, w) \<Rightarrow> (Err e, w) | (Panic, w) \<Rightarrow> (Panic, w))"

lemma bindW_simps [simp]:
  "bindW (Ok x, w) f = f x w" "bindW (Err e, w) f = (Err e, w)" "bindW (Panic, w) f = (Panic, w)"
  by (simp_all add: bindW_def)

section \<open>Text of a duration\<close>

text \<open>\<^verbatim>\<open>time.Duration.String\<close>: the fraction loses its trailing zeros; below a second the unit
  is the largest in which the value is not below one.\<close>

fun frac_digits :: "nat \<Rightarrow> nat \<Rightarrow> string" where
  "frac_digits v 0 = []"
| "frac_digits v (Suc prec) = frac_digits (v div 10) prec @ [digit_char (v mod 10)]"

definition frac_text :: "nat \<Rightarrow> nat \<Rightarrow> string" where
  "frac_text v prec =
    (let ds = rev (dropWhile (\<lambda>c. c = CHR ''0'') (rev (frac_digits v prec))) in
     if ds = [] then [] else CHR ''.'' # ds)"

definition duration_text :: "int \<Rightarrow> string" where
  "duration_text d =
    (let u = nat \<bar>d\<bar>; sign = (if d < 0 then ''-'' else '''') in
     if u = 0 then ''0s''
     else if u < 1000 then sign @ utoa u @ ''ns''
     else if u < 1000000 then sign @ utoa (u div 1000) @ frac_text (u mod 1000) 3 @ [CHR 0xC2, CHR 0xB5] @ ''s''
     else if u < 1000000000 then sign @ utoa (u div 1000000) @ frac_text (u mod 1000000) 6 @ ''ms''
     else
       (let secs = u div 1000000000; mins = secs div 60; hours = mins div 60;
            s = utoa (secs mod 60) @ frac_text (u mod 1000000000) 9 @ ''s'' in
        if mins = 0 then sign @ s
        else if hours = 0 then sign @ utoa (mins mod 60) @ ''m'' @ s
        else sign @ utoa hours @ ''h'' @ utoa (mins mod 60) @ ''m'' @ s))"

section \<open>Options and state\<close>

record options =
  optPort :: int
  optRack :: int
  optSlot :: int
  optLocalTSAP :: uint16
  optRemoteTSAP :: uint16
  optUseExplicit :: bool
  optAutoRackSlot :: bool
  optBruteRackSlot :: bool
  optTimeout :: int
  optRateLimit :: int
  optMaxPDU :: int
  optMaxAmqCalling :: int
  optMaxAmqCalled :: int

definition defaultOptions :: options where
  "defaultOptions = \<lparr>optPort = 102, optRack = 0, optSlot = 1, optLocalTSAP = 0, optRemoteTSAP = 0,
     optUseExplicit = False, optAutoRackSlot = False, optBruteRackSlot = False,
     optTimeout = 5000000000, optRateLimit = 0, optMaxPDU = 480, optMaxAmqCalling = 1,
     optMaxAmqCalled = 1\<rparr>"

type_synonym Option = "options \<Rightarrow> options"

definition WithPort :: "int \<Rightarrow> Option" where "WithPort port = (\<lambda>opts. opts\<lparr>optPort := port\<rparr>)"

definition WithRackSlot :: "int \<Rightarrow> int \<Rightarrow> Option" where
  "WithRackSlot rack slot = (\<lambda>opts. opts\<lparr>optRack := rack, optSlot := slot\<rparr>)"

definition WithTSAP :: "uint16 \<Rightarrow> uint16 \<Rightarrow> Option" where
  "WithTSAP l r = (\<lambda>opts. opts\<lparr>optLocalTSAP := l, optRemoteTSAP := r, optUseExplicit := True\<rparr>)"

definition WithAutoRackSlot :: "bool \<Rightarrow> Option" where
  "WithAutoRackSlot brute = (\<lambda>opts. opts\<lparr>optAutoRackSlot := True, optBruteRackSlot := brute\<rparr>)"

definition WithTimeoutOption :: "int \<Rightarrow> Option" where
  "WithTimeoutOption t = (\<lambda>opts. opts\<lparr>optTimeout := t\<rparr>)"

definition WithRateLimit :: "int \<Rightarrow> Option" where
  "WithRateLimit d = (\<lambda>opts. opts\<lparr>optRateLimit := d\<rparr>)"

definition WithMaxPDU :: "int \<Rightarrow> Option" where
  "WithMaxPDU n = (\<lambda>opts. opts\<lparr>optMaxPDU := n\<rparr>)"

record 'c Client =
  clHost :: string
  clOpts :: options
  clConn :: "'c option"
  clRack :: int
  clSlot :: int
  clPduRef :: uint32
  clLocalTSAP :: uint16
  clRemoteTSAP :: uint16
  clPduSize :: int
  clMaxAmqCalling :: int
  clMaxAmqCalled :: int

definition Client_New :: "string \<Rightarrow> Option list \<Rightarrow> 'c Client" where
  "Client_New host opts = \<lparr>clHost = host, clOpts = fold (\<lambda>f os. f os) opts defaultOptions, clConn = None,
     clRack = 0, clSlot = 0, clPduRef = 0, clLocalTSAP = 0, clRemoteTSAP = 0, clPduSize = 0,
     clMaxAmqCalling = 0, clMaxAmqCalled = 0\<rparr>"

section \<open>PDU references\<close>

text \<open>The atomic counter is 32 bits wide and wraps; the reference is its low half. A counter
  value whose low half is 0 is skipped.\<close>

function nextPDURef :: "uint32 \<Rightarrow> uint16 \<times> uint32" where
  "nextPDURef n =
    (let n' = n + 1; ref = n' AND 0xFFFF in
     if ref \<noteq> 0 then (ucast ref, n') else nextPDURef n')"
  by pat_completeness auto

lemma unat_low_half: "unat ((n :: uint32) AND 0xFFFF) = unat n mod 65536"
proof -
  have m: "(0xFFFF :: uint32) = mask 16" by (simp add: mask_eq_exp_minus_1)
  show ?thesis unfolding m take_bit_eq_mask [symmetric] by (simp add: take_bit_eq_mod unat_mod_distrib)
qed

lemma low_half_succ:
  assumes "(n :: uint32) AND 0xFFFF = 0"
  shows "(n + 1) AND 0xFFFF \<noteq> 0"
proof -
  from assms have "unat n mod 65536 = 0" by (metis unat_low_half unat_0)
  then have "(unat n + 1) mod 65536 = 1" by (simp add: mod_Suc)
  then have "(unat n + 1) mod 4294967296 mod 65536 = 1" by (simp add: mod_mod_cancel)
  then have "unat ((n + 1) AND 0xFFFF) = 1" by (simp add: unat_low_half unat_word_ariths)
  then show ?thesis by auto
qed

termination nextPDURef
proof (relation "measure (\<lambda>n. if (n + 1) AND 0xFFFF = 0 then 1 else 0 :: nat)")
  fix n x xa :: uint32
  assume "x = n + 1" "xa = x AND 0xFFFF" "\<not> xa \<noteq> 0"
  then show "(x, n) \<in> measure (\<lambda>n. if (n + 1) AND 0xFFFF = 0 then 1 else 0 :: nat)"
    using low_half_succ [of "n + 1"] by simp
qed simp

declare nextPDURef.simps [simp del]

definition fresh_ref :: "'c Client \<Rightarrow> uint16 \<times> 'c Client" where
  "fresh_ref c = (let (ref, n) = nextPDURef (clPduRef c) in (ref, c\<lparr>clPduRef := n\<rparr>))"

section \<open>Request and response\<close>

text \<open>The part of \<^verbatim>\<open>sendReceive\<close> after the response TSDU is there. The bounds of the data section
  are added in 16 bits, as \<^verbatim>\<open>header.ParamLength+header.DataLength\<close> is.\<close>

definition decodeReply :: "bytes \<Rightarrow> uint16 \<Rightarrow> (bytes \<times> bytes) res" where
  "decodeReply s7Data expectedPDURef =
    (case ParseS7Header s7Data of
       Panic \<Rightarrow> Panic
     | Err e \<Rightarrow> Err (wrap_error ''parse S7 header'' (Join [e, Sentinel ErrProtocolFailure]))
     | Ok (h, rest) \<Rightarrow>
       if expectedPDURef \<noteq> 0 \<and> PDURef h \<noteq> expectedPDURef
       then Err (Join [Sentinel ErrProtocolFailure, PDURefMismatchError expectedPDURef (PDURef h)])
       else if ErrorClass h \<noteq> 0 \<or> ErrorCode h \<noteq> 0 then
         (let pl = unat (ParamLength h) in
          bindR (if 0 < pl \<and> pl \<le> length rest then go_slice rest 0 pl else Ok []) (\<lambda>param.
          bindR (NewS7ErrorWithParam (ErrorClass h) (ErrorCode h) param) (\<lambda>e. Err e)))
       else
         (let need = unat (ParamLength h) + unat (DataLength h) in
          if length rest < need
          then Err (wrap_error (''short S7 payload: need '' @ utoa need @ '' bytes, got '' @
                 utoa (length rest)) (Sentinel ErrProtocolFailure))
          else
            bindR (go_slice rest 0 (unat (ParamLength h))) (\<lambda>paramData.
            bindR (go_slice rest (unat (ParamLength h)) (unat (ParamLength h + DataLength h))) (\<lambda>dataData.
            Ok (paramData, dataData)))))"

definition sendReceive :: "('w, 'r, 'c) transport \<Rightarrow> 'c Client \<Rightarrow> go_ctx \<Rightarrow> bytes \<Rightarrow> uint16 \<Rightarrow> 'w \<Rightarrow>
    (bytes \<times> bytes) res \<times> 'w" where
  "sendReceive tr c ctx req expectedPDURef w =
    (case clConn c of
       None \<Rightarrow> (Err (Sentinel ErrNotConnected), w)
     | Some conn \<Rightarrow>
       if 0 < clPduSize c \<and> clPduSize c < int (length req)
       then (Err (wrap_error (''request size '' @ utoa (length req) @ '' exceeds negotiated PDU size '' @
              itoa (clPduSize c)) (Sentinel ErrRequestExceedsPDU)), w)
       else
         bindW (trWrite tr w ctx conn req) (\<lambda>_ w.
         bindW (trCtxErr tr w ctx) (\<lambda>_ w.
         bindW (trRead tr w ctx conn) (\<lambda>s7Data w.
         (decodeReply s7Data expectedPDURef, w)))))"

section \<open>Connecting\<close>

definition tsapSelector :: "uint16 \<Rightarrow> bytes" where
  "tsapSelector tsap = put16 tsap"

definition withOptionalTimeout :: "go_ctx \<Rightarrow> int \<Rightarrow> go_ctx" where
  "withOptionalTimeout ctx timeout = (if 0 < timeout then WithTimeout ctx timeout else ctx)"

definition dialTCP :: "('w, 'r, 'c) transport \<Rightarrow> go_ctx \<Rightarrow> string \<Rightarrow> int \<Rightarrow> 'w \<Rightarrow> 'r res \<times> 'w" where
  "dialTCP tr ctx address timeout w =
    (case trDial tr w ctx address timeout of
       (Err e, w) \<Rightarrow> (Err (wrap_error ''TCP connect'' e), w)
     | (r, w) \<Rightarrow> (r, w))"

abbreviation defaultMaxTPDULength :: nat where "defaultMaxTPDULength \<equiv> 1024"

definition connectCOTP ::
    "('w, 'r, 'c) transport \<Rightarrow> go_ctx \<Rightarrow> 'r \<Rightarrow> int \<Rightarrow> uint16 \<Rightarrow> uint16 \<Rightarrow> 'w \<Rightarrow> 'c res \<times> 'w" where
  "connectCOTP tr ctx raw timeout localTSAP remoteTSAP w =
     trConnect tr w (if 0 < timeout then WithTimeout ctx timeout else ctx) raw
       (tsapSelector localTSAP) (tsapSelector remoteTSAP) defaultMaxTPDULength"

definition dialCOTP ::
    "('w, 'r, 'c) transport \<Rightarrow> go_ctx \<Rightarrow> string \<Rightarrow> int \<Rightarrow> uint16 \<Rightarrow> uint16 \<Rightarrow> 'w \<Rightarrow> 'c res \<times> 'w" where
  "dialCOTP tr ctx address timeout localTSAP remoteTSAP w =
     bindW (dialTCP tr ctx address timeout w) (\<lambda>raw w.
     connectCOTP tr ctx raw timeout localTSAP remoteTSAP w)"

definition closeCOTP :: "('w, 'r, 'c) transport \<Rightarrow> 'c option \<Rightarrow> 'w \<Rightarrow> unit res \<times> 'w" where
  "closeCOTP tr conn w =
    (case conn of
       None \<Rightarrow> (Ok (), w)
     | Some conn \<Rightarrow>
        (case trClose tr w conn of
           (Err e, w) \<Rightarrow> (if trIsErrClosed tr e then Ok () else Err e, w)
         | (r, w) \<Rightarrow> (r, w)))"

definition setupReply :: "bytes \<Rightarrow> uint16 \<Rightarrow> SetupComm res" where
  "setupReply s7Data pduRef =
    (case ParseS7Header s7Data of
       Panic \<Rightarrow> Panic
     | Err e \<Rightarrow> Err (wrap_error ''parse S7 header'' (Join [e, Sentinel ErrProtocolFailure]))
     | Ok (h, paramData) \<Rightarrow>
       if PDURef h \<noteq> pduRef then Err (PDURefMismatchError pduRef (PDURef h))
       else if ErrorClass h \<noteq> 0 \<or> ErrorCode h \<noteq> 0 then
         bindR (NewS7ErrorWithParam (ErrorClass h) (ErrorCode h) paramData) (\<lambda>e. Err e)
       else if 0 < length paramData \<and> paramData ! 0 \<noteq> FuncSetupComm
       then Err (wrap_error (''S7 setup response: expected function 0xF0, got 0x'' @ hex02 (paramData ! 0))
              (Sentinel ErrProtocolFailure))
       else
        (case ParseSetupCommResponse paramData of
           Err e \<Rightarrow> Err (wrap_error ''parse setup response'' (Join [e, Sentinel ErrProtocolFailure]))
         | r \<Rightarrow> r))"

definition performS7Setup :: "('w, 'r, 'c) transport \<Rightarrow> go_ctx \<Rightarrow> 'c \<Rightarrow> uint16 \<Rightarrow> int \<Rightarrow> int \<Rightarrow> int \<Rightarrow> 'w \<Rightarrow>
    SetupComm res \<times> 'w" where
  "performS7Setup tr ctx conn pduRef maxAmqCalling maxAmqCalled maxPDU w =
     bindW (trCtxErr tr w ctx) (\<lambda>_ w.
     case EncodeSetupCommRequest pduRef maxAmqCalling maxAmqCalled maxPDU of
       Panic \<Rightarrow> (Panic, w)
     | Err e \<Rightarrow> (Err (ValidationError (error_text e)), w)
     | Ok req \<Rightarrow>
         bindW (trWrite tr w ctx conn req) (\<lambda>_ w.
         bindW (trRead tr w ctx conn) (\<lambda>s7Data w.
         (setupReply s7Data pduRef, w))))"

text \<open>\<^verbatim>\<open>net.JoinHostPort\<close>\<close>

definition JoinHostPort :: "string \<Rightarrow> string \<Rightarrow> string" where
  "JoinHostPort host port =
     (if CHR '':'' \<in> set host then ''['' @ host @ '']:'' @ port else host @ '':'' @ port)"

definition connectOnce :: "('w, 'r, 'c) transport \<Rightarrow> 'c Client \<Rightarrow> go_ctx \<Rightarrow> int \<Rightarrow> int \<Rightarrow> 'w \<Rightarrow>
    unit res \<times> 'c Client \<times> 'w" where
  "connectOnce tr c ctx rack slot w =
    (let opts = clOpts c; addr = JoinHostPort (clHost c) (itoa (optPort opts));
         tsaps =
           (if optUseExplicit opts then Ok (optLocalTSAP opts, optRemoteTSAP opts)
            else
             (case BuildTSAP 1 0 0 of
                Panic \<Rightarrow> Panic
              | Err e \<Rightarrow> Err (ValidationError (error_text e))
              | Ok l \<Rightarrow>
                 (case BuildTSAP 3 rack slot of
                    Panic \<Rightarrow> Panic
                  | Err e \<Rightarrow> Err (ValidationError (error_text e))
                  | Ok r \<Rightarrow> Ok (l, r)))) in
     case tsaps of
       Panic \<Rightarrow> (Panic, c, w)
     | Err e \<Rightarrow> (Err e, c, w)
     | Ok (l, r) \<Rightarrow>
        (case dialCOTP tr ctx addr (optTimeout opts) l r w of
           (Panic, w) \<Rightarrow> (Panic, c, w)
         | (Err e, w) \<Rightarrow> (Err e, c, w)
         | (Ok conn, w) \<Rightarrow>
            (case performS7Setup tr (withOptionalTimeout ctx (optTimeout opts)) conn 1
                    (optMaxAmqCalling opts) (optMaxAmqCalled opts) (optMaxPDU opts) w of
               (Panic, w) \<Rightarrow> (Panic, c, w)
             | (Err e, w) \<Rightarrow>
                 (let (_, w) = closeCOTP tr (Some conn) w in (Err (wrap_error ''S7 setup'' e), c, w))
             | (Ok setup, w) \<Rightarrow>
                 (let (_, w) = closeCOTP tr (clConn c) w in
                  (Ok (), c\<lparr>clConn := Some conn, clRack := rack, clSlot := slot, clLocalTSAP := l,
                     clRemoteTSAP := r, clPduSize := int (PDUSize setup),
                     clMaxAmqCalling := int (MaxAmqCalling setup),
                     clMaxAmqCalled := int (MaxAmqCalled setup)\<rparr>, w)))))"

text \<open>The two loops of \<^verbatim>\<open>autoConnect\<close> over rack and slot pairs.\<close>

fun connectFirst :: "('w, 'r, 'c) transport \<Rightarrow> go_ctx \<Rightarrow> string \<Rightarrow> (int \<times> int) list \<Rightarrow> 'c Client \<Rightarrow> 'w \<Rightarrow>
    unit res \<times> 'c Client \<times> 'w" where
  "connectFirst tr ctx failure [] c w = (Err (OtherError failure), c, w)"
| "connectFirst tr ctx failure ((rack, slot) # pairs) c w =
    (case trCtxErr tr w ctx of
       (Panic, w) \<Rightarrow> (Panic, c, w)
     | (Err e, w) \<Rightarrow> (Err e, c, w)
     | (Ok _, w) \<Rightarrow>
        (case connectOnce tr c ctx rack slot w of
           (Err _, c, w) \<Rightarrow> connectFirst tr ctx failure pairs c w
         | (r, c, w) \<Rightarrow> (r, c, w)))"

definition brutePairs :: "(int \<times> int) list" where
  "brutePairs = [(rack, slot). rack \<leftarrow> [0..3], slot \<leftarrow> [0..5]]"

definition commonPairs :: "(int \<times> int) list" where
  "commonPairs = [(0, 1), (0, 2), (0, 0), (1, 1), (0, 3)]"

definition autoConnect :: "('w, 'r, 'c) transport \<Rightarrow> 'c Client \<Rightarrow> go_ctx \<Rightarrow> 'w \<Rightarrow> unit res \<times> 'c Client \<times> 'w" where
  "autoConnect tr c ctx w =
     (if optBruteRackSlot (clOpts c)
      then connectFirst tr ctx ''auto rack/slot connect failed for rack 0-3 slot 0-5'' brutePairs c w
      else connectFirst tr ctx ''auto rack/slot connect failed on common rack/slot pairs'' commonPairs c w)"

definition Connect :: "('w, 'r, 'c) transport \<Rightarrow> 'c Client \<Rightarrow> go_ctx \<Rightarrow> 'w \<Rightarrow> unit res \<times> 'c Client \<times> 'w" where
  "Connect tr c ctx w =
    (let opts = clOpts c; port = optPort opts; rack = optRack opts; slot = optSlot opts;
         invalid = (\<lambda>m. (Err (ValidationError m), c, w)) in
     if port < 0 \<or> 65535 < port then invalid (''invalid port: '' @ itoa port)
     else if optTimeout opts < 0 then invalid (''invalid timeout: '' @ duration_text (optTimeout opts))
     else if optMaxPDU opts < 1 \<or> 65535 < optMaxPDU opts
     then invalid (''invalid max PDU: '' @ itoa (optMaxPDU opts))
     else if \<not> optAutoRackSlot opts \<and> (rack < 0 \<or> slot < 0)
     then invalid (''invalid rack/slot: rack='' @ itoa rack @ '' slot='' @ itoa slot)
     else if \<not> optAutoRackSlot opts \<and> ValidateRackSlot rack slot \<noteq> None
     then invalid (error_text (the (ValidateRackSlot rack slot)))
     else if optAutoRackSlot opts \<and> \<not> optUseExplicit opts then autoConnect tr c ctx w
     else connectOnce tr c ctx rack slot w)"

definition closeConnLocked :: "('w, 'r, 'c) transport \<Rightarrow> 'c Client \<Rightarrow> 'w \<Rightarrow> unit res \<times> 'c Client \<times> 'w" where
  "closeConnLocked tr c w =
    (case clConn c of
       None \<Rightarrow> (Ok (), c, w)
     | Some conn \<Rightarrow>
        (let (r, w) = closeCOTP tr (Some conn) w in
         (r, c\<lparr>clConn := None, clRack := 0, clSlot := 0, clLocalTSAP := 0, clRemoteTSAP := 0,
            clPduSize := 0, clMaxAmqCalling := 0, clMaxAmqCalled := 0\<rparr>, w)))"

definition Client_Close :: "('w, 'r, 'c) transport \<Rightarrow> 'c Client \<Rightarrow> 'w \<Rightarrow> unit res \<times> 'c Client \<times> 'w" where
  "Client_Close tr c w = closeConnLocked tr c w"

record ConnectionInfo =
  ciHost :: string
  ciPort :: int
  ciLocalTSAP :: uint16
  ciRemoteTSAP :: uint16
  ciRack :: int
  ciSlot :: int
  ciPDUSize :: int
  ciMaxAmqCalling :: int
  ciMaxAmqCalled :: int

definition Client_ConnectionInfo :: "'c Client \<Rightarrow> ConnectionInfo" where
  "Client_ConnectionInfo c = \<lparr>ciHost = clHost c, ciPort = optPort (clOpts c), ciLocalTSAP = clLocalTSAP c,
     ciRemoteTSAP = clRemoteTSAP c, ciRack = clRack c, ciSlot = clSlot c, ciPDUSize = clPduSize c,
     ciMaxAmqCalling = clMaxAmqCalling c, ciMaxAmqCalled = clMaxAmqCalled c\<rparr>"

definition Client_PDUSize :: "'c Client \<Rightarrow> int" where
  "Client_PDUSize c = clPduSize c"

section \<open>Facts about references and replies\<close>

lemma nextPDURef_cases:
  "nextPDURef n =
     (if (n + 1) AND 0xFFFF \<noteq> 0 then (ucast ((n + 1) AND 0xFFFF), n + 1)
      else (ucast ((n + 2) AND 0xFFFF), n + 2))"
  using low_half_succ [of "n + 1"]
  by (simp add: nextPDURef.simps [of n] nextPDURef.simps [of "n + 1"] Let_def add.commute [of 2])

lemma ucast_low_half: "unat (ucast ((n :: uint32) AND 0xFFFF) :: uint16) = unat n mod 65536"
  by (simp add: unsigned_ucast_eq unat_low_half take_bit_eq_mod)

text \<open>Choosing a PDU reference ends (the loop skips at most one value of the counter, also
  when the 32-bit counter wraps), never gives the reserved reference 0, and gives the low half
  of the counter it leaves behind.\<close>

lemma nextPDURef_nonzero:
  "fst (nextPDURef n) \<noteq> 0 \<and> unat (fst (nextPDURef n)) = unat (snd (nextPDURef n)) mod 65536 \<and>
   (snd (nextPDURef n) = n + 1 \<or> snd (nextPDURef n) = n + 2)"
proof -
  have "(ucast (k AND 0xFFFF) :: uint16) \<noteq> 0" if "k AND 0xFFFF \<noteq> 0" for k :: uint32
    using that by (metis ucast_low_half unat_low_half unat_eq_0)
  moreover have "(n + 2) AND 0xFFFF \<noteq> 0" if "(n + 1) AND 0xFFFF = 0"
    using low_half_succ [OF that] by (simp add: add.commute [of 2])
  ultimately show ?thesis
    by (auto simp: nextPDURef_cases ucast_low_half)
qed

text \<open>A reply of at most 65535 bytes: the 16-bit sum of the section lengths cannot wrap.\<close>

lemma unat_sum_uint16:
  "unat (a :: uint16) + unat b \<le> 65535 \<Longrightarrow> unat (a + b) = unat a + unat b"
  by (simp add: unat_word_ariths)

lemma ParseS7Header_rest:
  assumes "ParseS7Header data = Ok (h, rest)"
  shows "unat (ParamLength h) + unat (DataLength h) \<le> length rest \<and> length rest \<le> length data"
  using assms
proof (cases rule: ParseS7Header_cases [of data])
  case short
  then show ?thesis using assms by (simp add: ParseS7Header_invalid)
next
  case foreign
  then show ?thesis using assms by (simp add: ParseS7Header_invalid)
next
  case plain
  then show ?thesis using assms by (auto simp: ParseS7Header_plain payload_need_def header_fields_def split: if_splits)
next
  case short_ack
  then show ?thesis using assms by (simp add: ParseS7Header_short_ack)
next
  case ack
  then show ?thesis using assms by (auto simp: ParseS7Header_ack payload_need_def header_fields_def split: if_splits)
qed

lemma ParseS7Header_not_Panic: "ParseS7Header data \<noteq> Panic"
  by (cases rule: ParseS7Header_cases [of data])
    (simp_all add: ParseS7Header_invalid ParseS7Header_plain ParseS7Header_short_ack ParseS7Header_ack)

lemma NewS7ErrorWithParam_Ok: "\<exists>e. NewS7ErrorWithParam c d param = Ok e \<and> as_S7Error e"
proof -
  have "ParamErrorFromParam param \<noteq> Panic \<and> (\<forall>e. ParamErrorFromParam param \<noteq> Err e)"
    by (auto simp: ParamErrorFromParam_def go_simps)
  then obtain p ok where "ParamErrorFromParam param = Ok (p, ok)"
    by (cases "ParamErrorFromParam param") auto
  then show ?thesis by (simp add: NewS7ErrorWithParam_def NewS7Error_def Let_def)
qed

lemma decodeReply_parsed:
  assumes "ParseS7Header s7Data = Ok (h, param @ data)" "PDURef h = ref" "ErrorClass h = 0" "ErrorCode h = 0"
    "unat (ParamLength h) = length param" "unat (DataLength h) = length data"
    "length param + length data \<le> 65535"
  shows "decodeReply s7Data ref = Ok (param, data)"
  using assms unat_sum_uint16 [of "ParamLength h" "DataLength h"]
  by (simp add: decodeReply_def go_slice_def)

lemma take_junk [simp]: "\<exists>junk. xs = take n xs @ junk"
  by (metis append_take_drop_id)

lemma take_take_junk [simp]: "\<exists>junk. xs = take n xs @ take k (drop n xs) @ junk"
  by (metis append_take_drop_id)

lemma decodeReply_facts:
  assumes "length s7Data \<le> 65535"
  shows "case decodeReply s7Data ref of
     Panic \<Rightarrow> False
   | Err e \<Rightarrow> errors_is e ErrProtocolFailure \<or> as_S7Error e
   | Ok (param, data) \<Rightarrow> \<exists>h junk. ParseS7Header s7Data = Ok (h, param @ data @ junk) \<and>
       (ref = 0 \<or> PDURef h = ref) \<and> ErrorClass h = 0 \<and> ErrorCode h = 0 \<and>
       length param = unat (ParamLength h) \<and> length data = unat (DataLength h)"
proof (cases "ParseS7Header s7Data")
  case (Ok hr)
  then obtain h rest where p: "ParseS7Header s7Data = Ok (h, rest)" by (cases hr) auto
  note len = ParseS7Header_rest [OF p]
  then have sum: "unat (ParamLength h + DataLength h) = unat (ParamLength h) + unat (DataLength h)"
    using assms by (intro unat_sum_uint16) simp
  let ?pl = "unat (ParamLength h)"
  obtain e where "NewS7ErrorWithParam (ErrorClass h) (ErrorCode h) (take ?pl rest) = Ok e" "as_S7Error e"
    using NewS7ErrorWithParam_Ok by blast
  moreover obtain e' where "NewS7ErrorWithParam (ErrorClass h) (ErrorCode h) [] = Ok e'" "as_S7Error e'"
    using NewS7ErrorWithParam_Ok by blast
  ultimately show ?thesis
    using len p by (auto simp: decodeReply_def go_slice_def sum Let_def)
next
  case (Err e)
  then show ?thesis by (simp add: decodeReply_def)
next
  case Panic
  then show ?thesis using ParseS7Header_not_Panic by blast
qed

text \<open>C17 A response is taken only when it belongs to the request: for any response of up to
  65535 bytes the decoder does not panic; what it accepts carries the expected PDU reference, no
  header error, and exactly the announced parameter and data sections; what it refuses is
  reported as a protocol failure or as the error the PLC sent.\<close>

theorem decodeReply_correlated:
  assumes "length s7Data \<le> 65535"
  shows "case decodeReply s7Data ref of
     Panic \<Rightarrow> False
   | Err e \<Rightarrow> errors_is e ErrProtocolFailure \<or> as_S7Error e
   | Ok (param, data) \<Rightarrow> \<exists>h junk. ParseS7Header s7Data = Ok (h, param @ data @ junk) \<and>
       (ref = 0 \<or> PDURef h = ref) \<and> ErrorClass h = 0 \<and> ErrorCode h = 0 \<and>
       length param = unat (ParamLength h) \<and> length data = unat (DataLength h)"
  using assms by (rule decodeReply_facts)

theorem decodeReply_correlated_witness:
  "case decodeReply [0x32, 3, 0, 0, 0, 5, 0, 2, 0, 1, 0, 0, 5, 1, 0xFF] 5 of
     Panic \<Rightarrow> False
   | Err e \<Rightarrow> errors_is e ErrProtocolFailure \<or> as_S7Error e
   | Ok (param, data) \<Rightarrow> \<exists>h junk.
       ParseS7Header [0x32, 3, 0, 0, 0, 5, 0, 2, 0, 1, 0, 0, 5, 1, 0xFF] = Ok (h, param @ data @ junk) \<and>
       (5 = (0 :: uint16) \<or> PDURef h = 5) \<and> ErrorClass h = 0 \<and> ErrorCode h = 0 \<and>
       length param = unat (ParamLength h) \<and> length data = unat (DataLength h)"
  by (rule decodeReply_correlated) simp


text \<open>A request is only sent on an open connection and never larger than the negotiated PDU
  size; what \<open>sendReceive\<close> returns is the decoding of the one TSDU read right after the one TSDU
  written, whatever the transport does.\<close>

lemma sendReceive_exchange:
  assumes "sendReceive tr c ctx req ref w = (Ok (param, data), w')"
  shows "\<exists>conn w1 w2 s7Data. clConn c = Some conn \<and>
    (0 < clPduSize c \<longrightarrow> int (length req) \<le> clPduSize c) \<and>
    trWrite tr w ctx conn req = (Ok (), w1) \<and> trCtxErr tr w1 ctx = (Ok (), w2) \<and>
    trRead tr w2 ctx conn = (Ok s7Data, w') \<and> decodeReply s7Data ref = Ok (param, data)"
  using assms
  by (auto simp: sendReceive_def bindW_def split: option.splits if_splits prod.splits res.splits)

text \<open>A transport for concrete runs: every call succeeds and the TSDUs read are the ones listed,
  in order; once they are used up, reading times out.\<close>

definition scripted :: "(bytes list, unit, unit) transport" where
  "scripted = \<lparr>trDial = (\<lambda>w ctx a t. (Ok (), w)), trConnect = (\<lambda>w ctx r l rm n. (Ok (), w)),
     trClose = (\<lambda>w c. (Ok (), w)), trIsErrClosed = (\<lambda>e. False), trWrite = (\<lambda>w ctx c b. (Ok (), w)),
     trRead = (\<lambda>w ctx c. case w of [] \<Rightarrow> (Err (Sentinel DeadlineExceeded), []) | b # bs \<Rightarrow> (Ok b, bs)),
     trCtxErr = (\<lambda>w ctx. (Ok (), w)), trSleep = (\<lambda>w ctx d. (Ok (), w))\<rparr>"

definition demoClient :: "unit Client" where
  "demoClient = (Client_New ''plc'' [])\<lparr>clConn := Some (), clPduSize := 240\<rparr>"

lemma demo_reply:
  "decodeReply [0x32, 3, 0, 0, 0, 5, 0, 2, 0, 1, 0, 0, 5, 1, 0xFF] 5 = Ok ([5, 1], [0xFF])"
  by (simp add: decodeReply_def ParseS7Header_ack payload_need_def header_fields_def be16_def go_slice_def)

section \<open>Facts about connecting\<close>

lemma connectOnce_cases:
  obtains (kept) r w' where "connectOnce tr c ctx rack slot w = (r, c, w')" "r \<noteq> Ok ()"
  | (connected) conn c' w' where "connectOnce tr c ctx rack slot w = (Ok (), c', w')"
      "clConn c' = Some conn" "clHost c' = clHost c" "clOpts c' = clOpts c" "clPduRef c' = clPduRef c"
      "clRack c' = rack" "clSlot c' = slot"
proof (cases "connectOnce tr c ctx rack slot w")
  case (fields r c' w')
  then have "r \<noteq> Ok () \<and> c' = c \<or> (\<exists>conn. r = Ok () \<and> clConn c' = Some conn \<and> clHost c' = clHost c \<and>
      clOpts c' = clOpts c \<and> clPduRef c' = clPduRef c \<and> clRack c' = rack \<and> clSlot c' = slot)"
    by (auto simp: connectOnce_def Let_def split: res.splits prod.splits if_splits)
  with fields that show thesis by blast
qed

lemma connectFirst_cases:
  obtains (kept) r w' where "connectFirst tr ctx failure pairs c w = (r, c, w')" "r \<noteq> Ok ()"
  | (connected) conn rack slot c' w' where "connectFirst tr ctx failure pairs c w = (Ok (), c', w')"
      "clConn c' = Some conn" "clHost c' = clHost c" "clOpts c' = clOpts c" "clPduRef c' = clPduRef c"
      "(rack, slot) \<in> set pairs" "clRack c' = rack" "clSlot c' = slot"
proof (induction pairs arbitrary: w thesis)
  case Nil
  then show ?case by simp
next
  case (Cons p pairs)
  obtain rack slot where p: "p = (rack, slot)" by fastforce
  obtain e w1 where e: "trCtxErr tr w ctx = (e, w1)" by fastforce
  show ?case
  proof (cases e)
    case (Ok u)
    show ?thesis
    proof (cases rule: connectOnce_cases [of tr c ctx rack slot w1])
      case (kept r w')
      show ?thesis
      proof (cases r)
        case (Err e')
        then have eq: "connectFirst tr ctx failure (p # pairs) c w = connectFirst tr ctx failure pairs c w'"
          using kept by (simp add: p e Ok)
        show ?thesis by (rule Cons.IH [of w']) (use Cons.prems eq in auto)
      qed (use Cons.prems kept in \<open>auto simp: p e Ok\<close>)
    next
      case (connected conn c' w')
      then show ?thesis using Cons.prems(2) [of c' w' conn rack slot] by (simp add: p e Ok)
    qed
  qed (use Cons.prems in \<open>auto simp: p e\<close>)
qed

lemma Connect_cases:
  obtains (kept) r w' where "Connect tr c ctx w = (r, c, w')" "r \<noteq> Ok ()"
  | (connected) conn c' w' where "Connect tr c ctx w = (Ok (), c', w')"
      "clConn c' = Some conn" "clHost c' = clHost c" "clOpts c' = clOpts c" "clPduRef c' = clPduRef c"
proof -
  have "(\<exists>e. Connect tr c ctx w = (Err e, c, w)) \<or> Connect tr c ctx w = autoConnect tr c ctx w \<or>
      Connect tr c ctx w = connectOnce tr c ctx (optRack (clOpts c)) (optSlot (clOpts c)) w"
    by (simp add: Connect_def Let_def)
  then consider e where "Connect tr c ctx w = (Err e, c, w)"
    | failure pairs where "Connect tr c ctx w = connectFirst tr ctx failure pairs c w"
    | "Connect tr c ctx w = connectOnce tr c ctx (optRack (clOpts c)) (optSlot (clOpts c)) w"
    unfolding autoConnect_def by metis
  then show thesis
  proof cases
    case 1
    then show thesis using kept by simp
  next
    case 2
    then show thesis
      by (cases rule: connectFirst_cases [of tr ctx failure pairs c w]) (simp_all add: kept connected)
  next
    case 3
    then show thesis
      by (cases rule: connectOnce_cases [of tr c ctx "optRack (clOpts c)" "optSlot (clOpts c)" w])
        (simp_all add: kept connected)
  qed
qed

text \<open>A connect that does not succeed leaves the client as it was, so a failed reconnect does
  not drop a healthy session; one that succeeds leaves an open connection and keeps host,
  options and the PDU reference counter. This holds for every transport and on every path,
  rack and slot detection included.\<close>

lemma Connect_keeps_session:
  "case Connect tr c ctx w of (r, c', w') \<Rightarrow>
     (if r = Ok () then clConn c' \<noteq> None \<and> clHost c' = clHost c \<and> clOpts c' = clOpts c \<and>
        clPduRef c' = clPduRef c
      else c' = c)"
  by (rule Connect_cases [of tr c ctx w]) simp_all

text \<open>After Close the client holds no connection and no negotiated limits, and every exchange
  fails with ErrNotConnected until the next connect, without touching the transport.\<close>

lemma Close_disconnects:
  "case Client_Close tr c w of (_, c', _) \<Rightarrow>
     clConn c' = None \<and> (clConn c = None \<and> c' = c \<or>
       Client_ConnectionInfo c' = \<lparr>ciHost = clHost c, ciPort = optPort (clOpts c), ciLocalTSAP = 0,
         ciRemoteTSAP = 0, ciRack = 0, ciSlot = 0, ciPDUSize = 0, ciMaxAmqCalling = 0, ciMaxAmqCalled = 0\<rparr>) \<and>
     sendReceive tr c' ctx req ref w2 = (Err (Sentinel ErrNotConnected), w2)"
  by (auto simp: Client_Close_def closeConnLocked_def Client_ConnectionInfo_def sendReceive_def Let_def
      split: option.split prod.split)

end
