(* ===== verification/Client_RW.thy ===== *)
theory Client_RW
  imports Client_Core
begin

text \<open>
  Reading and writing areas and single bits (\<^verbatim>\<open>client/readwrite.go\<close>, \<^verbatim>\<open>client/bit.go\<close>), with the
  result type (\<^verbatim>\<open>client/result.go\<close>) and the input checks they use
  (\<^verbatim>\<open>client/validation.go\<close>). A large access is cut into chunks that fit the negotiated PDU size;
  the loop over the chunks is a recursive function on the planned list.
\<close>

section \<open>Results\<close>

datatype ReadStatus =
    ReadStatusSuccess | ReadStatusShortRead | ReadStatusEmptyRead | ReadStatusRejected
  | ReadStatusTimeout | ReadStatusTransportErr | ReadStatusProtocolErr | ReadStatusInconclusive

definition status_text :: "ReadStatus \<Rightarrow> string" where
  "status_text s = (case s of
      ReadStatusSuccess \<Rightarrow> ''success'' | ReadStatusShortRead \<Rightarrow> ''short-read''
    | ReadStatusEmptyRead \<Rightarrow> ''empty-read'' | ReadStatusRejected \<Rightarrow> ''rejected''
    | ReadStatusTimeout \<Rightarrow> ''timeout'' | ReadStatusTransportErr \<Rightarrow> ''transport-error''
    | ReadStatusProtocolErr \<Rightarrow> ''protocol-error'' | ReadStatusInconclusive \<Rightarrow> ''inconclusive'')"

record ReadResult =
  rsStatus :: ReadStatus
  rsRequestedLength :: int
  rsReturnedLength :: int
  rsData :: bytes
  rsWarnings :: "string list"
  rsMessage :: string
  rsCause :: "go_error option"
  rsItemStatus :: string
  rsReturnCode :: byte

definition ReadResult_OK :: "ReadResult option \<Rightarrow> bool" where
  "ReadResult_OK r = (case r of None \<Rightarrow> False | Some r \<Rightarrow> rsStatus r = ReadStatusSuccess)"

text \<open>The error of a result: \<^verbatim>\<open>ReadOutcomeError\<close> has a text and unwraps to the cause, as an
  \<open>Errorf\<close> with that cause does.\<close>

definition ReadResult_Err :: "ReadResult option \<Rightarrow> go_error option" where
  "ReadResult_Err r =
    (case r of
       None \<Rightarrow> Some (Sentinel ErrNilReadResult)
     | Some r \<Rightarrow>
        if rsStatus r = ReadStatusSuccess then None
        else Some (Errorf (if rsMessage r \<noteq> [] then rsMessage r else status_text (rsStatus r))
               (case rsCause r of None \<Rightarrow> [] | Some e \<Rightarrow> [e])))"

definition classifyOpError :: "go_error option \<Rightarrow> ReadStatus" where
  "classifyOpError err =
    (case err of
       None \<Rightarrow> ReadStatusSuccess
     | Some e \<Rightarrow>
        if errors_is e DeadlineExceeded then ReadStatusTimeout
        else if as_net_error e = Some True then ReadStatusTimeout
        else if errors_is e ErrNotConnected then ReadStatusTransportErr
        else if as_S7Error e then ReadStatusRejected
        else if errors_is e ErrShortS7Header \<or> errors_is e ErrInvalidS7ProtocolID \<or>
                errors_is e ErrShortS7AckHeader \<or> errors_is e ErrS7PayloadLength
        then ReadStatusProtocolErr
        else if errors_is e ErrProtocolFailure then ReadStatusProtocolErr
        else if errors_is e ErrRequestExceedsPDU then ReadStatusProtocolErr
        else ReadStatusTransportErr)"

definition newFailedReadResult :: "int \<Rightarrow> go_error option \<Rightarrow> ReadResult" where
  "newFailedReadResult requested err =
     \<lparr>rsStatus = classifyOpError err, rsRequestedLength = requested, rsReturnedLength = 0, rsData = [], rsWarnings = [],
      rsMessage = (case err of None \<Rightarrow> [] | Some e \<Rightarrow> error_text e), rsCause = err,
      rsItemStatus = [], rsReturnCode = 0\<rparr>"

definition ClassifyReadOutcome :: "int \<Rightarrow> int \<Rightarrow> ReadStatus" where
  "ClassifyReadOutcome requested returned =
     (if requested \<le> 0 then ReadStatusSuccess
      else if returned = 0 then ReadStatusEmptyRead
      else if returned < requested then ReadStatusShortRead
      else ReadStatusSuccess)"

section \<open>Addresses and chunks\<close>

record Address =
  adArea :: byte
  adDBNumber :: int
  adStart :: int
  adSize :: int

record BitAddress =
  baArea :: byte
  baDBNumber :: int
  baByteOffset :: int
  baBitOffset :: int

definition Area_String :: "byte \<Rightarrow> string" where
  "Area_String a =
    (if a = AreaInputs then ''I'' else if a = AreaOutputs then ''Q'' else if a = AreaMerkers then ''M''
     else if a = AreaDB then ''DB'' else if a = AreaCounter then ''C'' else if a = AreaTimer then ''T'' else ''?'')"

definition validateAddress :: "Address \<Rightarrow> go_error option" where
  "validateAddress addr =
    (if adStart addr < 0
     then Some (ValidationError (''start offset must be >= 0, got '' @ itoa (adStart addr)))
     else if adSize addr < 0
     then Some (ValidationError (''size must be >= 0, got '' @ itoa (adSize addr)))
     else if adArea addr = AreaDB \<and> adDBNumber addr < 0
     then Some (ValidationError (''DB number must be >= 0, got '' @ itoa (adDBNumber addr)))
     else if adDBNumber addr < 0 \<or> MaxS7AnyDBNumber < adDBNumber addr
     then Some (ValidationError (''DB number must be 0..65535, got '' @ itoa (adDBNumber addr)))
     else if MaxS7AnyByteOffset < adStart addr
     then Some (ValidationError (''start offset must be <= 2097151, got '' @ itoa (adStart addr)))
     else None)"

definition validateRangeEnd :: "int \<Rightarrow> int \<Rightarrow> go_error option" where
  "validateRangeEnd start n =
     (if MaxS7AnyByteOffset + 1 - start < n
      then Some (ValidationError (''range '' @ itoa start @ ''+'' @ itoa n @
             '' ends past the last S7 byte address 2097151''))
      else None)"

definition validateBitAddress :: "BitAddress \<Rightarrow> go_error option" where
  "validateBitAddress addr =
    (if baByteOffset addr < 0
     then Some (ValidationError (''byte offset must be >= 0, got '' @ itoa (baByteOffset addr)))
     else if baBitOffset addr < 0 \<or> 7 < baBitOffset addr
     then Some (ValidationError (''bit offset must be 0..7, got '' @ itoa (baBitOffset addr)))
     else if baArea addr = AreaDB \<and> baDBNumber addr < 0
     then Some (ValidationError (''DB number must be >= 0, got '' @ itoa (baDBNumber addr)))
     else
       (case ValidateS7AnyBitAddress \<lparr>sbArea = 0, sbDBNumber = baDBNumber addr,
               sbByteOffset = baByteOffset addr, sbBitOffset = baBitOffset addr\<rparr> of
          Err e \<Rightarrow> Some (ValidationError (error_text e))
        | _ \<Rightarrow>
           (case ValidateArea (baArea addr) of
              Some e \<Rightarrow> Some (ValidationError (error_text e))
            | None \<Rightarrow> None)))"

text \<open>The loop of \<^verbatim>\<open>planReadChunks\<close>, which calls it with a positive chunk size.\<close>

function cutChunks :: "int \<Rightarrow> int \<Rightarrow> int list" where
  "cutChunks remaining maxChunk =
     (if 0 < remaining \<and> 0 < maxChunk
      then let n = min remaining maxChunk in n # cutChunks (remaining - n) maxChunk
      else [])"
  by pat_completeness auto
termination
  by (relation "measure (\<lambda>(r, m). nat r)") auto

declare cutChunks.simps [simp del]

definition planReadChunks :: "int \<Rightarrow> int \<Rightarrow> int list" where
  "planReadChunks len maxChunk =
     (if len \<le> 0 then [] else cutChunks len (if maxChunk \<le> 0 then len else maxChunk))"

section \<open>Reading an area\<close>

text \<open>The result after the last chunk, and the result of a read that stops early with the bytes
  it has.\<close>

definition finishRead :: "int \<Rightarrow> bytes \<Rightarrow> ReadResult" where
  "finishRead reqLen result =
    (let status = ClassifyReadOutcome reqLen (int (length result)) in
     \<lparr>rsStatus = status, rsRequestedLength = reqLen, rsReturnedLength = int (length result),
      rsData = result, rsWarnings = [],
      rsMessage =
        (if status = ReadStatusEmptyRead then ''target returned no data for requested range''
         else if status = ReadStatusShortRead
         then ''short read: requested '' @ itoa reqLen @ '', got '' @ utoa (length result)
         else []),
      rsCause = None, rsItemStatus = [], rsReturnCode = 0\<rparr>)"

definition stopRead :: "int \<Rightarrow> bytes \<Rightarrow> ReadStatus \<Rightarrow> string \<Rightarrow> ReadResult" where
  "stopRead reqLen result status message =
     \<lparr>rsStatus = status, rsRequestedLength = reqLen, rsReturnedLength = int (length result),
      rsData = result, rsWarnings = [], rsMessage = message, rsCause = None, rsItemStatus = [], rsReturnCode = 0\<rparr>"

text \<open>What one response adds to the bytes read: \<open>Inl\<close> is the early return.\<close>

definition readItem :: "int \<Rightarrow> int \<Rightarrow> bytes \<Rightarrow> bytes \<Rightarrow> bytes \<Rightarrow> (ReadResult + bytes) res" where
  "readItem reqLen chunkSize result param data =
    (case ParseReadVarResponse param data of
       Panic \<Rightarrow> Panic
     | Err e \<Rightarrow> Ok (Inl (stopRead reqLen result ReadStatusProtocolErr (error_text e)))
     | Ok items \<Rightarrow>
       if length items = 0 then Ok (Inl (stopRead reqLen result ReadStatusEmptyRead ''no data returned'')) else
       bindR (idx items 0) (\<lambda>item.
       case ReturnCodeError (ReturnCode item) of
         Some e \<Rightarrow>
           Ok (Inl ((stopRead reqLen result ReadStatusRejected (error_text e))
             \<lparr>rsReturnCode := ReturnCode item, rsItemStatus := ItemReturnCodeString (ReturnCode item)\<rparr>))
       | None \<Rightarrow>
         if chunkSize < int (length (Data item)) then
           (let message = ''item returned '' @ utoa (length (Data item)) @ '' bytes for '' @
                  itoa chunkSize @ '' requested'' in
            Ok (Inl ((stopRead reqLen result ReadStatusProtocolErr message)
              \<lparr>rsCause := Some (wrap_error message (Sentinel ErrProtocolFailure))\<rparr>)))
         else Ok (Inr (result @ Data item))))"

text \<open>The wait between chunks when a rate limit is set.\<close>

definition ratePause :: "('w, 'r, 'c) transport \<Rightarrow> 'c Client \<Rightarrow> go_ctx \<Rightarrow> bool \<Rightarrow> 'w \<Rightarrow> unit res \<times> 'w" where
  "ratePause tr c ctx firstChunk w =
     bindW (trCtxErr tr w ctx) (\<lambda>_ w.
     if 0 < optRateLimit (clOpts c) \<and> \<not> firstChunk then trSleep tr w ctx (optRateLimit (clOpts c))
     else (Ok (), w))"

fun readChunks :: "('w, 'r, 'c) transport \<Rightarrow> go_ctx \<Rightarrow> Address \<Rightarrow> int \<Rightarrow> int list \<Rightarrow> bool \<Rightarrow> int \<Rightarrow> bytes \<Rightarrow>
    'c Client \<Rightarrow> 'w \<Rightarrow> ReadResult res \<times> 'c Client \<times> 'w" where
  "readChunks tr ctx addr reqLen [] firstChunk offset result c w = (Ok (finishRead reqLen result), c, w)"
| "readChunks tr ctx addr reqLen (chunkSize # chunks) firstChunk offset result c w =
    (case ratePause tr c ctx firstChunk w of
       (Panic, w) \<Rightarrow> (Panic, c, w)
     | (Err e, w) \<Rightarrow> (Ok (newFailedReadResult reqLen (Some e)), c, w)
     | (Ok _, w) \<Rightarrow>
    (let (ref, c) = fresh_ref c in
     case EncodeReadVarRequest ref [\<lparr>saArea = adArea addr, saDBNumber = adDBNumber addr,
            saStart = offset, saSize = chunkSize\<rparr>] of
       Panic \<Rightarrow> (Panic, c, w)
     | Err e \<Rightarrow> (Err (ValidationError (error_text e)), c, w)
     | Ok req \<Rightarrow>
    (case sendReceive tr c ctx req ref w of
       (Panic, w) \<Rightarrow> (Panic, c, w)
     | (Err e, w) \<Rightarrow> (Ok (newFailedReadResult reqLen (Some e)), c, w)
     | (Ok (param, data), w) \<Rightarrow>
    (case readItem reqLen chunkSize result param data of
       Panic \<Rightarrow> (Panic, c, w)
     | Err e \<Rightarrow> (Err e, c, w)
     | Ok (Inl res) \<Rightarrow> (Ok res, c, w)
     | Ok (Inr result) \<Rightarrow>
         readChunks tr ctx addr reqLen chunks False (offset + chunkSize) result c w))))"

definition ReadArea :: "('w, 'r, 'c) transport \<Rightarrow> 'c Client \<Rightarrow> go_ctx \<Rightarrow> Address \<Rightarrow> 'w \<Rightarrow>
    ReadResult res \<times> 'c Client \<times> 'w" where
  "ReadArea tr c ctx addr w =
    (case validateAddress addr of
       Some e \<Rightarrow> (Err e, c, w)
     | None \<Rightarrow>
    (case validateRangeEnd (adStart addr) (adSize addr) of
       Some e \<Rightarrow> (Err e, c, w)
     | None \<Rightarrow>
       (let reqLen = max (adSize addr) 0;
            maxData = clPduSize c - int ReadVarRequestOverhead;
            maxData = (if maxData < 1 then 200 else maxData) in
        readChunks tr ctx addr reqLen (planReadChunks (adSize addr) maxData) True (adStart addr) [] c w)))"

section \<open>Writing an area\<close>

fun writeChunks :: "('w, 'r, 'c) transport \<Rightarrow> go_ctx \<Rightarrow> Address \<Rightarrow> bytes \<Rightarrow> int list \<Rightarrow> bool \<Rightarrow> int \<Rightarrow>
    'c Client \<Rightarrow> 'w \<Rightarrow> unit res \<times> 'c Client \<times> 'w" where
  "writeChunks tr ctx addr data [] firstChunk offset c w = (Ok (), c, w)"
| "writeChunks tr ctx addr data (chunkSize # chunks) firstChunk offset c w =
    (case ratePause tr c ctx firstChunk w of
       (Panic, w) \<Rightarrow> (Panic, c, w)
     | (Err e, w) \<Rightarrow> (Err e, c, w)
     | (Ok _, w) \<Rightarrow>
    (case go_slice data (nat offset) (nat (offset + chunkSize)) of
       Panic \<Rightarrow> (Panic, c, w)
     | Err e \<Rightarrow> (Err e, c, w)
     | Ok chunk \<Rightarrow>
    (let (ref, c) = fresh_ref c in
     case EncodeWriteVarRequest ref \<lparr>saArea = adArea addr, saDBNumber = adDBNumber addr,
            saStart = adStart addr + offset, saSize = int (length chunk)\<rparr> chunk of
       Panic \<Rightarrow> (Panic, c, w)
     | Err e \<Rightarrow> (Err (ValidationError (error_text e)), c, w)
     | Ok req \<Rightarrow>
    (case sendReceive tr c ctx req ref w of
       (Panic, w) \<Rightarrow> (Panic, c, w)
     | (Err e, w) \<Rightarrow> (Err e, c, w)
     | (Ok (param, respData), w) \<Rightarrow>
    (case ParseWriteVarResponse param respData of
       Panic \<Rightarrow> (Panic, c, w)
     | Err e \<Rightarrow> (Err e, c, w)
     | Ok _ \<Rightarrow> writeChunks tr ctx addr data chunks False (offset + chunkSize) c w)))))"

definition WriteArea :: "('w, 'r, 'c) transport \<Rightarrow> 'c Client \<Rightarrow> go_ctx \<Rightarrow> Address \<Rightarrow> bytes \<Rightarrow> 'w \<Rightarrow>
    unit res \<times> 'c Client \<times> 'w" where
  "WriteArea tr c ctx addr data w =
    (case validateAddress addr of
       Some e \<Rightarrow> (Err e, c, w)
     | None \<Rightarrow>
    (case validateRangeEnd (adStart addr) (int (length data)) of
       Some e \<Rightarrow> (Err e, c, w)
     | None \<Rightarrow>
    (case trCtxErr tr w ctx of
       (Panic, w) \<Rightarrow> (Panic, c, w)
     | (Err e, w) \<Rightarrow> (Err e, c, w)
     | (Ok _, w) \<Rightarrow>
       (let maxPayload = clPduSize c - int WriteVarRequestOverhead;
            maxPayload = (if maxPayload < 1 then 200 else maxPayload) in
        writeChunks tr ctx addr data (planReadChunks (int (length data)) maxPayload) True 0 c w))))"

section \<open>Convenience entry points\<close>

definition ReadDB :: "('w, 'r, 'c) transport \<Rightarrow> 'c Client \<Rightarrow> go_ctx \<Rightarrow> int \<Rightarrow> int \<Rightarrow> int \<Rightarrow> 'w \<Rightarrow>
    ReadResult res \<times> 'c Client \<times> 'w" where
  "ReadDB tr c ctx dbNum offset sz =
     ReadArea tr c ctx \<lparr>adArea = AreaDB, adDBNumber = dbNum, adStart = offset, adSize = sz\<rparr>"

definition WriteDB :: "('w, 'r, 'c) transport \<Rightarrow> 'c Client \<Rightarrow> go_ctx \<Rightarrow> int \<Rightarrow> int \<Rightarrow> bytes \<Rightarrow> 'w \<Rightarrow>
    unit res \<times> 'c Client \<times> 'w" where
  "WriteDB tr c ctx dbNum offset data =
     WriteArea tr c ctx \<lparr>adArea = AreaDB, adDBNumber = dbNum, adStart = offset, adSize = int (length data)\<rparr> data"

definition ReadInputs :: "('w, 'r, 'c) transport \<Rightarrow> 'c Client \<Rightarrow> go_ctx \<Rightarrow> int \<Rightarrow> int \<Rightarrow> 'w \<Rightarrow>
    ReadResult res \<times> 'c Client \<times> 'w" where
  "ReadInputs tr c ctx offset sz =
     ReadArea tr c ctx \<lparr>adArea = AreaInputs, adDBNumber = 0, adStart = offset, adSize = sz\<rparr>"

definition ReadOutputs :: "('w, 'r, 'c) transport \<Rightarrow> 'c Client \<Rightarrow> go_ctx \<Rightarrow> int \<Rightarrow> int \<Rightarrow> 'w \<Rightarrow>
    ReadResult res \<times> 'c Client \<times> 'w" where
  "ReadOutputs tr c ctx offset sz =
     ReadArea tr c ctx \<lparr>adArea = AreaOutputs, adDBNumber = 0, adStart = offset, adSize = sz\<rparr>"

definition ReadMerkers :: "('w, 'r, 'c) transport \<Rightarrow> 'c Client \<Rightarrow> go_ctx \<Rightarrow> int \<Rightarrow> int \<Rightarrow> 'w \<Rightarrow>
    ReadResult res \<times> 'c Client \<times> 'w" where
  "ReadMerkers tr c ctx offset sz =
     ReadArea tr c ctx \<lparr>adArea = AreaMerkers, adDBNumber = 0, adStart = offset, adSize = sz\<rparr>"

section \<open>Single bits\<close>

definition bitAddr :: "BitAddress \<Rightarrow> S7AnyBitAddress" where
  "bitAddr addr = \<lparr>sbArea = baArea addr, sbDBNumber = baDBNumber addr,
     sbByteOffset = baByteOffset addr, sbBitOffset = baBitOffset addr\<rparr>"

definition bitReply :: "bytes \<Rightarrow> bytes \<Rightarrow> bool res" where
  "bitReply param data =
    (case ParseReadVarResponse param data of
       Panic \<Rightarrow> Panic
     | Err e \<Rightarrow> Err (wrap_error ''parse bit read response'' (Join [e, Sentinel ErrProtocolFailure]))
     | Ok items \<Rightarrow>
       if length items \<noteq> 1
       then Err (wrap_error (''bit read: expected 1 item, got '' @ utoa (length items))
              (Sentinel ErrProtocolFailure)) else
       bindR (idx items 0) (\<lambda>item.
       case ReturnCodeError (ReturnCode item) of
         Some e \<Rightarrow> Err e
       | None \<Rightarrow>
          (case DecodeAsBit item of
             Err e \<Rightarrow> Err (wrap_error ''decode bit'' (Join [e, Sentinel ErrProtocolFailure]))
           | r \<Rightarrow> r)))"

definition ReadBit :: "('w, 'r, 'c) transport \<Rightarrow> 'c Client \<Rightarrow> go_ctx \<Rightarrow> BitAddress \<Rightarrow> 'w \<Rightarrow>
    bool res \<times> 'c Client \<times> 'w" where
  "ReadBit tr c ctx addr w =
    (case validateBitAddress addr of
       Some e \<Rightarrow> (Err e, c, w)
     | None \<Rightarrow>
       if clConn c = None then (Err (Sentinel ErrNotConnected), c, w) else
    (case trCtxErr tr w ctx of
       (Panic, w) \<Rightarrow> (Panic, c, w)
     | (Err e, w) \<Rightarrow> (Err e, c, w)
     | (Ok _, w) \<Rightarrow>
    (let (ref, c) = fresh_ref c in
     case EncodeReadVarBitRequest ref (bitAddr addr) of
       Panic \<Rightarrow> (Panic, c, w)
     | Err e \<Rightarrow> (Err (ValidationError (error_text e)), c, w)
     | Ok req \<Rightarrow>
    (case sendReceive tr c ctx req ref w of
       (Panic, w) \<Rightarrow> (Panic, c, w)
     | (Err e, w) \<Rightarrow> (Err e, c, w)
     | (Ok (param, data), w) \<Rightarrow> (bitReply param data, c, w)))))"

definition WriteBit :: "('w, 'r, 'c) transport \<Rightarrow> 'c Client \<Rightarrow> go_ctx \<Rightarrow> BitAddress \<Rightarrow> bool \<Rightarrow> 'w \<Rightarrow>
    unit res \<times> 'c Client \<times> 'w" where
  "WriteBit tr c ctx addr v w =
    (case validateBitAddress addr of
       Some e \<Rightarrow> (Err e, c, w)
     | None \<Rightarrow>
       if clConn c = None then (Err (Sentinel ErrNotConnected), c, w) else
    (case trCtxErr tr w ctx of
       (Panic, w) \<Rightarrow> (Panic, c, w)
     | (Err e, w) \<Rightarrow> (Err e, c, w)
     | (Ok _, w) \<Rightarrow>
    (let (ref, c) = fresh_ref c in
     case EncodeWriteVarBitRequest ref (bitAddr addr) v of
       Panic \<Rightarrow> (Panic, c, w)
     | Err e \<Rightarrow> (Err (ValidationError (error_text e)), c, w)
     | Ok req \<Rightarrow>
    (case sendReceive tr c ctx req ref w of
       (Panic, w) \<Rightarrow> (Panic, c, w)
     | (Err e, w) \<Rightarrow> (Err e, c, w)
     | (Ok (param, respData), w) \<Rightarrow> (ParseWriteVarResponse param respData, c, w)))))"

definition ReadDBBit :: "('w, 'r, 'c) transport \<Rightarrow> 'c Client \<Rightarrow> go_ctx \<Rightarrow> int \<Rightarrow> int \<Rightarrow> int \<Rightarrow> 'w \<Rightarrow>
    bool res \<times> 'c Client \<times> 'w" where
  "ReadDBBit tr c ctx dbNumber byteOffset bitOffset =
     ReadBit tr c ctx \<lparr>baArea = AreaDB, baDBNumber = dbNumber, baByteOffset = byteOffset,
       baBitOffset = bitOffset\<rparr>"

definition WriteDBBit :: "('w, 'r, 'c) transport \<Rightarrow> 'c Client \<Rightarrow> go_ctx \<Rightarrow> int \<Rightarrow> int \<Rightarrow> int \<Rightarrow> bool \<Rightarrow> 'w \<Rightarrow>
    unit res \<times> 'c Client \<times> 'w" where
  "WriteDBBit tr c ctx dbNumber byteOffset bitOffset v =
     WriteBit tr c ctx \<lparr>baArea = AreaDB, baDBNumber = dbNumber, baByteOffset = byteOffset,
       baBitOffset = bitOffset\<rparr> v"

section \<open>Facts about chunks\<close>

lemma cutChunks_Nil [simp]: "n \<le> 0 \<Longrightarrow> cutChunks n k = []"
  by (simp add: cutChunks.simps)

lemma cutChunks_Cons:
  "0 < n \<Longrightarrow> 0 < k \<Longrightarrow> cutChunks n k = min n k # cutChunks (n - min n k) k"
  by (subst cutChunks.simps) (simp add: Let_def)

lemma cutChunks_props:
  assumes "0 < k"
  shows "sum_list (cutChunks n k) = max n 0 \<and> (\<forall>x \<in> set (cutChunks n k). 1 \<le> x \<and> x \<le> k) \<and>
    int (length (cutChunks n k)) = (max n 0 + k - 1) div k"
  using assms
proof (induction n k rule: cutChunks.induct)
  case (1 n k)
  show ?case
  proof (cases "0 < n")
    case False
    with 1 show ?thesis by simp
  next
    case True
    note IH = 1(1) [OF conjI [OF True 1(2)] refl 1(2)] and eq = cutChunks_Cons [OF True 1(2)]
    have len: "int (length (cutChunks n k)) = (n + k - 1) div k"
    proof (cases "n \<le> k")
      case small: True
      then have "(n + k - 1) div k = 1"
        using True div_pos_geq [of k "n + k - 1"] by simp
      then show ?thesis unfolding eq using small True by simp
    next
      case False
      then have "(n + k - 1) div k = 1 + (n - k + k - 1) div k"
        using 1(2) div_pos_geq [of k "n + k - 1"] by simp
      then show ?thesis unfolding eq using IH False by simp
    qed
    have "sum_list (cutChunks n k) = n" unfolding eq using IH [THEN conjunct1] True by simp
    moreover have "\<forall>x \<in> set (cutChunks n k). 1 \<le> x \<and> x \<le> k"
    proof
      fix x
      assume "x \<in> set (cutChunks n k)"
      then have "x = min n k \<or> x \<in> set (cutChunks (n - min n k) k)" unfolding eq by simp
      then show "1 \<le> x \<and> x \<le> k"
        using IH [THEN conjunct2, THEN conjunct1] True 1(2) by (metis int_one_le_iff_zero_less min.cobounded2 min_less_iff_conj)
    qed
    ultimately show ?thesis using len True by simp
  qed
qed

text \<open>The chunk plan of a read or write covers the requested bytes exactly: the sizes add up
  to the total, every chunk holds at least one byte and at most the maximum, and there are no
  more chunks than needed; nothing is planned for a total of zero or less.\<close>

lemma planReadChunks_exact:
  "sum_list (planReadChunks n k) = max n 0 \<and>
   list_all (\<lambda>x. 1 \<le> x \<and> (x \<le> k \<or> k \<le> 0 \<and> x = n)) (planReadChunks n k) \<and>
   int (length (planReadChunks n k)) =
     (if n \<le> 0 then 0 else if k \<le> 0 then 1 else (n + k - 1) div k)"
proof (cases "0 < n")
  case True
  then have "cutChunks n n = [n]" using cutChunks_Cons [of n n] by simp
  with True show ?thesis
    using cutChunks_props [of k n] by (cases "0 < k") (simp_all add: planReadChunks_def list_all_iff)
qed (simp add: planReadChunks_def)

section \<open>Facts about reads\<close>

text \<open>A transport that returns from every call and delivers no TSDU above 65535 bytes.\<close>

definition well_behaved :: "('w, 'r, 'c) transport \<Rightarrow> bool" where
  "well_behaved tr \<longleftrightarrow>
     (\<forall>w ctx c b. fst (trWrite tr w ctx c b) \<noteq> Panic) \<and> (\<forall>w ctx. fst (trCtxErr tr w ctx) \<noteq> Panic) \<and>
     (\<forall>w ctx d. fst (trSleep tr w ctx d) \<noteq> Panic) \<and>
     (\<forall>w ctx c. case fst (trRead tr w ctx c) of Panic \<Rightarrow> False | Err _ \<Rightarrow> True | Ok d \<Rightarrow> length d \<le> 65535)"

lemma bindW_not_Panic:
  "fst m \<noteq> Panic \<Longrightarrow> (\<And>x w. m = (Ok x, w) \<Longrightarrow> fst (f x w) \<noteq> Panic) \<Longrightarrow> fst (bindW m f) \<noteq> Panic"
  by (cases m; cases "fst m") auto

lemma decodeReply_not_Panic: "length d \<le> 65535 \<Longrightarrow> decodeReply d ref \<noteq> Panic"
  using decodeReply_facts [of d ref] by (auto split: res.splits)

lemma well_behaved_read:
  assumes "well_behaved tr"
  shows "fst (trRead tr w ctx c) \<noteq> Panic" "trRead tr w ctx c = (Ok d, w') \<Longrightarrow> length d \<le> 65535"
proof -
  have "case fst (trRead tr w ctx c) of Panic \<Rightarrow> False | Err _ \<Rightarrow> True | Ok d \<Rightarrow> length d \<le> 65535"
    using assms unfolding well_behaved_def by blast
  then show "fst (trRead tr w ctx c) \<noteq> Panic" "trRead tr w ctx c = (Ok d, w') \<Longrightarrow> length d \<le> 65535"
    by (auto split: res.splits)
qed

lemma well_behaved_steps:
  assumes "well_behaved tr"
  shows "fst (trWrite tr w ctx c b) \<noteq> Panic" "fst (trCtxErr tr w ctx) \<noteq> Panic" "fst (trSleep tr w ctx d) \<noteq> Panic"
  using assms unfolding well_behaved_def by blast+

lemma sendReceive_not_Panic:
  assumes "well_behaved tr"
  shows "fst (sendReceive tr c ctx req ref w) \<noteq> Panic"
proof (cases "clConn c")
  case (Some conn)
  have "fst (bindW (trWrite tr w ctx conn req) (\<lambda>_ w. bindW (trCtxErr tr w ctx) (\<lambda>_ w.
         bindW (trRead tr w ctx conn) (\<lambda>s7Data w. (decodeReply s7Data ref, w))))) \<noteq> Panic"
    by (intro bindW_not_Panic well_behaved_steps [OF assms] well_behaved_read(1) [OF assms])
      (simp add: decodeReply_not_Panic well_behaved_read(2) [OF assms])
  then show ?thesis using Some by (simp add: sendReceive_def)
qed (simp add: sendReceive_def)

lemma ratePause_not_Panic:
  assumes "well_behaved tr"
  shows "fst (ratePause tr c ctx first w) \<noteq> Panic"
  unfolding ratePause_def
  by (intro bindW_not_Panic well_behaved_steps [OF assms]) (simp add: well_behaved_steps [OF assms])

definition read_sound :: "int \<Rightarrow> ReadResult \<Rightarrow> bool" where
  "read_sound reqLen r \<longleftrightarrow> rsRequestedLength r = reqLen \<and> rsReturnedLength r = int (length (rsData r)) \<and>
     rsReturnedLength r \<le> reqLen \<and> (rsStatus r = ReadStatusSuccess \<longrightarrow> rsReturnedLength r = reqLen)"

lemma finishRead_sound: "0 \<le> n \<Longrightarrow> int (length xs) \<le> n \<Longrightarrow> read_sound n (finishRead n xs)"
  by (auto simp: read_sound_def finishRead_def ClassifyReadOutcome_def Let_def split: if_splits)

lemma newFailedReadResult_sound: "0 \<le> n \<Longrightarrow> read_sound n (newFailedReadResult n (Some e))"
  by (simp add: read_sound_def newFailedReadResult_def classifyOpError_def)

lemma ParseReadVarResponse_not_Panic [simp]: "ParseReadVarResponse param data \<noteq> Panic"
  by (simp add: ParseReadVarResponse_def go_simps)

lemma stopRead_simps [simp]:
  "rsStatus (stopRead n xs st msg) = st" "rsRequestedLength (stopRead n xs st msg) = n"
  "rsReturnedLength (stopRead n xs st msg) = int (length xs)" "rsData (stopRead n xs st msg) = xs"
  by (simp_all add: stopRead_def)

lemma readItem_cases:
  "(\<exists>r. readItem n k xs param data = Ok (Inl r) \<and> rsStatus r \<noteq> ReadStatusSuccess \<and>
      rsRequestedLength r = n \<and> rsReturnedLength r = int (length xs) \<and> rsData r = xs) \<or>
   (\<exists>d. readItem n k xs param data = Ok (Inr (xs @ d)) \<and> int (length d) \<le> k)"
proof (cases "ParseReadVarResponse param data")
  case (Ok items)
  show ?thesis
  proof (cases items)
    case Nil
    then show ?thesis using Ok by (simp add: readItem_def)
  next
    case (Cons item rest)
    then have i: "idx items 0 = Ok item" "length items \<noteq> 0" by (simp_all add: idx_def)
    show ?thesis
    proof (cases "ReturnCodeError (ReturnCode item)")
      case (Some e)
      then show ?thesis using Ok i by (simp add: readItem_def)
    next
      case None
      then show ?thesis using Ok i by (cases "k < int (length (Data item))") (simp_all add: readItem_def Let_def)
    qed
  qed
next
  case (Err e)
  then show ?thesis by (simp add: readItem_def)
qed simp

lemma readItem_sound:
  assumes "readItem n k xs param data = Ok (Inl r)" "int (length xs) \<le> n"
  shows "read_sound n r"
  using readItem_cases [of n k xs param data] assms by (auto simp: read_sound_def)

lemma EncodeReadVarRequest_not_Panic [simp]: "EncodeReadVarRequest ref [addr] \<noteq> Panic"
  by (simp add: EncodeReadVarRequest_def EncodeS7Any_def bindR_eq_Panic encodeMessage_def EncodeS7Header_def
      checkedUint16_def)

lemma readChunks_sound:
  assumes "well_behaved tr" "0 \<le> n" "\<forall>k \<in> set chunks. 0 \<le> k" "int (length xs) + sum_list chunks \<le> n"
  shows "(\<exists>m c' w'. readChunks tr ctx addr n chunks first offset xs c w = (Err (ValidationError m), c', w')) \<or>
    (\<exists>r c' w'. readChunks tr ctx addr n chunks first offset xs c w = (Ok r, c', w') \<and> read_sound n r)"
  using assms
proof (induction chunks arbitrary: first offset xs c w)
  case Nil
  then show ?case by (simp add: finishRead_sound)
next
  case (Cons k chunks)
  obtain p w1 where p: "ratePause tr c ctx first w = (p, w1)" by fastforce
  have "p \<noteq> Panic" using ratePause_not_Panic [OF Cons.prems(1), of c ctx first w] p by simp
  obtain ref c1 where ref: "fresh_ref c = (ref, c1)" by fastforce
  let ?a = "\<lparr>saArea = adArea addr, saDBNumber = adDBNumber addr, saStart = offset, saSize = k\<rparr>"
  show ?case
  proof (cases p)
    case (Err e)
    then show ?thesis using Cons.prems(2) by (simp add: p newFailedReadResult_sound)
  next
    case (Ok u)
    show ?thesis
    proof (cases "EncodeReadVarRequest ref [?a]")
      case (Err e)
      then show ?thesis by (simp add: p Ok ref)
    next
      case req: (Ok req)
      obtain s w2 where s: "sendReceive tr c1 ctx req ref w1 = (s, w2)" by fastforce
      have "s \<noteq> Panic" using sendReceive_not_Panic [OF Cons.prems(1), of c1 ctx req ref w1] s by simp
      show ?thesis
      proof (cases s)
        case (Err e)
        then show ?thesis using Cons.prems(2) by (simp add: p Ok ref req s newFailedReadResult_sound)
      next
        case pd: (Ok pd)
        obtain param data where [simp]: "pd = (param, data)" by fastforce
        have nonneg: "0 \<le> sum_list chunks" using Cons.prems(3) by (intro sum_list_nonneg) simp
        from readItem_cases [of n k xs param data] show ?thesis
        proof (elim disjE exE conjE)
          fix r
          assume r: "readItem n k xs param data = Ok (Inl r)"
          have "int (length xs) \<le> n" using Cons.prems(3,4) nonneg by simp
          with readItem_sound [OF r] show ?thesis by (simp add: p Ok ref req s pd r)
        next
          fix d
          assume r: "readItem n k xs param data = Ok (Inr (xs @ d))" and d: "int (length d) \<le> k"
          have "int (length (xs @ d)) + sum_list chunks \<le> n" using Cons.prems(4) d by simp
          with Cons.IH [OF Cons.prems(1,2), of "xs @ d" False "offset + k" c1 w2] Cons.prems(3)
          show ?thesis by (simp add: p Ok ref req s pd r)
        qed
      qed (use \<open>s \<noteq> Panic\<close> in simp)
    qed simp
  qed (use \<open>p \<noteq> Panic\<close> in simp)
qed

text \<open>The text of an area tells the areas with a text apart.\<close>

lemma Area_String_inj: "Area_String a = Area_String b \<Longrightarrow> Area_String a \<noteq> ''?'' \<Longrightarrow> a = b"
  by (auto simp: Area_String_def split: if_splits)

lemma validateAddress_eq_None:
  "validateAddress addr = None \<longleftrightarrow> 0 \<le> adStart addr \<and> adStart addr \<le> MaxS7AnyByteOffset \<and>
     0 \<le> adSize addr \<and> 0 \<le> adDBNumber addr \<and> adDBNumber addr \<le> MaxS7AnyDBNumber"
  by (auto simp: validateAddress_def)

lemma planReadChunks_props:
  "sum_list (planReadChunks n k) = max n 0" "x \<in> set (planReadChunks n k) \<Longrightarrow> 0 < x"
proof -
  have "cutChunks n n = [n]" if "0 < n" using that cutChunks_Cons [of n n] by simp
  then show "sum_list (planReadChunks n k) = max n 0" "x \<in> set (planReadChunks n k) \<Longrightarrow> 0 < x"
    using cutChunks_props [of k n] by (cases "0 < n"; cases "0 < k"; force simp: planReadChunks_def)+
qed

lemma ReadArea_facts:
  assumes "well_behaved tr"
  shows "case ReadArea tr c ctx addr w of (res, c', w') \<Rightarrow>
    (case res of Ok r \<Rightarrow> read_sound (adSize addr) r | Err e \<Rightarrow> (\<exists>m. e = ValidationError m) | Panic \<Rightarrow> False)"
proof (cases "validateAddress addr = None \<and> validateRangeEnd (adStart addr) (adSize addr) = None")
  case True
  then have n: "0 \<le> adSize addr" "max (adSize addr) 0 = adSize addr" by (simp_all add: validateAddress_eq_None)
  obtain first k where "ReadArea tr c ctx addr w =
      readChunks tr ctx addr (adSize addr) (planReadChunks (adSize addr) k) first (adStart addr) [] c w"
    using True n by (auto simp: ReadArea_def Let_def)
  moreover have "\<forall>x \<in> set (planReadChunks (adSize addr) k). 0 \<le> x"
    using planReadChunks_props(2) [of _ "adSize addr" k] by (simp add: less_imp_le)
  moreover have "int (length []) + sum_list (planReadChunks (adSize addr) k) \<le> adSize addr"
    using planReadChunks_props(1) [of "adSize addr" k] n by simp
  ultimately show ?thesis
    using readChunks_sound [OF assms n(1), of "planReadChunks (adSize addr) k" "[]" ctx addr first "adStart addr" c w]
    by auto
next
  case False
  then show ?thesis by (auto simp: ReadArea_def validateAddress_def validateRangeEnd_def)
qed


lemma scripted_well_behaved: "well_behaved (scripted\<lparr>trRead := \<lambda>w ctx c. (Ok [], w)\<rparr>)"
  by (simp add: well_behaved_def scripted_def)


lemma planReadChunks_max: "0 < k \<Longrightarrow> x \<in> set (planReadChunks n k) \<Longrightarrow> 1 \<le> x \<and> x \<le> k"
  using cutChunks_props [of k n] by (cases "0 < n") (auto simp: planReadChunks_def)

lemma EncodeReadVarRequest_total:
  assumes "0 \<le> saDBNumber a" "saDBNumber a \<le> MaxS7AnyDBNumber" "0 \<le> saStart a" "saStart a \<le> MaxS7AnyByteOffset"
    "0 \<le> saSize a" "saSize a \<le> MaxS7AnyCount"
  shows "\<exists>req. EncodeReadVarRequest ref [a] = Ok req \<and> length req = 24"
  using assms by (simp add: EncodeReadVarRequest_def EncodeS7Any_def encodeMessage_def EncodeS7Header_def
      checkedUint16_def Let_def length_putS7Any)

lemma EncodeWriteVarRequest_total:
  assumes "0 \<le> saDBNumber a" "saDBNumber a \<le> MaxS7AnyDBNumber" "0 \<le> saStart a" "saStart a \<le> MaxS7AnyByteOffset"
    "saSize a = int (length v)" "length v \<le> MaxWriteVarBytes"
  shows "\<exists>req. EncodeWriteVarRequest ref a v = Ok req \<and> length req = 28 + length v + length v mod 2"
proof -
  have "\<exists>req. EncodeWriteVarRequest ref a v = Ok req"
    using assms by (simp add: EncodeWriteVarRequest_def EncodeS7Any_def encodeMessage_def EncodeS7Header_def
        checkedUint16_def Let_def length_putS7Any)
  then obtain req where req: "EncodeWriteVarRequest ref a v = Ok req" ..
  then have "length req = 28 + length v + length v mod 2"
    by (rule EncodeWriteVarRequest_job) (simp add: encodeMessage_eq_Ok)
  with req show ?thesis by blast
qed

lemma writeChunks_odd:
  assumes "clConn c = Some conn" "clPduSize c = int (k + 28)" "odd k" "k \<le> 8191" "k \<le> length data"
    "0 \<le> adStart addr" "adStart addr \<le> MaxS7AnyByteOffset" "0 \<le> adDBNumber addr"
    "adDBNumber addr \<le> MaxS7AnyDBNumber" "trCtxErr tr w ctx = (Ok (), w1)"
  shows "\<exists>c'. writeChunks tr ctx addr data (int k # chunks) True 0 c w =
    (Err (wrap_error (''request size '' @ utoa (k + 29) @ '' exceeds negotiated PDU size '' @ itoa (int (k + 28)))
       (Sentinel ErrRequestExceedsPDU)), c', w1)"
proof -
  obtain ref c1 where ref: "fresh_ref c = (ref, c1)" by fastforce
  then have c1: "clConn c1 = Some conn" "clPduSize c1 = int (k + 28)"
    using assms(1,2) by (auto simp: fresh_ref_def split: prod.splits)
  let ?v = "take k data"
  let ?a = "\<lparr>saArea = adArea addr, saDBNumber = adDBNumber addr, saStart = adStart addr,
    saSize = int (length ?v)\<rparr>"
  have len: "length ?v = k" using assms(5) by simp
  have odd: "k mod 2 = 1" using assms(3) by presburger
  obtain msg where msg: "EncodeWriteVarRequest ref ?a ?v = Ok msg" and "length msg = 28 + length ?v + length ?v mod 2"
    using EncodeWriteVarRequest_total [of ?a ?v ref] assms(4,6-9) len by auto
  then have "length msg = k + 29" unfolding len odd by simp
  moreover have "go_slice data (nat 0) (nat (0 + int k)) = Ok ?v" using assms(5) by (simp add: go_slice_def)
  ultimately show ?thesis
    by (simp add: assms(10) ratePause_def ref msg sendReceive_def c1 del: length_take)
qed

text \<open>C19 A write to a connection with an odd negotiated PDU size that needs a full chunk is refused
  with ErrRequestExceedsPDU before anything is sent: the chunk size leaves room for the 28 byte
  overhead but not for the pad byte the encoder adds to an odd payload.\<close>

theorem WriteArea_odd_pdu:
  assumes "validateAddress addr = None" "validateRangeEnd (adStart addr) (int (length data)) = None"
    "clConn c = Some conn" "clPduSize c = int (k + 28)" "odd k" "k \<le> 8191" "k \<le> length data"
    "\<And>w. trCtxErr tr w ctx = (Ok (), w)"
  shows "\<exists>c'. WriteArea tr c ctx addr data w =
    (Err (wrap_error (''request size '' @ utoa (k + 29) @ '' exceeds negotiated PDU size '' @ itoa (int (k + 28)))
       (Sentinel ErrRequestExceedsPDU)), c', w)"
proof -
  have k: "int (k + 28) - int WriteVarRequestOverhead = int k" by simp
  have pos: "0 < int k" "min (int (length data)) (int k) = int k" using assms(5,7) by (auto intro: Nat.gr0I)
  then have "planReadChunks (int (length data)) (int k) = int k # cutChunks (int (length data) - int k) (int k)"
    using assms(7) cutChunks_Cons [of "int (length data)" "int k"] by (cases data) (simp_all add: planReadChunks_def)
  moreover have "\<exists>c'. writeChunks tr ctx addr data (int k # cutChunks (int (length data) - int k) (int k)) True 0 c w =
    (Err (wrap_error (''request size '' @ utoa (k + 29) @ '' exceeds negotiated PDU size '' @ itoa (int (k + 28)))
       (Sentinel ErrRequestExceedsPDU)), c', w)"
    using assms by (intro writeChunks_odd [where conn = conn]) (simp_all add: validateAddress_eq_None)
  ultimately show ?thesis
    using pos(1) by (simp only: WriteArea_def k Let_def assms(1,2,4,8)) simp
qed

theorem WriteArea_odd_pdu_witness:
  "\<exists>c'. WriteArea scripted (demoClient\<lparr>clPduSize := int (3 + 28)\<rparr>) CallerCtx
      \<lparr>adArea = AreaDB, adDBNumber = 1, adStart = 0, adSize = 0\<rparr> [1, 2, 3] [] =
    (Err (wrap_error (''request size '' @ utoa (3 + 29) @ '' exceeds negotiated PDU size '' @ itoa (int (3 + 28)))
       (Sentinel ErrRequestExceedsPDU)), c', [])"
  by (rule WriteArea_odd_pdu [where conn = "()"])
    (simp_all add: validateAddress_def validateRangeEnd_def demoClient_def scripted_def)

text \<open>The replies of a peer to a four byte read split in two: one byte for the first half, both
  bytes for the second.\<close>

definition shortReplies :: "bytes list" where
  "shortReplies =
     [[0x32, 3, 0, 0, 0, 1, 0, 2, 0, 5, 0, 0, 4, 1, 0xFF, 4, 0, 8, 0xA1],
      [0x32, 3, 0, 0, 0, 2, 0, 2, 0, 6, 0, 0, 4, 1, 0xFF, 4, 0, 16, 0xB1, 0xB2]]"

lemma short_items:
  "decodeReply [0x32, 3, 0, 0, 0, 1, 0, 2, 0, 5, 0, 0, 4, 1, 0xFF, 4, 0, 8, 0xA1] 1 = Ok ([4, 1], [0xFF, 4, 0, 8, 0xA1])"
  "decodeReply [0x32, 3, 0, 0, 0, 2, 0, 2, 0, 6, 0, 0, 4, 1, 0xFF, 4, 0, 16, 0xB1, 0xB2] 2 =
     Ok ([4, 1], [0xFF, 4, 0, 16, 0xB1, 0xB2])"
  "readItem 4 2 [] [4, 1] [0xFF, 4, 0, 8, 0xA1] = Ok (Inr [0xA1])"
  "readItem 4 2 [0xA1] [4, 1] [0xFF, 4, 0, 16, 0xB1, 0xB2] = Ok (Inr [0xA1, 0xB1, 0xB2])"
  by code_simp+


end
