(* ===== verification/Server_Memory.thy ===== *)
theory Server_Memory
  imports Wire_RW
begin

text \<open>
  The memory of the server (\<^verbatim>\<open>server/memory.go\<close>): the registered areas, their registration,
  and the host-side \<open>Read\<close> and \<open>Write\<close>. The Go value is a map from keys to pointers to
  regions, guarded by one lock; a region is never shared between keys nor removed, so the model
  is a map from keys to regions, and a pointer to a region is its key. The locale \<open>byte_store\<close>
  is what the server's clients rely on, and \<open>memory\<close> is shown to provide it.
\<close>

section \<open>Areas and keys\<close>

abbreviation AreaTimers :: byte where "AreaTimers \<equiv> AreaTimer"
abbreviation AreaCounters :: byte where "AreaCounters \<equiv> AreaCounter"
abbreviation MaxAreaSize :: nat where "MaxAreaSize \<equiv> 0x200000"

definition Area_valid :: "byte \<Rightarrow> bool" where
  "Area_valid a \<longleftrightarrow>
     a \<in> {AreaInputs, AreaOutputs, AreaMerkers, AreaDB, AreaTimers, AreaCounters}"

definition timerOrCounter :: "byte \<Rightarrow> bool" where
  "timerOrCounter a \<longleftrightarrow> a = AreaTimers \<or> a = AreaCounters"

record AreaOptions =
  ReadOnly :: bool

record region =
  rgData :: bytes
  rgReadOnly :: bool

record areaKey =
  akArea :: byte
  akDb :: uint16

type_synonym memory = "areaKey \<rightharpoonup> region"

definition newMemory :: memory where
  "newMemory = Map.empty"

definition describe :: "areaKey \<Rightarrow> string" where
  "describe k = (if akArea k = AreaDB then ''DB'' @ utoa (unat (akDb k)) else AreaString (akArea k))"

definition keyOf :: "byte \<Rightarrow> int \<Rightarrow> areaKey res" where
  "keyOf area db =
     (if \<not> Area_valid area
      then Err (wrap_sentinel ErrUnknownArea (''area '' @ AreaString area))
      else if area \<noteq> AreaDB then Ok \<lparr>akArea = area, akDb = 0\<rparr>
      else if db < 1 \<or> MaxS7AnyDBNumber < db
      then Err (wrap_sentinel ErrUnknownArea (''DB number '' @ itoa db @ '' not in 1..65535''))
      else Ok \<lparr>akArea = area, akDb = word_of_int db\<rparr>)"

section \<open>Operations\<close>

definition register :: "memory \<Rightarrow> byte \<Rightarrow> int \<Rightarrow> bytes \<Rightarrow> AreaOptions \<Rightarrow> memory res" where
  "register m area db data opts =
     bindR (keyOf area db) (\<lambda>key.
     if length data = 0 \<or> MaxAreaSize < length data
     then Err (wrap_sentinel ErrSpanOutOfRange (''size '' @ utoa (length data) @ '' not in 1..2097152''))
     else if m key \<noteq> None then Err (wrap_sentinel ErrAreaExists (describe key))
     else Ok (m(key \<mapsto> \<lparr>rgData = data, rgReadOnly = ReadOnly opts\<rparr>)))"

definition span :: "memory \<Rightarrow> byte \<Rightarrow> int \<Rightarrow> int \<Rightarrow> int \<Rightarrow> (areaKey \<times> region) res" where
  "span m area db start sz =
     bindR (keyOf area db) (\<lambda>key.
     case m key of
       None \<Rightarrow> Err (wrap_sentinel ErrUnknownArea (describe key))
     | Some r \<Rightarrow>
         let len = int (length (rgData r)) in
         if start < 0 \<or> sz < 0 \<or> len < start \<or> len - start < sz
         then Err (wrap_sentinel ErrSpanOutOfRange (describe key @ '' start '' @ itoa start @
                '' size '' @ itoa sz @ '', area size '' @ itoa len))
         else Ok (key, r))"

definition mem_read :: "memory \<Rightarrow> byte \<Rightarrow> int \<Rightarrow> int \<Rightarrow> int \<Rightarrow> bytes res" where
  "mem_read m area db start sz =
     bindR (span m area db start sz) (\<lambda>(_, r).
     go_slice (rgData r) (nat start) (nat (start + sz)))"

definition mem_write :: "memory \<Rightarrow> byte \<Rightarrow> int \<Rightarrow> int \<Rightarrow> bytes \<Rightarrow> memory res" where
  "mem_write m area db start data =
     bindR (span m area db start (int (length data))) (\<lambda>(key, r).
     bindR (copy_at (rgData r) (nat start) data) (\<lambda>d.
     Ok (m(key \<mapsto> r\<lparr>rgData := d\<rparr>))))"

section \<open>The invariant\<close>

text \<open>Every key is one \<open>keyOf\<close> gives, and every region has a size an S7ANY address reaches.\<close>

definition key_ok :: "areaKey \<Rightarrow> bool" where
  "key_ok k \<longleftrightarrow> Area_valid (akArea k) \<and> (akArea k = AreaDB \<longleftrightarrow> akDb k \<noteq> 0)"

definition mem_ok :: "memory \<Rightarrow> bool" where
  "mem_ok m \<longleftrightarrow>
     (\<forall>k r. m k = Some r \<longrightarrow> key_ok k \<and> 0 < length (rgData r) \<and> length (rgData r) \<le> MaxAreaSize)"

text \<open>What a change of memory may not touch: the keys, the sizes and the read-only flags.\<close>

definition same_shape :: "memory \<Rightarrow> memory \<Rightarrow> bool" where
  "same_shape m m' \<longleftrightarrow>
     (\<forall>k. map_option (\<lambda>r. (length (rgData r), rgReadOnly r)) (m' k) =
          map_option (\<lambda>r. (length (rgData r), rgReadOnly r)) (m k))"

lemma same_shape_refl [simp]: "same_shape m m"
  by (simp add: same_shape_def)

lemma same_shape_trans [trans]: "same_shape a b \<Longrightarrow> same_shape b c \<Longrightarrow> same_shape a c"
  by (simp add: same_shape_def)

lemma same_shape_upd:
  "m k = Some r \<Longrightarrow> length d = length (rgData r) \<Longrightarrow> same_shape m (m(k \<mapsto> r\<lparr>rgData := d\<rparr>))"
  by (simp add: same_shape_def)

lemma mem_ok_same_shape:
  assumes "mem_ok m" "same_shape m m'"
  shows "mem_ok m'"
  unfolding mem_ok_def
proof (intro allI impI)
  fix k r
  assume "m' k = Some r"
  moreover from assms(2) have "map_option (\<lambda>r. (length (rgData r), rgReadOnly r)) (m' k) =
      map_option (\<lambda>r. (length (rgData r), rgReadOnly r)) (m k)"
    by (simp add: same_shape_def)
  ultimately obtain q where "m k = Some q" "length (rgData q) = length (rgData r)"
    by (cases "m k") auto
  with assms(1) show "key_ok k \<and> 0 < length (rgData r) \<and> length (rgData r) \<le> MaxAreaSize"
    by (metis mem_ok_def)
qed

section \<open>The contract of a byte store\<close>

lemma take_drop_below:
  "j + n \<le> i \<Longrightarrow> i \<le> length ys \<Longrightarrow> take n (drop j (take i ys @ zs)) = take n (drop j ys)"
  by (rule nth_equalityI) (auto simp: nth_append)

text \<open>
  Areas that hold bytes, read and written by spans: \<open>view\<close> is the content of an area, two
  addresses are the \<open>same\<close> when they name one area. A read returns exactly the bytes of its
  span and fails when the span is not inside the area; a write replaces exactly its span.
\<close>

locale byte_store =
  fixes view :: "'s \<Rightarrow> 'a \<Rightarrow> bytes option"
    and same :: "'a \<Rightarrow> 'a \<Rightarrow> bool"
    and rd :: "'s \<Rightarrow> 'a \<Rightarrow> int \<Rightarrow> int \<Rightarrow> bytes res"
    and wr :: "'s \<Rightarrow> 'a \<Rightarrow> int \<Rightarrow> bytes \<Rightarrow> 's res"
  assumes same_view: "same a b \<Longrightarrow> view s a = view s b"
    and rd_Ok: "rd s a i n = Ok xs \<longleftrightarrow>
      (\<exists>ys. view s a = Some ys \<and> 0 \<le> i \<and> 0 \<le> n \<and> i + n \<le> int (length ys) \<and>
        xs = take (nat n) (drop (nat i) ys))"
    and wr_Ok: "(\<exists>s'. wr s a i d = Ok s') \<longleftrightarrow>
      (\<exists>ys. view s a = Some ys \<and> 0 \<le> i \<and> i + int (length d) \<le> int (length ys))"
    and wr_view: "wr s a i d = Ok s' \<Longrightarrow> view s a = Some ys \<Longrightarrow>
      view s' b = (if same a b then Some (take (nat i) ys @ d @ drop (nat i + length d) ys) else view s b)"
begin

lemma wr_OkE:
  assumes "wr s a i d = Ok s'"
  obtains ys where "view s a = Some ys" "0 \<le> i" "nat i + length d \<le> length ys"
    "\<And>b. view s' b =
       (if same a b then Some (take (nat i) ys @ d @ drop (nat i + length d) ys) else view s b)"
proof -
  from assms wr_Ok [of s a i d] obtain ys where
    v: "view s a = Some ys" and i: "0 \<le> i" "i + int (length d) \<le> int (length ys)" by auto
  then have "nat i + length d \<le> length ys" by linarith
  with v i wr_view [OF assms v] that show thesis by blast
qed

lemma read_after_write:
  assumes "wr s a i d = Ok s'" "same a b"
  shows "rd s' b i (int (length d)) = Ok d"
  using assms(1) by (rule wr_OkE) (use assms(2) in \<open>simp add: rd_Ok min_def, linarith\<close>)

lemma write_frame:
  assumes w: "wr s a i d = Ok s'" and r: "rd s b j n = Ok xs"
    and apart: "\<not> same a b \<or> j + n \<le> i \<or> i + int (length d) \<le> j"
  shows "rd s' b j n = Ok xs"
proof (cases "same a b")
  case False
  from w show ?thesis by (rule wr_OkE) (use False r in \<open>simp add: rd_Ok\<close>)
next
  case True
  from w obtain ys where i: "0 \<le> i" "nat i + length d \<le> length ys" and
    v: "view s b = Some ys" "view s' b = Some (take (nat i) ys @ d @ drop (nat i + length d) ys)"
    by (rule wr_OkE) (use True same_view [OF True, of s] in simp)
  from r v have j: "0 \<le> j" "0 \<le> n" "j + n \<le> int (length ys)" "xs = take (nat n) (drop (nat j) ys)"
    by (auto simp: rd_Ok)
  define zs where "zs = take (nat i) ys @ d @ drop (nat i + length d) ys"
  have "take (nat n) (drop (nat j) zs) = xs"
  proof (cases "j + n \<le> i")
    case le: True
    then have "nat j + nat n \<le> nat i" "nat i \<le> length ys" using i j by linarith+
    then show ?thesis unfolding j(4) zs_def by (rule take_drop_below)
  next
    case False
    then have ge: "nat i + length d \<le> nat j" "nat i \<le> length ys" using apart True i by linarith+
    then have "drop (nat j) zs = drop (nat j) ys"
      by (simp add: zs_def min_def)
    then show ?thesis unfolding j(4) by simp
  qed
  moreover have "length zs = length ys"
    using i by (simp add: zs_def)
  ultimately show ?thesis
    using j(1-3) v(2) by (auto simp: rd_Ok simp flip: zs_def)
qed

lemma write_keeps_size:
  assumes "wr s a i d = Ok s'"
  shows "map_option length (view s' b) = map_option length (view s b)"
  using assms
proof (rule wr_OkE)
  fix ys
  assume "view s a = Some ys" "nat i + length d \<le> length ys"
    "\<And>b. view s' b =
       (if same a b then Some (take (nat i) ys @ d @ drop (nat i + length d) ys) else view s b)"
  then show ?thesis using same_view [of a b s] by (cases "same a b") auto
qed

lemma later_write_possible:
  assumes "wr s a i d = Ok s'"
  shows "(\<exists>t. wr s' b j e = Ok t) \<longleftrightarrow> (\<exists>t. wr s b j e = Ok t)"
  using write_keeps_size [OF assms, of b] unfolding wr_Ok
  by (cases "view s b"; cases "view s' b") simp_all

end

section \<open>The server's memory is one\<close>

definition mem_view :: "memory \<Rightarrow> byte \<times> int \<Rightarrow> bytes option" where
  "mem_view m a =
     (case keyOf (fst a) (snd a) of Ok k \<Rightarrow> map_option rgData (m k) | _ \<Rightarrow> None)"

definition same_area :: "byte \<times> int \<Rightarrow> byte \<times> int \<Rightarrow> bool" where
  "same_area a b \<longleftrightarrow> (\<exists>k. keyOf (fst a) (snd a) = Ok k \<and> keyOf (fst b) (snd b) = Ok k)"

lemma keyOf_not_Panic [simp]: "keyOf area db \<noteq> Panic"
  by (simp add: keyOf_def)

lemma word_of_int_uint16_neq_0: "1 \<le> v \<Longrightarrow> v \<le> 65535 \<Longrightarrow> (word_of_int v :: uint16) \<noteq> 0"
proof
  assume v: "1 \<le> v" "v \<le> 65535" and "(word_of_int v :: uint16) = 0"
  then have "unat (word_of_int v :: uint16) = 0" by simp
  with v show False by simp
qed

lemma keyOf_ok: "keyOf area db = Ok k \<Longrightarrow> key_ok k \<and> akArea k = area"
  by (auto simp: keyOf_def key_ok_def word_of_int_uint16_neq_0 split: if_splits)

lemma mem_view_eq_Some:
  "mem_view m (area, db) = Some ys \<longleftrightarrow> (\<exists>k r. keyOf area db = Ok k \<and> m k = Some r \<and> ys = rgData r)"
  by (auto simp: mem_view_def split: res.splits)

lemma span_eq_Ok:
  "span m area db start sz = Ok (k, r) \<longleftrightarrow>
     keyOf area db = Ok k \<and> m k = Some r \<and> 0 \<le> start \<and> 0 \<le> sz \<and>
     start + sz \<le> int (length (rgData r))"
proof (cases "keyOf area db")
  case (Ok key)
  then show ?thesis by (cases "m key") (auto simp: span_def Let_def)
qed (simp_all add: span_def)

lemma span_not_Panic [simp]: "span m area db start sz \<noteq> Panic"
  by (simp add: span_def bindR_eq_Panic Let_def split: option.split)

lemma mem_read_eq_Ok:
  "mem_read m area db start sz = Ok xs \<longleftrightarrow>
     (\<exists>k r. keyOf area db = Ok k \<and> m k = Some r \<and> 0 \<le> start \<and> 0 \<le> sz \<and>
       start + sz \<le> int (length (rgData r)) \<and> xs = take (nat sz) (drop (nat start) (rgData r)))"
  by (auto simp: mem_read_def bindR_eq_Ok span_eq_Ok go_slice_def nat_add_distrib nat_le_iff)

lemma mem_write_eq_Ok:
  "mem_write m area db start d = Ok m' \<longleftrightarrow>
     (\<exists>k r. keyOf area db = Ok k \<and> m k = Some r \<and> 0 \<le> start \<and>
       start + int (length d) \<le> int (length (rgData r)) \<and>
       m' = m(k \<mapsto> r\<lparr>rgData := take (nat start) (rgData r) @ d @
              drop (nat start + length d) (rgData r)\<rparr>))"
proof -
  have "copy_at (rgData r) (nat start) d =
      Ok (take (nat start) (rgData r) @ d @ drop (nat start + length d) (rgData r))"
    if "0 \<le> start" "start + int (length d) \<le> int (length (rgData r))" for r :: region
    by (rule copy_at_Ok) (use that in linarith)
  then show ?thesis
    by (auto simp: mem_write_def bindR_eq_Ok span_eq_Ok)
qed

interpretation host: byte_store mem_view same_area
  "\<lambda>m a. mem_read m (fst a) (snd a)" "\<lambda>m a. mem_write m (fst a) (snd a)"
proof
  fix a b :: "byte \<times> int" and s
  show "same_area a b \<Longrightarrow> mem_view s a = mem_view s b"
    by (auto simp: same_area_def mem_view_def)
next
  fix s a i n xs
  show "mem_read s (fst a) (snd a) i n = Ok xs \<longleftrightarrow>
      (\<exists>ys. mem_view s a = Some ys \<and> 0 \<le> i \<and> 0 \<le> n \<and> i + n \<le> int (length ys) \<and>
        xs = take (nat n) (drop (nat i) ys))"
    by (cases a) (auto simp: mem_read_eq_Ok mem_view_eq_Some)
next
  fix s a i d
  show "(\<exists>s'. mem_write s (fst a) (snd a) i d = Ok s') \<longleftrightarrow>
      (\<exists>ys. mem_view s a = Some ys \<and> 0 \<le> i \<and> i + int (length d) \<le> int (length ys))"
    by (cases a) (auto simp: mem_write_eq_Ok mem_view_eq_Some)
next
  fix s a i d s' ys b
  assume "mem_write s (fst a) (snd a) i d = Ok s'" "mem_view s a = Some ys"
  then obtain k r where k: "keyOf (fst a) (snd a) = Ok k" and ys: "ys = rgData r" and
    s': "s' = s(k \<mapsto> r\<lparr>rgData := take (nat i) ys @ d @ drop (nat i + length d) ys\<rparr>)"
    by (cases a) (auto simp: mem_write_eq_Ok mem_view_eq_Some)
  show "mem_view s' b = (if same_area a b
      then Some (take (nat i) ys @ d @ drop (nat i + length d) ys) else mem_view s b)"
    unfolding s' same_area_def mem_view_def k by (cases "keyOf (fst b) (snd b)") auto
qed
section \<open>The host's view of the memory\<close>

lemma register_eq_Ok:
  "register m area db data opts = Ok m' \<longleftrightarrow>
     (\<exists>k. keyOf area db = Ok k \<and> data \<noteq> [] \<and> length data \<le> MaxAreaSize \<and> m k = None \<and>
       m' = m(k \<mapsto> \<lparr>rgData = data, rgReadOnly = ReadOnly opts\<rparr>))"
  by (cases "keyOf area db") (auto simp: register_def)

lemma register_mem_ok: "register m area db data opts = Ok m' \<Longrightarrow> mem_ok m \<Longrightarrow> mem_ok m'"
  by (auto simp: register_eq_Ok mem_ok_def length_greater_0_conv dest: keyOf_ok split: if_splits)

lemma mem_write_same_shape: "mem_write m area db start d = Ok m' \<Longrightarrow> same_shape m m'"
  by (auto simp: mem_write_eq_Ok intro!: same_shape_upd)

lemma mem_read_not_Panic [simp]: "mem_read m area db start sz \<noteq> Panic"
proof
  assume "mem_read m area db start sz = Panic"
  then obtain k r where "span m area db start sz = Ok (k, r)"
    and "go_slice (rgData r) (nat start) (nat (start + sz)) = Panic"
    by (auto simp: mem_read_def bindR_eq_Panic)
  then show False by (simp add: span_eq_Ok go_slice_def nat_le_iff)
qed

lemma mem_write_not_Panic [simp]: "mem_write m area db start d \<noteq> Panic"
proof
  assume "mem_write m area db start d = Panic"
  then obtain k r where s: "span m area db start (int (length d)) = Ok (k, r)"
    and p: "copy_at (rgData r) (nat start) d = Panic"
    by (auto simp: mem_write_def bindR_eq_Panic)
  from s have "nat start + length d \<le> length (rgData r)"
    unfolding span_eq_Ok by linarith
  with p show False by (simp add: copy_at_Ok)
qed

text \<open>An area that the host registers can be read back whole, byte for byte; registering keeps
  every area registered before and the memory's invariant, and the same area cannot be
  registered twice.\<close>

lemma register_spec:
  assumes "register m area db data opts = Ok m'"
  shows "mem_read m' area db 0 (int (length data)) = Ok data \<and> m \<subseteq>\<^sub>m m' \<and>
    (mem_ok m \<longrightarrow> mem_ok m') \<and>
    (\<exists>e. register m' area db data' opts' = Err e)"
proof -
  from assms obtain k where k: "keyOf area db = Ok k" "data \<noteq> []" "length data \<le> MaxAreaSize" "m k = None"
    and m': "m' = m(k \<mapsto> \<lparr>rgData = data, rgReadOnly = ReadOnly opts\<rparr>)"
    by (auto simp: register_eq_Ok)
  have "mem_read m' area db 0 (int (length data)) = Ok data"
    using k by (simp add: mem_read_eq_Ok m')
  moreover have "m \<subseteq>\<^sub>m m'" using k by (auto simp: map_le_def m')
  moreover have "\<exists>e. register m' area db data' opts' = Err e"
    using k by (simp add: register_def m')
  ultimately show ?thesis using register_mem_ok [OF assms] by blast
qed

text \<open>A host-side write that succeeds is visible to a later read of the same span, leaves
  every read of a disjoint span or of another area as it was, and keeps the areas, their sizes
  and their read-only flags.\<close>

lemma host_write_read:
  assumes "mem_write m area db start d = Ok m'"
  shows "mem_read m' area db start (int (length d)) = Ok d \<and> same_shape m m' \<and>
    (\<forall>area' db' j n xs. mem_read m area' db' j n = Ok xs \<longrightarrow>
      keyOf area' db' \<noteq> keyOf area db \<or> j + n \<le> start \<or> start + int (length d) \<le> j \<longrightarrow>
      mem_read m' area' db' j n = Ok xs)"
proof (intro conjI allI impI)
  show "same_shape m m'" by (rule mem_write_same_shape [OF assms])
  show "mem_read m' area db start (int (length d)) = Ok d"
    using host.read_after_write [of m "(area, db)" start d m' "(area, db)"] assms
    by (auto simp: same_area_def mem_write_eq_Ok)
next
  fix area' db' j n xs
  assume "mem_read m area' db' j n = Ok xs"
    and apart: "keyOf area' db' \<noteq> keyOf area db \<or> j + n \<le> start \<or> start + int (length d) \<le> j"
  moreover from apart have "\<not> same_area (area, db) (area', db') \<or> j + n \<le> start \<or> start + int (length d) \<le> j"
    by (auto simp: same_area_def)
  ultimately show "mem_read m' area' db' j n = Ok xs"
    using host.write_frame [of m "(area, db)" start d m' "(area', db')" j n xs] assms by simp
qed

end
