(* ===== verification/Server_Session.thy ===== *)
theory Server_Session
  imports Server_Memory Wire_Roundtrip
begin

text \<open>
  The server's configuration and memory (\<^verbatim>\<open>server/server.go\<close>) and one client's session
  (\<^verbatim>\<open>server/session.go\<close>): the answer to every S7 PDU, whole, with the change of memory and
  of the negotiated PDU size it makes. A handler holds the memory lock from its first access to
  its last, so each is one step. Diagnostic logging is left out; a nil slice is the empty list.
\<close>

section \<open>Configuration and server state\<close>

abbreviation MinPDUSize :: int where "MinPDUSize \<equiv> 240"
abbreviation MaxPDUSize :: int where "MaxPDUSize \<equiv> 4096"
abbreviation DefaultPDUSize :: int where "DefaultPDUSize \<equiv> 480"
abbreviation DefaultMaxConns :: int where "DefaultMaxConns \<equiv> 32"
abbreviation DefaultHandshake :: int where "DefaultHandshake \<equiv> 5000000000"

text \<open>Durations are nanoseconds.\<close>

record Config =
  cfgMaxPDUSize :: int
  cfgMaxConnections :: int
  cfgHandshakeTimeout :: int
  cfgIdleTimeout :: int

definition withDefaults :: "Config \<Rightarrow> Config res" where
  "withDefaults c =
    (let c = (if cfgMaxPDUSize c = 0 then c\<lparr>cfgMaxPDUSize := DefaultPDUSize\<rparr> else c) in
     if cfgMaxPDUSize c < MinPDUSize \<or> MaxPDUSize < cfgMaxPDUSize c
     then Err (OtherError (''s7 server: MaxPDUSize '' @ itoa (cfgMaxPDUSize c) @ '' not in 240..4096'')) else
     let c = (if cfgMaxConnections c = 0 then c\<lparr>cfgMaxConnections := DefaultMaxConns\<rparr> else c) in
     if cfgMaxConnections c < 0
     then Err (OtherError (''s7 server: MaxConnections '' @ itoa (cfgMaxConnections c) @ '' is negative'')) else
     let c = (if cfgHandshakeTimeout c = 0 then c\<lparr>cfgHandshakeTimeout := DefaultHandshake\<rparr> else c) in
     if cfgHandshakeTimeout c < 0 \<or> cfgIdleTimeout c < 0
     then Err (OtherError ''s7 server: negative timeout'')
     else Ok c)"

record Server =
  svCfg :: Config
  svMem :: memory

definition New :: "Config \<Rightarrow> Server res" where
  "New cfg = bindR (withDefaults cfg) (\<lambda>cfg. Ok \<lparr>svCfg = cfg, svMem = newMemory\<rparr>)"

definition RegisterDB :: "Server \<Rightarrow> int \<Rightarrow> bytes \<Rightarrow> AreaOptions \<Rightarrow> Server res" where
  "RegisterDB s number data opts =
     bindR (register (svMem s) AreaDB number data opts) (\<lambda>m. Ok (s\<lparr>svMem := m\<rparr>))"

definition RegisterArea :: "Server \<Rightarrow> byte \<Rightarrow> bytes \<Rightarrow> AreaOptions \<Rightarrow> Server res" where
  "RegisterArea s area data opts =
     (if area = AreaDB then Err (wrap_sentinel ErrUnknownArea ''use RegisterDB for data blocks'')
      else bindR (register (svMem s) area 0 data opts) (\<lambda>m. Ok (s\<lparr>svMem := m\<rparr>)))"

definition Server_Read :: "Server \<Rightarrow> byte \<Rightarrow> int \<Rightarrow> int \<Rightarrow> int \<Rightarrow> bytes res" where
  "Server_Read s area db start sz = mem_read (svMem s) area db start sz"

definition Server_Write :: "Server \<Rightarrow> byte \<Rightarrow> int \<Rightarrow> int \<Rightarrow> bytes \<Rightarrow> Server res" where
  "Server_Write s area db start data =
     bindR (mem_write (svMem s) area db start data) (\<lambda>m. Ok (s\<lparr>svMem := m\<rparr>))"

section \<open>The session\<close>

abbreviation errClassApp :: byte where "errClassApp \<equiv> 0x81"
abbreviation errCodeNotImpl :: byte where "errCodeNotImpl \<equiv> 0x04"
abbreviation errClassSupplies :: byte where "errClassSupplies \<equiv> 0x85"
abbreviation errCodeFrames :: byte where "errCodeFrames \<equiv> 0x00"
abbreviation maxAmQ :: int where "maxAmQ \<equiv> 2"
abbreviation transportCounter :: byte where "transportCounter \<equiv> 0x1C"
abbreviation transportTimer :: byte where "transportTimer \<equiv> 0x1D"

record session =
  ssSrv :: Server
  ssPduSize :: int

text \<open>A result whose error the code drops: \<^verbatim>\<open>out, _ := f()\<close>, with \<^verbatim>\<open>nil\<close> for a failed one.\<close>

definition or_nil :: "bytes res \<Rightarrow> bytes res" where
  "or_nil r = (case r of Err _ \<Rightarrow> Ok [] | _ \<Rightarrow> r)"

definition notImplemented :: "uint16 \<Rightarrow> bytes \<Rightarrow> bytes res" where
  "notImplemented ref param =
     bindR (if 0 < length param then go_slice param 0 1 else Ok []) (\<lambda>fn.
     or_nil (EncodeAckData ref errClassApp errCodeNotImpl fn []))"

definition userdataNotImplemented :: "uint16 \<Rightarrow> bytes \<Rightarrow> bytes res" where
  "userdataNotImplemented ref param =
    (if length param < 8 then notImplemented ref param else
     bindR (idx param 0) (\<lambda>p0. bindR (idx param 1) (\<lambda>p1. bindR (idx param 2) (\<lambda>p2.
     if p0 \<noteq> 0x00 \<or> p1 \<noteq> 0x01 \<or> p2 \<noteq> 0x12 then notImplemented ref param else
     bindR (idx param 5) (\<lambda>p5. bindR (idx param 6) (\<lambda>subfunc. bindR (idx param 7) (\<lambda>seq.
     let group = p5 AND 0x3F;
         resp = [0x00, 0x01, 0x12, 0x08, 0x12, 0x80 OR group, subfunc, seq, 0x00, 0x00,
                 errClassApp, errCodeNotImpl];
         data = [RetCodeNotAvailable, 0x00, 0x00, 0x00] in
     bindR (or_nil (EncodeS7Header ROSCTRUserdata ref (int (length resp)) (int (length data)))) (\<lambda>hdr.
     Ok (hdr @ resp @ data)))))))))"

text \<open>A handler returns its answer or error together with the session, which keeps the changes
  made before an error.\<close>

definition session_setup :: "session \<Rightarrow> uint16 \<Rightarrow> bytes \<Rightarrow> bytes res \<times> session" where
  "session_setup s ref param =
    (case ParseSetupCommRequest param of
       Panic \<Rightarrow> (Panic, s)
     | Err e \<Rightarrow> (Err e, s)
     | Ok req \<Rightarrow>
        (let sz = min (int (PDUSize req)) (cfgMaxPDUSize (svCfg (ssSrv s))) in
         (EncodeSetupCommResponse ref
            (max 1 (min (int (MaxAmqCalling req)) maxAmQ))
            (max 1 (min (int (MaxAmqCalled req)) maxAmQ)) sz,
          s\<lparr>ssPduSize := sz\<rparr>)))"

definition elementSize :: "byte \<Rightarrow> nat" where
  "elementSize transport =
     (if transport \<in> {TransportSizeBit, TransportSizeByte, TransportSizeChar} then 1
      else if transport \<in> {TransportSizeWord, TransportSizeInt, transportCounter, transportTimer} then 2
      else if transport \<in> {TransportSizeDWord, TransportSizeDInt, TransportSizeReal} then 4
      else 0)"

section \<open>Item addresses\<close>

text \<open>A decoded item address; \<open>tgReg\<close> is the pointer to the region, by its key.\<close>

record target =
  tgReg :: "areaKey option"
  tgStart :: nat
  tgBit :: nat
  tgSize :: nat
  tgIsBit :: bool
  tgTransp :: byte
  tgArea :: byte

definition zeroTarget :: target where
  "zeroTarget = \<lparr>tgReg = None, tgStart = 0, tgBit = 0, tgSize = 0, tgIsBit = False,
                 tgTransp = 0, tgArea = 0\<rparr>"

text \<open>Following the pointer: a nil one panics.\<close>

definition deref :: "memory \<Rightarrow> areaKey option \<Rightarrow> region res" where
  "deref m p = (case p of None \<Rightarrow> Panic | Some k \<Rightarrow> (case m k of None \<Rightarrow> Panic | Some r \<Rightarrow> Ok r))"

definition resolve :: "memory \<Rightarrow> VarSpec \<Rightarrow> target \<times> byte" where
  "resolve m spec =
    (if vsSyntax spec \<noteq> SyntaxIDS7Any then (zeroTarget, RetCodeAddressFault) else
     let area = vsArea spec in
     case keyOf area (int (unat (vsDBNumber spec))) of
       Err _ \<Rightarrow> (zeroTarget, RetCodeNotAvailable)
     | Panic \<Rightarrow> (zeroTarget, RetCodeNotAvailable)
     | Ok key \<Rightarrow>
    (case m key of
       None \<Rightarrow> (zeroTarget, RetCodeNotAvailable)
     | Some reg \<Rightarrow>
     let ts = vsTransportSize spec; per = elementSize ts in
     if per = 0 then (zeroTarget, RetCodeDataTypeFault) else
     let tc = (ts = transportTimer \<or> ts = transportCounter) in
     if timerOrCounter area \<noteq> tc \<or> (tc \<and> ts \<noteq> area) then (zeroTarget, RetCodeAddressFault) else
     let sz = per * unat (vsCount spec); isBit = (ts = TransportSizeBit) in
     if sz = 0 \<or> (isBit \<and> 1 < sz) then (zeroTarget, RetCodeAddressFault) else
     if \<not> tc \<and> \<not> isBit \<and> vsStartBit spec mod 8 \<noteq> 0 then (zeroTarget, RetCodeAddressFault) else
     let start = (if tc then 2 * unat (vsStartBit spec) else unat (drop_bit 3 (vsStartBit spec)));
         bi = (if tc then 0 else unat (vsStartBit spec AND 0x07)) in
     if length (rgData reg) < start + sz then (zeroTarget, RetCodeAddressFault) else
     (\<lparr>tgReg = Some key, tgStart = start, tgBit = bi, tgSize = sz, tgIsBit = isBit, tgTransp = ts,
       tgArea = area\<rparr>, RetCodeSuccess)))"

definition lengthField :: "int \<Rightarrow> uint16" where
  "lengthField n = (if n < 0 \<or> 65535 < n then 65535 else word_of_int n)"

section \<open>Read Var\<close>

definition readResult :: "memory \<Rightarrow> target \<Rightarrow> ReadVarResult res" where
  "readResult m t =
     bindR (deref m (tgReg t)) (\<lambda>reg.
     bindR (go_slice (rgData reg) (tgStart t) (tgStart t + tgSize t)) (\<lambda>src.
     let r = \<lparr>rrReturnCode = RetCodeSuccess, rrTransportSize = 0, rrRawLength = 0, rrData = src\<rparr>;
         tr = tgTransp t in
     if tr = TransportSizeBit then
       bindR (idx src 0) (\<lambda>b.
       Ok (r\<lparr>rrTransportSize := DataTransportSizeBit, rrRawLength := 1,
             rrData := [drop_bit (tgBit t) b AND 0x01]\<rparr>))
     else if tr = TransportSizeInt then
       Ok (r\<lparr>rrTransportSize := DataTransportSizeInt, rrRawLength := lengthField (int (tgSize t * 8))\<rparr>)
     else if tr = TransportSizeDInt then
       Ok (r\<lparr>rrTransportSize := DataTransportSizeDInt, rrRawLength := lengthField (int (tgSize t))\<rparr>)
     else if tr = TransportSizeReal then
       Ok (r\<lparr>rrTransportSize := DataTransportSizeReal, rrRawLength := lengthField (int (tgSize t))\<rparr>)
     else if tr = TransportSizeChar \<or> tr = transportTimer \<or> tr = transportCounter then
       Ok (r\<lparr>rrTransportSize := DataTransportSizeOctet, rrRawLength := lengthField (int (tgSize t))\<rparr>)
     else
       Ok (r\<lparr>rrTransportSize := DataTransportSizeByte, rrRawLength := lengthField (int (tgSize t * 8))\<rparr>)))"

text \<open>A refused item is \<^verbatim>\<open>wire.ReadVarResult{ReturnCode: code}\<close>.\<close>

definition refusal :: "byte \<Rightarrow> ReadVarResult" where
  "refusal code = \<lparr>rrReturnCode = code, rrTransportSize = 0, rrRawLength = 0, rrData = []\<rparr>"

text \<open>The loop of \<^verbatim>\<open>dbRead\<close> with the bytes gathered so far.\<close>

fun dbReadLoop :: "memory \<Rightarrow> DBReadArea list \<Rightarrow> bytes \<Rightarrow> ReadVarResult res" where
  "dbReadLoop m [] data =
     Ok \<lparr>rrReturnCode = RetCodeSuccess, rrTransportSize = DataTransportSizeOctet,
         rrRawLength = lengthField (int (length data)), rrData = data\<rparr>"
| "dbReadLoop m (r # rs) data =
    (case m \<lparr>akArea = AreaDB, akDb = draDBNumber r\<rparr> of
       None \<Rightarrow> Ok (refusal RetCodeNotAvailable)
     | Some reg \<Rightarrow>
     if draDBNumber r = 0 then Ok (refusal RetCodeNotAvailable) else
     let start = unat (draStart r); n = unat (draLength r) in
     if n = 0 \<or> length (rgData reg) < start + n then Ok (refusal RetCodeAddressFault) else
     bindR (go_slice (rgData reg) start (start + n)) (\<lambda>b.
     dbReadLoop m rs (data @ [RetCodeSuccess] @ b)))"

definition dbRead :: "memory \<Rightarrow> DBReadArea list \<Rightarrow> ReadVarResult res" where
  "dbRead m ranges = dbReadLoop m ranges []"

text \<open>
  The item loop of \<^verbatim>\<open>read\<close>: item \<open>i\<close> of \<open>cnt\<close>, with the bytes of the answer used so far.
  \<open>None\<close> is the early return with header error 0x8500.
\<close>

fun readItems :: "memory \<Rightarrow> int \<Rightarrow> DBReadArea list list \<Rightarrow> nat \<Rightarrow> nat \<Rightarrow> nat \<Rightarrow> VarSpec list \<Rightarrow>
    (ReadVarResult list \<times> nat) option res" where
  "readItems m pduSize ranges cnt i used [] = Ok (Some ([], used))"
| "readItems m pduSize ranges cnt i used (spec # specs) =
    (let next = (\<lambda>r used.
       bindR (readItems m pduSize ranges cnt (i + 1) used specs) (\<lambda>rest.
       Ok (map_option (\<lambda>(rs, used'). (r # rs, used')) rest))) in
     if vsSyntax spec = SyntaxIDDBRead then
       bindR (idx ranges i) (\<lambda>rng.
       bindR (dbRead m rng) (\<lambda>r.
       let used = used + 4 + length (rrData r);
           used = (if i + 1 < cnt \<and> length (rrData r) mod 2 \<noteq> 0 then used + 1 else used) in
       if pduSize < int used then Ok None else next r used))
     else
       (let (t, code) = resolve m spec in
        if code \<noteq> RetCodeSuccess then next (refusal code) (used + 4) else
        let need = (if tgIsBit t then 5 else 4 + tgSize t);
            need = (if i + 1 < cnt \<and> need mod 2 \<noteq> 0 then need + 1 else need);
            used = used + need in
        if pduSize < int used then Ok None else
        bindR (readResult m t) (\<lambda>r. next r used)))"

definition session_read :: "session \<Rightarrow> uint16 \<Rightarrow> bytes \<Rightarrow> bytes res" where
  "session_read s ref param =
     bindR (ParseReadVarRequest param) (\<lambda>specs.
     bindR (ParseReadVarDBRead param) (\<lambda>ranges.
     bindR (readItems (svMem (ssSrv s)) (ssPduSize s) ranges (length specs) 0
              (AckDataHeaderSize + 2) specs) (\<lambda>res.
     let tooLarge = bindR (go_slice param 0 1) (\<lambda>fn.
           EncodeAckData ref errClassSupplies errCodeFrames fn []) in
     case res of
       None \<Rightarrow> tooLarge
     | Some (results, used) \<Rightarrow>
         if ssPduSize s < int used then tooLarge else EncodeReadVarResponse ref results)))"

section \<open>Write Var\<close>

definition writeItem :: "memory \<Rightarrow> VarSpec \<Rightarrow> WriteVarData \<Rightarrow> (byte \<times> memory) res" where
  "writeItem m spec item =
    (let (t, code) = resolve m spec in
     if code \<noteq> RetCodeSuccess then Ok (code, m) else
     if length (wdData item) \<noteq> tgSize t then Ok (RetCodeDataSizeFault, m) else
     bindR (deref m (tgReg t)) (\<lambda>reg.
     if rgReadOnly reg \<or> timerOrCounter (tgArea t) then Ok (RetCodeAccessFault, m) else
     bindR
       (if tgIsBit t then
          bindR (idx (wdData item) 0) (\<lambda>v.
          bindR (idx (rgData reg) (tgStart t)) (\<lambda>b.
          let mask = push_bit (tgBit t) 1;
              b' = (if v AND 0x01 \<noteq> 0 then b OR mask else b AND NOT mask) in
          Ok ((rgData reg)[tgStart t := b'])))
        else copy_at (rgData reg) (tgStart t) (wdData item)) (\<lambda>d.
     Ok (RetCodeSuccess, m(the (tgReg t) \<mapsto> reg\<lparr>rgData := d\<rparr>)))))"

text \<open>The item loop: the codes in order and the memory after the last item.\<close>

fun writeItems :: "memory \<Rightarrow> WriteVarData list \<Rightarrow> nat \<Rightarrow> VarSpec list \<Rightarrow> (bytes \<times> memory) res" where
  "writeItems m items i [] = Ok ([], m)"
| "writeItems m items i (spec # specs) =
     bindR (idx items i) (\<lambda>item.
     bindR (writeItem m spec item) (\<lambda>(code, m).
     bindR (writeItems m items (i + 1) specs) (\<lambda>(codes, m).
     Ok (code # codes, m))))"

definition session_write :: "session \<Rightarrow> uint16 \<Rightarrow> bytes \<Rightarrow> bytes \<Rightarrow> bytes res \<times> session" where
  "session_write s ref param data =
    (case ParseWriteVarRequest param data of
       Panic \<Rightarrow> (Panic, s)
     | Err e \<Rightarrow> (Err e, s)
     | Ok (specs, items) \<Rightarrow>
        (case writeItems (svMem (ssSrv s)) items 0 specs of
           Panic \<Rightarrow> (Panic, s)
         | Err e \<Rightarrow> (Err e, s)
         | Ok (codes, m) \<Rightarrow>
             (EncodeWriteVarResponse ref codes, s\<lparr>ssSrv := (ssSrv s)\<lparr>svMem := m\<rparr>\<rparr>)))"

section \<open>One PDU\<close>

text \<open>The answer, whether the connection is kept, and the session afterwards.\<close>

definition handle :: "session \<Rightarrow> bytes \<Rightarrow> ((bytes \<times> bool) \<times> session) res" where
  "handle s req =
    (if length req < S7HeaderSize then Ok (([], False), s) else
     bindR (idx req 0) (\<lambda>pid.
     if pid \<noteq> 0x32 then Ok (([], False), s) else
     bindR (idx req 1) (\<lambda>rosctr.
     bindR (u16at req 4) (\<lambda>ref.
     bindR (u16at req 6) (\<lambda>pl.
     bindR (u16at req 8) (\<lambda>dl.
     let paramLen = unat pl; dataLen = unat dl in
     if S7HeaderSize + paramLen + dataLen \<noteq> length req then Ok (([], False), s) else
     bindR (go_slice req S7HeaderSize (S7HeaderSize + paramLen)) (\<lambda>param.
     bindR (go_slice req (S7HeaderSize + paramLen) (length req)) (\<lambda>data.
     let refuse = (\<lambda>s. bindR (notImplemented ref param) (\<lambda>out. Ok ((out, True), s)));
         answer = (\<lambda>(r, s). case r of
            Ok out \<Rightarrow> Ok ((out, True), s) | Err _ \<Rightarrow> refuse s | Panic \<Rightarrow> Panic) in
     if IsUserdata rosctr then
       bindR (userdataNotImplemented ref param) (\<lambda>out. Ok ((out, True), s))
     else if \<not> IsJob rosctr \<or> paramLen = 0 then refuse s
     else
       bindR (idx param 0) (\<lambda>fn.
       if fn = FuncSetupComm then answer (session_setup s ref param)
       else if fn = FuncReadVar then answer (session_read s ref param, s)
       else if fn = FuncWriteVar then answer (session_write s ref param data)
       else refuse s)))))))))"

text \<open>
  The loop of \<^verbatim>\<open>serveConn\<close> on the TSDUs the transport delivers, until the first that makes the
  server drop the connection: the TSDUs it sends and whether the connection is still open. An
  empty answer sends nothing. Every send is taken to succeed; one that fails ends the loop.
\<close>

fun serveRequests :: "session \<Rightarrow> bytes list \<Rightarrow> ((bytes list \<times> bool) \<times> session) res" where
  "serveRequests s [] = Ok (([], True), s)"
| "serveRequests s (req # reqs) =
     bindR (handle s req) (\<lambda>((out, keep), s).
     if \<not> keep then Ok (([], False), s) else
     bindR (serveRequests s reqs) (\<lambda>((outs, open), s).
     Ok ((if out = [] then outs else out # outs, open), s)))"

text \<open>A new connection starts from the configured PDU size.\<close>

definition newSession :: "Server \<Rightarrow> session" where
  "newSession srv = \<lparr>ssSrv = srv, ssPduSize = cfgMaxPDUSize (svCfg srv)\<rparr>"

section \<open>Facts about item addresses\<close>

lemma elementSize_bit [simp]: "elementSize TransportSizeBit = 1"
  by (simp add: elementSize_def)

lemma resolve_success:
  assumes "resolve m spec = (t, RetCodeSuccess)"
  shows "\<exists>k r. keyOf (vsArea spec) (int (unat (vsDBNumber spec))) = Ok k \<and> m k = Some r \<and>
    tgReg t = Some k \<and> tgStart t + tgSize t \<le> length (rgData r) \<and>
    tgSize t = elementSize (vsTransportSize spec) * unat (vsCount spec) \<and> 0 < tgSize t \<and>
    tgIsBit t = (vsTransportSize spec = TransportSizeBit) \<and> (tgIsBit t \<longrightarrow> tgSize t = 1) \<and>
    tgTransp t = vsTransportSize spec \<and> tgArea t = vsArea spec \<and> vsSyntax spec = SyntaxIDS7Any \<and>
    (\<not> timerOrCounter (vsArea spec) \<longrightarrow> tgStart t = unat (drop_bit 3 (vsStartBit spec)) \<and>
       tgBit t = unat (vsStartBit spec AND 7))"
proof -
  from assms obtain k where k: "keyOf (vsArea spec) (int (unat (vsDBNumber spec))) = Ok k"
    by (cases "keyOf (vsArea spec) (int (unat (vsDBNumber spec)))")
      (auto simp: resolve_def Let_def split: if_splits)
  moreover from assms k obtain r where "m k = Some r"
    by (cases "m k") (auto simp: resolve_def Let_def split: if_splits)
  ultimately show ?thesis
    using assms by (simp add: resolve_def Let_def split: if_splits)
      (auto simp: not_less le_Suc_eq)
qed

lemma resolve_codes:
  "snd (resolve m spec) \<in>
     {RetCodeSuccess, RetCodeAddressFault, RetCodeDataTypeFault, RetCodeNotAvailable}"
  by (auto simp: resolve_def Let_def split: res.split option.split)

lemma deref_Some [simp]: "m k = Some r \<Longrightarrow> deref m (Some k) = Ok r"
  by (simp add: deref_def)

lemma lengthField_small: "n \<le> 65535 \<Longrightarrow> lengthField (int n) = word_of_nat n"
  by (simp add: lengthField_def)

text \<open>The item of a resolved address carries exactly the addressed bytes (or bit), announced by
  a length field the client's decoder agrees with.\<close>

lemma readResult_resolved:
  assumes "resolve m spec = (t, RetCodeSuccess)"
  obtains r where "readResult m t = Ok r"
    "length (rrData r) = (if tgIsBit t then 1 else tgSize t)" "rrReturnCode r = RetCodeSuccess"
    "tgSize t \<le> 8191 \<Longrightarrow> result_ok r"
proof -
  from resolve_success [OF assms] obtain k reg where
    t: "tgReg t = Some k" "m k = Some reg" "tgStart t + tgSize t \<le> length (rgData reg)"
       "0 < tgSize t" "tgIsBit t = (tgTransp t = TransportSizeBit)" "tgIsBit t \<longrightarrow> tgSize t = 1"
    by metis
  define src where "src = take (tgSize t) (drop (tgStart t) (rgData reg))"
  have src: "go_slice (rgData reg) (tgStart t) (tgStart t + tgSize t) = Ok src" "length src = tgSize t"
    using t(3) by (simp_all add: src_def go_slice_def)
  have bits: "unat (word_of_nat (tgSize t * 8) :: uint16) = tgSize t * 8" if "tgSize t \<le> 8191"
    using that by (simp add: unat_word_of_nat_uint16 del: of_nat_mult)
  have len: "unat (word_of_nat (tgSize t) :: uint16) = tgSize t" if "tgSize t \<le> 8191"
    using that by (simp add: unat_word_of_nat_uint16)
  have "\<exists>r. readResult m t = Ok r \<and> length (rrData r) = (if tgIsBit t then 1 else tgSize t) \<and>
      rrReturnCode r = RetCodeSuccess \<and> (tgSize t \<le> 8191 \<longrightarrow> result_ok r)"
    by (cases "tgTransp t = TransportSizeBit"; cases "tgTransp t = TransportSizeInt";
        cases "tgTransp t = TransportSizeDInt"; cases "tgTransp t = TransportSizeReal";
        cases "tgTransp t = TransportSizeChar \<or> tgTransp t = transportTimer \<or> tgTransp t = transportCounter")
      (use t src bits len in
        \<open>simp_all add: readResult_def Let_def idx_Ok lengthField_small result_ok_def
          NormalizeResponseDataLength_def del: of_nat_mult\<close>)
  then show thesis using that by blast
qed

section \<open>Facts about Read Var\<close>

lemma result_ok_refusal [simp]: "code \<noteq> RetCodeSuccess \<Longrightarrow> result_ok (refusal code)"
  by (simp add: refusal_def result_ok_def)

lemma rrData_refusal [simp]: "rrData (refusal code) = []"
  by (simp add: refusal_def)

lemma dbReadLoop_total:
  "\<exists>r. dbReadLoop m rs data = Ok r \<and> (length (rrData r) \<le> 65535 \<longrightarrow> result_ok r)"
proof (induction rs arbitrary: data)
  case Nil
  show ?case
    by (simp add: result_ok_def NormalizeResponseDataLength_def lengthField_small unat_word_of_nat_uint16)
next
  case (Cons r rs)
  show ?case
  proof (cases "m \<lparr>akArea = AreaDB, akDb = draDBNumber r\<rparr>")
    case None
    then show ?thesis by simp
  next
    case (Some reg)
    then show ?thesis
      using Cons.IH by (simp add: Let_def go_slice_def not_less)
  qed
qed

lemma dbRead_total:
  "\<exists>r. dbRead m rs = Ok r \<and> (length (rrData r) \<le> 65535 \<longrightarrow> result_ok r)"
  using dbReadLoop_total [of m rs "[]"] by (simp add: dbRead_def)

text \<open>One step of the item loop, on every branch: the job is refused, or the item's result is
  well formed and exactly its bytes are counted.\<close>

lemma readItems_step:
  assumes "i < length ranges"
  shows "readItems m p ranges cnt i used (spec # specs) = Ok None \<or>
    (\<exists>r. let used' = used + ReadVarResultSize r (\<not> i + 1 < cnt) in
      readItems m p ranges cnt i used (spec # specs) =
        bindR (readItems m p ranges cnt (i + 1) used' specs) (\<lambda>rest.
          Ok (map_option (\<lambda>(rs, used'). (r # rs, used')) rest)) \<and>
      (p \<le> MaxPDUSize \<longrightarrow> result_ok r))"
proof (cases "vsSyntax spec = SyntaxIDDBRead")
  case True
  obtain r where r: "dbRead m (ranges ! i) = Ok r" "length (rrData r) \<le> 65535 \<longrightarrow> result_ok r"
    using dbRead_total by blast
  show ?thesis
  proof (cases "p < int (used + ReadVarResultSize r (\<not> i + 1 < cnt))")
    case big: True
    then show ?thesis using True assms r
      by (intro disjI1) (simp add: idx_Ok ReadVarResultSize_def Let_def add.assoc split: if_splits)
  next
    case False
    then have "p \<le> MaxPDUSize \<longrightarrow> length (rrData r) \<le> 65535"
      by (simp add: ReadVarResultSize_def Let_def split: if_splits)
    then show ?thesis using False True assms r
      by (intro disjI2 exI [of _ r]) (auto simp: idx_Ok ReadVarResultSize_def Let_def add_ac split: if_splits)
  qed
next
  case False
  note syn = this
  obtain t code where t: "resolve m spec = (t, code)" by fastforce
  show ?thesis
  proof (cases "code = RetCodeSuccess")
    case refused: False
    then show ?thesis
      by (intro disjI2 exI [of _ "refusal code"]) (simp add: syn t ReadVarResultSize_def)
  next
    case True
    with t obtain r where r: "readResult m t = Ok r"
      "length (rrData r) = (if tgIsBit t then 1 else tgSize t)" "tgSize t \<le> 8191 \<longrightarrow> result_ok r"
      using readResult_resolved by metis
    have bit: "tgIsBit t \<longrightarrow> tgSize t = 1"
      using resolve_success [of m spec t] t True by auto
    show ?thesis
    proof (cases "p < int (used + ReadVarResultSize r (\<not> i + 1 < cnt))")
      case big: True
      then show ?thesis
        using r(2) by (intro disjI1) (auto simp: syn t True ReadVarResultSize_def Let_def mod_2_add_4 split: if_splits)
    next
      case fits: False
      then have "p \<le> MaxPDUSize \<longrightarrow> tgSize t \<le> 8191"
        using r(2) bit by (simp add: ReadVarResultSize_def Let_def split: if_splits)
      then show ?thesis
        using r fits by (intro disjI2 exI [of _ r])
          (auto simp: syn t True ReadVarResultSize_def Let_def mod_2_add_4 add_ac split: if_splits)
    qed
  qed
qed

lemma length_readVarItemBytes:
  "length (readVarItemBytes (r # rs)) = ReadVarResultSize r (rs = []) + length (readVarItemBytes rs)"
  by (simp add: ReadVarResultSize_def Let_def)

lemma readItems_spec:
  assumes "i + length specs = cnt" "cnt \<le> length ranges"
  shows "readItems m p ranges cnt i used specs = Ok None \<or>
    (\<exists>rs. readItems m p ranges cnt i used specs = Ok (Some (rs, used + length (readVarItemBytes rs))) \<and>
      length rs = length specs \<and> (p \<le> MaxPDUSize \<longrightarrow> list_all result_ok rs))"
  using assms
proof (induction specs arbitrary: i used)
  case Nil
  then show ?case by simp
next
  case (Cons spec specs)
  from Cons.prems have "i < length ranges" by simp
  from readItems_step [OF this, of m p cnt used spec specs] show ?case
  proof
    assume "\<exists>r. let used' = used + ReadVarResultSize r (\<not> i + 1 < cnt) in
      readItems m p ranges cnt i used (spec # specs) =
        bindR (readItems m p ranges cnt (i + 1) used' specs) (\<lambda>rest.
          Ok (map_option (\<lambda>(rs, used'). (r # rs, used')) rest)) \<and>
      (p \<le> MaxPDUSize \<longrightarrow> result_ok r)"
    then obtain r where r: "readItems m p ranges cnt i used (spec # specs) =
        bindR (readItems m p ranges cnt (i + 1) (used + ReadVarResultSize r (\<not> i + 1 < cnt)) specs) (\<lambda>rest.
          Ok (map_option (\<lambda>(rs, used'). (r # rs, used')) rest))" "p \<le> MaxPDUSize \<longrightarrow> result_ok r"
      unfolding Let_def by blast
    have "\<not> i + 1 < cnt \<longleftrightarrow> specs = []"
      using Cons.prems by (auto simp: length_greater_0_conv)
    note r' = r(1) [unfolded this]
    from Cons.IH [of "i + 1" "used + ReadVarResultSize r (specs = [])"] Cons.prems
    consider "readItems m p ranges cnt (i + 1) (used + ReadVarResultSize r (specs = [])) specs = Ok None"
      | rs where "readItems m p ranges cnt (i + 1) (used + ReadVarResultSize r (specs = [])) specs =
            Ok (Some (rs, used + ReadVarResultSize r (specs = []) + length (readVarItemBytes rs)))"
          "length rs = length specs" "p \<le> MaxPDUSize \<longrightarrow> list_all result_ok rs"
      by auto
    then show ?thesis
    proof cases
      case 1
      then show ?thesis unfolding r' by simp
    next
      case 2
      then have "rs = [] \<longleftrightarrow> specs = []" by auto
      with 2 r(2) show ?thesis
        unfolding r' by (intro disjI2 exI [of _ "r # rs"]) (simp add: length_readVarItemBytes del: readVarItemBytes.simps)
    qed
  qed simp
qed

lemma EncodeAckData_small:
  "length param \<le> 65535 \<Longrightarrow> length data \<le> 65535 \<Longrightarrow> \<exists>out. EncodeAckData ref c d param data = Ok out"
  by (simp add: EncodeAckData_eq_Ok)

lemma EncodeAckData_not_Panic [simp]: "EncodeAckData ref c d param data \<noteq> Panic"
  by (simp add: EncodeAckData_def EncodeS7Header_def checkedUint16_def)

lemma EncodeReadVarResponse_not_Panic [simp]: "EncodeReadVarResponse ref rs \<noteq> Panic"
  by (simp add: EncodeReadVarResponse_def)

lemma EncodeReadVarResponse_length:
  "EncodeReadVarResponse ref rs = Ok out \<Longrightarrow> length out = AckDataHeaderSize + 2 + length (readVarItemBytes rs)"
  by (auto simp: EncodeReadVarResponse_def dest: ack_parsed split: if_splits)

text \<open>Every outcome of a Read Var job: malformed, refused as a whole, or one result per item in
  an answer within the negotiated PDU size.\<close>

lemma session_read_cases:
  obtains (malformed) e where "session_read s ref param = Err e"
  | (too_large) out where "session_read s ref param = Ok out"
      "EncodeAckData ref errClassSupplies errCodeFrames [FuncReadVar] [] = Ok out"
  | (answered) out specs rs where "session_read s ref param = Ok out"
      "ParseReadVarRequest param = Ok specs" "length rs = length specs"
      "EncodeReadVarResponse ref rs = Ok out" "int (length out) \<le> ssPduSize s"
      "ssPduSize s \<le> MaxPDUSize \<longrightarrow> list_all result_ok rs"
proof (cases "ParseReadVarRequest param")
  case (Ok specs)
  then obtain ranges where ranges: "ParseReadVarDBRead param = Ok ranges" "length ranges = length specs"
    using ParseReadVarDBRead_length by blast
  have fn: "2 \<le> length param" "param ! 0 = FuncReadVar"
    using Ok parseVarSpecs_Ok unfolding ParseReadVarRequest_def by blast+
  then have p1: "go_slice param 0 1 = Ok [FuncReadVar]"
    by (simp add: go_slice_def take_Suc_conv_app_nth)
  from readItems_spec [of 0 specs "length specs" ranges "svMem (ssSrv s)" "ssPduSize s" "AckDataHeaderSize + 2"]
  consider "readItems (svMem (ssSrv s)) (ssPduSize s) ranges (length specs) 0 (AckDataHeaderSize + 2) specs = Ok None"
    | rs where "readItems (svMem (ssSrv s)) (ssPduSize s) ranges (length specs) 0 (AckDataHeaderSize + 2) specs =
        Ok (Some (rs, AckDataHeaderSize + 2 + length (readVarItemBytes rs)))"
        "length rs = length specs" "ssPduSize s \<le> MaxPDUSize \<longrightarrow> list_all result_ok rs"
    using ranges by fastforce
  then show thesis
  proof cases
    case 1
    obtain out where "EncodeAckData ref errClassSupplies errCodeFrames [FuncReadVar] [] = Ok out"
      using EncodeAckData_small by fastforce
    with 1 Ok ranges p1 show thesis
      by (intro too_large [of out]) (simp_all add: session_read_def)
  next
    case 2
    show thesis
    proof (cases "ssPduSize s < int (AckDataHeaderSize + 2 + length (readVarItemBytes rs))")
      case True
      obtain out where "EncodeAckData ref errClassSupplies errCodeFrames [FuncReadVar] [] = Ok out"
        using EncodeAckData_small by fastforce
      with 2 True Ok ranges p1 show thesis
        by (intro too_large [of out]) (simp_all add: session_read_def)
    next
      case False
      with 2 Ok ranges have eq: "session_read s ref param = EncodeReadVarResponse ref rs"
        by (simp add: session_read_def)
      show thesis
      proof (cases "EncodeReadVarResponse ref rs")
        case (Ok out)
        with eq False 2 \<open>ParseReadVarRequest param = Ok specs\<close> show thesis
          by (intro answered [of out specs rs]) (simp_all add: EncodeReadVarResponse_length)
      qed (use eq malformed in simp_all)
    qed
  qed
qed (use malformed in \<open>simp_all add: session_read_def ParseReadVarRequest_def\<close>)

section \<open>Facts about Write Var\<close>

text \<open>What a client can do to the memory: change bytes of existing regions that are neither
  read-only nor timers or counters, and nothing else.\<close>

definition client_change :: "memory \<Rightarrow> memory \<Rightarrow> bool" where
  "client_change m m' \<longleftrightarrow> same_shape m m' \<and>
     (\<forall>k r. m k = Some r \<and> (rgReadOnly r \<or> timerOrCounter (akArea k)) \<longrightarrow> m' k = Some r)"

lemma client_change_refl [simp]: "client_change m m"
  by (simp add: client_change_def)

lemma client_change_trans [trans]: "client_change a b \<Longrightarrow> client_change b c \<Longrightarrow> client_change a c"
  unfolding client_change_def using same_shape_trans by blast

text \<open>The bytes a successful write leaves in the addressed region.\<close>

definition written :: "bytes \<Rightarrow> target \<Rightarrow> bytes \<Rightarrow> bytes" where
  "written old t d =
     (if tgIsBit t
      then old[tgStart t := (if d ! 0 AND 0x01 \<noteq> 0 then old ! tgStart t OR push_bit (tgBit t) 1
                             else old ! tgStart t AND NOT (push_bit (tgBit t) 1))]
      else take (tgStart t) old @ d @ drop (tgStart t + length d) old)"

lemma writeItem_cases:
  obtains (refused) code where "writeItem m spec item = Ok (code, m)" "code \<noteq> RetCodeSuccess"
  | (changed) t k r where "writeItem m spec item = Ok (RetCodeSuccess, m(k \<mapsto> r\<lparr>rgData := written (rgData r) t (wdData item)\<rparr>))"
      "resolve m spec = (t, RetCodeSuccess)" "tgReg t = Some k" "m k = Some r"
      "length (wdData item) = tgSize t" "\<not> rgReadOnly r" "\<not> timerOrCounter (akArea k)"
      "tgStart t + tgSize t \<le> length (rgData r)" "tgIsBit t \<longrightarrow> tgSize t = 1" "0 < tgSize t"
proof -
  obtain t code where t: "resolve m spec = (t, code)" by fastforce
  show thesis
  proof (cases "code = RetCodeSuccess")
    case False
    then show thesis by (intro refused [of code]) (simp_all add: writeItem_def t)
  next
    case True
    from resolve_success [of m spec t] t True obtain k r where
      k: "keyOf (vsArea spec) (int (unat (vsDBNumber spec))) = Ok k" "tgReg t = Some k" "m k = Some r"
         "tgArea t = vsArea spec" and
      sz: "tgStart t + tgSize t \<le> length (rgData r)" "tgIsBit t \<longrightarrow> tgSize t = 1" "0 < tgSize t"
      by metis
    from k have area: "akArea k = tgArea t" using keyOf_ok by simp
    consider "length (wdData item) \<noteq> tgSize t"
      | "length (wdData item) = tgSize t" "rgReadOnly r \<or> timerOrCounter (tgArea t)"
      | "length (wdData item) = tgSize t" "\<not> rgReadOnly r" "\<not> timerOrCounter (tgArea t)" by blast
    then show thesis
    proof cases
      case 1
      then show thesis by (intro refused [of RetCodeDataSizeFault]) (simp_all add: writeItem_def t True)
    next
      case 2
      then show thesis
        using k by (intro refused [of RetCodeAccessFault]) (simp_all add: writeItem_def t True)
    next
      case 3
      then have w: "writeItem m spec item =
          Ok (RetCodeSuccess, m(k \<mapsto> r\<lparr>rgData := written (rgData r) t (wdData item)\<rparr>))"
        using k sz by (simp add: writeItem_def t True idx_Ok copy_at_Ok written_def Let_def)
      have res: "resolve m spec = (t, RetCodeSuccess)" using t True by simp
      have "\<not> timerOrCounter (akArea k)" using 3 unfolding area by blast
      with changed [OF w res k(2,3) 3(1,2)] sz show thesis by blast
    qed
  qed
qed

lemma length_written:
  "tgStart t + tgSize t \<le> length old \<Longrightarrow> length d = tgSize t \<Longrightarrow> length (written old t d) = length old"
  by (simp add: written_def)

lemma writeItem_client_change:
  "\<exists>code m'. writeItem m spec item = Ok (code, m') \<and> client_change m m'"
proof (cases rule: writeItem_cases [of m spec item])
  case (changed t k r)
  then have "same_shape m (m(k \<mapsto> r\<lparr>rgData := written (rgData r) t (wdData item)\<rparr>))"
    by (intro same_shape_upd) (simp_all add: length_written)
  with changed show ?thesis by (simp add: client_change_def)
qed simp

lemma writeItems_total:
  "i + length specs \<le> length items \<Longrightarrow>
   \<exists>codes m'. writeItems m items i specs = Ok (codes, m') \<and> length codes = length specs \<and> client_change m m'"
proof (induction specs arbitrary: i m)
  case Nil
  then show ?case by simp
next
  case (Cons spec specs)
  from Cons.prems have "i < length items" "i + 1 + length specs \<le> length items" by simp_all
  moreover obtain code m1 where "writeItem m spec (items ! i) = Ok (code, m1)" "client_change m m1"
    using writeItem_client_change by blast
  moreover obtain codes m2 where "writeItems m1 items (i + 1) specs = Ok (codes, m2)"
    "length codes = length specs" "client_change m1 m2"
    using Cons.IH calculation by blast
  moreover note client_change_trans [OF \<open>client_change m m1\<close> \<open>client_change m1 m2\<close>]
  ultimately show ?case by (simp add: idx_Ok)
qed

section \<open>Facts about one PDU\<close>

text \<open>A request whose header the server can read, and its parts.\<close>

definition framed :: "bytes \<Rightarrow> bool" where
  "framed req \<longleftrightarrow> S7HeaderSize \<le> length req \<and> req ! 0 = 0x32 \<and>
     S7HeaderSize + unat (be16 (req ! 6) (req ! 7)) + unat (be16 (req ! 8) (req ! 9)) = length req"

definition req_ref :: "bytes \<Rightarrow> uint16" where
  "req_ref req = be16 (req ! 4) (req ! 5)"

definition req_param :: "bytes \<Rightarrow> bytes" where
  "req_param req = take (unat (be16 (req ! 6) (req ! 7))) (drop S7HeaderSize req)"

definition req_data :: "bytes \<Rightarrow> bytes" where
  "req_data req = drop (S7HeaderSize + unat (be16 (req ! 6) (req ! 7))) req"

text \<open>A PDU that answers the request with reference \<open>ref\<close>: the client's header decoder accepts
  it, with exactly the announced parameter and data bytes after the header.\<close>

definition is_answer :: "uint16 \<Rightarrow> bytes \<Rightarrow> bool" where
  "is_answer ref out \<longleftrightarrow>
     (case ParseS7Header out of
        Ok (h, rest) \<Rightarrow> PDURef h = ref \<and> (IsAckData (ROSCTR h) \<or> IsUserdata (ROSCTR h)) \<and>
          length rest = unat (ParamLength h) + unat (DataLength h)
      | _ \<Rightarrow> False)"

lemma ack_is_answer: "EncodeAckData ref c d param data = Ok out \<Longrightarrow> is_answer ref out"
  using ack_parsed [of ref c d param data out]
  by (auto simp: is_answer_def IsAckData_def unat_word_of_nat_uint16)

lemma is_answer_nonempty: "is_answer ref out \<Longrightarrow> out \<noteq> []"
  by (auto simp: is_answer_def ParseS7Header_def)

lemma EncodeReadVarResponse_answer: "EncodeReadVarResponse ref rs = Ok out \<Longrightarrow> is_answer ref out"
  by (auto simp: EncodeReadVarResponse_def intro: ack_is_answer split: if_splits)

lemma EncodeWriteVarResponse_answer: "EncodeWriteVarResponse ref codes = Ok out \<Longrightarrow> is_answer ref out"
  by (auto simp: EncodeWriteVarResponse_def intro: ack_is_answer split: if_splits)

lemma EncodeSetupCommResponse_answer: "EncodeSetupCommResponse ref a b c = Ok out \<Longrightarrow> is_answer ref out"
  by (auto simp: EncodeSetupCommResponse_def bindR_eq_Ok intro: ack_is_answer)

lemma notImplemented_answer:
  "\<exists>out. notImplemented ref param = Ok out \<and> is_answer ref out \<and> length out \<le> 13 \<and>
     EncodeAckData ref errClassApp errCodeNotImpl (take 1 param) [] = Ok out"
proof -
  have fn: "(if 0 < length param then go_slice param 0 1 else Ok []) = Ok (take 1 param)"
    by (cases param) (simp_all add: go_slice_def)
  obtain out where out: "EncodeAckData ref errClassApp errCodeNotImpl (take 1 param) [] = Ok out"
    using EncodeAckData_small [of "take 1 param" "[]"] by (fastforce simp: min_def)
  with ack_parsed [OF out] ack_is_answer [OF out] show ?thesis
    by (simp add: notImplemented_def fn or_nil_def min_def split: if_splits)
qed

lemma userdataNotImplemented_answer:
  "\<exists>out. userdataNotImplemented ref param = Ok out \<and> is_answer ref out \<and> length out \<le> 26"
proof (cases "length param < 8 \<or> param ! 0 \<noteq> 0 \<or> param ! 1 \<noteq> 1 \<or> param ! 2 \<noteq> 0x12")
  case True
  obtain out where "notImplemented ref param = Ok out" "is_answer ref out" "length out \<le> 13"
    using notImplemented_answer by blast
  with True show ?thesis
    by (cases "length param < 8") (auto simp: userdataNotImplemented_def idx_Ok)
next
  case False
  define resp :: bytes where "resp = [0x00, 0x01, 0x12, 0x08, 0x12, 0x80 OR (param ! 5 AND 0x3F),
      param ! 6, param ! 7, 0x00, 0x00, errClassApp, errCodeNotImpl]"
  define data :: bytes where "data = [RetCodeNotAvailable, 0x00, 0x00, 0x00]"
  have len: "length resp = 12" "length data = 4" by (simp_all add: resp_def data_def)
  have "userdataNotImplemented ref param = Ok (s7Header ROSCTRUserdata ref 12 4 @ resp @ data)"
    using False EncodeS7Header_length [of 12 4 ROSCTRUserdata ref]
    by (simp add: userdataNotImplemented_def idx_Ok Let_def or_nil_def resp_def data_def)
  moreover have "is_answer ref (s7Header ROSCTRUserdata ref 12 4 @ resp @ data)"
    using ParseS7Header_message [of resp data ROSCTRUserdata ref] len
    by (simp add: is_answer_def IsAck_def IsAckData_def IsUserdata_def)
  ultimately show ?thesis by (simp add: len)
qed

lemma handle_unframed: "\<not> framed req \<Longrightarrow> handle s req = Ok (([], False), s)"
  by (auto simp: handle_def framed_def go_simps Let_def)

text \<open>The dispatch of a framed request.\<close>

definition answer_of :: "session \<Rightarrow> bytes \<Rightarrow> bytes res \<times> session" where
  "answer_of s req =
    (let ref = req_ref req; param = req_param req in
     if IsUserdata (req ! 1) then (userdataNotImplemented ref param, s)
     else if \<not> IsJob (req ! 1) \<or> param = [] then (notImplemented ref param, s)
     else if param ! 0 = FuncSetupComm then session_setup s ref param
     else if param ! 0 = FuncReadVar then (session_read s ref param, s)
     else if param ! 0 = FuncWriteVar then session_write s ref param (req_data req)
     else (notImplemented ref param, s))"

lemma framed_parts:
  assumes "framed req"
  shows "length (req_param req) = unat (be16 (req ! 6) (req ! 7))"
    "length (req_data req) = unat (be16 (req ! 8) (req ! 9))"
    "length req = S7HeaderSize + length (req_param req) + length (req_data req)"
  using assms by (auto simp: framed_def req_param_def req_data_def min_def)

lemma handle_framed:
  assumes "framed req"
  shows "handle s req =
    (case answer_of s req of
       (Ok out, s') \<Rightarrow> Ok ((out, True), s')
     | (Err _, s') \<Rightarrow> bindR (notImplemented (req_ref req) (req_param req)) (\<lambda>out. Ok ((out, True), s'))
     | (Panic, _) \<Rightarrow> Panic)"
proof -
  have p: "req_param req = [] \<longleftrightarrow> unat (be16 (req ! 6) (req ! 7)) = 0"
    using framed_parts(1) [OF assms] by auto
  obtain out where n: "notImplemented (req_ref req) (req_param req) = Ok out"
    using notImplemented_answer by blast
  obtain out' where u: "userdataNotImplemented (req_ref req) (req_param req) = Ok out'"
    using userdataNotImplemented_answer by blast
  have slices: "go_slice req S7HeaderSize (S7HeaderSize + unat (be16 (req ! 6) (req ! 7))) = Ok (req_param req)"
    "go_slice req (S7HeaderSize + unat (be16 (req ! 6) (req ! 7))) (length req) = Ok (req_data req)"
    using assms by (simp_all add: framed_def go_slice_def req_param_def req_data_def)
  have reads: "idx req 0 = Ok 0x32" "idx req (Suc 0) = Ok (req ! 1)" "u16at req 4 = Ok (req_ref req)"
    "u16at req 6 = Ok (be16 (req ! 6) (req ! 7))" "u16at req 8 = Ok (be16 (req ! 8) (req ! 9))"
    using assms by (simp_all add: framed_def idx_Ok u16at_Ok req_ref_def)
  have fn: "idx (req_param req) 0 = Ok (req_param req ! 0)" if "0 < unat (be16 (req ! 6) (req ! 7))"
    using that framed_parts(1) [OF assms] by (simp add: idx_def)
  obtain r1 s1 where r1: "session_setup s (req_ref req) (req_param req) = (r1, s1)" by fastforce
  obtain r2 s2 where r2: "session_write s (req_ref req) (req_param req) (req_data req) = (r2, s2)" by fastforce
  have sum: "S7HeaderSize + unat (be16 (req ! 6) (req ! 7)) + unat (be16 (req ! 8) (req ! 9)) = length req"
    "\<not> length req < S7HeaderSize"
    using assms by (simp_all add: framed_def)
  show ?thesis
    by (simp add: handle_def reads slices sum answer_of_def Let_def p n u fn r1 r2 cong: res.case_cong)
qed

lemma ParseSetupCommRequest_not_Panic [simp]: "ParseSetupCommRequest param \<noteq> Panic"
  by (simp add: ParseSetupCommRequest_def go_simps)

lemma EncodeSetupCommResponse_not_Panic [simp]: "EncodeSetupCommResponse ref a b c \<noteq> Panic"
  by (simp add: EncodeSetupCommResponse_def bindR_eq_Panic checkedUint16_def)

lemma EncodeWriteVarResponse_not_Panic [simp]: "EncodeWriteVarResponse ref codes \<noteq> Panic"
  by (simp add: EncodeWriteVarResponse_def)

text \<open>What every handler keeps: the configuration, and of the memory all a client may not
  change.\<close>

definition session_change :: "session \<Rightarrow> session \<Rightarrow> bool" where
  "session_change s s' \<longleftrightarrow> svCfg (ssSrv s') = svCfg (ssSrv s) \<and>
     client_change (svMem (ssSrv s)) (svMem (ssSrv s')) \<and>
     (ssPduSize s' = ssPduSize s \<or> ssPduSize s' \<le> cfgMaxPDUSize (svCfg (ssSrv s)))"

lemma session_change_refl [simp]: "session_change s s"
  by (simp add: session_change_def)

lemma session_change_trans [trans]: "session_change a b \<Longrightarrow> session_change b c \<Longrightarrow> session_change a c"
  using client_change_trans [of "svMem (ssSrv a)" "svMem (ssSrv b)" "svMem (ssSrv c)"]
  by (auto simp: session_change_def)

lemma session_setup_facts:
  assumes "session_setup s ref param = (r, s')"
  shows "r \<noteq> Panic \<and> (\<forall>out. r = Ok out \<longrightarrow> is_answer ref out) \<and> session_change s s' \<and> ssSrv s' = ssSrv s"
  using assms
  by (cases "ParseSetupCommRequest param")
    (auto simp: session_setup_def Let_def session_change_def dest: EncodeSetupCommResponse_answer)

lemma session_write_facts:
  assumes "session_write s ref param data = (r, s')"
  shows "r \<noteq> Panic \<and> (\<forall>out. r = Ok out \<longrightarrow> is_answer ref out) \<and> session_change s s' \<and>
    ssPduSize s' = ssPduSize s"
proof (cases "ParseWriteVarRequest param data")
  case (Ok si)
  obtain specs items where si: "si = (specs, items)" by fastforce
  with Ok have "length items = length specs" using ParseWriteVarRequest_length by blast
  then obtain codes m' where w: "writeItems (svMem (ssSrv s)) items 0 specs = Ok (codes, m')"
    "client_change (svMem (ssSrv s)) m'"
    using writeItems_total [of 0 specs items "svMem (ssSrv s)"] by auto
  from assms w Ok have "r = EncodeWriteVarResponse ref codes" "s' = s\<lparr>ssSrv := (ssSrv s)\<lparr>svMem := m'\<rparr>\<rparr>"
    by (simp_all add: session_write_def si)
  with w show ?thesis
    by (auto simp: session_change_def dest: EncodeWriteVarResponse_answer)
qed (use assms in \<open>auto simp: session_write_def\<close>)

lemma session_read_facts:
  "session_read s ref param \<noteq> Panic \<and> (\<forall>out. session_read s ref param = Ok out \<longrightarrow> is_answer ref out)"
  by (rule session_read_cases [of s ref param])
    (auto dest: ack_is_answer EncodeReadVarResponse_answer)

lemma answer_of_facts:
  assumes "answer_of s req = (r, s')"
  shows "r \<noteq> Panic \<and> (\<forall>out. r = Ok out \<longrightarrow> is_answer (req_ref req) out) \<and> session_change s s'"
proof -
  obtain n where n: "notImplemented (req_ref req) (req_param req) = Ok n" "is_answer (req_ref req) n"
    using notImplemented_answer by blast
  obtain u where u: "userdataNotImplemented (req_ref req) (req_param req) = Ok u" "is_answer (req_ref req) u"
    using userdataNotImplemented_answer by blast
  have "answer_of s req \<in> {(Ok u, s), (Ok n, s), session_setup s (req_ref req) (req_param req),
      (session_read s (req_ref req) (req_param req), s),
      session_write s (req_ref req) (req_param req) (req_data req)}"
    by (simp add: answer_of_def Let_def n u)
  then consider "r = Ok u" "s' = s" | "r = Ok n" "s' = s"
    | "session_setup s (req_ref req) (req_param req) = (r, s')"
    | "r = session_read s (req_ref req) (req_param req)" "s' = s"
    | "session_write s (req_ref req) (req_param req) (req_data req) = (r, s')"
    unfolding assms by auto
  then show ?thesis
  proof cases
    case 3
    then show ?thesis using session_setup_facts by blast
  next
    case 4
    then show ?thesis using session_read_facts by simp
  next
    case 5
    then show ?thesis using session_write_facts by blast
  qed (use n u in simp_all)
qed

lemma handle_framed_answer:
  assumes "framed req"
  shows "\<exists>out s'. handle s req = Ok ((out, True), s') \<and> is_answer (req_ref req) out \<and> session_change s s'"
proof -
  obtain r s' where a: "answer_of s req = (r, s')" by fastforce
  from answer_of_facts [OF a] have f: "r \<noteq> Panic" "\<And>out. r = Ok out \<Longrightarrow> is_answer (req_ref req) out"
    "session_change s s'" by blast+
  obtain n where n: "notImplemented (req_ref req) (req_param req) = Ok n" "is_answer (req_ref req) n"
    using notImplemented_answer by blast
  show ?thesis
    by (cases r) (use f n in \<open>simp_all add: handle_framed [OF assms] a\<close>)
qed

lemma handle_change:
  assumes "handle s req = Ok ((out, keep), s')"
  shows "session_change s s'" "keep = framed req" "keep \<Longrightarrow> is_answer (req_ref req) out"
  using assms handle_framed_answer [of req s] handle_unframed [of req s] by (cases "framed req"; auto)+

text \<open>C11 The server answers any PDU without a panic. It drops the connection exactly when the
  header cannot be read (fewer than 10 bytes, a wrong protocol ID, or lengths that do not add
  up); every other PDU gets one answer, which the client's header decoder accepts and which
  carries the request's PDU reference. Whatever the client sends, the configuration, the set of
  areas, their sizes and flags, and the content of every read-only, timer and counter area stay
  as they were.\<close>

theorem handle_total:
  "case handle s req of
     Panic \<Rightarrow> False
   | Err _ \<Rightarrow> False
   | Ok ((out, keep), s') \<Rightarrow>
       keep = framed req \<and>
       (if keep then is_answer (req_ref req) out else out = [] \<and> s' = s) \<and>
       session_change s s'"
proof (cases "framed req")
  case True
  then show ?thesis using handle_framed_answer [OF True, of s] by auto
qed (simp add: handle_unframed)

section \<open>What a client observes\<close>

lemma word_start:
  assumes "uint (w :: uint32) = 8 * start + b" "0 \<le> b" "b \<le> 7" "0 \<le> start"
  shows "unat (drop_bit 3 w) = nat start" "unat (w AND 7) = nat b" "w mod 8 = 0 \<longleftrightarrow> b = 0"
proof -
  from assms have u: "unat w = 8 * nat start + nat b" by (simp add: unat_eq_nat_uint nat_add_distrib nat_mult_distrib)
  have b: "nat b < 8" using assms by simp
  have "unat (drop_bit 3 w) = unat w div 8" by (simp add: drop_bit_eq_div unat_div_distrib)
  then show "unat (drop_bit 3 w) = nat start" using u b by simp
  have m: "(7 :: uint32) = mask 3" by (simp add: mask_eq_exp_minus_1)
  have "unat (w AND 7) = unat w mod 8"
    unfolding m take_bit_eq_mask [symmetric] by (simp add: take_bit_eq_mod unat_mod_distrib)
  then show "unat (w AND 7) = nat b" using u b by simp
  have "unat (w mod 8) = unat w mod 8" by (simp add: unat_mod_distrib)
  then have "w mod 8 = 0 \<longleftrightarrow> nat b = 0" using u b by (metis mod_less mod_mult_self3 mult.commute unat_eq_0)
  then show "w mod 8 = 0 \<longleftrightarrow> b = 0" using assms by auto
qed

lemma resolve_addr:
  assumes "addr_matches addr spec" "keyOf (saArea addr) (saDBNumber addr) = Ok k" "m k = Some r"
    "0 \<le> saStart addr" "0 < saSize addr" "saStart addr + saSize addr \<le> int (length (rgData r))"
    "\<not> timerOrCounter (saArea addr)"
  shows "resolve m spec =
    (\<lparr>tgReg = Some k, tgStart = nat (saStart addr), tgBit = 0, tgSize = nat (saSize addr),
      tgIsBit = False, tgTransp = TransportSizeByte, tgArea = saArea addr\<rparr>, RetCodeSuccess)"
proof -
  from assms(1) have f: "vsSyntax spec = SyntaxIDS7Any" "vsTransportSize spec = TransportSizeByte"
    "vsArea spec = saArea addr" "uint (vsDBNumber spec) = saDBNumber addr"
    "unat (vsCount spec) = nat (saSize addr)" "uint (vsStartBit spec) = 8 * saStart addr + 0"
    by (auto simp: addr_matches_def unat_eq_nat_uint)
  note w = word_start [OF f(6) _ _ assms(4)]
  have "nat (saStart addr) + nat (saSize addr) \<le> length (rgData r)" using assms(4-6) by linarith
  with f w assms show ?thesis
    by (simp add: resolve_def elementSize_def not_less)
qed

lemma resolve_bit_addr:
  assumes "bit_addr_matches addr spec" "keyOf (sbArea addr) (sbDBNumber addr) = Ok k" "m k = Some r"
    "0 \<le> sbByteOffset addr" "sbByteOffset addr < int (length (rgData r))"
    "0 \<le> sbBitOffset addr" "sbBitOffset addr \<le> 7" "\<not> timerOrCounter (sbArea addr)"
  shows "resolve m spec =
    (\<lparr>tgReg = Some k, tgStart = nat (sbByteOffset addr), tgBit = nat (sbBitOffset addr), tgSize = 1,
      tgIsBit = True, tgTransp = TransportSizeBit, tgArea = sbArea addr\<rparr>, RetCodeSuccess)"
proof -
  from assms(1) have f: "vsSyntax spec = SyntaxIDS7Any" "vsTransportSize spec = TransportSizeBit"
    "vsArea spec = sbArea addr" "uint (vsDBNumber spec) = sbDBNumber addr" "vsCount spec = 1"
    "uint (vsStartBit spec) = 8 * sbByteOffset addr + sbBitOffset addr"
    by (auto simp: bit_addr_matches_def)
  note w = word_start [OF f(6) assms(6,7,4)]
  have "nat (sbByteOffset addr) < length (rgData r)" using assms(4,5) by linarith
  with f w assms show ?thesis
    by (simp add: resolve_def not_less)
qed

lemma job_framed:
  assumes "encodeMessage ROSCTRJob ref param data = Ok req"
  shows "framed req" "req_ref req = ref" "req_param req = param" "req_data req = data" "req ! 1 = ROSCTRJob"
proof -
  have r: "req = s7Header ROSCTRJob ref (word_of_nat (length param)) (word_of_nat (length data)) @ param @ data"
    and l: "length param \<le> 65535" "length data \<le> 65535"
    using assms by (auto simp: encodeMessage_eq_Ok)
  show "framed req" "req_ref req = ref" "req_param req = param" "req_data req = data" "req ! 1 = ROSCTRJob"
    using l by (simp_all add: r framed_def req_ref_def req_param_def req_data_def unat_word_of_nat_uint16)
qed

lemma answer_of_job:
  assumes "encodeMessage ROSCTRJob ref param data = Ok req" "param \<noteq> []"
  shows "answer_of s req =
    (if param ! 0 = FuncSetupComm then session_setup s ref param
     else if param ! 0 = FuncReadVar then (session_read s ref param, s)
     else if param ! 0 = FuncWriteVar then session_write s ref param data
     else (notImplemented ref param, s))"
  using assms(2) job_framed [OF assms(1)] by (simp add: answer_of_def IsUserdata_def IsJob_def)

lemma session_read_one:
  assumes "ParseReadVarRequest param = Ok [spec]" "resolve (svMem (ssSrv s)) spec = (t, RetCodeSuccess)"
    "readResult (svMem (ssSrv s)) t = Ok r"
    "int (AckDataHeaderSize + 2 + (if tgIsBit t then 5 else 4 + tgSize t)) \<le> ssPduSize s"
  shows "session_read s ref param = EncodeReadVarResponse ref [r]"
proof -
  obtain ranges where "ParseReadVarDBRead param = Ok ranges"
    using ParseReadVarDBRead_length [OF assms(1)] by blast
  moreover have "vsSyntax spec = SyntaxIDS7Any"
    using resolve_success [OF assms(2)] by blast
  ultimately show ?thesis
    using assms by (auto simp: session_read_def Let_def split: if_splits)
qed

lemma EncodeReadVarResponse_one:
  assumes "length (rrData r) \<le> 65531"
  shows "\<exists>out. EncodeReadVarResponse ref [r] = Ok out"
  using assms EncodeAckData_small by (simp add: EncodeReadVarResponse_def)

lemma handle_read_request:
  assumes req: "EncodeReadVarRequest ref [addr] = Ok req"
    and mem: "Server_Read (ssSrv s) (saArea addr) (saDBNumber addr) (saStart addr) (saSize addr) = Ok xs"
    and sz: "0 < saSize addr" "18 + saSize addr \<le> ssPduSize s" "ssPduSize s \<le> MaxPDUSize"
    and area: "\<not> timerOrCounter (saArea addr)"
  shows "\<exists>out h param data. handle s req = Ok ((out, True), s) \<and>
    ParseS7Header out = Ok (h, param @ data) \<and> IsAckData (ROSCTR h) \<and>
    PDURef h = ref \<and> ErrorClass h = 0 \<and> ErrorCode h = 0 \<and>
    unat (ParamLength h) = length param \<and> unat (DataLength h) = length data \<and>
    ParseReadVarResponse param data =
      Ok [\<lparr>ReturnCode = RetCodeSuccess, RawTransportSize = DataTransportSizeByte,
           RawLength = word_of_int (8 * saSize addr), Data = xs\<rparr>] \<and> length out = 18 + length xs"
proof -
  from req obtain item where items: "encodeItems [addr] = Ok item"
    and e: "encodeMessage ROSCTRJob ref ([FuncReadVar, word_of_nat (length [addr])] @ item) [] = Ok req"
    by (auto simp: EncodeReadVarRequest_def bindR_eq_Ok split: if_splits)
  obtain spec where spec: "ParseReadVarRequest ([FuncReadVar, word_of_nat (length [addr])] @ item) = Ok [spec]"
      "addr_matches addr spec"
    using parseVarSpecs_encoded [OF items, of FuncReadVar] unfolding ParseReadVarRequest_def
    by (auto simp: list_all2_Cons1)
  from mem obtain k r where k: "keyOf (saArea addr) (saDBNumber addr) = Ok k" "svMem (ssSrv s) k = Some r"
    and span: "0 \<le> saStart addr" "saStart addr + saSize addr \<le> int (length (rgData r))"
    and xs: "xs = take (nat (saSize addr)) (drop (nat (saStart addr)) (rgData r))"
    by (auto simp: Server_Read_def mem_read_eq_Ok)
  note res = resolve_addr [where m = "svMem (ssSrv s)", OF spec(2) k span(1) sz(1) span(2) area]
  let ?t = "fst (resolve (svMem (ssSrv s)) spec)"
  define rr where "rr = \<lparr>rrReturnCode = RetCodeSuccess, rrTransportSize = DataTransportSizeByte,
    rrRawLength = word_of_int (8 * saSize addr) :: uint16, rrData = xs\<rparr>"
  have le: "nat (saStart addr) + nat (saSize addr) \<le> length (rgData r)" using span sz(1) by linarith
  have "readResult (svMem (ssSrv s)) ?t = Ok rr"
    using k le sz by (simp add: res readResult_def rr_def xs go_slice_def Let_def lengthField_def mult.commute)
  moreover have "unat (word_of_int (8 * saSize addr) :: uint16) = 8 * nat (saSize addr)"
    using sz by (subst unat_word_of_int_uint16) (simp_all add: nat_mult_distrib)
  then have "result_ok rr"
    using le sz by (simp add: result_ok_def rr_def xs NormalizeResponseDataLength_def del: of_int_mult)
  moreover have len: "length (rrData rr) \<le> 65531" using le sz by (simp add: rr_def xs)
  moreover have "session_read s ref ([FuncReadVar, word_of_nat (length [addr])] @ item) = EncodeReadVarResponse ref [rr]"
    by (rule session_read_one [OF spec(1), of _ ?t]) (use res calculation sz in simp_all)
  moreover obtain out where "EncodeReadVarResponse ref [rr] = Ok out"
    using EncodeReadVarResponse_one [OF len] by blast
  ultimately have "handle s req = Ok ((out, True), s)" "EncodeReadVarResponse ref [rr] = Ok out" "result_ok rr"
    using answer_of_job [OF e] by (simp_all add: handle_framed [OF job_framed(1) [OF e]])
  moreover from this(2) have "length out = 18 + length xs"
    by (drule_tac EncodeReadVarResponse_length) (simp add: rr_def)
  ultimately show ?thesis
    using ReadVarResponse_parsed [of ref "[rr]" out] by (auto simp: item_of_result_def rr_def)
qed

text \<open>Reading over the wire returns the server's memory: when the client encodes a read of
  \<open>size\<close> bytes of an area and the span lies inside it, the server's answer, decoded by the
  client, is one successful item whose payload is exactly what the host-side read of the same
  span returns, and the session is unchanged. The answer must fit the negotiated PDU size (18
  bytes of overhead).\<close>

lemma remote_read:
  assumes req: "EncodeReadVarRequest ref [addr] = Ok req"
    and mem: "Server_Read (ssSrv s) (saArea addr) (saDBNumber addr) (saStart addr) (saSize addr) = Ok xs"
    and sz: "0 < saSize addr" "18 + saSize addr \<le> ssPduSize s" "ssPduSize s \<le> MaxPDUSize"
    and area: "\<not> timerOrCounter (saArea addr)"
  shows "\<exists>out h param data. handle s req = Ok ((out, True), s) \<and>
    ParseS7Header out = Ok (h, param @ data) \<and> IsAckData (ROSCTR h) \<and>
    PDURef h = ref \<and> ErrorClass h = 0 \<and> ErrorCode h = 0 \<and>
    unat (ParamLength h) = length param \<and> unat (DataLength h) = length data \<and>
    ParseReadVarResponse param data =
      Ok [\<lparr>ReturnCode = RetCodeSuccess, RawTransportSize = DataTransportSizeByte,
           RawLength = word_of_int (8 * saSize addr), Data = xs\<rparr>]"
  using handle_read_request [OF assms] by blast

text \<open>A small server: data block 1 with four bytes, markers read-only, after a negotiation of
  240 bytes.\<close>

definition demoMem :: memory where
  "demoMem = [\<lparr>akArea = 0x84, akDb = 1\<rparr> \<mapsto> \<lparr>rgData = [1, 2, 3, 4], rgReadOnly = False\<rparr>,
              \<lparr>akArea = 0x83, akDb = 0\<rparr> \<mapsto> \<lparr>rgData = [9], rgReadOnly = True\<rparr>]"

definition demoSession :: session where
  "demoSession = \<lparr>ssSrv = \<lparr>svCfg = \<lparr>cfgMaxPDUSize = 480, cfgMaxConnections = 32,
      cfgHandshakeTimeout = 5000000000, cfgIdleTimeout = 0\<rparr>, svMem = demoMem\<rparr>, ssPduSize = 240\<rparr>"

lemmas demo_defs = demoSession_def demoMem_def keyOf_def Area_valid_def

text \<open>The area of an address exists and clients may write it.\<close>

definition writable :: "Server \<Rightarrow> byte \<Rightarrow> int \<Rightarrow> bool" where
  "writable srv area db \<longleftrightarrow> \<not> timerOrCounter area \<and>
     (case keyOf area db of
        Ok k \<Rightarrow> (case svMem srv k of Some r \<Rightarrow> \<not> rgReadOnly r | None \<Rightarrow> False)
      | _ \<Rightarrow> False)"

lemma writableE:
  assumes "writable srv area db"
  obtains k r where "keyOf area db = Ok k" "svMem srv k = Some r" "\<not> rgReadOnly r" "\<not> timerOrCounter area"
  using assms by (auto simp: writable_def split: res.splits option.splits)

lemma session_write_one:
  assumes "ParseWriteVarRequest param data = Ok ([spec], [item])"
    "writeItem (svMem (ssSrv s)) spec item = Ok (code, m')"
  shows "session_write s ref param data =
    (EncodeWriteVarResponse ref [code], s\<lparr>ssSrv := (ssSrv s)\<lparr>svMem := m'\<rparr>\<rparr>)"
  using assms by (simp add: session_write_def idx_def)

lemma handle_write_job:
  assumes req: "encodeMessage ROSCTRJob ref ([FuncWriteVar, 1] @ item) data = Ok req"
    and p: "ParseWriteVarRequest ([FuncWriteVar, 1] @ item) data = Ok ([spec], [wd])"
    and w: "writeItem (svMem (ssSrv s)) spec wd = Ok (code, m')"
  shows "\<exists>out h param data. handle s req = Ok ((out, True), s\<lparr>ssSrv := (ssSrv s)\<lparr>svMem := m'\<rparr>\<rparr>) \<and>
    ParseS7Header out = Ok (h, param @ data) \<and> IsAckData (ROSCTR h) \<and>
    PDURef h = ref \<and> ErrorClass h = 0 \<and> ErrorCode h = 0 \<and>
    unat (ParamLength h) = length param \<and> unat (DataLength h) = length data \<and>
    ParseWriteVarResponseCodes param data = Ok [code] \<and> length out = 15"
proof -
  obtain out where out: "EncodeWriteVarResponse ref [code] = Ok out"
    using EncodeAckData_small [of "[FuncWriteVar, 1]" "[code]"] by (fastforce simp: EncodeWriteVarResponse_def)
  then have "handle s req = Ok ((out, True), s\<lparr>ssSrv := (ssSrv s)\<lparr>svMem := m'\<rparr>\<rparr>)"
    using answer_of_job [OF req] session_write_one [OF p w]
    by (simp add: handle_framed [OF job_framed(1) [OF req]])
  moreover have "length out = 15" using out by (auto simp: EncodeWriteVarResponse_def EncodeAckData_eq_Ok)
  ultimately show ?thesis using WriteVarResponse_parsed [OF out] by auto
qed

lemma handle_write_request:
  assumes req: "EncodeWriteVarRequest ref addr v = Ok req" and len: "saSize addr = int (length v)" "v \<noteq> []"
    and srv: "Server_Write (ssSrv s) (saArea addr) (saDBNumber addr) (saStart addr) v = Ok srv"
    and wr: "writable (ssSrv s) (saArea addr) (saDBNumber addr)"
  shows "\<exists>out h param data. handle s req = Ok ((out, True), s\<lparr>ssSrv := srv\<rparr>) \<and>
    ParseS7Header out = Ok (h, param @ data) \<and> IsAckData (ROSCTR h) \<and>
    PDURef h = ref \<and> ErrorClass h = 0 \<and> ErrorCode h = 0 \<and>
    unat (ParamLength h) = length param \<and> unat (DataLength h) = length data \<and>
    ParseWriteVarResponseCodes param data = Ok [RetCodeSuccess] \<and> length out = 15"
proof -
  obtain k r where k: "keyOf (saArea addr) (saDBNumber addr) = Ok k" "svMem (ssSrv s) k = Some r"
      "\<not> rgReadOnly r" "\<not> timerOrCounter (saArea addr)"
    using wr by (rule writableE)
  from srv k obtain m' where m': "srv = (ssSrv s)\<lparr>svMem := m'\<rparr>"
      "m' = (svMem (ssSrv s))(k \<mapsto> r\<lparr>rgData := take (nat (saStart addr)) (rgData r) @ v @
              drop (nat (saStart addr) + length v) (rgData r)\<rparr>)"
    and span: "0 \<le> saStart addr" "saStart addr + int (length v) \<le> int (length (rgData r))"
    by (auto simp: Server_Write_def bindR_eq_Ok mem_write_eq_Ok)
  obtain item data spec wd where
    e: "encodeMessage ROSCTRJob ref ([FuncWriteVar, 1] @ item) data = Ok req"
       "ParseWriteVarRequest ([FuncWriteVar, 1] @ item) data = Ok ([spec], [wd])"
    and m: "addr_matches addr spec" and wd: "wdData wd = v"
    using req by (rule EncodeWriteVarRequest_job) blast
  have "0 < saSize addr" using len by (simp add: length_greater_0_conv)
  with resolve_addr [where m = "svMem (ssSrv s)", OF m k(1,2) span(1)] span len k(4)
  have res: "resolve (svMem (ssSrv s)) spec =
    (\<lparr>tgReg = Some k, tgStart = nat (saStart addr), tgBit = 0, tgSize = length v,
      tgIsBit = False, tgTransp = TransportSizeByte, tgArea = saArea addr\<rparr>, RetCodeSuccess)"
    by simp
  have "nat (saStart addr) + length v \<le> length (rgData r)" using span by linarith
  then have "writeItem (svMem (ssSrv s)) spec wd = Ok (RetCodeSuccess, m')"
    using k by (simp add: writeItem_def res wd copy_at_Ok m'(2))
  from handle_write_job [OF e this] show ?thesis by (simp add: m'(1))
qed

text \<open>Writing over the wire does what the host-side write of the same bytes does: when the
  client encodes a write to a writable area and the span lies inside it, the server answers
  code 0xFF and its memory afterwards is the one the host-side write gives.\<close>

lemma remote_write:
  assumes req: "EncodeWriteVarRequest ref addr v = Ok req" and len: "saSize addr = int (length v)" "v \<noteq> []"
    and srv: "Server_Write (ssSrv s) (saArea addr) (saDBNumber addr) (saStart addr) v = Ok srv"
    and wr: "writable (ssSrv s) (saArea addr) (saDBNumber addr)"
  shows "\<exists>out h param data. handle s req = Ok ((out, True), s\<lparr>ssSrv := srv\<rparr>) \<and>
    ParseS7Header out = Ok (h, param @ data) \<and> IsAckData (ROSCTR h) \<and>
    PDURef h = ref \<and> ErrorClass h = 0 \<and> ErrorCode h = 0 \<and>
    unat (ParamLength h) = length param \<and> unat (DataLength h) = length data \<and>
    ParseWriteVarResponseCodes param data = Ok [RetCodeSuccess]"
  using handle_write_request [OF assms] by blast

lemma handle_write_read_only:
  assumes req: "EncodeWriteVarRequest ref addr v = Ok req" and len: "saSize addr = int (length v)" "v \<noteq> []"
    and area: "keyOf (saArea addr) (saDBNumber addr) = Ok k" "svMem (ssSrv s) k = Some r" "rgReadOnly r"
      "\<not> timerOrCounter (saArea addr)"
    and span: "saStart addr + int (length v) \<le> int (length (rgData r))"
  shows "\<exists>out h param data. handle s req = Ok ((out, True), s) \<and>
    ParseS7Header out = Ok (h, param @ data) \<and> IsAckData (ROSCTR h) \<and>
    PDURef h = ref \<and> ErrorClass h = 0 \<and> ErrorCode h = 0 \<and>
    unat (ParamLength h) = length param \<and> unat (DataLength h) = length data \<and>
    ParseWriteVarResponseCodes param data = Ok [RetCodeAccessFault] \<and> length out = 15"
proof -
  obtain item data spec wd where
    e: "encodeMessage ROSCTRJob ref ([FuncWriteVar, 1] @ item) data = Ok req"
       "ParseWriteVarRequest ([FuncWriteVar, 1] @ item) data = Ok ([spec], [wd])"
    and m: "addr_matches addr spec" and wd: "wdData wd = v"
    using req by (rule EncodeWriteVarRequest_job) blast
  have "0 \<le> saStart addr" using req
    by (auto simp: EncodeWriteVarRequest_def Let_def bindR_eq_Ok EncodeS7Any_eq_Ok split: if_splits)
  moreover have "0 < saSize addr" using len by (simp add: length_greater_0_conv)
  ultimately have res: "resolve (svMem (ssSrv s)) spec =
    (\<lparr>tgReg = Some k, tgStart = nat (saStart addr), tgBit = 0, tgSize = length v,
      tgIsBit = False, tgTransp = TransportSizeByte, tgArea = saArea addr\<rparr>, RetCodeSuccess)"
    using resolve_addr [where m = "svMem (ssSrv s)", OF m area(1,2)] span len area(4) by simp
  have "writeItem (svMem (ssSrv s)) spec wd = Ok (RetCodeAccessFault, svMem (ssSrv s))"
    using area by (simp add: writeItem_def res wd)
  from handle_write_job [OF e this] show ?thesis by auto
qed

text \<open>C13 A client's write to a read-only area is refused with item code 0x03 and changes
  nothing.\<close>

theorem remote_write_read_only:
  assumes req: "EncodeWriteVarRequest ref addr v = Ok req" and len: "saSize addr = int (length v)" "v \<noteq> []"
    and area: "keyOf (saArea addr) (saDBNumber addr) = Ok k" "svMem (ssSrv s) k = Some r" "rgReadOnly r"
      "\<not> timerOrCounter (saArea addr)"
    and span: "saStart addr + int (length v) \<le> int (length (rgData r))"
  shows "\<exists>out h param data. handle s req = Ok ((out, True), s) \<and>
    ParseS7Header out = Ok (h, param @ data) \<and> IsAckData (ROSCTR h) \<and>
    PDURef h = ref \<and> ErrorClass h = 0 \<and> ErrorCode h = 0 \<and>
    unat (ParamLength h) = length param \<and> unat (DataLength h) = length data \<and>
    ParseWriteVarResponseCodes param data = Ok [RetCodeAccessFault]"
  using handle_write_read_only [OF assms] by blast

theorem remote_write_read_only_witness:
  "\<exists>out h param data.
    handle demoSession [0x32, 1, 0, 0, 0, 9, 0, 14, 0, 6, 5, 1,
       0x12, 10, 0x10, 2, 0, 1, 0, 0, 0x83, 0, 0, 0, 0xFF, 4, 0, 8, 0xAA, 0] =
      Ok ((out, True), demoSession) \<and>
    ParseS7Header out = Ok (h, param @ data) \<and> IsAckData (ROSCTR h) \<and>
    PDURef h = 9 \<and> ErrorClass h = 0 \<and> ErrorCode h = 0 \<and>
    unat (ParamLength h) = length param \<and> unat (DataLength h) = length data \<and>
    ParseWriteVarResponseCodes param data = Ok [RetCodeAccessFault]"
  by (rule remote_write_read_only [where v = "[0xAA]" and
        addr = "\<lparr>saArea = 0x83, saDBNumber = 0, saStart = 0, saSize = 1\<rparr>" and
        k = "\<lparr>akArea = 0x83, akDb = 0\<rparr>" and r = "\<lparr>rgData = [9], rgReadOnly = True\<rparr>"])
    (simp_all add: EncodeWriteVarRequest_def EncodeS7Any_def encodeMessage_eq_Ok putS7Any_def
      s7Header_def put16_def timerOrCounter_def demo_defs)

section \<open>Single bits\<close>

lemma bit_set: "n < 8 \<Longrightarrow> bit ((b :: byte) OR push_bit n 1) i \<longleftrightarrow> bit b i \<or> i = n"
  by (auto simp: bit_simps)

lemma bit_cleared: "bit ((b :: byte) AND NOT (push_bit n 1)) i \<longleftrightarrow> bit b i \<and> i \<noteq> n"
  by (auto simp: bit_simps dest: bit_imp_le_length)

lemma byte_AND_1: "(b :: byte) AND 1 = of_bool (bit b 0)"
  by (simp add: and_one_eq mod2_eq_if bit_0)

lemma DecodeAsBit_of_bit:
  "DecodeAsBit \<lparr>ReturnCode = RetCodeSuccess, RawTransportSize = DataTransportSizeBit, RawLength = 1,
     Data = [drop_bit n b AND 1]\<rparr> = Ok (bit (b :: byte) n)"
  by (simp add: DecodeAsBit_def idx_def byte_AND_1 bit_drop_bit_eq)

definition put_bit :: "bytes \<Rightarrow> nat \<Rightarrow> nat \<Rightarrow> bool \<Rightarrow> bytes" where
  "put_bit xs i n v = xs[i := if v then xs ! i OR push_bit n 1 else xs ! i AND NOT (push_bit n 1)]"

lemma length_put_bit [simp]: "length (put_bit xs i n v) = length xs"
  by (simp add: put_bit_def)

lemma bit_put_bit:
  "i < length xs \<Longrightarrow> n < 8 \<Longrightarrow>
   bit (put_bit xs i n v ! j) k \<longleftrightarrow> (if j = i \<and> k = n then v else bit (xs ! j) k)"
  by (cases "j = i") (auto simp: put_bit_def bit_set bit_cleared simp del: push_bit_of_1)

lemma handle_bit_write:
  assumes req: "EncodeWriteVarBitRequest ref addr v = Ok req"
    and k: "keyOf (sbArea addr) (sbDBNumber addr) = Ok k" "svMem (ssSrv s) k = Some r"
      "\<not> rgReadOnly r" "\<not> timerOrCounter (sbArea addr)"
    and i: "sbByteOffset addr < int (length (rgData r))"
  shows "\<exists>out h param data. handle s req = Ok ((out, True), s\<lparr>ssSrv := (ssSrv s)\<lparr>svMem :=
      (svMem (ssSrv s))(k \<mapsto> r\<lparr>rgData := put_bit (rgData r) (nat (sbByteOffset addr)) (nat (sbBitOffset addr)) v\<rparr>)\<rparr>\<rparr>) \<and>
    ParseS7Header out = Ok (h, param @ data) \<and> IsAckData (ROSCTR h) \<and>
    PDURef h = ref \<and> ErrorClass h = 0 \<and> ErrorCode h = 0 \<and>
    unat (ParamLength h) = length param \<and> unat (DataLength h) = length data \<and>
    ParseWriteVarResponseCodes param data = Ok [RetCodeSuccess] \<and> length out = 15"
proof -
  obtain item spec where e: "EncodeS7AnyBit addr = Ok item"
      "encodeMessage ROSCTRJob ref ([FuncWriteVar, 1] @ item) (bit_data v) = Ok req"
      "ParseWriteVarRequest ([FuncWriteVar, 1] @ item) (bit_data v) = Ok ([spec], [bit_item v])"
      and m: "bit_addr_matches addr spec"
    using req by (rule EncodeWriteVarBitRequest_job)
  from e(1) have a: "0 \<le> sbByteOffset addr" "0 \<le> sbBitOffset addr" "sbBitOffset addr \<le> 7"
    by (auto simp: EncodeS7AnyBit_eq_Ok)
  have "nat (sbByteOffset addr) < length (rgData r)" using i a(1) by linarith
  with resolve_bit_addr [where m = "svMem (ssSrv s)", OF m k(1,2) a(1) i a(2,3) k(4)] k
  have "writeItem (svMem (ssSrv s)) spec (bit_item v) = Ok (RetCodeSuccess, (svMem (ssSrv s))(k \<mapsto>
      r\<lparr>rgData := put_bit (rgData r) (nat (sbByteOffset addr)) (nat (sbBitOffset addr)) v\<rparr>))"
    by (simp add: writeItem_def bit_item_def idx_def put_bit_def)
  from handle_write_job [OF e(2,3) this] show ?thesis .
qed

lemma handle_bit_read:
  assumes req: "EncodeReadVarBitRequest ref addr = Ok req"
    and k: "keyOf (sbArea addr) (sbDBNumber addr) = Ok k" "svMem (ssSrv s) k = Some r"
      "\<not> timerOrCounter (sbArea addr)"
    and i: "sbByteOffset addr < int (length (rgData r))" and pdu: "19 \<le> ssPduSize s"
  shows "\<exists>out h param data. handle s req = Ok ((out, True), s) \<and>
    ParseS7Header out = Ok (h, param @ data) \<and> IsAckData (ROSCTR h) \<and>
    PDURef h = ref \<and> ErrorClass h = 0 \<and> ErrorCode h = 0 \<and>
    unat (ParamLength h) = length param \<and> unat (DataLength h) = length data \<and>
    ParseReadVarResponse param data =
      Ok [\<lparr>ReturnCode = RetCodeSuccess, RawTransportSize = DataTransportSizeBit, RawLength = 1,
           Data = [drop_bit (nat (sbBitOffset addr)) (rgData r ! nat (sbByteOffset addr)) AND 1]\<rparr>] \<and> length out = 19"
proof -
  obtain item spec where e: "EncodeS7AnyBit addr = Ok item"
      "encodeMessage ROSCTRJob ref ([FuncReadVar, 1] @ item) [] = Ok req"
      "ParseReadVarRequest ([FuncReadVar, 1] @ item) = Ok [spec]" and m: "bit_addr_matches addr spec"
    using req by (rule EncodeReadVarBitRequest_job)
  from e(1) have a: "0 \<le> sbByteOffset addr" "0 \<le> sbBitOffset addr" "sbBitOffset addr \<le> 7"
    by (auto simp: EncodeS7AnyBit_eq_Ok)
  define rr where "rr = \<lparr>rrReturnCode = RetCodeSuccess, rrTransportSize = DataTransportSizeBit,
    rrRawLength = 1 :: uint16,
    rrData = [drop_bit (nat (sbBitOffset addr)) (rgData r ! nat (sbByteOffset addr)) AND 1]\<rparr>"
  have j: "nat (sbByteOffset addr) < length (rgData r)" using i a(1) by linarith
  have "session_read s ref ([FuncReadVar, 1] @ item) = EncodeReadVarResponse ref [rr]"
    by (rule session_read_one [OF e(3) resolve_bit_addr [where m = "svMem (ssSrv s)", OF m k(1,2) a(1) i a(2,3) k(3)]])
      (use j k pdu in \<open>simp_all add: readResult_def go_slice_def idx_def rr_def\<close>)
  moreover obtain out where out: "EncodeReadVarResponse ref [rr] = Ok out"
    using EncodeReadVarResponse_one [of rr] by (auto simp: rr_def)
  ultimately have "handle s req = Ok ((out, True), s)"
    using answer_of_job [OF e(2)] by (simp add: handle_framed [OF job_framed(1) [OF e(2)]])
  moreover have "result_ok rr" by (simp add: rr_def result_ok_def NormalizeResponseDataLength_def)
  moreover from out have "length out = 19"
    by (drule_tac EncodeReadVarResponse_length) (simp add: rr_def)
  ultimately show ?thesis
    using ReadVarResponse_parsed [OF out] by (auto simp: item_of_result_def rr_def)
qed

text \<open>Writing a single bit over the wire sets exactly that bit: the server answers 0xFF, no
  other bit of its memory changes, and a read of the bit afterwards, decoded by the client,
  gives the value written.\<close>

lemma remote_bit:
  assumes wreq: "EncodeWriteVarBitRequest ref addr v = Ok wreq"
    and rreq: "EncodeReadVarBitRequest ref' addr = Ok rreq"
    and wr: "writable (ssSrv s) (sbArea addr) (sbDBNumber addr)"
    and mem: "mem_view (svMem (ssSrv s)) (sbArea addr, sbDBNumber addr) = Some old"
    and i: "sbByteOffset addr < int (length old)"
    and pdu: "19 \<le> ssPduSize s"
  shows "\<exists>wout s' rout h wparam wdata h' param data item new.
    handle s wreq = Ok ((wout, True), s') \<and> ParseS7Header wout = Ok (h, wparam @ wdata) \<and>
    unat (ParamLength h) = length wparam \<and> ParseWriteVarResponseCodes wparam wdata = Ok [RetCodeSuccess] \<and>
    mem_view (svMem (ssSrv s')) (sbArea addr, sbDBNumber addr) = Some new \<and> length new = length old \<and>
    (\<forall>j < length old. \<forall>n. bit (new ! j) n \<longleftrightarrow>
       (if int j = sbByteOffset addr \<and> int n = sbBitOffset addr then v else bit (old ! j) n)) \<and>
    (\<forall>k. keyOf (sbArea addr) (sbDBNumber addr) \<noteq> Ok k \<longrightarrow> svMem (ssSrv s') k = svMem (ssSrv s) k) \<and>
    handle s' rreq = Ok ((rout, True), s') \<and> ParseS7Header rout = Ok (h', param @ data) \<and>
    unat (ParamLength h') = length param \<and>
    ParseReadVarResponse param data = Ok [item] \<and> DecodeAsBit item = Ok v"
proof -
  obtain k r where k: "keyOf (sbArea addr) (sbDBNumber addr) = Ok k" "svMem (ssSrv s) k = Some r"
      "\<not> rgReadOnly r" "\<not> timerOrCounter (sbArea addr)"
    using wr by (rule writableE)
  from mem k have old: "old = rgData r" by (simp add: mem_view_eq_Some)
  have a: "0 \<le> sbByteOffset addr" "0 \<le> sbBitOffset addr" "sbBitOffset addr \<le> 7"
    using rreq by (auto simp: EncodeReadVarBitRequest_def bindR_eq_Ok EncodeS7AnyBit_eq_Ok)
  define j n where "j = nat (sbByteOffset addr)" and "n = nat (sbBitOffset addr)"
  have jn: "j < length old" "n < 8" using i a by (simp_all add: j_def n_def nat_less_iff)
  define r' where "r' = r\<lparr>rgData := put_bit old j n v\<rparr>"
  define s' where "s' = s\<lparr>ssSrv := (ssSrv s)\<lparr>svMem := (svMem (ssSrv s))(k \<mapsto> r')\<rparr>\<rparr>"
  have k': "svMem (ssSrv s') k = Some r'" by (simp add: s'_def)
  have bit: "bit (put_bit old j n v ! j) n = v" using jn by (simp add: bit_put_bit)
  obtain wout h wparam wdata where w: "handle s wreq = Ok ((wout, True), s')"
    "ParseS7Header wout = Ok (h, wparam @ wdata)" "unat (ParamLength h) = length wparam"
    "ParseWriteVarResponseCodes wparam wdata = Ok [RetCodeSuccess]"
    using handle_bit_write [OF wreq k] i unfolding s'_def r'_def old j_def n_def by blast
  obtain rout h' param data where r: "handle s' rreq = Ok ((rout, True), s')"
    "ParseS7Header rout = Ok (h', param @ data)" "unat (ParamLength h') = length param"
    "ParseReadVarResponse param data = Ok [\<lparr>ReturnCode = RetCodeSuccess,
       RawTransportSize = DataTransportSizeBit, RawLength = 1, Data = [drop_bit n (rgData r' ! j) AND 1]\<rparr>]"
    using handle_bit_read [OF rreq k(1) k' k(4)] i pdu unfolding j_def n_def
    by (auto simp: r'_def s'_def)
  have "mem_view (svMem (ssSrv s')) (sbArea addr, sbDBNumber addr) = Some (put_bit old j n v)"
    using k(1) k' by (simp add: mem_view_eq_Some r'_def)
  moreover have "bit (put_bit old j n v ! j') n' \<longleftrightarrow>
      (if int j' = sbByteOffset addr \<and> int n' = sbBitOffset addr then v else bit (old ! j') n')" for j' n'
    using a jn by (auto simp: bit_put_bit j_def n_def)
  moreover have "\<forall>k''. keyOf (sbArea addr) (sbDBNumber addr) \<noteq> Ok k'' \<longrightarrow> svMem (ssSrv s') k'' = svMem (ssSrv s) k''"
    using k(1) by (simp add: s'_def)
  moreover have "length (put_bit old j n v) = length old" by simp
  moreover note r(4) [unfolded r'_def] DecodeAsBit_of_bit [of n "put_bit old j n v ! j", unfolded bit]
  ultimately show ?thesis
    using w r(1,2,3) by (simp add: r'_def) blast
qed

section \<open>Negotiation\<close>

text \<open>The states a session of a server with a valid configuration can be in.\<close>

definition server_ok :: "Server \<Rightarrow> bool" where
  "server_ok srv \<longleftrightarrow> mem_ok (svMem srv) \<and>
     MinPDUSize \<le> cfgMaxPDUSize (svCfg srv) \<and> cfgMaxPDUSize (svCfg srv) \<le> MaxPDUSize"

definition session_ok :: "session \<Rightarrow> bool" where
  "session_ok s \<longleftrightarrow> server_ok (ssSrv s) \<and> ssPduSize s \<le> cfgMaxPDUSize (svCfg (ssSrv s))"

lemma session_change_ok: "session_change s s' \<Longrightarrow> session_ok s \<Longrightarrow> session_ok s'"
  by (auto simp: session_change_def session_ok_def server_ok_def client_change_def
      intro: mem_ok_same_shape)

lemma withDefaults_Ok:
  "withDefaults c = Ok c' \<Longrightarrow> MinPDUSize \<le> cfgMaxPDUSize c' \<and> cfgMaxPDUSize c' \<le> MaxPDUSize \<and>
     0 < cfgMaxConnections c' \<and> 0 < cfgHandshakeTimeout c' \<and> 0 \<le> cfgIdleTimeout c'"
  by (auto simp: withDefaults_def Let_def split: if_splits)

lemma newSession_ok: "server_ok srv \<Longrightarrow> session_ok (newSession srv)"
  by (simp add: session_ok_def newSession_def)

lemma handle_setup_request:
  assumes ok: "session_ok s" and req: "EncodeSetupCommRequest ref calling called sz = Ok req"
  shows "\<exists>out h param q. handle s req = Ok ((out, True), s\<lparr>ssPduSize := int (PDUSize q)\<rparr>) \<and>
    ParseS7Header out = Ok (h, param) \<and> PDURef h = ref \<and> ErrorClass h = 0 \<and> ErrorCode h = 0 \<and>
    ParseSetupCommResponse param = Ok q \<and>
    int (PDUSize q) = min sz (cfgMaxPDUSize (svCfg (ssSrv s))) \<and>
    int (MaxAmqCalling q) = max 1 (min calling 2) \<and> int (MaxAmqCalled q) = max 1 (min called 2)"
proof -
  let ?p = "[FuncSetupComm, 0] @ put16 (word_of_int calling) @ put16 (word_of_int called) @ put16 (word_of_int sz)"
  from req have r: "0 \<le> calling" "calling \<le> 65535" "0 \<le> called" "called \<le> 65535" "0 \<le> sz" "sz \<le> 65535"
    and e: "encodeMessage ROSCTRJob ref ?p [] = Ok req"
    by (simp_all add: EncodeSetupCommRequest_def bindR_eq_Ok checkedUint16_eq_Ok)
  define g where "g = min sz (cfgMaxPDUSize (svCfg (ssSrv s)))"
  have g: "0 \<le> g" "g \<le> 65535" using r ok by (simp_all add: g_def session_ok_def server_ok_def)
  define a b where "a = max 1 (min calling maxAmQ)" and "b = max 1 (min called maxAmQ)"
  have ab: "0 \<le> a" "a \<le> 65535" "0 \<le> b" "b \<le> 65535" by (simp_all add: a_def b_def)
  let ?q = "[FuncSetupComm, 0] @ put16 (word_of_int a) @ put16 (word_of_int b) @ put16 (word_of_int g)"
  obtain out where "EncodeAckData ref 0 0 ?q [] = Ok out" using EncodeAckData_small [of ?q "[]" ref 0 0] by auto
  moreover from this have "EncodeSetupCommResponse ref a b g = Ok out"
    using g ab by (simp add: EncodeSetupCommResponse_def checkedUint16_def)
  ultimately have "session_setup s ref ?p = (Ok out, s\<lparr>ssPduSize := g\<rparr>)"
    using r setup_param_parsed(1) by (simp add: session_setup_def g_def a_def b_def)
  then have "handle s req = Ok ((out, True), s\<lparr>ssPduSize := g\<rparr>)"
    using answer_of_job [OF e] by (simp add: handle_framed [OF job_framed(1) [OF e]])
  moreover obtain h where "ParseS7Header out = Ok (h, ?q)" "PDURef h = ref" "ErrorClass h = 0" "ErrorCode h = 0"
    using ack_parsed [OF \<open>EncodeAckData ref 0 0 ?q [] = Ok out\<close>] by simp
  moreover define q where "q = \<lparr>MaxAmqCalling = nat a, MaxAmqCalled = nat b, PDUSize = nat g\<rparr>"
  have "ParseSetupCommResponse ?q = Ok q"
    using g ab unfolding setup_param_parsed q_def by simp
  moreover have "int (PDUSize q) = g" "int (MaxAmqCalling q) = a" "int (MaxAmqCalled q) = b"
    using g ab by (simp_all add: q_def)
  ultimately show ?thesis unfolding g_def [symmetric] a_def [symmetric] b_def [symmetric] by metis
qed

text \<open>C14 Setup Communication grants the smaller of the PDU size the client asked for and the
  configured one, so never more than was asked for, and one or two parallel jobs each way; the
  client decodes exactly the limits the session then works with.\<close>

theorem negotiation:
  assumes ok: "session_ok s" and req: "EncodeSetupCommRequest ref calling called sz = Ok req"
  shows "\<exists>out h param q. handle s req = Ok ((out, True), s\<lparr>ssPduSize := int (PDUSize q)\<rparr>) \<and>
    ParseS7Header out = Ok (h, param) \<and> PDURef h = ref \<and> ErrorClass h = 0 \<and> ErrorCode h = 0 \<and>
    ParseSetupCommResponse param = Ok q \<and>
    int (PDUSize q) = min sz (cfgMaxPDUSize (svCfg (ssSrv s))) \<and>
    int (MaxAmqCalling q) = max 1 (min calling 2) \<and> int (MaxAmqCalled q) = max 1 (min called 2)"
  using assms by (rule handle_setup_request)

theorem negotiation_witness:
  "\<exists>out h param q. handle demoSession [0x32, 1, 0, 0, 0, 1, 0, 8, 0, 0, 0xF0, 0, 0, 8, 0, 8, 3, 0xC0] =
      Ok ((out, True), demoSession\<lparr>ssPduSize := int (PDUSize q)\<rparr>) \<and>
    ParseS7Header out = Ok (h, param) \<and> PDURef h = 1 \<and> ErrorClass h = 0 \<and> ErrorCode h = 0 \<and>
    ParseSetupCommResponse param = Ok q \<and>
    int (PDUSize q) = min 960 (cfgMaxPDUSize (svCfg (ssSrv demoSession))) \<and>
    int (MaxAmqCalling q) = max 1 (min 8 2) \<and> int (MaxAmqCalled q) = max 1 (min 8 2)"
  by (rule negotiation)
    (simp_all add: EncodeSetupCommRequest_def checkedUint16_def encodeMessage_eq_Ok s7Header_def put16_def
      session_ok_def server_ok_def mem_ok_def key_ok_def demo_defs)

section \<open>A whole connection\<close>

text \<open>Read Var answers.\<close>

lemma handle_read_fits:
  assumes "framed req" "IsJob (req ! 1)" "req_param req \<noteq> []" "req_param req ! 0 = FuncReadVar"
  shows "\<exists>out. handle s req = Ok ((out, True), s) \<and>
    (int (length out) \<le> ssPduSize s \<or> length out = 13 \<and>
      (\<exists>h rest. ParseS7Header out = Ok (h, rest) \<and> ErrorClass h \<noteq> 0))"
proof -
  have a: "answer_of s req = (session_read s (req_ref req) (req_param req), s)"
    using assms by (simp add: answer_of_def IsJob_def IsUserdata_def)
  show ?thesis
  proof (cases rule: session_read_cases [of s "req_ref req" "req_param req"])
    case (malformed e)
    obtain out where out: "notImplemented (req_ref req) (req_param req) = Ok out"
      "EncodeAckData (req_ref req) errClassApp errCodeNotImpl (take 1 (req_param req)) [] = Ok out"
      using notImplemented_answer by blast
    have "length (take 1 (req_param req)) = 1" using assms(3) by (cases "req_param req") simp_all
    with malformed out ack_parsed [OF out(2)] show ?thesis
      by (simp add: handle_framed [OF assms(1)] a)
  next
    case (too_large out)
    with ack_parsed [OF too_large(2)] show ?thesis
      by (simp add: handle_framed [OF assms(1)] a)
  next
    case (answered out specs rs)
    then show ?thesis by (simp add: handle_framed [OF assms(1)] a)
  qed
qed

text \<open>C15 A Read Var job never changes the server, and its answer is never larger than the
  negotiated PDU size: a job whose results do not fit is refused as a whole by a 13-byte header
  error.\<close>

theorem read_answer_fits:
  assumes "framed req" "IsJob (req ! 1)" "req_param req \<noteq> []" "req_param req ! 0 = FuncReadVar"
  shows "\<exists>out. handle s req = Ok ((out, True), s) \<and>
    (int (length out) \<le> ssPduSize s \<or> length out = 13 \<and>
      (\<exists>h rest. ParseS7Header out = Ok (h, rest) \<and> ErrorClass h \<noteq> 0))"
  using assms by (rule handle_read_fits)

theorem read_answer_fits_witness:
  "\<exists>out. handle demoSession [0x32, 1, 0, 0, 0, 7, 0, 14, 0, 0, 4, 1,
       0x12, 10, 0x10, 2, 0, 4, 0, 1, 0x84, 0, 0, 0] = Ok ((out, True), demoSession) \<and>
    (int (length out) \<le> ssPduSize demoSession \<or> length out = 13 \<and>
      (\<exists>h rest. ParseS7Header out = Ok (h, rest) \<and> ErrorClass h \<noteq> 0))"
  by (rule read_answer_fits) (simp_all add: framed_def IsJob_def req_param_def)

text \<open>C16 Over a whole connection the server never panics, keeps its invariant, and sends exactly
  one answer per readable request, in the order of the requests and with their PDU references;
  it stops at the first request it cannot read.\<close>

theorem connection_served:
  assumes "session_ok s"
  shows "\<exists>outs s'. serveRequests s reqs = Ok ((outs, list_all framed reqs), s') \<and>
    list_all2 (\<lambda>req out. is_answer (req_ref req) out) (takeWhile framed reqs) outs \<and>
    session_ok s' \<and> session_change s s'"
  using assms
proof (induction reqs arbitrary: s)
  case Nil
  then show ?case by simp
next
  case (Cons req reqs)
  show ?case
  proof (cases "framed req")
    case False
    then show ?thesis using Cons.prems by (simp add: handle_unframed)
  next
    case True
    then obtain out s1 where h: "handle s req = Ok ((out, True), s1)" "is_answer (req_ref req) out"
      "session_change s s1"
      using handle_framed_answer by blast
    then have "session_ok s1" using Cons.prems session_change_ok by blast
    from Cons.IH [OF this] obtain outs s' where
      "serveRequests s1 reqs = Ok ((outs, list_all framed reqs), s')"
      "list_all2 (\<lambda>req out. is_answer (req_ref req) out) (takeWhile framed reqs) outs"
      "session_ok s'" "session_change s1 s'"
      by blast
    with h True is_answer_nonempty [OF h(2)] session_change_trans [OF h(3)] show ?thesis by auto
  qed
qed

theorem connection_served_witness:
  "\<exists>outs s'. serveRequests demoSession [[0x32, 1, 0, 0, 0, 1, 0, 0, 0, 0], [0x31]] =
      Ok ((outs, list_all framed [[0x32, 1, 0, 0, 0, 1, 0, 0, 0, 0], [0x31]]), s') \<and>
    list_all2 (\<lambda>req out. is_answer (req_ref req) out)
      (takeWhile framed [[0x32, 1, 0, 0, 0, 1, 0, 0, 0, 0], [0x31]]) outs \<and>
    session_ok s' \<and> session_change demoSession s'"
  by (rule connection_served) (simp add: session_ok_def server_ok_def mem_ok_def key_ok_def demo_defs)

end
