(* ===== verification/Link.thy ===== *)
theory Link
  imports Client_RW Server_Session
begin

text \<open>
  The client against the server. The locales say what a client operation relies on: \<open>exchange\<close>
  is a transport whose peer answers each request, \<open>area_peer\<close> a peer whose answers to Read Var and
  Write Var requests are reads and writes of its areas. The client's chunked operations are proved
  once against \<open>area_peer\<close>: they read and write whole spans. The network \<open>net\<close> joins the two
  sides of the repository: its transport passes every TSDU a client sends to \<open>handle\<close> of the
  server with the session of that connection; \<open>area_peer\<close> is interpreted on it.
\<close>

section \<open>What the client relies on\<close>

locale exchange =
  fixes tr :: "('w, 'r, 'c) transport"
    and serve :: "'w \<Rightarrow> 'c \<Rightarrow> bytes \<Rightarrow> (bytes \<times> 'w) option"
    and ready :: "'w \<Rightarrow> 'c \<Rightarrow> bool"
  assumes ctx_live: "trCtxErr tr w ctx = (Ok (), w)"
    and sleep_over: "trSleep tr w ctx d = (Ok (), w)"
    and round_trip: "ready w conn \<Longrightarrow> serve w conn req = Some (out, w') \<Longrightarrow>
      \<exists>w1. trWrite tr w ctx conn req = (Ok (), w1) \<and> trRead tr w1 ctx conn = (Ok out, w')"
    and ready_after: "ready w conn \<Longrightarrow> serve w conn req = Some (out, w') \<Longrightarrow> ready w' conn"
begin

lemma sendReceive_serve:
  assumes "clConn c = Some conn" "ready w conn" "serve w conn req = Some (out, w')"
    "int (length req) \<le> clPduSize c"
  shows "sendReceive tr c ctx req ref w = (decodeReply out ref, w')"
proof -
  obtain w1 where "trWrite tr w ctx conn req = (Ok (), w1)" "trRead tr w1 ctx conn = (Ok out, w')"
    using round_trip [OF assms(2,3)] by blast
  with assms(1,4) show ?thesis by (simp add: sendReceive_def ctx_live)
qed

lemma ratePause_over: "ratePause tr c ctx first w = (Ok (), w)"
  by (simp add: ratePause_def ctx_live sleep_over)

end

locale area_peer = exchange tr serve ready
  for tr :: "('w, 'r, 'c) transport" and serve and ready +
  fixes rd :: "'w \<Rightarrow> byte \<Rightarrow> int \<Rightarrow> int \<Rightarrow> int \<Rightarrow> bytes option"
    and wr :: "'w \<Rightarrow> byte \<Rightarrow> int \<Rightarrow> int \<Rightarrow> bytes \<Rightarrow> 'w option"
    and limit :: "'w \<Rightarrow> 'c \<Rightarrow> int"
  assumes read_law: "ready w conn \<Longrightarrow> EncodeReadVarRequest ref [a] = Ok req \<Longrightarrow>
      int (length req) \<le> limit w conn \<Longrightarrow> 18 + saSize a \<le> limit w conn \<Longrightarrow> 0 < saSize a \<Longrightarrow>
      rd w (saArea a) (saDBNumber a) (saStart a) (saSize a) = Some xs \<Longrightarrow>
      \<exists>out param data item. serve w conn req = Some (out, w) \<and> decodeReply out ref = Ok (param, data) \<and>
        ParseReadVarResponse param data = Ok [item] \<and> ReturnCode item = RetCodeSuccess \<and> Data item = xs"
    and write_law: "ready w conn \<Longrightarrow> EncodeWriteVarRequest ref a v = Ok req \<Longrightarrow>
      int (length req) \<le> limit w conn \<Longrightarrow> v \<noteq> [] \<Longrightarrow> saSize a = int (length v) \<Longrightarrow>
      wr w (saArea a) (saDBNumber a) (saStart a) v = Some w' \<Longrightarrow>
      \<exists>out param data. serve w conn req = Some (out, w') \<and> decodeReply out ref = Ok (param, data) \<and>
        ParseWriteVarResponse param data = Ok ()"
    and rd_split: "rd w area db s (m + n) = Some xs \<Longrightarrow> 0 \<le> m \<Longrightarrow> 0 \<le> n \<Longrightarrow>
      \<exists>ys zs. xs = ys @ zs \<and> int (length ys) = m \<and> rd w area db s m = Some ys \<and> rd w area db (s + m) n = Some zs"
    and rd_length: "rd w area db s n = Some xs \<Longrightarrow> int (length xs) = n"
    and wr_split: "wr w area db s (ys @ zs) = Some w' \<Longrightarrow>
      \<exists>w1. wr w area db s ys = Some w1 \<and> wr w1 area db (s + int (length ys)) zs = Some w'"
    and wr_nil: "wr w area db s [] = Some w' \<Longrightarrow> w' = w"
    and wr_limit: "wr w area db s v = Some w' \<Longrightarrow> limit w' conn = limit w conn"
begin

text \<open>One chunk of a read.\<close>

lemma readChunks_step:
  assumes "ready w conn" "clConn c = Some conn" "clPduSize c = limit w conn" "1 \<le> k" "24 + k \<le> limit w conn"
    "k \<le> MaxS7AnyCount" "0 \<le> adDBNumber addr" "adDBNumber addr \<le> MaxS7AnyDBNumber"
    "0 \<le> off" "off \<le> MaxS7AnyByteOffset" "rd w (adArea addr) (adDBNumber addr) off k = Some ys"
  shows "\<exists>c'. clConn c' = clConn c \<and> clPduSize c' = clPduSize c \<and>
    readChunks tr ctx addr n (k # ks) first off xs c w = readChunks tr ctx addr n ks False (off + k) (xs @ ys) c' w"
proof -
  obtain ref c' where ref: "fresh_ref c = (ref, c')" by fastforce
  then have c': "clConn c' = Some conn" "clPduSize c' = limit w conn"
    using assms(2,3) by (auto simp: fresh_ref_def split: prod.splits)
  define a where "a = \<lparr>saArea = adArea addr, saDBNumber = adDBNumber addr, saStart = off, saSize = k\<rparr>"
  have a: "saSize a = k" "saArea a = adArea addr" "saDBNumber a = adDBNumber addr" "saStart a = off"
    by (simp_all add: a_def)
  obtain req where req: "EncodeReadVarRequest ref [a] = Ok req" "length req = 24"
    using EncodeReadVarRequest_total [of a ref] assms(4-10) by (auto simp: a)
  have l: "int (length req) \<le> limit w conn" "18 + saSize a \<le> limit w conn" "0 < saSize a"
    using assms(4,5) req(2) by (simp_all add: a)
  obtain out param data item where out: "serve w conn req = Some (out, w)" "decodeReply out ref = Ok (param, data)"
    and item: "ParseReadVarResponse param data = Ok [item]" "ReturnCode item = RetCodeSuccess" "Data item = ys"
    using read_law [OF assms(1) req(1) l] assms(11) unfolding a by metis
  have "sendReceive tr c' ctx req ref w = (Ok (param, data), w)"
    using sendReceive_serve [OF c'(1) assms(1) out(1)] l(1) c'(2) out(2) by simp
  moreover have "readItem n k xs param data = Ok (Inr (xs @ ys))"
    using item rd_length [OF assms(11)] by (simp add: readItem_def idx_def ReturnCodeError_def)
  ultimately show ?thesis
    using c' assms(2,3) req(1) by (intro exI [of _ c']) (simp add: ratePause_over ref a_def)
qed

lemma readChunks_peer:
  assumes "ready w conn" "clConn c = Some conn" "clPduSize c = limit w conn"
    "\<forall>k \<in> set chunks. 1 \<le> k \<and> 24 + k \<le> limit w conn \<and> k \<le> MaxS7AnyCount"
    "0 \<le> adDBNumber addr" "adDBNumber addr \<le> MaxS7AnyDBNumber"
    "0 \<le> off" "off + sum_list chunks \<le> MaxS7AnyByteOffset + 1"
    "rd w (adArea addr) (adDBNumber addr) off (sum_list chunks) = Some ys"
  shows "\<exists>c'. readChunks tr ctx addr n chunks first off xs c w = (Ok (finishRead n (xs @ ys)), c', w)"
  using assms
proof (induction chunks arbitrary: first off xs c ys)
  case Nil
  then show ?case using rd_length by fastforce
next
  case (Cons k ks)
  have nonneg: "0 \<le> sum_list ks" using Cons.prems(4) by (intro sum_list_nonneg) auto
  have k: "1 \<le> k" "24 + k \<le> limit w conn" "k \<le> MaxS7AnyCount" using Cons.prems(4) by auto
  obtain ys1 ys2 where ys: "ys = ys1 @ ys2" "rd w (adArea addr) (adDBNumber addr) off k = Some ys1"
      "rd w (adArea addr) (adDBNumber addr) (off + k) (sum_list ks) = Some ys2"
    using rd_split [of w "adArea addr" "adDBNumber addr" off k "sum_list ks" ys] Cons.prems(9) nonneg k(1) by auto
  have "off \<le> MaxS7AnyByteOffset" using Cons.prems(8) nonneg k(1) by simp
  then obtain c1 where c1: "clConn c1 = clConn c" "clPduSize c1 = clPduSize c"
      "readChunks tr ctx addr n (k # ks) first off xs c w = readChunks tr ctx addr n ks False (off + k) (xs @ ys1) c1 w"
    using readChunks_step [OF Cons.prems(1-3) k Cons.prems(5-7) _ ys(2)] by blast
  have "\<exists>c'. readChunks tr ctx addr n ks False (off + k) (xs @ ys1) c1 w = (Ok (finishRead n ((xs @ ys1) @ ys2)), c', w)"
    by (rule Cons.IH) (use Cons.prems c1(1,2) k ys(3) in \<open>simp_all add: add.assoc\<close>)
  then show ?case unfolding c1(3) ys(1) by simp
qed

lemma ReadArea_peer:
  assumes "ready w conn" "clConn c = Some conn" "clPduSize c = limit w conn" "25 \<le> limit w conn"
    "limit w conn \<le> 65535" "validateAddress addr = None" "validateRangeEnd (adStart addr) (adSize addr) = None"
    "rd w (adArea addr) (adDBNumber addr) (adStart addr) (adSize addr) = Some ys"
  shows "\<exists>c'. ReadArea tr c ctx addr w = (Ok (finishRead (adSize addr) ys), c', w)"
proof -
  let ?k = "limit w conn - 24"
  have v: "0 \<le> adStart addr" "0 \<le> adSize addr" "0 \<le> adDBNumber addr" "adDBNumber addr \<le> MaxS7AnyDBNumber"
    using assms(6) by (simp_all add: validateAddress_eq_None)
  have e: "adStart addr + adSize addr \<le> MaxS7AnyByteOffset + 1"
    using assms(7) by (simp add: validateRangeEnd_def split: if_splits)
  have s: "sum_list (planReadChunks (adSize addr) ?k) = adSize addr"
    using planReadChunks_props(1) [of "adSize addr" ?k] v(2) by simp
  have "\<forall>k \<in> set (planReadChunks (adSize addr) ?k). 1 \<le> k \<and> 24 + k \<le> limit w conn \<and> k \<le> MaxS7AnyCount"
    using planReadChunks_max [of ?k _ "adSize addr"] assms(4,5) by fastforce
  then have "\<exists>c'. readChunks tr ctx addr (adSize addr) (planReadChunks (adSize addr) ?k) True (adStart addr) [] c w =
      (Ok (finishRead (adSize addr) ([] @ ys)), c', w)"
    by (rule readChunks_peer [OF assms(1-3)]) (use v e s assms(8) in simp_all)
  with assms(3,4,6,7) v(2) show ?thesis by (simp add: ReadArea_def Let_def)
qed

text \<open>One chunk of a write; the pad byte of an odd chunk needs an even limit.\<close>

lemma writeChunks_step:
  assumes "ready w conn" "clConn c = Some conn" "clPduSize c = limit w conn" "1 \<le> k" "k \<le> length data - i"
    "28 + int k + int (k mod 2) \<le> limit w conn" "k \<le> MaxWriteVarBytes"
    "0 \<le> adDBNumber addr" "adDBNumber addr \<le> MaxS7AnyDBNumber"
    "0 \<le> adStart addr" "adStart addr + int i \<le> MaxS7AnyByteOffset"
    "wr w (adArea addr) (adDBNumber addr) (adStart addr + int i) (take k (drop i data)) = Some w1"
  shows "\<exists>c'. clConn c' = clConn c \<and> clPduSize c' = clPduSize c \<and> ready w1 conn \<and>
    writeChunks tr ctx addr data (int k # ks) first (int i) c w = writeChunks tr ctx addr data ks False (int (i + k)) c' w1"
proof -
  obtain ref c' where ref: "fresh_ref c = (ref, c')" by fastforce
  then have c': "clConn c' = Some conn" "clPduSize c' = limit w conn"
    using assms(2,3) by (auto simp: fresh_ref_def split: prod.splits)
  define v where "v = take k (drop i data)"
  have v: "length v = k" "v \<noteq> []" using assms(4,5) by (auto simp: v_def)
  have slice: "go_slice data i (nat (int i + int k)) = Ok v"
    using assms(4,5) by (simp add: go_slice_def v_def nat_add_distrib)
  define a where "a = \<lparr>saArea = adArea addr, saDBNumber = adDBNumber addr, saStart = adStart addr + int i, saSize = int k\<rparr>"
  have a: "saSize a = int k" "saArea a = adArea addr" "saDBNumber a = adDBNumber addr" "saStart a = adStart addr + int i"
    by (simp_all add: a_def)
  obtain req where req: "EncodeWriteVarRequest ref a v = Ok req" and "length req = 28 + k + k mod 2"
    using EncodeWriteVarRequest_total [of a v ref] assms(7-11) v(1) by (auto simp: a)
  then have l: "int (length req) \<le> limit w conn" using assms(6) by simp
  obtain out param resp where out: "serve w conn req = Some (out, w1)" "decodeReply out ref = Ok (param, resp)"
    "ParseWriteVarResponse param resp = Ok ()"
    using write_law [OF assms(1) req l v(2)] assms(12) v(1) unfolding a v_def by metis
  have "sendReceive tr c' ctx req ref w = (Ok (param, resp), w1)"
    using sendReceive_serve [OF c'(1) assms(1) out(1)] l c'(2) out(2) by simp
  then show ?thesis
    using c' assms(2,3) req out(3) ready_after [OF assms(1) out(1)] v(1)
    by (intro exI [of _ c']) (simp add: ratePause_over ref slice a_def)
qed

lemma writeChunks_peer:
  assumes "ready w conn" "clConn c = Some conn" "clPduSize c = limit w conn" "even (limit w conn)"
    "\<forall>k \<in> set chunks. 1 \<le> k \<and> 28 + k \<le> limit w conn \<and> k \<le> int MaxWriteVarBytes"
    "0 \<le> adDBNumber addr" "adDBNumber addr \<le> MaxS7AnyDBNumber" "0 \<le> adStart addr"
    "adStart addr + int (length data) \<le> MaxS7AnyByteOffset + 1" "int i + sum_list chunks = int (length data)"
    "wr w (adArea addr) (adDBNumber addr) (adStart addr + int i) (drop i data) = Some w'"
  shows "\<exists>c'. writeChunks tr ctx addr data chunks first (int i) c w = (Ok (), c', w') \<and>
    clConn c' = clConn c \<and> clPduSize c' = clPduSize c"
  using assms
proof (induction chunks arbitrary: first i c w)
  case Nil
  then show ?case using wr_nil by fastforce
next
  case (Cons x ks)
  define k where "k = nat x"
  have x: "1 \<le> x" "28 + x \<le> limit w conn" "x \<le> int MaxWriteVarBytes" using Cons.prems(5) by simp_all
  then have k: "x = int k" "1 \<le> k" "28 + int k \<le> limit w conn" "k \<le> MaxWriteVarBytes" by (simp_all add: k_def)
  have nonneg: "0 \<le> sum_list ks" using Cons.prems(5) by (intro sum_list_nonneg) auto
  have len: "i + k \<le> length data" and len': "k \<le> length data - i" using Cons.prems(10) nonneg k(1) by simp_all
  have pad: "28 + int k + int (k mod 2) \<le> limit w conn"
    using k(3) Cons.prems(4) by presburger
  have "drop i data = take k (drop i data) @ drop (i + k) data" by (metis add.commute append_take_drop_id drop_drop)
  with Cons.prems(11) obtain w1 where
      w1: "wr w (adArea addr) (adDBNumber addr) (adStart addr + int i) (take k (drop i data)) = Some w1"
        "wr w1 (adArea addr) (adDBNumber addr) (adStart addr + int i + int (length (take k (drop i data)))) (drop (i + k) data) = Some w'"
    using wr_split by metis
  have o: "adStart addr + int i \<le> MaxS7AnyByteOffset" using Cons.prems(9) len k(2) by simp
  obtain c1 where c1: "clConn c1 = clConn c" "clPduSize c1 = clPduSize c" "ready w1 conn"
      "writeChunks tr ctx addr data (int k # ks) first (int i) c w = writeChunks tr ctx addr data ks False (int (i + k)) c1 w1"
    using writeChunks_step [OF Cons.prems(1-3) k(2) len' pad k(4) Cons.prems(6-8) o w1(1)] by blast
  have lim: "limit w1 conn = limit w conn" by (rule wr_limit [OF w1(1)])
  have "\<exists>c'. writeChunks tr ctx addr data ks False (int (i + k)) c1 w1 = (Ok (), c', w') \<and>
      clConn c' = clConn c1 \<and> clPduSize c' = clPduSize c1"
    by (rule Cons.IH) (use Cons.prems c1(1,2,3) k(1) w1(2) len in \<open>simp_all add: lim add.assoc\<close>)
  then show ?case unfolding k(1) c1(4) using c1(1,2) by simp
qed

lemma WriteArea_peer:
  assumes "ready w conn" "clConn c = Some conn" "clPduSize c = limit w conn" "even (limit w conn)"
    "29 \<le> limit w conn" "limit w conn \<le> 8219"
    "validateAddress addr = None" "validateRangeEnd (adStart addr) (int (length data)) = None"
    "wr w (adArea addr) (adDBNumber addr) (adStart addr) data = Some w'"
  shows "\<exists>c'. WriteArea tr c ctx addr data w = (Ok (), c', w') \<and>
    clConn c' = clConn c \<and> clPduSize c' = clPduSize c"
proof -
  let ?k = "limit w conn - 28"
  let ?p = "planReadChunks (int (length data)) ?k"
  have v: "0 \<le> adStart addr" "0 \<le> adDBNumber addr" "adDBNumber addr \<le> MaxS7AnyDBNumber"
    using assms(7) by (simp_all add: validateAddress_eq_None)
  have e: "adStart addr + int (length data) \<le> MaxS7AnyByteOffset + 1"
    using assms(8) by (simp add: validateRangeEnd_def split: if_splits)
  have s: "sum_list ?p = int (length data)" using planReadChunks_props(1) [of "int (length data)" ?k] by simp
  have "\<forall>k \<in> set ?p. 1 \<le> k \<and> 28 + k \<le> limit w conn \<and> k \<le> int MaxWriteVarBytes"
    using planReadChunks_max [of ?k _ "int (length data)"] assms(5,6) by fastforce
  then have "\<exists>c'. writeChunks tr ctx addr data ?p True (int 0) c w = (Ok (), c', w') \<and>
      clConn c' = clConn c \<and> clPduSize c' = clPduSize c"
    by (rule writeChunks_peer [OF assms(1-4)]) (use v e s assms(9) in simp_all)
  with assms(3,5,7,8) show ?thesis by (simp add: WriteArea_def Let_def ctx_live)
qed

end

section \<open>The network\<close>

text \<open>
  One server with its shared memory and any number of open connections, each with the session's
  negotiated PDU size and the answers not yet read. Connections are numbered in the order they are
  opened. A TSDU above the server's \<^verbatim>\<open>MaxTSDULength\<close>, or one \<open>handle\<close> drops the connection for,
  closes it.
\<close>

record net =
  ntSrv :: Server
  ntConns :: "nat \<Rightarrow> (int \<times> bytes list) option"
  ntNext :: nat

abbreviation sess :: "net \<Rightarrow> int \<Rightarrow> session" where
  "sess w p \<equiv> \<lparr>ssSrv = ntSrv w, ssPduSize = p\<rparr>"

definition netWrite :: "net \<Rightarrow> nat \<Rightarrow> bytes \<Rightarrow> unit res \<times> net" where
  "netWrite w conn b =
    (case ntConns w conn of
       None \<Rightarrow> (Err (OtherError ''connection closed''), w)
     | Some (p, q) \<Rightarrow>
       if cfgMaxPDUSize (svCfg (ntSrv w)) < int (length b)
       then (Ok (), w\<lparr>ntConns := (ntConns w)(conn := None)\<rparr>)
       else
        (case handle (sess w p) b of
           Ok ((out, True), s) \<Rightarrow>
             (Ok (), w\<lparr>ntSrv := ssSrv s, ntConns := (ntConns w)(conn \<mapsto> (ssPduSize s, q @ [out]))\<rparr>)
         | _ \<Rightarrow> (Ok (), w\<lparr>ntConns := (ntConns w)(conn := None)\<rparr>)))"

definition netRead :: "net \<Rightarrow> nat \<Rightarrow> bytes res \<times> net" where
  "netRead w conn =
    (case ntConns w conn of
       Some (p, out # q) \<Rightarrow> (Ok out, w\<lparr>ntConns := (ntConns w)(conn \<mapsto> (p, q))\<rparr>)
     | _ \<Rightarrow> (Err (OtherError ''connection closed''), w))"

definition netTransport :: "(net, unit, nat) transport" where
  "netTransport = \<lparr>trDial = (\<lambda>w ctx a t. (Ok (), w)),
     trConnect = (\<lambda>w ctx raw l r n. (Ok (ntNext w),
        w\<lparr>ntConns := (ntConns w)(ntNext w \<mapsto> (ssPduSize (newSession (ntSrv w)), [])), ntNext := ntNext w + 1\<rparr>)),
     trClose = (\<lambda>w conn. (Ok (), w\<lparr>ntConns := (ntConns w)(conn := None)\<rparr>)), trIsErrClosed = (\<lambda>e. False),
     trWrite = (\<lambda>w ctx. netWrite w), trRead = (\<lambda>w ctx. netRead w),
     trCtxErr = (\<lambda>w ctx. (Ok (), w)), trSleep = (\<lambda>w ctx d. (Ok (), w))\<rparr>"

lemma netTransport_sel [simp]:
  "trWrite netTransport w ctx conn b = netWrite w conn b" "trRead netTransport w ctx conn = netRead w conn"
  "trCtxErr netTransport w ctx = (Ok (), w)" "trSleep netTransport w ctx d = (Ok (), w)"
  "trDial netTransport w ctx a t = (Ok (), w)" "trClose netTransport w conn = (Ok (), w\<lparr>ntConns := (ntConns w)(conn := None)\<rparr>)"
  "trConnect netTransport w ctx raw l r n = (Ok (ntNext w),
     w\<lparr>ntConns := (ntConns w)(ntNext w \<mapsto> (ssPduSize (newSession (ntSrv w)), [])), ntNext := ntNext w + 1\<rparr>)"
  by (simp_all add: netTransport_def)

text \<open>What the server answers on an idle connection, and the state afterwards.\<close>

definition netServe :: "net \<Rightarrow> nat \<Rightarrow> bytes \<Rightarrow> (bytes \<times> net) option" where
  "netServe w conn b =
    (case ntConns w conn of
       None \<Rightarrow> None
     | Some (p, q) \<Rightarrow>
       if cfgMaxPDUSize (svCfg (ntSrv w)) < int (length b) then None else
        (case handle (sess w p) b of
           Ok ((out, True), s) \<Rightarrow>
             Some (out, w\<lparr>ntSrv := ssSrv s, ntConns := (ntConns w)(conn \<mapsto> (ssPduSize s, q))\<rparr>)
         | _ \<Rightarrow> None))"

definition netReady :: "net \<Rightarrow> nat \<Rightarrow> bool" where
  "netReady w conn \<longleftrightarrow> (\<exists>p. ntConns w conn = Some (p, []) \<and> session_ok (sess w p))"

definition netLimit :: "net \<Rightarrow> nat \<Rightarrow> int" where
  "netLimit w conn = (case ntConns w conn of Some (p, _) \<Rightarrow> p | None \<Rightarrow> 0)"

definition netGet :: "net \<Rightarrow> byte \<Rightarrow> int \<Rightarrow> int \<Rightarrow> int \<Rightarrow> bytes option" where
  "netGet w area db s n =
    (if timerOrCounter area then None
     else case Server_Read (ntSrv w) area db s n of Ok xs \<Rightarrow> Some xs | _ \<Rightarrow> None)"

definition netPut :: "net \<Rightarrow> byte \<Rightarrow> int \<Rightarrow> int \<Rightarrow> bytes \<Rightarrow> net option" where
  "netPut w area db s v =
    (if writable (ntSrv w) area db
     then case Server_Write (ntSrv w) area db s v of Ok srv \<Rightarrow> Some (w\<lparr>ntSrv := srv\<rparr>) | _ \<Rightarrow> None
     else None)"

lemma netServe_answer:
  assumes "ntConns w conn = Some (p, [])" "int (length req) \<le> cfgMaxPDUSize (svCfg (ntSrv w))"
    "handle (sess w p) req = Ok ((out, True), sess w p\<lparr>ssSrv := srv\<rparr>)"
  shows "netServe w conn req = Some (out, w\<lparr>ntSrv := srv\<rparr>)"
  using assms by (simp add: netServe_def fun_upd_idem)

lemma netReady_facts:
  assumes "netReady w conn"
  obtains p where "ntConns w conn = Some (p, [])" "netLimit w conn = p" "p \<le> MaxPDUSize"
    "p \<le> cfgMaxPDUSize (svCfg (ntSrv w))" "session_ok (sess w p)"
  using assms by (auto simp: netReady_def netLimit_def session_ok_def server_ok_def)

lemma net_round_trip:
  assumes "netReady w conn" "netServe w conn req = Some (out, w')"
  shows "\<exists>w1. netWrite w conn req = (Ok (), w1) \<and> netRead w1 conn = (Ok out, w')"
  using assms by (auto simp: netReady_def netServe_def netWrite_def netRead_def
      split: if_splits res.splits bool.splits)

lemma net_ready_after:
  assumes "netReady w conn" "netServe w conn req = Some (out, w')"
  shows "netReady w' conn"
proof -
  obtain p where p: "ntConns w conn = Some (p, [])" "session_ok (sess w p)" using assms(1) by (auto simp: netReady_def)
  with assms(2) obtain s where h: "handle (sess w p) req = Ok ((out, True), s)"
    and w': "w' = w\<lparr>ntSrv := ssSrv s, ntConns := (ntConns w)(conn \<mapsto> (ssPduSize s, []))\<rparr>"
    by (auto simp: netServe_def split: if_splits res.splits bool.splits)
  have "session_change (sess w p) s" using handle_change(1) [OF h] .
  then have "session_ok s" using p(2) by (rule session_change_ok)
  then show ?thesis by (cases s) (auto simp: netReady_def w')
qed

lemma decodeReply_small:
  assumes "ParseS7Header out = Ok (h, param @ data)" "PDURef h = ref" "ErrorClass h = 0" "ErrorCode h = 0"
    "unat (ParamLength h) = length param" "unat (DataLength h) = length data" "length out \<le> 65535"
  shows "decodeReply out ref = Ok (param, data)"
proof -
  have "length (param @ data) \<le> length out" using ParseS7Header_rest [OF assms(1)] by simp
  with assms show ?thesis by (intro decodeReply_parsed) simp_all
qed

lemma net_read_law:
  assumes "netReady w conn" "EncodeReadVarRequest ref [a] = Ok req" "int (length req) \<le> netLimit w conn"
    "18 + saSize a \<le> netLimit w conn" "0 < saSize a"
    "netGet w (saArea a) (saDBNumber a) (saStart a) (saSize a) = Some xs"
  shows "\<exists>out param data item. netServe w conn req = Some (out, w) \<and> decodeReply out ref = Ok (param, data) \<and>
    ParseReadVarResponse param data = Ok [item] \<and> ReturnCode item = RetCodeSuccess \<and> Data item = xs"
proof -
  obtain p where p: "ntConns w conn = Some (p, [])" "netLimit w conn = p" "p \<le> MaxPDUSize"
      "p \<le> cfgMaxPDUSize (svCfg (ntSrv w))"
    using assms(1) by (rule netReady_facts)
  have g: "Server_Read (ntSrv w) (saArea a) (saDBNumber a) (saStart a) (saSize a) = Ok xs"
      "\<not> timerOrCounter (saArea a)"
    using assms(6) by (auto simp: netGet_def split: if_splits res.splits)
  then have "int (length xs) = saSize a" using assms(5)
    by (auto simp: Server_Read_def mem_read_eq_Ok)
  moreover obtain out h param data where o: "handle (sess w p) req = Ok ((out, True), sess w p)"
    "ParseS7Header out = Ok (h, param @ data)" "PDURef h = ref" "ErrorClass h = 0" "ErrorCode h = 0"
    "unat (ParamLength h) = length param" "unat (DataLength h) = length data"
    "ParseReadVarResponse param data = Ok [\<lparr>ReturnCode = RetCodeSuccess, RawTransportSize = DataTransportSizeByte,
       RawLength = word_of_int (8 * saSize a), Data = xs\<rparr>]" "length out = 18 + length xs"
    using handle_read_request [OF assms(2), of "sess w p" xs] g assms(4,5) p(2,3) by (simp add: p(2)) blast
  ultimately have "length out \<le> 65535" using assms(4) p(2,3) by linarith
  then have "decodeReply out ref = Ok (param, data)" using o(2-7) by (intro decodeReply_small) simp_all
  moreover have "netServe w conn req = Some (out, w)"
    using netServe_answer [OF p(1), of req out "ntSrv w"] o(1) assms(3) p(2,4) by simp
  ultimately show ?thesis using o(8) by (metis ReadVarItem.select_convs(1,4))
qed

lemma net_write_law:
  assumes "netReady w conn" "EncodeWriteVarRequest ref a v = Ok req" "int (length req) \<le> netLimit w conn"
    "v \<noteq> []" "saSize a = int (length v)" "netPut w (saArea a) (saDBNumber a) (saStart a) v = Some w'"
  shows "\<exists>out param data. netServe w conn req = Some (out, w') \<and> decodeReply out ref = Ok (param, data) \<and>
    ParseWriteVarResponse param data = Ok ()"
proof -
  obtain p where p: "ntConns w conn = Some (p, [])" "netLimit w conn = p" "p \<le> cfgMaxPDUSize (svCfg (ntSrv w))"
    using assms(1) by (rule netReady_facts)
  obtain srv where g: "Server_Write (ntSrv w) (saArea a) (saDBNumber a) (saStart a) v = Ok srv"
      "writable (ntSrv w) (saArea a) (saDBNumber a)" "w' = w\<lparr>ntSrv := srv\<rparr>"
    using assms(6) by (auto simp: netPut_def split: if_splits res.splits)
  obtain out h param data where o: "handle (sess w p) req = Ok ((out, True), sess w p\<lparr>ssSrv := srv\<rparr>)"
    "ParseS7Header out = Ok (h, param @ data)" "PDURef h = ref" "ErrorClass h = 0" "ErrorCode h = 0"
    "unat (ParamLength h) = length param" "unat (DataLength h) = length data"
    "ParseWriteVarResponseCodes param data = Ok [RetCodeSuccess]" "length out = 15"
    using handle_write_request [OF assms(2,5,4), of "sess w p" srv] g by auto
  have "decodeReply out ref = Ok (param, data)" using o(2-7,9) by (intro decodeReply_small) simp_all
  moreover have "netServe w conn req = Some (out, w')"
    unfolding g(3) using netServe_answer [OF p(1) _ o(1)] assms(3) p(2,3) by simp
  moreover have "ParseWriteVarResponse param data = Ok ()"
    using o(8) by (simp add: ParseWriteVarResponse_def ReturnCodeError_def)
  ultimately show ?thesis by blast
qed

lemma netGet_eq_Some:
  "netGet w area db s n = Some xs \<longleftrightarrow> \<not> timerOrCounter area \<and>
     (\<exists>k r. keyOf area db = Ok k \<and> svMem (ntSrv w) k = Some r \<and> 0 \<le> s \<and> 0 \<le> n \<and>
       s + n \<le> int (length (rgData r)) \<and> xs = take (nat n) (drop (nat s) (rgData r)))"
proof -
  have "netGet w area db s n = Some xs \<longleftrightarrow> \<not> timerOrCounter area \<and> mem_read (svMem (ntSrv w)) area db s n = Ok xs"
    by (auto simp: netGet_def Server_Read_def split: res.splits)
  then show ?thesis by (simp only: mem_read_eq_Ok)
qed

lemma net_rd_split:
  assumes "netGet w area db s (m + n) = Some xs" "0 \<le> m" "0 \<le> n"
  shows "\<exists>ys zs. xs = ys @ zs \<and> int (length ys) = m \<and> netGet w area db s m = Some ys \<and>
    netGet w area db (s + m) n = Some zs"
proof -
  obtain k r where k: "keyOf area db = Ok k" "svMem (ntSrv w) k = Some r" "\<not> timerOrCounter area"
    and b: "0 \<le> s" "s + (m + n) \<le> int (length (rgData r))"
    and xs: "xs = take (nat (m + n)) (drop (nat s) (rgData r))"
    using assms(1) by (auto simp: netGet_eq_Some)
  let ?ys = "take (nat m) (drop (nat s) (rgData r))" and ?zs = "take (nat n) (drop (nat (s + m)) (rgData r))"
  have "xs = ?ys @ ?zs"
    using assms(2,3) b(1) by (simp add: xs nat_add_distrib take_add add.commute)
  moreover have "int (length ?ys) = m" using assms(2,3) b by simp
  moreover have "netGet w area db s m = Some ?ys" "netGet w area db (s + m) n = Some ?zs"
    unfolding netGet_eq_Some using k b assms(2,3) by auto
  ultimately show ?thesis by blast
qed

lemma netPut_eq_Some:
  "netPut w area db s v = Some w' \<longleftrightarrow> writable (ntSrv w) area db \<and>
     (\<exists>k r. keyOf area db = Ok k \<and> svMem (ntSrv w) k = Some r \<and> 0 \<le> s \<and>
       s + int (length v) \<le> int (length (rgData r)) \<and>
       w' = w\<lparr>ntSrv := (ntSrv w)\<lparr>svMem := (svMem (ntSrv w))(k \<mapsto>
         r\<lparr>rgData := take (nat s) (rgData r) @ v @ drop (nat s + length v) (rgData r)\<rparr>)\<rparr>\<rparr>)"
proof -
  have "netPut w area db s v = Some w' \<longleftrightarrow> writable (ntSrv w) area db \<and>
      (\<exists>m. mem_write (svMem (ntSrv w)) area db s v = Ok m \<and> w' = w\<lparr>ntSrv := (ntSrv w)\<lparr>svMem := m\<rparr>\<rparr>)"
    by (auto simp: netPut_def Server_Write_def bindR_eq_Ok split: res.splits)
  then show ?thesis unfolding mem_write_eq_Ok by blast
qed

lemma net_wr_split:
  assumes "netPut w area db s (ys @ zs) = Some w'"
  shows "\<exists>w1. netPut w area db s ys = Some w1 \<and> netPut w1 area db (s + int (length ys)) zs = Some w'"
proof -
  obtain k r where k: "keyOf area db = Ok k" "svMem (ntSrv w) k = Some r" "writable (ntSrv w) area db"
    and b: "0 \<le> s" "s + int (length (ys @ zs)) \<le> int (length (rgData r))"
    and w': "w' = w\<lparr>ntSrv := (ntSrv w)\<lparr>svMem := (svMem (ntSrv w))(k \<mapsto>
         r\<lparr>rgData := take (nat s) (rgData r) @ (ys @ zs) @ drop (nat s + length (ys @ zs)) (rgData r)\<rparr>)\<rparr>\<rparr>"
    using assms unfolding netPut_eq_Some by blast
  define r1 where "r1 = r\<lparr>rgData := take (nat s) (rgData r) @ ys @ drop (nat s + length ys) (rgData r)\<rparr>"
  define w1 where "w1 = w\<lparr>ntSrv := (ntSrv w)\<lparr>svMem := (svMem (ntSrv w))(k \<mapsto> r1)\<rparr>\<rparr>"
  have "netPut w area db s ys = Some w1"
    unfolding netPut_eq_Some using k b by (auto simp: w1_def r1_def)
  moreover have "netPut w1 area db (s + int (length ys)) zs = Some w'"
    unfolding netPut_eq_Some using k b
    by (auto simp: w1_def r1_def w' writable_def nat_add_distrib add_ac intro!: exI [of _ k])
  ultimately show ?thesis by blast
qed

interpretation net: area_peer netTransport netServe netReady netGet netPut netLimit
proof unfold_locales
  fix w area db s n xs
  assume "netGet w area db s n = Some xs"
  then show "int (length xs) = n" unfolding netGet_eq_Some by auto
next
  fix w area db s w'
  assume "netPut w area db s [] = Some w'"
  then obtain k r where "svMem (ntSrv w) k = Some r" "w' = w\<lparr>ntSrv := (ntSrv w)\<lparr>svMem := (svMem (ntSrv w))(k \<mapsto> r)\<rparr>\<rparr>"
    unfolding netPut_eq_Some by auto
  then show "w' = w" by (simp add: fun_upd_idem)
next
  fix w area db s v w' conn
  assume "netPut w area db s v = Some w'"
  then show "netLimit w' conn = netLimit w conn" by (auto simp: netPut_eq_Some netLimit_def)
qed (simp_all only: netTransport_sel, (rule net_round_trip net_ready_after net_read_law net_write_law
      net_rd_split net_wr_split; assumption)+)

section \<open>End to end\<close>

lemma ReadArea_net:
  assumes "netReady w conn" "clConn c = Some conn" "clPduSize c = netLimit w conn" "25 \<le> netLimit w conn"
    "validateAddress addr = None" "validateRangeEnd (adStart addr) (adSize addr) = None"
    "\<not> timerOrCounter (adArea addr)"
    "Server_Read (ntSrv w) (adArea addr) (adDBNumber addr) (adStart addr) (adSize addr) = Ok xs"
  shows "\<exists>c' r. ReadArea netTransport c ctx addr w = (Ok r, c', w) \<and> rsStatus r = ReadStatusSuccess \<and> rsData r = xs"
proof -
  have "netGet w (adArea addr) (adDBNumber addr) (adStart addr) (adSize addr) = Some xs"
    using assms(7,8) by (simp add: netGet_def)
  moreover have "netLimit w conn \<le> 65535" using assms(1) by (rule netReady_facts) simp
  ultimately obtain c' where "ReadArea netTransport c ctx addr w = (Ok (finishRead (adSize addr) xs), c', w)"
    using net.ReadArea_peer [OF assms(1-4) _ assms(5,6)] by blast
  moreover have "int (length xs) = adSize addr"
    using assms(8) by (auto simp: Server_Read_def mem_read_eq_Ok)
  ultimately show ?thesis by (simp add: finishRead_def ClassifyReadOutcome_def Let_def)
qed

text \<open>C2 Reading an area through the client returns the server's memory: on an open connection
  whose negotiated PDU size the client knows, a read of any span inside an area ends with status
  success and exactly the bytes of the host-side read, however many chunks it takes, and changes
  nothing on the server.\<close>

theorem client_reads_server:
  assumes "netReady w conn" "clConn c = Some conn" "clPduSize c = netLimit w conn" "25 \<le> netLimit w conn"
    "validateAddress addr = None" "validateRangeEnd (adStart addr) (adSize addr) = None"
    "\<not> timerOrCounter (adArea addr)"
    "Server_Read (ntSrv w) (adArea addr) (adDBNumber addr) (adStart addr) (adSize addr) = Ok xs"
  shows "\<exists>c' r. ReadArea netTransport c ctx addr w = (Ok r, c', w) \<and> rsStatus r = ReadStatusSuccess \<and> rsData r = xs"
  using assms by (rule ReadArea_net)

lemma WriteArea_net:
  assumes "netReady w conn" "clConn c = Some conn" "clPduSize c = netLimit w conn" "30 \<le> netLimit w conn"
    "even (netLimit w conn)" "validateAddress addr = None" "validateRangeEnd (adStart addr) (int (length v)) = None"
    "writable (ntSrv w) (adArea addr) (adDBNumber addr)"
    "Server_Write (ntSrv w) (adArea addr) (adDBNumber addr) (adStart addr) v = Ok srv"
  shows "\<exists>c'. WriteArea netTransport c ctx addr v w = (Ok (), c', w\<lparr>ntSrv := srv\<rparr>) \<and>
    clConn c' = clConn c \<and> clPduSize c' = clPduSize c"
proof -
  have "netPut w (adArea addr) (adDBNumber addr) (adStart addr) v = Some (w\<lparr>ntSrv := srv\<rparr>)"
    using assms(8,9) by (simp add: netPut_def)
  moreover have "netLimit w conn \<le> 8219" using assms(1) by (rule netReady_facts) simp
  ultimately show ?thesis
    using assms(4) net.WriteArea_peer [OF assms(1-3,5) _ _ assms(6,7)] by simp
qed

text \<open>C3 Writing an area through the client does what the host-side write does: on an open
  connection with an even negotiated PDU size of 30 to 4096 bytes, a write of any bytes to a span of a
  writable area succeeds and leaves the server in the state of the host-side write, however many
  chunks it takes.\<close>

theorem client_writes_server:
  assumes "netReady w conn" "clConn c = Some conn" "clPduSize c = netLimit w conn" "30 \<le> netLimit w conn"
    "even (netLimit w conn)" "validateAddress addr = None" "validateRangeEnd (adStart addr) (int (length v)) = None"
    "writable (ntSrv w) (adArea addr) (adDBNumber addr)"
    "Server_Write (ntSrv w) (adArea addr) (adDBNumber addr) (adStart addr) v = Ok srv"
  shows "\<exists>c'. WriteArea netTransport c ctx addr v w = (Ok (), c', w\<lparr>ntSrv := srv\<rparr>) \<and>
    clConn c' = clConn c \<and> clPduSize c' = clPduSize c"
  using assms by (rule WriteArea_net)

section \<open>Connecting\<close>

lemma net_setup:
  assumes "netReady w conn" "EncodeSetupCommRequest 1 a b sz = Ok req"
  shows "\<exists>q. performS7Setup netTransport ctx conn 1 a b sz w =
      (Ok q, w\<lparr>ntConns := (ntConns w)(conn \<mapsto> (int (PDUSize q), []))\<rparr>) \<and>
    int (PDUSize q) = min sz (cfgMaxPDUSize (svCfg (ntSrv w)))"
proof -
  obtain p where p: "ntConns w conn = Some (p, [])" "p \<le> cfgMaxPDUSize (svCfg (ntSrv w))" "session_ok (sess w p)"
    using assms(1) by (rule netReady_facts)
  obtain out h param q where o: "handle (sess w p) req = Ok ((out, True), sess w p\<lparr>ssPduSize := int (PDUSize q)\<rparr>)"
    "ParseS7Header out = Ok (h, param)" "PDURef h = 1" "ErrorClass h = 0" "ErrorCode h = 0"
    "ParseSetupCommResponse param = Ok q"
    "int (PDUSize q) = min sz (cfgMaxPDUSize (svCfg (ntSrv w)))"
    using handle_setup_request [OF p(3) assms(2)] by auto
  have "length req = 18" using assms(2)
    by (auto simp: EncodeSetupCommRequest_def bindR_eq_Ok encodeMessage_eq_Ok)
  moreover have "MinPDUSize \<le> cfgMaxPDUSize (svCfg (ntSrv w))" using p(3) by (simp add: session_ok_def server_ok_def)
  ultimately have "netWrite w conn req = (Ok (), w\<lparr>ntConns := (ntConns w)(conn \<mapsto> (int (PDUSize q), [out]))\<rparr>)"
    using p(1) o(1) by (simp add: netWrite_def)
  moreover have "setupReply out 1 = Ok q"
    using o(2-6) by (auto simp: setupReply_def ParseSetupCommResponse_def bindR_eq_Ok idx_def split: if_splits)
  ultimately have "performS7Setup netTransport ctx conn 1 a b sz w =
      (Ok q, w\<lparr>ntConns := (ntConns w)(conn \<mapsto> (int (PDUSize q), []))\<rparr>)"
    using assms(2) by (simp add: performS7Setup_def netRead_def)
  with o(7) show ?thesis by blast
qed

text \<open>Options every check of \<^verbatim>\<open>Connect\<close> accepts.\<close>

definition options_ok :: "options \<Rightarrow> bool" where
  "options_ok os \<longleftrightarrow> 0 \<le> optPort os \<and> optPort os \<le> 65535 \<and> 0 \<le> optTimeout os \<and>
     1 \<le> optMaxPDU os \<and> optMaxPDU os \<le> 65535 \<and> optMaxAmqCalling os \<in> {0..65535} \<and> optMaxAmqCalled os \<in> {0..65535} \<and>
     (optAutoRackSlot os \<or> ValidateRackSlot (optRack os) (optSlot os) = None)"

text \<open>The client and the network after a connection was opened.\<close>

definition connected :: "nat Client \<Rightarrow> net \<Rightarrow> nat Client \<Rightarrow> net \<Rightarrow> bool" where
  "connected c w c' w' \<longleftrightarrow> clConn c' = Some (ntNext w) \<and> netReady w' (ntNext w) \<and>
     clPduSize c' = netLimit w' (ntNext w) \<and>
     netLimit w' (ntNext w) = min (optMaxPDU (clOpts c)) (cfgMaxPDUSize (svCfg (ntSrv w))) \<and>
     ntSrv w' = ntSrv w \<and> ntNext w' = ntNext w + 1 \<and>
     (\<forall>conn. conn = ntNext w \<or> ntConns w' conn = (if clConn c = Some conn then None else ntConns w conn))"

lemma BuildTSAP_total:
  "0 \<le> t \<Longrightarrow> t \<le> 255 \<Longrightarrow> ValidateRackSlot rack slot = None \<Longrightarrow> \<exists>tsap. BuildTSAP t rack slot = Ok tsap"
  by (simp add: BuildTSAP_def Let_def)

lemma connectOnce_net:
  assumes "server_ok (ntSrv w)" "options_ok (clOpts c)" "clConn c \<noteq> Some (ntNext w)"
    "optUseExplicit (clOpts c) \<or> ValidateRackSlot rack slot = None"
  shows "\<exists>c' w'. connectOnce netTransport c ctx rack slot w = (Ok (), c', w') \<and> connected c w c' w'"
proof -
  obtain l r where tsaps: "(if optUseExplicit (clOpts c) then Ok (optLocalTSAP (clOpts c), optRemoteTSAP (clOpts c))
      else (case BuildTSAP 1 0 0 of Panic \<Rightarrow> Panic | Err e \<Rightarrow> Err (ValidationError (error_text e))
        | Ok l \<Rightarrow> (case BuildTSAP 3 rack slot of Panic \<Rightarrow> Panic | Err e \<Rightarrow> Err (ValidationError (error_text e))
          | Ok r \<Rightarrow> Ok (l, r)))) = Ok (l, r)"
    using assms(4) BuildTSAP_total [of 1 0 0] BuildTSAP_total [of 3 rack slot]
    by (cases "optUseExplicit (clOpts c)") (auto simp: ValidateRackSlot_def)
  define w1 where "w1 = w\<lparr>ntConns := (ntConns w)(ntNext w \<mapsto> (ssPduSize (newSession (ntSrv w)), [])), ntNext := ntNext w + 1\<rparr>"
  have dial: "dialCOTP netTransport ctx addr t l r w = (Ok (ntNext w), w1)" for addr t
    by (simp add: dialCOTP_def dialTCP_def connectCOTP_def w1_def)
  have ready: "netReady w1 (ntNext w)"
    using newSession_ok [OF assms(1)] by (simp add: netReady_def w1_def newSession_def)
  have "\<exists>req. EncodeSetupCommRequest 1 (optMaxAmqCalling (clOpts c)) (optMaxAmqCalled (clOpts c)) (optMaxPDU (clOpts c)) = Ok req"
    using assms(2) by (simp add: options_ok_def EncodeSetupCommRequest_def checkedUint16_def encodeMessage_def EncodeS7Header_def)
  then obtain q where q: "performS7Setup netTransport (withOptionalTimeout ctx (optTimeout (clOpts c))) (ntNext w) 1
        (optMaxAmqCalling (clOpts c)) (optMaxAmqCalled (clOpts c)) (optMaxPDU (clOpts c)) w1 =
      (Ok q, w1\<lparr>ntConns := (ntConns w1)(ntNext w \<mapsto> (int (PDUSize q), []))\<rparr>)"
    and sz: "int (PDUSize q) = min (optMaxPDU (clOpts c)) (cfgMaxPDUSize (svCfg (ntSrv w)))"
    using net_setup [OF ready] by (fastforce simp: w1_def)
  define w2 where "w2 = w1\<lparr>ntConns := (ntConns w1)(ntNext w \<mapsto> (int (PDUSize q), []))\<rparr>"
  define w3 where "w3 = snd (closeCOTP netTransport (clConn c) w2)"
  have w3: "ntSrv w3 = ntSrv w" "ntNext w3 = ntNext w + 1" "ntConns w3 (ntNext w) = Some (int (PDUSize q), [])"
    "\<forall>conn. conn = ntNext w \<or> ntConns w3 conn = (if clConn c = Some conn then None else ntConns w conn)"
    using assms(3) by (auto simp: w3_def w2_def w1_def closeCOTP_def split: option.splits)
  define c' where "c' = c\<lparr>clConn := Some (ntNext w), clRack := rack, clSlot := slot, clLocalTSAP := l,
    clRemoteTSAP := r, clPduSize := int (PDUSize q), clMaxAmqCalling := int (MaxAmqCalling q),
    clMaxAmqCalled := int (MaxAmqCalled q)\<rparr>"
  have "connectOnce netTransport c ctx rack slot w = (Ok (), c', w3)"
    unfolding connectOnce_def Let_def tsaps
    by (simp add: dial q w2_def [symmetric] w3_def c'_def split: prod.split)
  moreover have "connected c w c' w3"
    using w3 sz assms(1) by (simp add: connected_def c'_def netReady_def netLimit_def session_ok_def)
  ultimately show ?thesis by blast
qed

lemma Connect_net:
  assumes "server_ok (ntSrv w)" "options_ok (clOpts c)" "clConn c \<noteq> Some (ntNext w)"
  shows "\<exists>c' w'. Connect netTransport c ctx w = (Ok (), c', w') \<and> connected c w c' w'"
proof -
  note once = connectOnce_net [OF assms]
  have first: "\<exists>c' w'. connectFirst netTransport ctx failure ((rack, slot) # pairs) c w = (Ok (), c', w') \<and> connected c w c' w'"
    if "ValidateRackSlot rack slot = None" for failure rack slot pairs
    using once [of rack slot ctx] that by auto
  have "\<exists>rack slot pairs. brutePairs = (rack, slot) # pairs \<and> ValidateRackSlot rack slot = None"
    "\<exists>rack slot pairs. commonPairs = (rack, slot) # pairs \<and> ValidateRackSlot rack slot = None"
    by (simp_all add: brutePairs_def commonPairs_def ValidateRackSlot_def upto.simps)
  then have auto: "\<exists>c' w'. autoConnect netTransport c ctx w = (Ok (), c', w') \<and> connected c w c' w'"
    unfolding autoConnect_def using first by metis
  have v: "optAutoRackSlot (clOpts c) \<or> ValidateRackSlot (optRack (clOpts c)) (optSlot (clOpts c)) = None"
    using assms(2) by (simp add: options_ok_def)
  have "Connect netTransport c ctx w =
      (if optAutoRackSlot (clOpts c) \<and> \<not> optUseExplicit (clOpts c) then autoConnect netTransport c ctx w
       else connectOnce netTransport c ctx (optRack (clOpts c)) (optSlot (clOpts c)) w)"
    using assms(2) unfolding Connect_def options_ok_def Let_def ValidateRackSlot_def by (simp split: if_splits)
  then show ?thesis using auto once [of "optRack (clOpts c)" "optSlot (clOpts c)" ctx] v by auto
qed

text \<open>C4 Connecting a client to the server opens a session on which both sides agree: with valid
  options, whatever the way rack and slot are chosen, Connect succeeds, the client's PDU size is
  the server session's, it is the smaller of the two configured sizes, the memory and the other
  connections are untouched, and a connection the client had before is closed.\<close>

theorem connect_agrees:
  assumes "server_ok (ntSrv w)" "options_ok (clOpts c)" "clConn c \<noteq> Some (ntNext w)"
  shows "\<exists>c' w'. Connect netTransport c ctx w = (Ok (), c', w') \<and> connected c w c' w'"
  using assms by (rule Connect_net)

section \<open>Single bits and several clients\<close>

lemma bit_requests_total:
  assumes "validateBitAddress addr = None"
  shows "\<exists>req. EncodeReadVarBitRequest ref (bitAddr addr) = Ok req \<and> length req = 24"
    "\<exists>req. EncodeWriteVarBitRequest ref (bitAddr addr) v = Ok req \<and> length req = 30"
proof -
  have "\<exists>item. EncodeS7AnyBit (bitAddr addr) = Ok item"
    using assms by (auto simp: validateBitAddress_def ValidateS7AnyBitAddress_def bitAddr_def EncodeS7AnyBit_def
        split: if_splits)
  then obtain item where item: "EncodeS7AnyBit (bitAddr addr) = Ok item" ..
  then have len: "length item = 12" by (auto simp: EncodeS7AnyBit_eq_Ok length_putS7Any)
  show "\<exists>req. EncodeReadVarBitRequest ref (bitAddr addr) = Ok req \<and> length req = 24"
    "\<exists>req. EncodeWriteVarBitRequest ref (bitAddr addr) v = Ok req \<and> length req = 30"
    using item len by (simp_all add: EncodeReadVarBitRequest_def EncodeWriteVarBitRequest_def encodeMessage_def
        EncodeS7Header_def checkedUint16_def Let_def)
qed

lemma net_write_bit:
  assumes "netReady w conn" "clConn c = Some conn" "clPduSize c = netLimit w conn" "30 \<le> netLimit w conn"
    "validateBitAddress addr = None" "keyOf (baArea addr) (baDBNumber addr) = Ok k" "svMem (ntSrv w) k = Some r"
    "\<not> rgReadOnly r" "\<not> timerOrCounter (baArea addr)" "baByteOffset addr < int (length (rgData r))"
  shows "\<exists>c' w'. WriteBit netTransport c ctx addr v w = (Ok (), c', w') \<and>
    w' = w\<lparr>ntSrv := (ntSrv w)\<lparr>svMem := (svMem (ntSrv w))(k \<mapsto>
      r\<lparr>rgData := put_bit (rgData r) (nat (baByteOffset addr)) (nat (baBitOffset addr)) v\<rparr>)\<rparr>\<rparr> \<and>
    netReady w' conn \<and> clConn c' = clConn c \<and> clPduSize c' = clPduSize c"
proof -
  obtain p where p: "ntConns w conn = Some (p, [])" "netLimit w conn = p" "p \<le> cfgMaxPDUSize (svCfg (ntSrv w))"
    using assms(1) by (rule netReady_facts)
  obtain ref c' where ref: "fresh_ref c = (ref, c')" by fastforce
  then have c': "clConn c' = Some conn" "clPduSize c' = netLimit w conn"
    using assms(2,3) by (auto simp: fresh_ref_def split: prod.splits)
  obtain req where req: "EncodeWriteVarBitRequest ref (bitAddr addr) v = Ok req" "length req = 30"
    using bit_requests_total(2) [OF assms(5)] by blast
  define srv where "srv = (ntSrv w)\<lparr>svMem := (svMem (ntSrv w))(k \<mapsto>
      r\<lparr>rgData := put_bit (rgData r) (nat (baByteOffset addr)) (nat (baBitOffset addr)) v\<rparr>)\<rparr>"
  obtain out h param data where o: "handle (sess w p) req = Ok ((out, True), sess w p\<lparr>ssSrv := srv\<rparr>)"
    "ParseS7Header out = Ok (h, param @ data)" "PDURef h = ref" "ErrorClass h = 0" "ErrorCode h = 0"
    "unat (ParamLength h) = length param" "unat (DataLength h) = length data"
    "ParseWriteVarResponseCodes param data = Ok [RetCodeSuccess]" "length out = 15"
    using handle_bit_write [OF req(1), of k "sess w p" r] assms(6-10) unfolding srv_def
    by (simp add: bitAddr_def) blast
  have "decodeReply out ref = Ok (param, data)" using o(2-7,9) by (intro decodeReply_small) simp_all
  moreover have serve: "netServe w conn req = Some (out, w\<lparr>ntSrv := srv\<rparr>)"
    using netServe_answer [OF p(1) _ o(1)] req(2) assms(4) p(2,3) by simp
  ultimately have "sendReceive netTransport c' ctx req ref w = (Ok (param, data), w\<lparr>ntSrv := srv\<rparr>)"
    using net.sendReceive_serve [OF c'(1) assms(1) serve] c'(2) req(2) assms(4) by simp
  moreover have "ParseWriteVarResponse param data = Ok ()"
    using o(8) by (simp add: ParseWriteVarResponse_def ReturnCodeError_def)
  ultimately have "WriteBit netTransport c ctx addr v w = (Ok (), c', w\<lparr>ntSrv := srv\<rparr>)"
    using assms(2,5) req(1) by (simp add: WriteBit_def ref)
  with net_ready_after [OF assms(1) serve] c' assms(2,3) show ?thesis unfolding srv_def by simp
qed

lemma net_read_bit:
  assumes "netReady w conn" "clConn c = Some conn" "clPduSize c = netLimit w conn" "24 \<le> netLimit w conn"
    "validateBitAddress addr = None" "keyOf (baArea addr) (baDBNumber addr) = Ok k" "svMem (ntSrv w) k = Some r"
    "\<not> timerOrCounter (baArea addr)" "baByteOffset addr < int (length (rgData r))"
  shows "\<exists>c'. ReadBit netTransport c ctx addr w =
    (Ok (bit (rgData r ! nat (baByteOffset addr)) (nat (baBitOffset addr))), c', w)"
proof -
  obtain p where p: "ntConns w conn = Some (p, [])" "netLimit w conn = p" "p \<le> cfgMaxPDUSize (svCfg (ntSrv w))"
    using assms(1) by (rule netReady_facts)
  obtain ref c' where ref: "fresh_ref c = (ref, c')" by fastforce
  then have c': "clConn c' = Some conn" "clPduSize c' = netLimit w conn"
    using assms(2,3) by (auto simp: fresh_ref_def split: prod.splits)
  obtain req where req: "EncodeReadVarBitRequest ref (bitAddr addr) = Ok req" "length req = 24"
    using bit_requests_total(1) [OF assms(5)] by blast
  obtain out h param data where o: "handle (sess w p) req = Ok ((out, True), sess w p)"
    "ParseS7Header out = Ok (h, param @ data)" "PDURef h = ref" "ErrorClass h = 0" "ErrorCode h = 0"
    "unat (ParamLength h) = length param" "unat (DataLength h) = length data"
    "ParseReadVarResponse param data = Ok [\<lparr>ReturnCode = RetCodeSuccess, RawTransportSize = DataTransportSizeBit,
       RawLength = 1, Data = [drop_bit (nat (baBitOffset addr)) (rgData r ! nat (baByteOffset addr)) AND 1]\<rparr>]"
    "length out = 19"
    using handle_bit_read [OF req(1), of k "sess w p" r] assms(4,6-9) p(2)
    by (simp add: bitAddr_def) blast
  have "decodeReply out ref = Ok (param, data)" using o(2-7,9) by (intro decodeReply_small) simp_all
  moreover have serve: "netServe w conn req = Some (out, w)"
    using netServe_answer [OF p(1), of req out "ntSrv w"] o(1) req(2) assms(4) p(2,3) by simp
  ultimately have "sendReceive netTransport c' ctx req ref w = (Ok (param, data), w)"
    using net.sendReceive_serve [OF c'(1) assms(1) serve] c'(2) req(2) assms(4) by simp
  moreover have "bitReply param data = Ok (bit (rgData r ! nat (baByteOffset addr)) (nat (baBitOffset addr)))"
    using o(8) by (simp add: bitReply_def idx_def ReturnCodeError_def DecodeAsBit_of_bit)
  ultimately show ?thesis
    using assms(2,5) req(1) by (simp add: ReadBit_def ref)
qed

text \<open>C5 Writing a bit through the client and reading it back gives the bit written; the write changes
  that bit of that area and nothing else on the server.\<close>

theorem client_bits:
  assumes "netReady w conn" "clConn c = Some conn" "clPduSize c = netLimit w conn" "30 \<le> netLimit w conn"
    "validateBitAddress addr = None" "keyOf (baArea addr) (baDBNumber addr) = Ok k" "svMem (ntSrv w) k = Some r"
    "\<not> rgReadOnly r" "\<not> timerOrCounter (baArea addr)" "baByteOffset addr < int (length (rgData r))"
  shows "\<exists>c1 w1 c2 d. WriteBit netTransport c ctx addr v w = (Ok (), c1, w1) \<and>
    ReadBit netTransport c1 ctx addr w1 = (Ok v, c2, w1) \<and>
    w1 = w\<lparr>ntSrv := (ntSrv w)\<lparr>svMem := (svMem (ntSrv w))(k \<mapsto> r\<lparr>rgData := d\<rparr>)\<rparr>\<rparr> \<and> length d = length (rgData r) \<and>
    (\<forall>j n. bit (d ! j) n \<longleftrightarrow> (if int j = baByteOffset addr \<and> int n = baBitOffset addr then v else bit (rgData r ! j) n))"
proof -
  define i n where "i = nat (baByteOffset addr)" and "n = nat (baBitOffset addr)"
  have a: "0 \<le> baByteOffset addr" "0 \<le> baBitOffset addr" "baBitOffset addr \<le> 7"
    using assms(5) by (auto simp: validateBitAddress_def split: if_splits)
  then have i: "i < length (rgData r)" "n < 8" using assms(10) by (simp_all add: i_def n_def nat_less_iff)
  define d where "d = put_bit (rgData r) i n v"
  obtain c1 w1 where w1: "WriteBit netTransport c ctx addr v w = (Ok (), c1, w1)"
    "w1 = w\<lparr>ntSrv := (ntSrv w)\<lparr>svMem := (svMem (ntSrv w))(k \<mapsto> r\<lparr>rgData := d\<rparr>)\<rparr>\<rparr>"
    "netReady w1 conn" "clConn c1 = Some conn" "clPduSize c1 = netLimit w conn"
    using net_write_bit [OF assms, of ctx v] assms(2,3) unfolding d_def i_def n_def by auto
  have lim: "netLimit w1 conn = netLimit w conn" by (simp add: w1(2) netLimit_def)
  have "\<exists>c2. ReadBit netTransport c1 ctx addr w1 =
      (Ok (bit (rgData (r\<lparr>rgData := d\<rparr>) ! nat (baByteOffset addr)) (nat (baBitOffset addr))), c2, w1)"
    by (rule net_read_bit [OF w1(3,4) _ _ assms(5,6)])
      (use assms(4,9,10) w1(5) lim in \<open>simp_all add: w1(2) d_def\<close>)
  moreover have "bit (d ! i) n = v" using i by (simp add: d_def bit_put_bit)
  ultimately obtain c2 where "ReadBit netTransport c1 ctx addr w1 = (Ok v, c2, w1)"
    by (auto simp: i_def n_def)
  moreover have "bit (d ! j) m \<longleftrightarrow> (if int j = baByteOffset addr \<and> int m = baBitOffset addr then v else bit (rgData r ! j) m)" for j m
    using a i by (auto simp: d_def bit_put_bit i_def n_def)
  moreover have "length d = length (rgData r)" by (simp add: d_def)
  ultimately show ?thesis using w1(1,2) by blast
qed

text \<open>A network with the small server and one open connection.\<close>

definition demoNet :: net where
  "demoNet = \<lparr>ntSrv = ssSrv demoSession, ntConns = [0 \<mapsto> (240, [])], ntNext = 1\<rparr>"

definition demoNetClient :: "nat Client" where
  "demoNetClient = (Client_New ''plc'' [])\<lparr>clConn := Some 0, clPduSize := 240\<rparr>"

lemma demoNet_facts:
  "netReady demoNet 0" "clConn demoNetClient = Some 0" "clPduSize demoNetClient = netLimit demoNet 0"
  "netLimit demoNet 0 = 240" "server_ok (ntSrv demoNet)" "ntSrv demoNet = ssSrv demoSession"
  by (simp_all add: demoNet_def demoNetClient_def netReady_def netLimit_def session_ok_def server_ok_def mem_ok_def
      key_ok_def demo_defs)

abbreviation demoAddr :: Address where
  "demoAddr \<equiv> \<lparr>adArea = AreaDB, adDBNumber = 1, adStart = 1, adSize = 2\<rparr>"

lemmas demo_check = demoNet_facts validateAddress_def validateRangeEnd_def timerOrCounter_def Server_Read_def
  Server_Write_def mem_read_eq_Ok mem_write_eq_Ok bindR_eq_Ok writable_def demo_defs

theorem client_reads_server_witness:
  "\<exists>c' r. ReadArea netTransport demoNetClient CallerCtx demoAddr demoNet = (Ok r, c', demoNet) \<and>
     rsStatus r = ReadStatusSuccess \<and> rsData r = [2, 3]"
  by (rule client_reads_server [where conn = 0]) (simp_all add: demo_check)

theorem client_writes_server_witness:
  "\<exists>c'. WriteArea netTransport demoNetClient CallerCtx demoAddr [7, 8] demoNet =
      (Ok (), c', demoNet\<lparr>ntSrv := (ssSrv demoSession)\<lparr>svMem := demoMem(\<lparr>akArea = 0x84, akDb = 1\<rparr> \<mapsto>
         \<lparr>rgData = [1, 7, 8, 4], rgReadOnly = False\<rparr>)\<rparr>\<rparr>) \<and>
    clConn c' = clConn demoNetClient \<and> clPduSize c' = clPduSize demoNetClient"
  by (rule client_writes_server [where conn = 0]) (simp_all add: demo_check)

theorem connect_agrees_witness:
  "\<exists>c' w'. Connect netTransport demoNetClient CallerCtx demoNet = (Ok (), c', w') \<and>
     connected demoNetClient demoNet c' w'"
  by (rule connect_agrees [OF demoNet_facts(5)])
    (simp_all add: demoNet_def demoNetClient_def Client_New_def defaultOptions_def options_ok_def ValidateRackSlot_def)

theorem client_bits_witness:
  "\<exists>c1 w1 c2 d. WriteBit netTransport demoNetClient CallerCtx
      \<lparr>baArea = AreaDB, baDBNumber = 1, baByteOffset = 2, baBitOffset = 5\<rparr> True demoNet = (Ok (), c1, w1) \<and>
    ReadBit netTransport c1 CallerCtx \<lparr>baArea = AreaDB, baDBNumber = 1, baByteOffset = 2, baBitOffset = 5\<rparr> w1 = (Ok True, c2, w1)"
proof -
  have v: "validateBitAddress \<lparr>baArea = AreaDB, baDBNumber = 1, baByteOffset = 2, baBitOffset = 5\<rparr> = None"
    by (simp add: validateBitAddress_def ValidateS7AnyBitAddress_def EncodeS7AnyBit_def ValidateArea_def)
  show ?thesis
    using client_bits [OF demoNet_facts(1-3) _ v, of "\<lparr>akArea = 0x84, akDb = 1\<rparr>"
        "\<lparr>rgData = [1, 2, 3, 4], rgReadOnly = False\<rparr>" CallerCtx True]
    by (simp add: demoNet_facts timerOrCounter_def demo_defs) blast
qed

end
