(* ===== verification/Wire_Userdata.thy ===== *)
theory Wire_Userdata
  imports Wire_RW
begin

text \<open>
  User data and block functions (\<^verbatim>\<open>wire/pdu_szl.go\<close>, \<^verbatim>\<open>wire/pdu_blocks.go\<close>): SZL reads, block
  counts, lists and headers, and the upload of a block. Go strings taken from a response may hold
  any bytes; they are byte lists.
\<close>

section \<open>User data\<close>

abbreviation SZLModuleID :: uint16 where "SZLModuleID \<equiv> 0x0011"
abbreviation SZLComponentID :: uint16 where "SZLComponentID \<equiv> 0x001C"
abbreviation SZLCPUState :: uint16 where "SZLCPUState \<equiv> 0x0424"
abbreviation SZLProtectionInfo :: uint16 where "SZLProtectionInfo \<equiv> 0x0232"
abbreviation SZLDiagBuffer :: uint16 where "SZLDiagBuffer \<equiv> 0x00A0"

definition szlIDNames :: "uint16 \<rightharpoonup> string" where
  "szlIDNames = map_of [
     (0x0011, ''Module identification''),
     (0x0012, ''All characteristics''),
     (0x0013, ''Data records of all memory areas''),
     (0x0014, ''All system areas of a module''),
     (0x0015, ''Data records of all block types''),
     (0x0016, ''Data records of all priority classes''),
     (0x0017, ''All SDBs of a module''),
     (0x0018, ''All data records''),
     (0x0019, ''Status of all LEDs''),
     (0x001C, ''Component identification''),
     (0x00A0, ''Diagnostic buffer''),
     (0x0111, ''Block list (single identification data record)''),
     (0x0112, ''Characteristics of a grp''),
     (0x0113, ''Data record for one memory area / Block info''),
     (0x0114, ''One system area''),
     (0x0115, ''Data record of a block type''),
     (0x0116, ''Data record of priority class''),
     (0x0117, ''One single SDB''),
     (0x0124, ''Information about the last mode transition''),
     (0x0131, ''Information about a communication unit''),
     (0x0132, ''Status data for one communication section''),
     (0x0137, ''Details of one Ethernet interface''),
     (0x0174, ''Status of an LED''),
     (0x0181, ''Startup information of all synchronous error OBs''),
     (0x0182, ''Startup events of all synchronous error OBs''),
     (0x0190, ''Information of one DP master system''),
     (0x0191, ''Status information of all modules/racks with wrong type''),
     (0x01A0, ''Most recent diagnostic buffer entries''),
     (0x0200, ''Partial list extract''),
     (0x021C, ''Identification of all components (H system)''),
     (0x0221, ''Data records for specified interrupt''),
     (0x0222, ''Data records for specified interrupt''),
     (0x0223, ''Data records of priority classes being processed''),
     (0x0224, ''Processed mode transition''),
     (0x0232, ''Protection level''),
     (0x0281, ''Startup information of synchronous error OBs (one priority class)''),
     (0x0282, ''Startup events of synchronous error OBs (one priority class)''),
     (0x0291, ''Status information of all faulty modules''),
     (0x0292, ''Actual status of central racks/stations (DP)''),
     (0x0294, ''Actual status of rack/stations (DP/PN)''),
     (0x0300, ''Possible indexes of a partial list extract''),
     (0x031C, ''Identification of one component (redundant CPUs, H system)''),
     (0x0381, ''Startup information of all OBs of one priority class''),
     (0x0382, ''Startup events of all OBs of a priority class''),
     (0x0391, ''Status information of all modules not available''),
     (0x0392, ''State of battery backup of racks''),
     (0x0424, ''Current mode transition''),
     (0x0492, ''State of total backup of racks''),
     (0x04A0, ''Start information of all standard OBs''),
     (0x0524, ''Specified mode transition'')]"

definition SZLIDString :: "uint16 \<Rightarrow> string" where
  "SZLIDString ident = (case szlIDNames ident of Some s \<Rightarrow> s | None \<Rightarrow> ''SZL 0x'' @ hex04 ident)"

abbreviation UserdataReq :: byte where "UserdataReq \<equiv> 0x11"
abbreviation UserdataRes :: byte where "UserdataRes \<equiv> 0x12"
abbreviation UserdataSZL :: byte where "UserdataSZL \<equiv> 0x01"
abbreviation UserdataTypeRequest :: byte where "UserdataTypeRequest \<equiv> 0x40"
abbreviation UserdataGroupBlock :: byte where "UserdataGroupBlock \<equiv> 0x03"
abbreviation UserdataGroupCPU :: byte where "UserdataGroupCPU \<equiv> 0x04"
abbreviation UserdataBlockCount :: byte where "UserdataBlockCount \<equiv> 0x01"
abbreviation UserdataBlockList :: byte where "UserdataBlockList \<equiv> 0x02"
abbreviation UserdataBlockInfo :: byte where "UserdataBlockInfo \<equiv> 0x03"

definition EncodeUserdataRequest :: "uint16 \<Rightarrow> byte \<Rightarrow> byte \<Rightarrow> bytes \<Rightarrow> bytes res" where
  "EncodeUserdataRequest pduRef grp subfunc data =
     encodeMessage ROSCTRUserdata pduRef
       [0x00, 0x01, 0x12, 0x04, UserdataReq, UserdataTypeRequest OR (grp AND 0x0F), subfunc, 0x00] data"

text \<open>The encoders with sections of a fixed size drop the error, which leaves a nil slice.\<close>

definition userdataRequest :: "uint16 \<Rightarrow> byte \<Rightarrow> byte \<Rightarrow> bytes \<Rightarrow> bytes" where
  "userdataRequest pduRef grp subfunc data =
     (case EncodeUserdataRequest pduRef grp subfunc data of Ok msg \<Rightarrow> msg | _ \<Rightarrow> [])"

definition EncodeUserdataFollowUp :: "uint16 \<Rightarrow> byte \<Rightarrow> byte \<Rightarrow> byte \<Rightarrow> bytes" where
  "EncodeUserdataFollowUp pduRef grp subfunc seq =
     (case encodeMessage ROSCTRUserdata pduRef
        [0x00, 0x01, 0x12, 0x08, UserdataRes, UserdataTypeRequest OR (grp AND 0x0F), subfunc, seq,
         0x00, 0x00, 0x00, 0x00] [RetCodeNotAvailable, 0x00, 0x00, 0x00] of
        Ok msg \<Rightarrow> msg | _ \<Rightarrow> [])"

record UserdataParam =
  upGroup :: byte
  upSubfunction :: byte
  upSequence :: byte
  upMore :: bool
  upErrorCode :: uint16

definition ParseUserdataParam :: "bytes \<Rightarrow> UserdataParam res" where
  "ParseUserdataParam param =
    (let invalid = Err (S7Error 0 0 (''user data response parameter of '' @ utoa (length param) @
           '' bytes is not 00 01 12 08'')) in
     if length param < 12 then invalid else
     bindR (idx param 0) (\<lambda>b0.
     bindR (idx param 1) (\<lambda>b1.
     bindR (idx param 2) (\<lambda>b2.
     bindR (idx param 3) (\<lambda>b3.
     if b0 \<noteq> 0x00 \<or> b1 \<noteq> 0x01 \<or> b2 \<noteq> 0x12 \<or> b3 \<noteq> 0x08 then invalid else
     bindR (idx param 5) (\<lambda>g.
     bindR (idx param 6) (\<lambda>sf.
     bindR (idx param 7) (\<lambda>sq.
     bindR (idx param 9) (\<lambda>more.
     bindR (u16at param 10) (\<lambda>ec.
     Ok \<lparr>upGroup = g AND 0x0F, upSubfunction = sf, upSequence = sq, upMore = (more \<noteq> 0x00),
         upErrorCode = ec\<rparr>))))))))))"

definition ParseUserdataData :: "bytes \<Rightarrow> bytes res" where
  "ParseUserdataData data =
    (if length data < 4 then Err (S7Error 0 0 ''user data section too short'') else
     bindR (idx data 0) (\<lambda>code.
     case ReturnCodeError code of
       Some e \<Rightarrow> Err e
     | None \<Rightarrow>
        bindR (u16at data 2) (\<lambda>len.
        let n = unat len in
        if length data < 4 + n
        then Err (S7Error 0 0 (''user data length '' @ utoa n @ '' past the '' @ utoa (length data - 4) @
               '' bytes received''))
        else go_slice data 4 (4 + n))))"

section \<open>SZL\<close>

definition EncodeSZLRequest :: "uint16 \<Rightarrow> uint16 \<Rightarrow> uint16 \<Rightarrow> bytes" where
  "EncodeSZLRequest pduRef szlID szlIndex =
     userdataRequest pduRef UserdataGroupCPU UserdataSZL
       ([RetCodeSuccess, 0x09] @ put16 4 @ put16 szlID @ put16 szlIndex)"

record SZLResponse =
  szlID :: uint16
  szlIndex :: uint16
  szlDataLength :: uint16
  szlData :: bytes

definition ParseSZLResponse :: "bytes \<Rightarrow> SZLResponse res" where
  "ParseSZLResponse data =
     bindR (if 0 < length data
            then bindR (idx data 0) (\<lambda>code. case ReturnCodeError code of Some e \<Rightarrow> Err e | None \<Rightarrow> Ok ())
            else Ok ()) (\<lambda>_.
     if length data < 8 then Err (S7Error 0 0 ''SZL response too short'') else
     bindR (u16at data 2) (\<lambda>dataLen.
     let hi = 4 + unat dataLen in
     if hi < 8 then Err (S7Error 0 0 ''SZL data length too short'') else
     if length data < hi then Err (S7Error 0 0 ''SZL data length mismatch'') else
     bindR (u16at data 4) (\<lambda>ident.
     bindR (u16at data 6) (\<lambda>index.
     bindR (go_slice data 8 hi) (\<lambda>d.
     Ok \<lparr>szlID = ident, szlIndex = index, szlDataLength = dataLen, szlData = d\<rparr>)))))"

section \<open>Block functions\<close>

abbreviation BlockTypeOB :: byte where "BlockTypeOB \<equiv> 0x38"
abbreviation BlockTypeDB :: byte where "BlockTypeDB \<equiv> 0x41"
abbreviation BlockTypeSDB :: byte where "BlockTypeSDB \<equiv> 0x42"
abbreviation BlockTypeFC :: byte where "BlockTypeFC \<equiv> 0x43"
abbreviation BlockTypeSFC :: byte where "BlockTypeSFC \<equiv> 0x44"
abbreviation BlockTypeFB :: byte where "BlockTypeFB \<equiv> 0x45"
abbreviation BlockTypeSFB :: byte where "BlockTypeSFB \<equiv> 0x46"

definition validBlockType :: "byte \<Rightarrow> bool" where
  "validBlockType t \<longleftrightarrow> t \<in> {BlockTypeOB, BlockTypeDB, BlockTypeSDB, BlockTypeFC, BlockTypeSFC,
     BlockTypeFB, BlockTypeSFB}"

abbreviation MaxUploadBlockNumber :: int where "MaxUploadBlockNumber \<equiv> 99999"
abbreviation blockAddressLen :: byte where "blockAddressLen \<equiv> 8"

text \<open>\<^verbatim>\<open>%05d\<close> of a number below 100000, as bytes.\<close>

definition dec05 :: "nat \<Rightarrow> bytes" where
  "dec05 n = map (\<lambda>d. 0x30 + word_of_nat d)
     [n div 10000 mod 10, n div 1000 mod 10, n div 100 mod 10, n div 10 mod 10, n mod 10]"

definition blockAddress :: "byte \<Rightarrow> int \<Rightarrow> bytes res" where
  "blockAddress blockType blockNum =
    (if \<not> validBlockType blockType
     then Err (wrap_sentinel ErrUnknownBlockType (''0x'' @ hex02 blockType))
     else if blockNum < 0 \<or> MaxUploadBlockNumber < blockNum
     then Err (wrap_sentinel ErrOutOfRange (''block number '' @ itoa blockNum @ '' not in 0..99999''))
     else Ok ([0x30, blockType] @ dec05 (nat blockNum) @ [0x41]))"

definition EncodeBlockCountRequest :: "uint16 \<Rightarrow> bytes" where
  "EncodeBlockCountRequest pduRef =
     userdataRequest pduRef UserdataGroupBlock UserdataBlockCount [RetCodeNotAvailable, 0x00, 0x00, 0x00]"

text \<open>The loop over a payload of four-byte entries.\<close>

function walk4 :: "(nat \<Rightarrow> 'a res) \<Rightarrow> nat \<Rightarrow> nat \<Rightarrow> 'a list res" where
  "walk4 f n off =
     (if off < n
      then bindR (f off) (\<lambda>x. bindR (walk4 f n (off + 4)) (\<lambda>xs. Ok (x # xs)))
      else Ok [])"
  by pat_completeness auto
termination
  by (relation "measure (\<lambda>(f, n, off). n - off)") auto

declare walk4.simps [simp del]

record BlockCount =
  bcBlockType :: byte
  bcCount :: nat

definition ParseBlockCountResponse :: "bytes \<Rightarrow> BlockCount list res" where
  "ParseBlockCountResponse payload =
    (if length payload mod 4 \<noteq> 0
     then Err (OtherError (''block count data length '' @ utoa (length payload) @ '' not multiple of 4''))
     else
       walk4 (\<lambda>off.
         bindR (idx payload (off + 1)) (\<lambda>t.
         bindR (u16at payload (off + 2)) (\<lambda>n.
         Ok \<lparr>bcBlockType = t, bcCount = unat n\<rparr>))) (length payload) 0)"

definition EncodeBlockListRequest :: "uint16 \<Rightarrow> byte \<Rightarrow> bytes" where
  "EncodeBlockListRequest pduRef blockType =
     userdataRequest pduRef UserdataGroupBlock UserdataBlockList
       [RetCodeSuccess, 0x09, 0x00, 0x02, 0x30, blockType]"

record BlockListEntry =
  beBlockType :: byte
  beBlockNumber :: uint16
  beLanguage :: byte
  beFlags :: byte

definition ParseBlockListResponse :: "bytes \<Rightarrow> BlockListEntry list res" where
  "ParseBlockListResponse payload =
    (if length payload mod 4 \<noteq> 0
     then Err (OtherError (''block list data length '' @ utoa (length payload) @ '' not multiple of 4''))
     else
       walk4 (\<lambda>off.
         bindR (u16at payload off) (\<lambda>n.
         bindR (idx payload (off + 2)) (\<lambda>fl.
         bindR (idx payload (off + 3)) (\<lambda>lang.
         Ok \<lparr>beBlockType = 0, beBlockNumber = n, beLanguage = lang, beFlags = fl\<rparr>)))) (length payload) 0)"

definition EncodeBlockInfoRequest :: "uint16 \<Rightarrow> byte \<Rightarrow> int \<Rightarrow> bytes res" where
  "EncodeBlockInfoRequest pduRef blockType blockNum =
     bindR (blockAddress blockType blockNum) (\<lambda>addr.
     Ok (userdataRequest pduRef UserdataGroupBlock UserdataBlockInfo
       ([RetCodeSuccess, 0x09, 0x00, blockAddressLen] @ addr)))"

record BlockInfoData =
  bdFlags :: byte
  bdLanguage :: byte
  bdSubBlockType :: byte
  bdNumber :: nat
  bdLoadMemory :: nat
  bdSecurity :: nat
  bdSSBLength :: nat
  bdAddLength :: nat
  bdLocalData :: nat
  bdMC7Size :: nat
  bdAuthor :: bytes
  bdFamily :: bytes
  bdName :: bytes
  bdVersion :: string
  bdChecksum :: uint16

abbreviation blockInfoSize :: nat where "blockInfoSize \<equiv> 70"

text \<open>\<^verbatim>\<open>strings.TrimRight(s, "\x00 ")\<close>: trailing zero bytes and spaces go.\<close>

definition trimRight :: "bytes \<Rightarrow> bytes" where
  "trimRight s = rev (dropWhile (\<lambda>b. b = 0x00 \<or> b = 0x20) (rev s))"

definition ParseBlockInfoResponse :: "bytes \<Rightarrow> BlockInfoData res" where
  "ParseBlockInfoResponse b =
    (if length b < blockInfoSize
     then Err (OtherError (''block info data too short: need 70 bytes, got '' @ utoa (length b)))
     else
       bindR (idx b 9) (\<lambda>fl. bindR (idx b 10) (\<lambda>lang. bindR (idx b 11) (\<lambda>sub.
       bindR (u16at b 12) (\<lambda>num. bindR (u32at b 14) (\<lambda>lm. bindR (u32at b 18) (\<lambda>sec.
       bindR (u16at b 34) (\<lambda>ssb. bindR (u16at b 36) (\<lambda>add. bindR (u16at b 38) (\<lambda>loc.
       bindR (u16at b 40) (\<lambda>mc7. bindR (go_slice b 42 50) (\<lambda>author. bindR (go_slice b 50 58) (\<lambda>family.
       bindR (go_slice b 58 66) (\<lambda>name. bindR (idx b 66) (\<lambda>v. bindR (u16at b 68) (\<lambda>cs.
       Ok \<lparr>bdFlags = fl, bdLanguage = lang, bdSubBlockType = sub, bdNumber = unat num,
           bdLoadMemory = unat lm, bdSecurity = unat sec, bdSSBLength = unat ssb, bdAddLength = unat add,
           bdLocalData = unat loc, bdMC7Size = unat mc7, bdAuthor = trimRight author,
           bdFamily = trimRight family, bdName = trimRight name,
           bdVersion = utoa (unat (drop_bit 4 v)) @ ''.'' @ utoa (unat (v AND 0x0F)),
           bdChecksum = cs\<rparr>))))))))))))))))"

section \<open>Upload\<close>

definition EncodeStartUploadRequest :: "uint16 \<Rightarrow> byte \<Rightarrow> int \<Rightarrow> bytes res" where
  "EncodeStartUploadRequest pduRef blockType blockNum =
     bindR (blockAddress blockType blockNum) (\<lambda>addr.
     encodeMessage ROSCTRJob pduRef
       ([FuncUploadStart, 0x00, 0x00, 0x00, 0x00, 0x00, 0x00, 0x00, 1 + blockAddressLen, 0x5F] @ addr) [])"

record StartUpload =
  suUploadID :: uint32
  suLength :: int

text \<open>\<^verbatim>\<open>strconv.Atoi\<close> where it succeeds: an optional sign, one or more decimal digits, and a
  value that fits 64 bits.\<close>

definition atoi :: "bytes \<Rightarrow> int option" where
  "atoi s =
    (let (neg, ds) =
       (case s of
          [] \<Rightarrow> (False, [])
        | c # cs \<Rightarrow> if c = 0x2D then (True, cs) else if c = 0x2B then (False, cs) else (False, s)) in
     if ds = [] \<or> \<not> list_all (\<lambda>d. 0x30 \<le> d \<and> d \<le> 0x39) ds then None
     else
      (let v = foldl (\<lambda>a d. 10 * a + int (unat (d - 0x30))) 0 ds; v = (if neg then - v else v) in
       if v < - (2 ^ 63) \<or> 2 ^ 63 - 1 < v then None else Some v))"

definition ParseStartUploadResponse :: "bytes \<Rightarrow> StartUpload res" where
  "ParseStartUploadResponse param =
    (if length param < 8 then Err (S7Error 0 0 ''invalid start upload response'') else
     bindR (idx param 0) (\<lambda>fn.
     if fn \<noteq> FuncUploadStart then Err (S7Error 0 0 ''invalid start upload response'') else
     bindR (u32at param 4) (\<lambda>ident.
     let out = \<lparr>suUploadID = ident, suLength = -1\<rparr> in
     if 8 < length param then
       bindR (idx param 8) (\<lambda>len.
       let n = unat len in
       if length param < 9 + n then Err (S7Error 0 0 ''invalid start upload block length'') else
       bindR (go_slice param 9 (9 + n)) (\<lambda>s.
       Ok (case atoi s of Some v \<Rightarrow> out\<lparr>suLength := v\<rparr> | None \<Rightarrow> out)))
     else Ok out)))"

definition uploadSessionRequest :: "uint16 \<Rightarrow> byte \<Rightarrow> uint32 \<Rightarrow> bytes" where
  "uploadSessionRequest pduRef fn uploadID =
     s7Header ROSCTRJob pduRef 8 0 @ [fn, 0, 0, 0] @ put32 uploadID"

definition EncodeUploadRequest :: "uint16 \<Rightarrow> uint32 \<Rightarrow> bytes" where
  "EncodeUploadRequest pduRef uploadID = uploadSessionRequest pduRef FuncUpload uploadID"

definition EncodeEndUploadRequest :: "uint16 \<Rightarrow> uint32 \<Rightarrow> bytes" where
  "EncodeEndUploadRequest pduRef uploadID = uploadSessionRequest pduRef FuncUploadEnd uploadID"

record UploadChunk =
  ucDone :: bool
  ucData :: bytes

definition ParseUploadResponse :: "bytes \<Rightarrow> bytes \<Rightarrow> UploadChunk res" where
  "ParseUploadResponse param data =
    (if length param < 2 then Err (S7Error 0 0 ''invalid upload response'') else
     bindR (idx param 0) (\<lambda>fn.
     if fn \<noteq> FuncUpload then Err (S7Error 0 0 ''invalid upload response'') else
     if length data < 4 then Err (OtherError ''upload response data too short'') else
     bindR (u16at data 0) (\<lambda>len.
     let n = unat len in
     if length data < 4 + n
     then Err (OtherError (''upload response length overrun: need '' @ utoa (4 + n) @ '' bytes, have '' @
            utoa (length data)))
     else
       bindR (idx param 1) (\<lambda>st.
       bindR (go_slice data 4 (4 + n)) (\<lambda>d.
       Ok \<lparr>ucDone = (st AND 0x01 = 0), ucData = d\<rparr>)))))"

section \<open>Facts about the decoders\<close>

lemma walk4_map:
  assumes "\<forall>i < k. f (off + 4 * i) = Ok (g i)"
  shows "walk4 f (off + 4 * k) off = Ok (map g [0..<k])"
  using assms
proof (induction k arbitrary: off g)
  case 0
  then show ?case by (simp add: walk4.simps)
next
  case (Suc k)
  have "f off = Ok (g 0)" using Suc.prems by force
  moreover have "\<forall>i < k. f (off + 4 + 4 * i) = Ok (g (Suc i))"
  proof (intro allI impI)
    fix i assume "i < k"
    then show "f (off + 4 + 4 * i) = Ok (g (Suc i))" using Suc.prems [rule_format, of "Suc i"] by (simp add: add.assoc)
  qed
  then have "walk4 f (off + 4 + 4 * k) (off + 4) = Ok (map (\<lambda>i. g (Suc i)) [0..<k])" by (rule Suc.IH)
  moreover have "map g [0..<Suc k] = g 0 # map (\<lambda>i. g (Suc i)) [0..<k]"
    by (simp add: upt_conv_Cons map_Suc_upt [symmetric] comp_def del: upt_Suc)
  ultimately show ?case by (simp add: walk4.simps [of f "off + (4 + 4 * k)" off] add.assoc)
qed

lemma quad_cases:
  obtains (short) "length xs < 4" | (quad) a b c d r where "xs = a # b # c # d # r"
proof (cases xs)
  case (Cons a r1)
  note 1 = this
  show thesis
  proof (cases r1)
    case (Cons b r2)
    note 2 = this
    show thesis
    proof (cases r2)
      case (Cons c r3)
      with 1 2 short quad show thesis by (cases r3) simp_all
    qed (use 1 2 short in simp)
  qed (use 1 short in simp)
qed (use short in simp)

lemma quads:
  "4 * k \<le> length p \<Longrightarrow> concat (map (\<lambda>i. [p ! (4 * i), p ! (4 * i + 1), p ! (4 * i + 2), p ! (4 * i + 3)]) [0..<k]) = take (4 * k) p"
proof (induction k)
  case (Suc k)
  have "take (4 * Suc k) p = take (4 * k + 4) p" by (simp add: add.commute)
  also have "\<dots> = take (4 * k) p @ take 4 (drop (4 * k) p)" by (rule take_add)
  also have "take 4 (drop (4 * k) p) = [p ! (4 * k), p ! (4 * k + 1), p ! (4 * k + 2), p ! (4 * k + 3)]"
  proof -
    have "4 \<le> length (drop (4 * k) p)" using Suc.prems by simp
    then obtain a b c d r where q: "drop (4 * k) p = a # b # c # d # r"
      by (cases "drop (4 * k) p" rule: quad_cases) auto
    have "p ! (4 * k + i) = drop (4 * k) p ! i" if "4 * k + i \<le> length p" for i using Suc.prems by simp
    from this [of 0] this [of 1] this [of 2] this [of 3] Suc.prems show ?thesis by (simp add: q)
  qed
  finally show ?case using Suc by simp
qed simp

lemma ParseBlockListResponse_eq:
  assumes "length p = 4 * k"
  shows "ParseBlockListResponse p = Ok (map (\<lambda>i. \<lparr>beBlockType = 0, beBlockNumber = be16 (p ! (4 * i)) (p ! (4 * i + 1)),
      beLanguage = p ! (4 * i + 3), beFlags = p ! (4 * i + 2)\<rparr>) [0..<k])"
proof -
  have "\<forall>i < k. (\<lambda>off. bindR (u16at p off) (\<lambda>n. bindR (idx p (off + 2)) (\<lambda>fl. bindR (idx p (off + 3)) (\<lambda>lang.
         Ok \<lparr>beBlockType = 0, beBlockNumber = n, beLanguage = lang, beFlags = fl\<rparr>)))) (0 + 4 * i) =
      Ok \<lparr>beBlockType = 0, beBlockNumber = be16 (p ! (4 * i)) (p ! (4 * i + 1)),
      beLanguage = p ! (4 * i + 3), beFlags = p ! (4 * i + 2)\<rparr>"
    using assms by (auto simp: go_simps)
  from walk4_map [OF this] show ?thesis using assms by (simp add: ParseBlockListResponse_def)
qed

lemma ParseBlockCountResponse_eq:
  assumes "length p = 4 * k"
  shows "ParseBlockCountResponse p = Ok (map (\<lambda>i. \<lparr>bcBlockType = p ! (4 * i + 1),
      bcCount = unat (be16 (p ! (4 * i + 2)) (p ! (4 * i + 3)))\<rparr>) [0..<k])"
proof -
  have "\<forall>i < k. (\<lambda>off. bindR (idx p (off + 1)) (\<lambda>t. bindR (u16at p (off + 2)) (\<lambda>n.
         Ok \<lparr>bcBlockType = t, bcCount = unat n\<rparr>))) (0 + 4 * i) =
      Ok \<lparr>bcBlockType = p ! (4 * i + 1), bcCount = unat (be16 (p ! (4 * i + 2)) (p ! (4 * i + 3)))\<rparr>"
    using assms by (auto simp: go_simps numeral_eq_Suc)
  from walk4_map [OF this] show ?thesis using assms by (simp add: ParseBlockCountResponse_def)
qed

text \<open>The block list and block count decoders read every entry of a payload: they succeed exactly
  when its length is a multiple of four, with one entry per four bytes, and the list's entries
  written back as number, flags and language give the payload.\<close>

lemma block_lists_exact:
  "case (ParseBlockListResponse p, ParseBlockCountResponse p) of
     (Ok es, Ok cs) \<Rightarrow> 4 * length es = length p \<and> length cs = length es \<and>
       concat (map (\<lambda>e. put16 (beBlockNumber e) @ [beFlags e, beLanguage e]) es) = p \<and>
       map (\<lambda>c. [bcBlockType c]) cs = map (\<lambda>i. [p ! (4 * i + 1)]) [0..<length es]
   | (Err _, Err _) \<Rightarrow> length p mod 4 > 0
   | _ \<Rightarrow> False"
proof (cases "length p mod 4 = 0")
  case True
  then obtain k where k: "length p = 4 * k" by (auto simp: mod_eq_0_iff_dvd elim: dvdE)
  then show ?thesis
    using quads [of k p] by (simp add: ParseBlockListResponse_eq ParseBlockCountResponse_eq comp_def)
qed (simp add: ParseBlockListResponse_def ParseBlockCountResponse_def)

text \<open>The payload a user data section announces.\<close>

lemma ParseUserdataData_eq:
  "ParseUserdataData data = (if length data < 4 then Err (S7Error 0 0 ''user data section too short'')
     else case ReturnCodeError (data ! 0) of Some e \<Rightarrow> Err e
     | None \<Rightarrow> let n = unat (be16 (data ! 2) (data ! 3)) in
        if length data < 4 + n
        then Err (S7Error 0 0 (''user data length '' @ utoa n @ '' past the '' @ utoa (length data - 4) @ '' bytes received''))
        else Ok (take n (drop 4 data)))"
  by (auto simp: ParseUserdataData_def go_simps Let_def split: option.split)

lemma ParseSZLResponse_eq_Ok:
  "ParseSZLResponse data = Ok r \<longleftrightarrow>
     (let n = unat (be16 (data ! 2) (data ! 3)) in
      8 \<le> length data \<and> data ! 0 = RetCodeSuccess \<and> 4 \<le> n \<and> 4 + n \<le> length data \<and>
      r = \<lparr>szlID = be16 (data ! 4) (data ! 5), szlIndex = be16 (data ! 6) (data ! 7),
        szlDataLength = be16 (data ! 2) (data ! 3), szlData = take (n - 4) (drop 8 data)\<rparr>)"
  by (auto simp: ParseSZLResponse_def go_simps Let_def ReturnCodeError_def not_less split: if_splits)

lemma ParseSZLResponse_accepts:
  assumes "8 \<le> length data" "data ! 0 = RetCodeSuccess" "4 \<le> unat (be16 (data ! 2) (data ! 3))"
    "4 + unat (be16 (data ! 2) (data ! 3)) \<le> length data"
  shows "\<exists>r. ParseSZLResponse data = Ok r"
  using assms by (simp add: ParseSZLResponse_eq_Ok Let_def)

lemma ParseSZLResponse_not_Panic [simp]: "ParseSZLResponse data \<noteq> Panic"
  by (auto simp: ParseSZLResponse_def go_simps Let_def ReturnCodeError_def not_less split: if_splits)

lemma ParseUserdataData_not_Panic [simp]: "ParseUserdataData data \<noteq> Panic"
  by (simp add: ParseUserdataData_eq Let_def split: option.split)

lemma ParseUserdataParam_not_Panic [simp]: "ParseUserdataParam param \<noteq> Panic"
  by (simp add: ParseUserdataParam_def go_simps Let_def)

lemma ParseBlockInfoResponse_not_Panic [simp]: "ParseBlockInfoResponse b \<noteq> Panic"
  by (simp add: ParseBlockInfoResponse_def go_simps)

lemma ParseStartUploadResponse_not_Panic [simp]: "ParseStartUploadResponse param \<noteq> Panic"
  by (simp add: ParseStartUploadResponse_def go_simps Let_def)

lemma ParseUploadResponse_eq:
  "ParseUploadResponse param data =
     (if length param < 2 \<or> param ! 0 \<noteq> FuncUpload then Err (S7Error 0 0 ''invalid upload response'')
      else if length data < 4 then Err (OtherError ''upload response data too short'')
      else let n = unat (be16 (data ! 0) (data ! 1)) in
        if length data < 4 + n
        then Err (OtherError (''upload response length overrun: need '' @ utoa (4 + n) @ '' bytes, have '' @ utoa (length data)))
        else Ok \<lparr>ucDone = (param ! 1 AND 1 = 0), ucData = take n (drop 4 data)\<rparr>)"
  by (auto simp: ParseUploadResponse_def go_simps Let_def)

lemma ParseUploadResponse_not_Panic [simp]: "ParseUploadResponse param data \<noteq> Panic"
  by (simp add: ParseUploadResponse_eq Let_def)

lemma ParseBlockListResponse_not_Panic [simp]: "ParseBlockListResponse p \<noteq> Panic"
  using ParseBlockListResponse_eq [of p "length p div 4"]
  by (cases "length p mod 4 = 0") (auto simp: ParseBlockListResponse_def)

lemma ParseBlockCountResponse_not_Panic [simp]: "ParseBlockCountResponse p \<noteq> Panic"
  using ParseBlockCountResponse_eq [of p "length p div 4"]
  by (cases "length p mod 4 = 0") (auto simp: ParseBlockCountResponse_def)

section \<open>Facts about the encoders\<close>

lemma digit_byte:
  assumes "d < 10"
  shows "(0x30 :: byte) \<le> 0x30 + word_of_nat d" "(0x30 + word_of_nat d :: byte) \<le> 0x39"
    "(0x30 + word_of_nat d :: byte) \<noteq> 0x2D" "(0x30 + word_of_nat d :: byte) \<noteq> 0x2B"
    "unat (0x30 + word_of_nat d - 0x30 :: byte) = d"
proof -
  have u: "unat (0x30 + word_of_nat d :: byte) = 48 + d"
    using assms by (simp add: unat_word_ariths unsigned_of_nat take_bit_eq_mod)
  then show "(0x30 :: byte) \<le> 0x30 + word_of_nat d" "(0x30 + word_of_nat d :: byte) \<le> 0x39"
    using assms by (auto simp: word_le_nat_alt)
  have "unat (0x2D :: byte) = 45" "unat (0x2B :: byte) = 43" "48 + d \<noteq> 45" "48 + d \<noteq> 43" by simp_all
  then show "(0x30 + word_of_nat d :: byte) \<noteq> 0x2D" "(0x30 + word_of_nat d :: byte) \<noteq> 0x2B" using u by metis+
  show "unat (0x30 + word_of_nat d - 0x30 :: byte) = d"
    using assms by (simp add: unsigned_of_nat take_bit_eq_mod)
qed

lemma foldl_digits:
  assumes "\<forall>d \<in> set ds. d < 10"
  shows "foldl (\<lambda>a d. 10 * a + int (unat (d - 0x30))) (int a) (map (\<lambda>d. 0x30 + word_of_nat d :: byte) ds) =
      int (foldl (\<lambda>a d. 10 * a + d) a ds) \<and> foldl (\<lambda>a d. 10 * a + d) a ds < (a + 1) * 10 ^ length ds"
  using assms
proof (induction ds arbitrary: a)
  case (Cons d ds)
  have eq: "10 * int a + int (unat (0x30 + word_of_nat d - 0x30 :: byte)) = int (10 * a + d)"
    using Cons.prems digit_byte(5) [of d] by simp
  have "10 * a + d + 1 \<le> (a + 1) * 10" using Cons.prems by simp
  then have "(10 * a + d + 1) * 10 ^ length ds \<le> (a + 1) * 10 * 10 ^ length ds" by (rule mult_right_mono) simp
  moreover have "(a + 1) * 10 * 10 ^ length ds = (a + 1) * 10 ^ length (d # ds)" by (simp add: algebra_simps)
  ultimately have "foldl (\<lambda>a d. 10 * a + d) (10 * a + d) ds < (a + 1) * 10 ^ length (d # ds)"
    using Cons.prems Cons.IH [of "10 * a + d"] by (metis (no_types, lifting) less_le_trans list.set_intros(2))
  then show ?case using Cons.prems Cons.IH [of "10 * a + d"] eq by simp
qed simp

lemma atoi_digits:
  assumes "\<forall>d \<in> set ds. d < 10" "ds \<noteq> []" "length ds \<le> 18"
  shows "atoi (map (\<lambda>d. 0x30 + word_of_nat d) ds) = Some (int (foldl (\<lambda>a d. 10 * a + d) 0 ds))"
proof -
  define s :: bytes where "s = map (\<lambda>d. 0x30 + word_of_nat d) ds"
  obtain c cs where s: "s = c # cs" using assms(2) by (cases ds) (auto simp: s_def)
  have sign: "c \<noteq> 0x2D" "c \<noteq> 0x2B" using s assms(1,2) digit_byte(3,4) by (cases ds; auto simp: s_def)+
  have all: "list_all (\<lambda>d. 0x30 \<le> d \<and> d \<le> 0x39) s"
    using assms(1) digit_byte(1,2) by (auto simp: list_all_iff s_def)
  have val: "foldl (\<lambda>a d. 10 * a + int (unat (d - 0x30))) 0 s = int (foldl (\<lambda>a d. 10 * a + d) 0 ds)"
    using foldl_digits [OF assms(1), of 0] by (simp add: s_def)
  have "foldl (\<lambda>a d. 10 * a + d) 0 ds < 10 ^ length ds" using foldl_digits [OF assms(1), of 0] by simp
  also have "(10 :: nat) ^ length ds \<le> 10 ^ 18" using assms(3) by (intro power_increasing) simp_all
  finally have lim: "int (foldl (\<lambda>a d. 10 * a + d) 0 ds) < 10 ^ 18" by simp
  have "(case s of [] \<Rightarrow> (False, []) | c # cs \<Rightarrow> if c = 0x2D then (True, cs) else if c = 0x2B then (False, cs) else (False, s)) = (False, s)"
    using s sign by simp
  then show ?thesis unfolding s_def [symmetric] atoi_def Let_def
    using all val lim s by simp
qed

lemma atoi_dec05:
  assumes "n < 100000"
  shows "atoi (dec05 n) = Some (int n)"
proof -
  have e: "n div 100 = n div 10 div 10" "n div 1000 = n div 10 div 10 div 10" "n div 10000 = n div 10 div 10 div 10 div 10"
    by (simp_all flip: div_mult2_eq)
  have "n div 10000 < 10" using assms by (simp add: div_less_iff_less_mult)
  then have "n div 10000 mod 10 = n div 10000" by simp
  then have "10 * (10 * (10 * (10 * (n div 10000 mod 10) + n div 1000 mod 10) + n div 100 mod 10) + n div 10 mod 10) + n mod 10 = n"
    unfolding e by simp
  moreover have "atoi (dec05 n) = Some (int (foldl (\<lambda>a d. 10 * a + d) 0
      [n div 10000 mod 10, n div 1000 mod 10, n div 100 mod 10, n div 10 mod 10, n mod 10]))"
    unfolding dec05_def by (rule atoi_digits) simp_all
  ultimately show ?thesis by (simp only: foldl.simps mult_0_right add_0)
qed

text \<open>A block address is eight bytes that determine the block: '0', the type character, the number
  in five digits and 'A'. It is built exactly for the seven block types and numbers 0 to 99999, and
  its digits read back as the number.\<close>

lemma blockAddress_fields:
  "case blockAddress t n of
     Panic \<Rightarrow> False
   | Err e \<Rightarrow> if validBlockType t then (n < 0 \<or> 99999 < n) \<and> errors_is e ErrOutOfRange else errors_is e ErrUnknownBlockType
   | Ok a \<Rightarrow> validBlockType t \<and> 0 \<le> n \<and> n \<le> 99999 \<and> length a = unat blockAddressLen \<and>
       a ! 0 = 0x30 \<and> a ! 1 = t \<and> atoi (take 5 (drop 2 a)) = Some n \<and> a ! 7 = 0x41"
proof (cases "validBlockType t \<and> 0 \<le> n \<and> n \<le> 99999")
  case True
  have len: "length (dec05 m) = 5" for m by (simp add: dec05_def)
  have "atoi (dec05 (nat n)) = Some n" using True atoi_dec05 [of "nat n"] by (simp add: nat_less_iff)
  with True show ?thesis by (simp add: blockAddress_def len nth_append nth_Cons')
qed (auto simp: blockAddress_def)

text \<open>The first packet of an SZL answer is decoded the same way twice: what the SZL decoder accepts
  is exactly a user data section whose payload holds SZL ID, index and then the list data, so the
  payload is never shorter than the four bytes the client cuts off it.\<close>

lemma SZL_first_packet:
  "(\<exists>r. ParseSZLResponse data = Ok r \<and>
      ParseUserdataData data = Ok (put16 (szlID r) @ put16 (szlIndex r) @ szlData r)) \<or>
   (\<exists>e. ParseSZLResponse data = Err e) \<and>
     (case ParseUserdataData data of Ok p \<Rightarrow> length p < 4 | Err _ \<Rightarrow> True | Panic \<Rightarrow> False)"
proof (cases "ParseSZLResponse data")
  case (Ok r)
  define n where "n = unat (be16 (data ! 2) (data ! 3))"
  from Ok have f: "8 \<le> length data" "data ! 0 = RetCodeSuccess" "4 \<le> n" "4 + n \<le> length data"
    and r: "r = \<lparr>szlID = be16 (data ! 4) (data ! 5), szlIndex = be16 (data ! 6) (data ! 7),
        szlDataLength = be16 (data ! 2) (data ! 3), szlData = take (n - 4) (drop 8 data)\<rparr>"
    by (simp_all add: ParseSZLResponse_eq_Ok Let_def n_def)
  have "take n (drop 4 data) = take 4 (drop 4 data) @ take (n - 4) (drop 8 data)"
    using take_add [of 4 "n - 4" "drop 4 data"] f(3) by simp
  moreover have "take 4 (drop 4 data) = [data ! 4, data ! 5, data ! 6, data ! 7]"
    using f(1) quads [of 1 "drop 4 data"] by simp
  ultimately have "ParseUserdataData data = Ok (put16 (szlID r) @ put16 (szlIndex r) @ szlData r)"
    using f by (simp add: ParseUserdataData_eq ReturnCodeError_def n_def [symmetric] r)
  with Ok show ?thesis by blast
next
  case (Err e)
  define n where "n = unat (be16 (data ! 2) (data ! 3))"
  from Err have "\<not> (8 \<le> length data \<and> data ! 0 = RetCodeSuccess \<and> 4 \<le> n \<and> 4 + n \<le> length data)"
    by (auto simp: ParseSZLResponse_eq_Ok Let_def n_def dest: ParseSZLResponse_accepts)
  then have "case ParseUserdataData data of Ok p \<Rightarrow> length p < 4 | Err _ \<Rightarrow> True | Panic \<Rightarrow> False"
    by (auto simp: ParseUserdataData_eq ReturnCodeError_def n_def [symmetric] Let_def)
  with Err show ?thesis by blast
qed simp

end
