(* ===== verification/Client_Data.thy ===== *)
theory Client_Data
  imports Client_RW Wire_Userdata
begin

text \<open>
  What the client reads besides variables: SZL lists with identification, CPU state, protection
  level and diagnostic buffer (\<^verbatim>\<open>client/szl.go\<close>), block lists, block information and block upload
  (\<^verbatim>\<open>client/blocks.go\<close>), with the types they fill (\<^verbatim>\<open>model/device.go\<close>, \<^verbatim>\<open>model/blocks.go\<close>).

  An operation of the client is a function from the client and the world below it to an outcome,
  the client and the world; \<open>bindC\<close> runs one after another and stops at an error, as
  \<^verbatim>\<open>if err != nil { return }\<close> does. A Go string cut from response bytes is the byte list.
  Calls that may return a value together with an error give a pair of options.
\<close>

section \<open>Sequences of client operations\<close>

type_synonym ('a, 'c, 'w) cop = "'c Client \<Rightarrow> 'w \<Rightarrow> 'a res \<times> 'c Client \<times> 'w"

definition returnC :: "'a res \<Rightarrow> ('a, 'c, 'w) cop" where
  "returnC r = (\<lambda>c w. (r, c, w))"

definition bindC :: "('a, 'c, 'w) cop \<Rightarrow> ('a \<Rightarrow> ('b, 'c, 'w) cop) \<Rightarrow> ('b, 'c, 'w) cop" where
  "bindC m f = (\<lambda>c w.
     case m c w of
       (Ok x, c, w) \<Rightarrow> f x c w
     | (Err e, c, w) \<Rightarrow> (Err e, c, w)
     | (Panic, c, w) \<Rightarrow> (Panic, c, w))"

text \<open>The outcome of an operation as a value, for code that looks at \<^verbatim>\<open>err\<close> and goes on.\<close>

definition tryC :: "('a, 'c, 'w) cop \<Rightarrow> ('a + go_error, 'c, 'w) cop" where
  "tryC m = (\<lambda>c w.
     case m c w of
       (Ok x, c, w) \<Rightarrow> (Ok (Inl x), c, w)
     | (Err e, c, w) \<Rightarrow> (Ok (Inr e), c, w)
     | (Panic, c, w) \<Rightarrow> (Panic, c, w))"

text \<open>\<^verbatim>\<open>ref := c.nextPDURef()\<close>, the exchange of one request, and \<^verbatim>\<open>ctx.Err()\<close>.\<close>

definition refC :: "(uint16, 'c, 'w) cop" where
  "refC = (\<lambda>c w. let (ref, c) = fresh_ref c in (Ok ref, c, w))"

definition exchangeC :: "('w, 'r, 'c) transport \<Rightarrow> go_ctx \<Rightarrow> bytes \<Rightarrow> uint16 \<Rightarrow> (bytes \<times> bytes, 'c, 'w) cop" where
  "exchangeC tr ctx req ref = (\<lambda>c w. let (r, w) = sendReceive tr c ctx req ref w in (r, c, w))"

definition ctxErrC :: "('w, 'r, 'c) transport \<Rightarrow> go_ctx \<Rightarrow> (unit, 'c, 'w) cop" where
  "ctxErrC tr ctx = (\<lambda>c w. let (r, w) = trCtxErr tr w ctx in (r, c, w))"

section \<open>User data exchanges\<close>

abbreviation maxUserdataFollowUps :: nat where "maxUserdataFollowUps \<equiv> 256"

text \<open>The loop over further packets; the number counts down the packets still allowed.\<close>

primrec userdataFollow :: "nat \<Rightarrow> ('w, 'r, 'c) transport \<Rightarrow> go_ctx \<Rightarrow> byte \<Rightarrow> byte \<Rightarrow> UserdataParam \<Rightarrow> bytes \<Rightarrow>
    (bytes, 'c, 'w) cop" where
  "userdataFollow 0 tr ctx grp subfunc up payload =
     returnC (if upMore up
       then Err (wrap_error ''user data response longer than 256 packets'' (Sentinel ErrProtocolFailure))
       else Ok payload)"
| "userdataFollow (Suc n) tr ctx grp subfunc up payload =
    (if \<not> upMore up then returnC (Ok payload)
     else
       bindC refC (\<lambda>ref.
       bindC (exchangeC tr ctx (EncodeUserdataFollowUp ref grp subfunc (upSequence up)) ref) (\<lambda>(param, data).
       case ParseUserdataParam param of
         Panic \<Rightarrow> returnC Panic
       | Err e \<Rightarrow> returnC (Err (wrap_error ''user data follow-up'' (Join [e, Sentinel ErrProtocolFailure])))
       | Ok up \<Rightarrow>
         bindC (returnC (ParseUserdataData data)) (\<lambda>more.
         userdataFollow n tr ctx grp subfunc up (payload @ more)))))"

definition userdata :: "('w, 'r, 'c) transport \<Rightarrow> go_ctx \<Rightarrow> bytes \<Rightarrow> uint16 \<Rightarrow> byte \<Rightarrow> byte \<Rightarrow>
    (bytes \<times> bytes, 'c, 'w) cop" where
  "userdata tr ctx req ref grp subfunc =
     bindC (exchangeC tr ctx req ref) (\<lambda>(param, data).
     case ParseUserdataParam param of
       Panic \<Rightarrow> returnC Panic
     | Err e \<Rightarrow> returnC (Err (wrap_error ''user data response'' (Join [e, Sentinel ErrProtocolFailure])))
     | Ok up \<Rightarrow>
       bindC (returnC (ParseUserdataData data)) (\<lambda>payload.
       bindC (userdataFollow maxUserdataFollowUps tr ctx grp subfunc up payload) (\<lambda>payload.
       returnC (Ok (data, payload)))))"

section \<open>SZL lists\<close>

definition readSZL :: "('w, 'r, 'c) transport \<Rightarrow> go_ctx \<Rightarrow> uint16 \<Rightarrow> uint16 \<Rightarrow> (SZLResponse, 'c, 'w) cop" where
  "readSZL tr ctx ident index =
     bindC refC (\<lambda>ref.
     bindC (userdata tr ctx (EncodeSZLRequest ref ident index) ref UserdataGroupCPU UserdataSZL) (\<lambda>(first, payload).
     bindC (returnC (ParseSZLResponse first)) (\<lambda>resp.
     bindC (returnC (go_slice payload 4 (length payload))) (\<lambda>d.
     returnC (Ok (resp\<lparr>szlData := d\<rparr>))))))"

text \<open>The record loop of \<^verbatim>\<open>szlRecords\<close>; the number counts down the records still announced.\<close>

primrec cutRecords :: "nat \<Rightarrow> bytes \<Rightarrow> nat \<Rightarrow> nat \<Rightarrow> bytes list res" where
  "cutRecords 0 data sz off = Ok []"
| "cutRecords (Suc n) data sz off =
    (if off + sz \<le> length data
     then bindR (go_slice data off (off + sz)) (\<lambda>r. bindR (cutRecords n data sz (off + sz)) (\<lambda>rs. Ok (r # rs)))
     else Ok [])"

definition szlRecords :: "bytes \<Rightarrow> bytes list res" where
  "szlRecords data =
    (if length data < 4 then Err (OtherError (''SZL list header: '' @ utoa (length data) @ '' bytes''))
     else
       bindR (u16at data 0) (\<lambda>sz.
       bindR (u16at data 2) (\<lambda>count.
       if sz = 0 then Err (OtherError ''SZL record length 0'')
       else cutRecords (unat count) data (unat sz) 4)))"

definition trimString :: "bytes \<Rightarrow> bytes" where
  "trimString data = rev (dropWhile (\<lambda>b. b = 0x00 \<or> b = 0x20) (rev data))"

section \<open>Identification\<close>

record DeviceInfo =
  diOrderNumber :: bytes
  diSerialNumber :: bytes
  diModuleName :: bytes
  diPlantID :: bytes
  diCopyright :: bytes
  diModuleType :: bytes
  diFWVersion :: string
  diHWVersion :: bytes
  diCPUType :: bytes
  diCPUFamily :: bytes
  diSystemName :: bytes
  diMemoryCardSerial :: bytes

definition emptyDeviceInfo :: DeviceInfo where
  "emptyDeviceInfo = \<lparr>diOrderNumber = [], diSerialNumber = [], diModuleName = [], diPlantID = [],
     diCopyright = [], diModuleType = [], diFWVersion = [], diHWVersion = [], diCPUType = [],
     diCPUFamily = [], diSystemName = [], diMemoryCardSerial = []\<rparr>"

abbreviation moduleIDRecordSize :: nat where "moduleIDRecordSize \<equiv> 28"
abbreviation componentIDRecordSize :: nat where "componentIDRecordSize \<equiv> 34"

text \<open>The loops over the records change the device information in place: what was filled before a
  short record stays.\<close>

fun applyModuleRecords :: "bytes list \<Rightarrow> DeviceInfo \<Rightarrow> (DeviceInfo \<times> go_error option) res" where
  "applyModuleRecords [] info = Ok (info, None)"
| "applyModuleRecords (r # rs) info =
    (if length r < moduleIDRecordSize
     then Ok (info, Some (OtherError (''module ID record of '' @ utoa (length r) @ '' bytes'')))
     else
       bindR (u16at r 0) (\<lambda>index.
       if index = 0x0001 then
         bindR (go_slice r 2 22) (\<lambda>s. applyModuleRecords rs (info\<lparr>diOrderNumber := trimString s\<rparr>))
       else if index = 0x0007 then
         bindR (idx r 24) (\<lambda>v.
         if v = 0x56 then
           bindR (idx r 25) (\<lambda>x. bindR (idx r 26) (\<lambda>y. bindR (idx r 27) (\<lambda>z.
           applyModuleRecords rs (info\<lparr>diFWVersion :=
             ''V'' @ utoa (unat x) @ ''.'' @ utoa (unat y) @ ''.'' @ utoa (unat z)\<rparr>))))
         else applyModuleRecords rs info)
       else applyModuleRecords rs info))"

definition applyModuleID :: "DeviceInfo \<Rightarrow> bytes \<Rightarrow> (DeviceInfo \<times> go_error option) res" where
  "applyModuleID info data =
    (case szlRecords data of
       Panic \<Rightarrow> Panic
     | Err e \<Rightarrow> Ok (info, Some e)
     | Ok recs \<Rightarrow> applyModuleRecords recs info)"

text \<open>\<^verbatim>\<open>strings.HasPrefix(strings.ToUpper(text), "CPU")\<close>: no character outside ASCII has one of
  these letters as its upper case, so the first three bytes decide.\<close>

definition ascii_upper :: "byte \<Rightarrow> byte" where
  "ascii_upper b = (if 0x61 \<le> b \<and> b \<le> 0x7A then b - 0x20 else b)"

definition namesCPU :: "bytes \<Rightarrow> bool" where
  "namesCPU text \<longleftrightarrow> map ascii_upper (take 3 text) = [0x43, 0x50, 0x55]"

definition applyComponent :: "uint16 \<Rightarrow> bytes \<Rightarrow> DeviceInfo \<Rightarrow> DeviceInfo" where
  "applyComponent index text info =
    (if index = 0x0001 then info\<lparr>diSystemName := text\<rparr>
     else if index = 0x0002 then info\<lparr>diModuleName := text\<rparr>
     else if index = 0x0003 then info\<lparr>diPlantID := text\<rparr>
     else if index = 0x0004 then info\<lparr>diCopyright := text\<rparr>
     else if index = 0x0005 then info\<lparr>diSerialNumber := text\<rparr>
     else if index = 0x0007 then
       (let info = info\<lparr>diModuleType := text\<rparr> in
        if namesCPU text then info\<lparr>diCPUType := text\<rparr> else info)
     else if index = 0x0008 then info\<lparr>diMemoryCardSerial := text\<rparr>
     else info)"

fun applyComponentRecords :: "bytes list \<Rightarrow> DeviceInfo \<Rightarrow> (DeviceInfo \<times> go_error option) res" where
  "applyComponentRecords [] info = Ok (info, None)"
| "applyComponentRecords (r # rs) info =
    (if length r < componentIDRecordSize
     then Ok (info, Some (OtherError (''component ID record of '' @ utoa (length r) @ '' bytes'')))
     else
       bindR (go_slice r 2 34) (\<lambda>s.
       bindR (u16at r 0) (\<lambda>index.
       applyComponentRecords rs (applyComponent index (trimString s) info))))"

definition applyComponentID :: "DeviceInfo \<Rightarrow> bytes \<Rightarrow> (DeviceInfo \<times> go_error option) res" where
  "applyComponentID info data =
    (case szlRecords data of
       Panic \<Rightarrow> Panic
     | Err e \<Rightarrow> Ok (info, Some e)
     | Ok recs \<Rightarrow> applyComponentRecords recs info)"

definition readModuleIDSZL :: "('w, 'r, 'c) transport \<Rightarrow> go_ctx \<Rightarrow> (bytes, 'c, 'w) cop" where
  "readModuleIDSZL tr ctx = bindC (readSZL tr ctx SZLModuleID 0) (\<lambda>resp. returnC (Ok (szlData resp)))"

definition readComponentIDSZL :: "('w, 'r, 'c) transport \<Rightarrow> go_ctx \<Rightarrow> (bytes, 'c, 'w) cop" where
  "readComponentIDSZL tr ctx = bindC (readSZL tr ctx SZLComponentID 0) (\<lambda>resp. returnC (Ok (szlData resp)))"

text \<open>One of the two halves of \<^verbatim>\<open>Identify\<close>: the error of the read, or what applying its data does.\<close>

definition identifyPart :: "string \<Rightarrow> (DeviceInfo \<Rightarrow> bytes \<Rightarrow> (DeviceInfo \<times> go_error option) res) \<Rightarrow>
    DeviceInfo \<Rightarrow> bytes + go_error \<Rightarrow> (DeviceInfo \<times> go_error list) res" where
  "identifyPart what app info raw =
    (case raw of
       Inr e \<Rightarrow> Ok (info, [e])
     | Inl raw \<Rightarrow>
        bindR (app info raw) (\<lambda>(info, err).
        Ok (info, case err of None \<Rightarrow> [] | Some e \<Rightarrow> [wrap_error what e])))"

definition Identify :: "('w, 'r, 'c) transport \<Rightarrow> go_ctx \<Rightarrow> (DeviceInfo option \<times> go_error option, 'c, 'w) cop" where
  "Identify tr ctx =
     bindC (tryC (readModuleIDSZL tr ctx)) (\<lambda>raw.
     bindC (returnC (identifyPart ''module ID SZL'' applyModuleID emptyDeviceInfo raw)) (\<lambda>(info, errs).
     bindC (tryC (readComponentIDSZL tr ctx)) (\<lambda>raw.
     bindC (returnC (identifyPart ''component ID SZL'' applyComponentID info raw)) (\<lambda>(info, errs').
     returnC (Ok
       (case errs @ errs' of
          [] \<Rightarrow> (Some info, None)
        | [e] \<Rightarrow> (Some info, Some e)
        | es \<Rightarrow> (None, Some (Join es))))))))"

section \<open>CPU state, protection, diagnostics\<close>

type_synonym CPUState = byte
abbreviation CPUStateUnknown :: CPUState where "CPUStateUnknown \<equiv> 0"
abbreviation CPUStateRun :: CPUState where "CPUStateRun \<equiv> 1"
abbreviation CPUStateStop :: CPUState where "CPUStateStop \<equiv> 2"
abbreviation CPUStateStartup :: CPUState where "CPUStateStartup \<equiv> 3"
abbreviation CPUStateHold :: CPUState where "CPUStateHold \<equiv> 4"

definition CPUState_String :: "CPUState \<Rightarrow> string" where
  "CPUState_String s =
    (if s = CPUStateRun then ''RUN'' else if s = CPUStateStop then ''STOP''
     else if s = CPUStateStartup then ''STARTUP'' else if s = CPUStateHold then ''HOLD''
     else ''UNKNOWN'')"

definition cpuMode :: "bytes list \<Rightarrow> CPUState res" where
  "cpuMode recs =
    (if length recs = 0 \<or> length (hd recs) < 4 then Err (OtherError ''SZL 0x0424 holds no mode record'')
     else
       bindR (idx recs 0) (\<lambda>r.
       bindR (idx r 3) (\<lambda>b.
       let mode = b AND 0x0F in
       if 1 \<le> mode \<and> mode \<le> 4 then Ok CPUStateStop
       else if 5 \<le> mode \<and> mode \<le> 7 then Ok CPUStateStartup
       else if mode = 8 \<or> mode = 9 then Ok CPUStateRun
       else if mode = 10 then Ok CPUStateHold
       else Ok CPUStateUnknown)))"

definition GetCPUState :: "('w, 'r, 'c) transport \<Rightarrow> go_ctx \<Rightarrow> (CPUState, 'c, 'w) cop" where
  "GetCPUState tr ctx =
     bindC (readSZL tr ctx SZLCPUState 0) (\<lambda>resp.
     bindC (returnC (szlRecords (szlData resp))) (\<lambda>recs.
     returnC (cpuMode recs)))"

type_synonym ProtectionLevel = byte
abbreviation ProtectionNone :: ProtectionLevel where "ProtectionNone \<equiv> 0"
abbreviation ProtectionRead :: ProtectionLevel where "ProtectionRead \<equiv> 1"
abbreviation ProtectionReadWrite :: ProtectionLevel where "ProtectionReadWrite \<equiv> 2"
abbreviation ProtectionFull :: ProtectionLevel where "ProtectionFull \<equiv> 3"

definition ProtectionLevel_String :: "ProtectionLevel \<Rightarrow> string" where
  "ProtectionLevel_String p =
    (if p = ProtectionNone then ''No Protection'' else if p = ProtectionRead then ''Write Protected''
     else if p = ProtectionReadWrite then ''Read/Write Protected''
     else if p = ProtectionFull then ''Full Protection'' else ''Unknown'')"

abbreviation szlProtectionIndex :: uint16 where "szlProtectionIndex \<equiv> 0x0004"

definition protectionOf :: "bytes list \<Rightarrow> ProtectionLevel res" where
  "protectionOf recs =
    (if length recs = 0 \<or> length (hd recs) < 8 then Err (OtherError ''SZL 0x0232 holds no protection record'')
     else
       bindR (idx recs 0) (\<lambda>r.
       bindR (u16at r 6) (\<lambda>v.
       if v = 1 then Ok ProtectionNone
       else if v = 2 then Ok ProtectionRead
       else if v = 3 then Ok ProtectionReadWrite
       else Err (OtherError (''SZL 0x0232: unknown protection level '' @ utoa (unat v))))))"

definition GetProtectionLevel :: "('w, 'r, 'c) transport \<Rightarrow> go_ctx \<Rightarrow> (ProtectionLevel, 'c, 'w) cop" where
  "GetProtectionLevel tr ctx =
     bindC (readSZL tr ctx SZLProtectionInfo szlProtectionIndex) (\<lambda>resp.
     bindC (returnC (szlRecords (szlData resp))) (\<lambda>recs.
     returnC (protectionOf recs)))"

record DiagEntry =
  deTimestamp :: string
  deEventID :: uint16
  deEventClass :: byte
  dePriority :: byte
  deDescription :: string
  deInfo1 :: uint32
  deInfo2 :: uint32

record DiagBuffer =
  dbEntries :: "DiagEntry list"
  dbTotalCount :: nat

abbreviation diagRecordSize :: nat where "diagRecordSize \<equiv> 20"

text \<open>\<^verbatim>\<open>%x\<close> of a byte slice\<close>

definition hex_bytes :: "bytes \<Rightarrow> string" where
  "hex_bytes bs = concat (map (\<lambda>b. [lower_digit_char (unat b div 16), lower_digit_char (unat b mod 16)]) bs)"

definition diagEntry :: "bytes \<Rightarrow> DiagEntry res" where
  "diagEntry r =
     bindR (u16at r 0) (\<lambda>ev. bindR (idx r 0) (\<lambda>b0. bindR (idx r 2) (\<lambda>pr.
     bindR (u16at r 6) (\<lambda>i1. bindR (u32at r 8) (\<lambda>i2. bindR (go_slice r 12 20) (\<lambda>ts.
     Ok \<lparr>deTimestamp = hex_bytes ts, deEventID = ev, deEventClass = drop_bit 4 b0, dePriority = pr,
         deDescription = [], deInfo1 = ucast i1, deInfo2 = i2\<rparr>))))))"

fun diagEntries :: "bytes list \<Rightarrow> DiagEntry list \<Rightarrow> (DiagBuffer \<times> go_error option) res" where
  "diagEntries [] acc = Ok (\<lparr>dbEntries = acc, dbTotalCount = length acc\<rparr>, None)"
| "diagEntries (r # rs) acc =
    (if length r < diagRecordSize
     then Ok (\<lparr>dbEntries = acc, dbTotalCount = 0\<rparr>,
            Some (OtherError (''diagnostic record of '' @ utoa (length r) @ '' bytes'')))
     else bindR (diagEntry r) (\<lambda>e. diagEntries rs (acc @ [e])))"

definition ReadDiagBufferRaw :: "('w, 'r, 'c) transport \<Rightarrow> go_ctx \<Rightarrow> (bytes, 'c, 'w) cop" where
  "ReadDiagBufferRaw tr ctx = bindC (readSZL tr ctx SZLDiagBuffer 0) (\<lambda>resp. returnC (Ok (szlData resp)))"

definition ReadDiagBuffer :: "('w, 'r, 'c) transport \<Rightarrow> go_ctx \<Rightarrow> (DiagBuffer \<times> go_error option, 'c, 'w) cop" where
  "ReadDiagBuffer tr ctx =
     bindC (ReadDiagBufferRaw tr ctx) (\<lambda>raw.
     bindC (returnC (szlRecords raw)) (\<lambda>recs.
     returnC (diagEntries recs [])))"

section \<open>Blocks\<close>

type_synonym BlockType = byte
type_synonym BlockLang = byte

abbreviation BlockOB :: BlockType where "BlockOB \<equiv> 0x38"
abbreviation BlockDB :: BlockType where "BlockDB \<equiv> 0x41"
abbreviation BlockSDB :: BlockType where "BlockSDB \<equiv> 0x42"
abbreviation BlockFC :: BlockType where "BlockFC \<equiv> 0x43"
abbreviation BlockSFC :: BlockType where "BlockSFC \<equiv> 0x44"
abbreviation BlockFB :: BlockType where "BlockFB \<equiv> 0x45"
abbreviation BlockSFB :: BlockType where "BlockSFB \<equiv> 0x46"

definition BlockType_String :: "BlockType \<Rightarrow> string" where
  "BlockType_String b =
    (if b = BlockOB then ''OB'' else if b = BlockDB then ''DB'' else if b = BlockSDB then ''SDB''
     else if b = BlockFC then ''FC'' else if b = BlockSFC then ''SFC'' else if b = BlockFB then ''FB''
     else if b = BlockSFB then ''SFB'' else ''?'')"

abbreviation BlockLangAWL :: BlockLang where "BlockLangAWL \<equiv> 0x01"
abbreviation BlockLangKOP :: BlockLang where "BlockLangKOP \<equiv> 0x02"
abbreviation BlockLangFUP :: BlockLang where "BlockLangFUP \<equiv> 0x03"
abbreviation BlockLangSCL :: BlockLang where "BlockLangSCL \<equiv> 0x04"
abbreviation BlockLangDB :: BlockLang where "BlockLangDB \<equiv> 0x05"
abbreviation BlockLangGraph :: BlockLang where "BlockLangGraph \<equiv> 0x06"

definition BlockLang_String :: "BlockLang \<Rightarrow> string" where
  "BlockLang_String l =
    (if l = BlockLangAWL then ''AWL'' else if l = BlockLangKOP then ''KOP''
     else if l = BlockLangFUP then ''FUP'' else if l = BlockLangSCL then ''SCL''
     else if l = BlockLangDB then ''DB'' else if l = BlockLangGraph then ''GRAPH'' else ''?'')"

record BlockInfo =
  biType :: BlockType
  biNumber :: int
  biLanguage :: BlockLang
  biFlags :: byte
  biLoadMemory :: nat
  biLocalData :: nat
  biMC7Size :: nat
  biSBBLength :: nat
  biAuthor :: bytes
  biFamily :: bytes
  biName :: bytes
  biVersion :: string
  biCheckSum :: uint16

text \<open>\<^verbatim>\<open>model.BlockInfo{Type: bt, Number: num}\<close>\<close>

definition blockInfo :: "BlockType \<Rightarrow> int \<Rightarrow> BlockInfo" where
  "blockInfo bt num = \<lparr>biType = bt, biNumber = num, biLanguage = 0, biFlags = 0, biLoadMemory = 0,
     biLocalData = 0, biMC7Size = 0, biSBBLength = 0, biAuthor = [], biFamily = [], biName = [],
     biVersion = [], biCheckSum = 0\<rparr>"

record BlockData =
  bkInfo :: BlockInfo
  bkData :: bytes

definition isUploadProtocolError :: "go_error \<Rightarrow> bool" where
  "isUploadProtocolError e \<longleftrightarrow> errors_is e ErrProtocolFailure \<or> as_S7Error e"

text \<open>\<^verbatim>\<open>errors.Join(err, ErrProtocolFailure)\<close> around the error of a decoder.\<close>

definition joinProtocol :: "'a res \<Rightarrow> 'a res" where
  "joinProtocol r = (case r of Err e \<Rightarrow> Err (Join [e, Sentinel ErrProtocolFailure]) | r \<Rightarrow> r)"

definition ListBlocks :: "('w, 'r, 'c) transport \<Rightarrow> go_ctx \<Rightarrow> BlockType \<Rightarrow> (BlockInfo list, 'c, 'w) cop" where
  "ListBlocks tr ctx bt =
     bindC refC (\<lambda>ref.
     bindC (userdata tr ctx (EncodeBlockListRequest ref bt) ref UserdataGroupBlock UserdataBlockList) (\<lambda>(_, payload).
     bindC (returnC (joinProtocol (ParseBlockListResponse payload))) (\<lambda>entries.
     returnC (Ok (map (\<lambda>e. (blockInfo bt (int (unat (beBlockNumber e))))
       \<lparr>biLanguage := beLanguage e, biFlags := beFlags e\<rparr>) entries)))))"

definition BlockCounts :: "('w, 'r, 'c) transport \<Rightarrow> go_ctx \<Rightarrow> (BlockType \<rightharpoonup> nat, 'c, 'w) cop" where
  "BlockCounts tr ctx =
     bindC refC (\<lambda>ref.
     bindC (userdata tr ctx (EncodeBlockCountRequest ref) ref UserdataGroupBlock UserdataBlockCount) (\<lambda>(_, payload).
     bindC (returnC (joinProtocol (ParseBlockCountResponse payload))) (\<lambda>counts.
     returnC (Ok (foldl (\<lambda>out bc. out(bcBlockType bc \<mapsto> bcCount bc)) Map.empty counts)))))"

fun listBlockTypes :: "('w, 'r, 'c) transport \<Rightarrow> go_ctx \<Rightarrow> BlockType list \<Rightarrow> BlockInfo list \<Rightarrow> go_error list \<Rightarrow>
    (BlockInfo list \<times> go_error list, 'c, 'w) cop" where
  "listBlockTypes tr ctx [] acc errs = returnC (Ok (acc, errs))"
| "listBlockTypes tr ctx (bt # bts) acc errs =
     bindC (tryC (ListBlocks tr ctx bt)) (\<lambda>r.
     case r of
       Inr e \<Rightarrow> listBlockTypes tr ctx bts acc (errs @ [wrap_error (''list blocks '' @ BlockType_String bt) e])
     | Inl blocks \<Rightarrow> listBlockTypes tr ctx bts (acc @ blocks) errs)"

definition ListAllBlocks :: "('w, 'r, 'c) transport \<Rightarrow> go_ctx \<Rightarrow> (BlockInfo list \<times> go_error option, 'c, 'w) cop" where
  "ListAllBlocks tr ctx =
     bindC (listBlockTypes tr ctx [BlockOB, BlockDB, BlockSDB, BlockFC, BlockFB, BlockSFC, BlockSFB] [] []) (\<lambda>(acc, errs).
     returnC (Ok (acc, if 0 < length errs then Some (Join errs) else None)))"

definition GetBlockInfo :: "('w, 'r, 'c) transport \<Rightarrow> go_ctx \<Rightarrow> BlockType \<Rightarrow> int \<Rightarrow>
    (BlockInfo \<times> go_error option, 'c, 'w) cop" where
  "GetBlockInfo tr ctx bt num =
    (if num < 0 \<or> MaxUploadBlockNumber < num
     then returnC (Err (ValidationError (''block number '' @ itoa num @ '' out of range (0..99999)'')))
     else
       bindC refC (\<lambda>ref.
       case EncodeBlockInfoRequest ref bt num of
         Panic \<Rightarrow> returnC Panic
       | Err e \<Rightarrow> returnC (Err (ValidationError (error_text e)))
       | Ok req \<Rightarrow>
         bindC (userdata tr ctx req ref UserdataGroupBlock UserdataBlockInfo) (\<lambda>(_, payload).
         returnC (case ParseBlockInfoResponse payload of
           Panic \<Rightarrow> Panic
         | Err e \<Rightarrow> Ok (blockInfo bt num, Some (Join [e, Sentinel ErrProtocolFailure]))
         | Ok bi \<Rightarrow> Ok (\<lparr>biType = bt, biNumber = int (bdNumber bi), biLanguage = bdLanguage bi,
             biFlags = bdFlags bi, biLoadMemory = bdLoadMemory bi, biLocalData = bdLocalData bi,
             biMC7Size = bdMC7Size bi, biSBBLength = bdSSBLength bi, biAuthor = bdAuthor bi,
             biFamily = bdFamily bi, biName = bdName bi, biVersion = bdVersion bi,
             biCheckSum = bdChecksum bi\<rparr>, None)))))"

section \<open>Upload\<close>

abbreviation maxUploadChunks :: nat where "maxUploadChunks \<equiv> 4096"
abbreviation maxUploadRetries :: nat where "maxUploadRetries \<equiv> 3"

text \<open>The tries for one chunk; the number counts down the tries left. \<open>Inl\<close> is the chunk,
  \<open>Inr\<close> the last error when no try is left, and an error leaves the upload at once. With no
  chunk and no error the code would follow a nil pointer.\<close>

primrec uploadTry :: "nat \<Rightarrow> ('w, 'r, 'c) transport \<Rightarrow> go_ctx \<Rightarrow> uint32 \<Rightarrow> nat \<Rightarrow> go_error option \<Rightarrow>
    (UploadChunk + go_error, 'c, 'w) cop" where
  "uploadTry 0 tr ctx uid i lastErr =
     returnC (case lastErr of None \<Rightarrow> Panic | Some e \<Rightarrow> Ok (Inr e))"
| "uploadTry (Suc n) tr ctx uid i lastErr =
     bindC (ctxErrC tr ctx) (\<lambda>_.
     bindC refC (\<lambda>chunkRef.
     bindC (tryC (exchangeC tr ctx (EncodeUploadRequest chunkRef uid) chunkRef)) (\<lambda>r.
     case r of
       Inr e \<Rightarrow>
        if isUploadProtocolError e then returnC (Err (wrap_error (''upload chunk '' @ utoa i) e))
        else uploadTry n tr ctx uid i (Some e)
     | Inl (param, data) \<Rightarrow>
        (case ParseUploadResponse param data of
           Panic \<Rightarrow> returnC Panic
         | Err e \<Rightarrow>
            (let e = wrap_error ''parse upload response'' (Join [e, Sentinel ErrProtocolFailure]) in
             if isUploadProtocolError e then returnC (Err (wrap_error (''upload chunk '' @ utoa i) e))
             else uploadTry n tr ctx uid i (Some e))
         | Ok chunk \<Rightarrow> returnC (Ok (Inl chunk))))))"

text \<open>The chunk loop; \<open>n\<close> counts down from \<open>maxUploadChunks\<close>. The result is the payload and the
  number of chunks that held data.\<close>

primrec uploadChunks :: "nat \<Rightarrow> ('w, 'r, 'c) transport \<Rightarrow> go_ctx \<Rightarrow> uint32 \<Rightarrow> bytes \<Rightarrow> nat \<Rightarrow>
    (bytes \<times> nat, 'c, 'w) cop" where
  "uploadChunks 0 tr ctx uid payload chunkCount =
     returnC (Err (OtherError ''upload did not complete within 4096 chunks''))"
| "uploadChunks (Suc n) tr ctx uid payload chunkCount =
     bindC (uploadTry maxUploadRetries tr ctx uid (maxUploadChunks - Suc n) None) (\<lambda>r.
     case r of
       Inr e \<Rightarrow> returnC (Err (wrap_error (''upload chunk '' @ utoa (maxUploadChunks - Suc n) @
         '' failed after 3 retries (received '' @ utoa (length payload) @ '' bytes so far)'') e))
     | Inl chunk \<Rightarrow>
       (let (payload, chunkCount) =
          (if 0 < length (ucData chunk) then (payload @ ucData chunk, chunkCount + 1) else (payload, chunkCount)) in
        if ucDone chunk then returnC (Ok (payload, chunkCount))
        else uploadChunks n tr ctx uid payload chunkCount))"

text \<open>The deferred end of the upload: it runs whatever happened before, and its own error is
  dropped.\<close>

definition deferC :: "('a, 'c, 'w) cop \<Rightarrow> ('b, 'c, 'w) cop \<Rightarrow> ('a, 'c, 'w) cop" where
  "deferC m d = (\<lambda>c w. let (r, c, w) = m c w; (r', c, w) = d c w in
     (case r' of Panic \<Rightarrow> Panic | _ \<Rightarrow> r, c, w))"

definition endUpload :: "('w, 'r, 'c) transport \<Rightarrow> uint32 \<Rightarrow> (bytes \<times> bytes, 'c, 'w) cop" where
  "endUpload tr uid =
     bindC refC (\<lambda>endRef.
     exchangeC tr (WithTimeout BackgroundCtx 500000000) (EncodeEndUploadRequest endRef uid) endRef)"

definition UploadBlock :: "('w, 'r, 'c) transport \<Rightarrow> go_ctx \<Rightarrow> BlockType \<Rightarrow> int \<Rightarrow> (BlockData, 'c, 'w) cop" where
  "UploadBlock tr ctx bt num =
    (if num < 0 \<or> 0xFFFF < num
     then returnC (Err (ValidationError (''block number '' @ itoa num @ '' out of range (0..65535)'')))
     else
       bindC refC (\<lambda>ref.
       case EncodeStartUploadRequest ref bt num of
         Panic \<Rightarrow> returnC Panic
       | Err e \<Rightarrow> returnC (Err (ValidationError (error_text e)))
       | Ok req \<Rightarrow>
         bindC (exchangeC tr ctx req ref) (\<lambda>(param, _).
         case ParseStartUploadResponse param of
           Panic \<Rightarrow> returnC Panic
         | Err e \<Rightarrow> returnC (Err (wrap_error ''parse start upload'' (Join [e, Sentinel ErrProtocolFailure])))
         | Ok start \<Rightarrow>
           deferC
             (bindC (uploadChunks maxUploadChunks tr ctx (suUploadID start) [] 0) (\<lambda>(payload, chunkCount).
              returnC (if length payload = 0 \<and> chunkCount = 0
                then Err (OtherError ''upload completed with no payload'')
                else Ok \<lparr>bkInfo = blockInfo bt num, bkData = payload\<rparr>)))
             (endUpload tr (suUploadID start)))))"

section \<open>Rules for sequences of operations\<close>

text \<open>\<open>gives m P\<close>: from any client and world the operation does not panic, and a value it returns
  satisfies \<open>P\<close>.\<close>

definition gives :: "('a, 'c, 'w) cop \<Rightarrow> ('a \<Rightarrow> bool) \<Rightarrow> bool" where
  "gives m P \<longleftrightarrow> (\<forall>c w. case fst (m c w) of Ok x \<Rightarrow> P x | Err _ \<Rightarrow> True | Panic \<Rightarrow> False)"

abbreviation safe :: "('a, 'c, 'w) cop \<Rightarrow> bool" where "safe m \<equiv> gives m (\<lambda>_. True)"

named_theorems gives_intros "rules for outcomes of client operations"

lemma gives_mono:
  assumes "gives m P" "\<And>x. P x \<Longrightarrow> Q x"
  shows "gives m Q"
  unfolding gives_def
proof (intro allI)
  fix c w
  from assms(1) have "case fst (m c w) of Ok x \<Rightarrow> P x | Err _ \<Rightarrow> True | Panic \<Rightarrow> False"
    unfolding gives_def by blast
  with assms(2) show "case fst (m c w) of Ok x \<Rightarrow> Q x | Err _ \<Rightarrow> True | Panic \<Rightarrow> False"
    by (cases "fst (m c w)") simp_all
qed

lemma safe_iff: "safe m \<longleftrightarrow> (\<forall>c w. fst (m c w) \<noteq> Panic)"
  by (simp add: gives_def split: res.split)

lemma gives_returnC [gives_intros]:
  "(\<And>x. r = Ok x \<Longrightarrow> P x) \<Longrightarrow> r \<noteq> Panic \<Longrightarrow> gives (returnC r) P"
  by (cases r) (simp_all add: gives_def returnC_def)

lemma gives_bindC:
  assumes "gives m P" "\<And>x. P x \<Longrightarrow> gives (f x) Q"
  shows "gives (bindC m f) Q"
  unfolding gives_def
proof (intro allI)
  fix c w
  obtain r c' w' where m: "m c w = (r, c', w')" by (cases "m c w")
  have 1: "case r of Ok x \<Rightarrow> P x | Err _ \<Rightarrow> True | Panic \<Rightarrow> False"
    using assms(1) [unfolded gives_def, rule_format, of c w] by (simp only: m fst_conv)
  show "case fst (bindC m f c w) of Ok x \<Rightarrow> Q x | Err _ \<Rightarrow> True | Panic \<Rightarrow> False"
  proof (cases r)
    case (Ok x)
    with 1 have "gives (f x) Q" using assms(2) by simp
    then show ?thesis unfolding gives_def by (simp add: bindC_def m Ok)
  qed (use 1 in \<open>simp_all add: bindC_def m\<close>)
qed

lemma gives_bindC_safe [gives_intros]:
  "safe m \<Longrightarrow> (\<And>x. gives (f x) Q) \<Longrightarrow> gives (bindC m f) Q"
  by (rule gives_bindC)

lemma gives_tryC [gives_intros]:
  assumes "safe m"
  shows "safe (tryC m)"
  unfolding safe_iff
proof (intro allI)
  fix c w
  obtain r c' w' where m: "m c w = (r, c', w')" by (cases "m c w")
  have "fst (m c w) \<noteq> Panic" using assms unfolding safe_iff by blast
  then have "r \<noteq> Panic" by (simp add: m)
  then show "fst (tryC m c w) \<noteq> Panic" by (cases r) (simp_all add: tryC_def m)
qed

lemma gives_refC [gives_intros]: "safe refC"
  by (simp add: gives_def refC_def split: prod.split)

lemma gives_exchangeC [gives_intros]: "well_behaved tr \<Longrightarrow> safe (exchangeC tr ctx req ref)"
  using sendReceive_not_Panic [of tr] by (simp add: safe_iff exchangeC_def case_prod_beta)

lemma gives_ctxErrC [gives_intros]: "well_behaved tr \<Longrightarrow> safe (ctxErrC tr ctx)"
  using well_behaved_steps(2) [of tr] by (simp add: safe_iff ctxErrC_def case_prod_beta)

lemma gives_if [gives_intros]: "(b \<Longrightarrow> gives m P) \<Longrightarrow> (\<not> b \<Longrightarrow> gives m' P) \<Longrightarrow> gives (if b then m else m') P"
  by simp

lemma gives_prod [gives_intros]: "(\<And>a b. x = (a, b) \<Longrightarrow> gives (f a b) P) \<Longrightarrow> gives (case x of (a, b) \<Rightarrow> f a b) P"
  by (cases x) simp

lemma gives_res [gives_intros]:
  "(\<And>a. x = Ok a \<Longrightarrow> gives (f a) P) \<Longrightarrow> (\<And>e. x = Err e \<Longrightarrow> gives (g e) P) \<Longrightarrow> x \<noteq> Panic \<Longrightarrow>
   gives (case x of Ok a \<Rightarrow> f a | Err e \<Rightarrow> g e | Panic \<Rightarrow> h) P"
  by (cases x) simp_all

lemma gives_sum [gives_intros]:
  "(\<And>a. x = Inl a \<Longrightarrow> gives (f a) P) \<Longrightarrow> (\<And>e. x = Inr e \<Longrightarrow> gives (g e) P) \<Longrightarrow>
   gives (case x of Inl a \<Rightarrow> f a | Inr e \<Rightarrow> g e) P"
  by (cases x) simp_all

section \<open>No operation panics\<close>

lemma userdataFollow_gives:
  assumes "well_behaved tr"
  shows "gives (userdataFollow n tr ctx grp subfunc up payload) (\<lambda>out. \<exists>more. out = payload @ more)"
proof (induction n arbitrary: up payload)
  case 0
  show ?case by (auto intro!: gives_intros)
next
  case (Suc n)
  have "gives (userdataFollow n tr ctx grp subfunc up' (payload @ x)) (\<lambda>out. \<exists>more. out = payload @ more)" for up' x
    by (rule gives_mono [OF Suc.IH]) auto
  then show ?case
    unfolding userdataFollow.simps
    by (intro gives_if gives_bindC_safe gives_refC gives_exchangeC assms gives_prod gives_res gives_returnC) simp_all
qed

lemma userdata_gives:
  assumes "well_behaved tr"
  shows "gives (userdata tr ctx req ref grp subfunc)
    (\<lambda>(first, payload). \<exists>p more. ParseUserdataData first = Ok p \<and> payload = p @ more)"
proof -
  have tail: "gives (bindC (returnC (ParseUserdataData data)) (\<lambda>payload.
      bindC (userdataFollow 256 tr ctx grp subfunc up payload) (\<lambda>payload. returnC (Ok (data, payload)))))
    (\<lambda>(first, payload). \<exists>p more. ParseUserdataData first = Ok p \<and> payload = p @ more)" for data up
  proof (rule gives_bindC [where P = "\<lambda>p. ParseUserdataData data = Ok p"])
    show "gives (returnC (ParseUserdataData data)) (\<lambda>p. ParseUserdataData data = Ok p)"
      by (rule gives_returnC) simp_all
    show "gives (bindC (userdataFollow 256 tr ctx grp subfunc up p) (\<lambda>payload. returnC (Ok (data, payload))))
        (\<lambda>(first, payload). \<exists>p more. ParseUserdataData first = Ok p \<and> payload = p @ more)"
      if "ParseUserdataData data = Ok p" for p
      using that by (intro gives_bindC [OF userdataFollow_gives [OF assms]] gives_returnC) auto
  qed
  show ?thesis
    unfolding userdata_def
    by (rule gives_bindC_safe [OF gives_exchangeC [OF assms]], intro gives_prod gives_res tail gives_returnC) simp_all
qed

lemma readSZL_safe [gives_intros]:
  assumes "well_behaved tr"
  shows "safe (readSZL tr ctx ident index)"
  unfolding readSZL_def
proof (rule gives_bindC_safe [OF gives_refC], rule gives_bindC [OF userdata_gives [OF assms]])
  fix ref x
  assume x: "case x of (first, payload) \<Rightarrow> \<exists>p more. ParseUserdataData first = Ok p \<and> payload = p @ more"
  obtain first payload where fp: "x = (first, payload)" by (cases x)
  with x obtain p more where p: "ParseUserdataData first = Ok p" "payload = p @ more" by auto
  have "4 \<le> length payload" if "ParseSZLResponse first = Ok resp" for resp
    using SZL_first_packet [of first] p that by auto
  then have "safe (bindC (returnC (ParseSZLResponse first)) (\<lambda>resp.
      bindC (returnC (go_slice payload 4 (length payload))) (\<lambda>d. returnC (Ok (resp\<lparr>szlData := d\<rparr>)))))"
    by (cases "ParseSZLResponse first") (simp_all add: gives_def bindC_def returnC_def go_slice_def)
  then show "safe (case x of (first, payload) \<Rightarrow> bindC (returnC (ParseSZLResponse first)) (\<lambda>resp.
      bindC (returnC (go_slice payload 4 (length payload))) (\<lambda>d. returnC (Ok (resp\<lparr>szlData := d\<rparr>)))))"
    by (simp add: fp)
qed

lemma cutRecords_eq:
  assumes "0 < sz" "off \<le> length data"
  shows "\<exists>rs. cutRecords n data sz off = Ok rs \<and> length rs = min n ((length data - off) div sz) \<and>
    (\<forall>r \<in> set rs. length r = sz) \<and> concat rs = take (length rs * sz) (drop off data)"
  using assms(2)
proof (induction n arbitrary: off)
  case (Suc n)
  show ?case
  proof (cases "off + sz \<le> length data")
    case True
    from Suc.IH [OF True] obtain rs where rs: "cutRecords n data sz (off + sz) = Ok rs"
      "length rs = min n ((length data - (off + sz)) div sz)" "\<forall>r \<in> set rs. length r = sz"
      "concat rs = take (length rs * sz) (drop (off + sz) data)" by blast
    define d where "d = length data - (off + sz)"
    have d: "length data - off = sz + d" using True by (simp add: d_def)
    have "(length data - off) div sz = Suc (d div sz)" unfolding d using assms(1) by (simp add: div_add_self1)
    then have len: "Suc (length rs) = min (Suc n) ((length data - off) div sz)" using rs(2) by (simp add: d_def)
    have "take (sz + length rs * sz) (drop off data) = take sz (drop off data) @ concat rs"
      using take_add [of sz "length rs * sz" "drop off data"] by (simp add: rs(4) add.commute)
    then have "concat (take sz (drop off data) # rs) = take (length (take sz (drop off data) # rs) * sz) (drop off data)"
      by simp
    moreover have "cutRecords (Suc n) data sz off = Ok (take sz (drop off data) # rs)"
      using True rs(1) by (simp add: go_slice_def)
    moreover have "\<forall>r \<in> set (take sz (drop off data) # rs). length r = sz" using True rs(3) by simp
    ultimately show ?thesis using len by (metis length_Cons)
  next
    case False
    then have "length data - off < sz" using assms(1) by simp
    then have "(length data - off) div sz = 0" by simp
    with False show ?thesis by simp
  qed
qed simp

lemma szlRecords_eq:
  "case szlRecords data of
     Ok rs \<Rightarrow> \<exists>sz. 4 \<le> length data \<and> sz = unat (be16 (data ! 0) (data ! 1)) \<and> 0 < sz \<and>
       length rs = min (unat (be16 (data ! 2) (data ! 3))) ((length data - 4) div sz) \<and>
       (\<forall>r \<in> set rs. length r = sz) \<and> concat rs = take (length rs * sz) (drop 4 data)
   | Err _ \<Rightarrow> length data < 4 \<or> be16 (data ! 0) (data ! 1) = 0
   | Panic \<Rightarrow> False"
proof (cases "length data < 4 \<or> be16 (data ! 0) (data ! 1) = 0")
  case False
  define sz where "sz = unat (be16 (data ! 0) (data ! 1))"
  have sz: "0 < sz" using False by (simp add: sz_def unat_gt_0)
  have f: "u16at data 0 = Ok (be16 (data ! 0) (data ! 1))" "u16at data 2 = Ok (be16 (data ! 2) (data ! 3))"
    using False u16at_offset [of 0 data] u16at_Ok [of 0 data] by simp_all
  from False cutRecords_eq [OF sz, of 4 data "unat (be16 (data ! 2) (data ! 3))"]
  obtain rs where rs: "cutRecords (unat (be16 (data ! 2) (data ! 3))) data sz 4 = Ok rs"
      "length rs = min (unat (be16 (data ! 2) (data ! 3))) ((length data - 4) div sz)"
      "\<forall>r \<in> set rs. length r = sz" "concat rs = take (length rs * sz) (drop 4 data)" by auto
  then have "szlRecords data = Ok rs" using False by (simp add: szlRecords_def f sz_def)
  then show ?thesis using False rs(2-4) sz by (simp add: sz_def)
next
  case True
  then show ?thesis using u16at_offset [of 0 data] u16at_Ok [of 0 data]
    by (cases "length data < 4") (simp_all add: szlRecords_def)
qed

lemma szlRecords_not_Panic [simp]: "szlRecords data \<noteq> Panic"
  using szlRecords_eq [of data] by (auto split: res.splits)

lemma applyModuleRecords_total: "\<exists>info' e. applyModuleRecords rs info = Ok (info', e)"
  by (induction rs info rule: applyModuleRecords.induct) (auto simp: go_simps)

lemma applyComponentRecords_total: "\<exists>info' e. applyComponentRecords rs info = Ok (info', e)"
  by (induction rs info rule: applyComponentRecords.induct) (auto simp: go_simps)

lemma apply_total:
  "\<exists>info' e. applyModuleID info data = Ok (info', e)" "\<exists>info' e. applyComponentID info data = Ok (info', e)"
  using applyModuleRecords_total applyComponentRecords_total szlRecords_not_Panic [of data]
  by (auto simp: applyModuleID_def applyComponentID_def split: res.split)

lemma identifyPart_total:
  assumes "\<And>raw. \<exists>info' e. app info raw = Ok (info', e)"
  shows "\<exists>info' es. identifyPart what app info raw = Ok (info', es) \<and> length es \<le> 1"
proof (cases raw)
  case (Inl r)
  obtain info' e where "app info r = Ok (info', e)" using assms by blast
  then show ?thesis using Inl by (cases e) (simp_all add: identifyPart_def)
qed (simp add: identifyPart_def)

lemma identifyPart_not_Panic [simp]:
  "identifyPart what applyModuleID info raw \<noteq> Panic" "identifyPart what applyComponentID info raw \<noteq> Panic"
  using identifyPart_total [of applyModuleID info what raw] identifyPart_total [of applyComponentID info what raw] apply_total
  by auto

lemma diagEntry_total: "20 \<le> length r \<Longrightarrow> \<exists>e. diagEntry r = Ok e"
  by (simp add: diagEntry_def go_simps)

lemma diagEntries_not_Panic [simp]: "diagEntries rs acc \<noteq> Panic"
proof (induction rs acc rule: diagEntries.induct)
  case (2 r rs acc)
  then show ?case using diagEntry_total [of r] by auto
qed simp

lemma cpuMode_not_Panic [simp]: "cpuMode rs \<noteq> Panic"
  by (cases rs) (simp_all add: cpuMode_def go_simps Let_def)

lemma protectionOf_not_Panic [simp]: "protectionOf rs \<noteq> Panic"
  by (cases rs) (simp_all add: protectionOf_def go_simps)

lemma joinProtocol_not_Panic [simp]: "joinProtocol r = Panic \<longleftrightarrow> r = Panic"
  by (cases r) (simp_all add: joinProtocol_def)

lemma userdata_safe [gives_intros]: "well_behaved tr \<Longrightarrow> safe (userdata tr ctx req ref grp subfunc)"
  by (rule gives_mono [OF userdata_gives]) simp_all

lemmas data_defs = readModuleIDSZL_def readComponentIDSZL_def Identify_def GetCPUState_def
  GetProtectionLevel_def ReadDiagBufferRaw_def ReadDiagBuffer_def ListBlocks_def BlockCounts_def

lemma szl_ops_safe:
  assumes "well_behaved tr"
  shows "safe (readModuleIDSZL tr ctx)" "safe (readComponentIDSZL tr ctx)" "safe (Identify tr ctx)"
    "safe (GetCPUState tr ctx)" "safe (GetProtectionLevel tr ctx)" "safe (ReadDiagBufferRaw tr ctx)"
    "safe (ReadDiagBuffer tr ctx)" "safe (ListBlocks tr ctx bt)" "safe (BlockCounts tr ctx)"
  unfolding data_defs by (intro gives_intros assms; simp)+

lemma blockAddress_not_Panic [simp]: "blockAddress t n \<noteq> Panic"
  by (simp add: blockAddress_def)

lemma EncodeBlock_not_Panic [simp]:
  "EncodeBlockInfoRequest ref t n \<noteq> Panic" "EncodeStartUploadRequest ref t n \<noteq> Panic"
  using blockAddress_not_Panic [of t n]
  by (simp_all add: EncodeBlockInfoRequest_def EncodeStartUploadRequest_def bindR_eq_Panic encodeMessage_def
      EncodeS7Header_def checkedUint16_def Let_def)

lemma listBlockTypes_safe:
  assumes "well_behaved tr"
  shows "safe (listBlockTypes tr ctx bts acc errs)"
proof (induction bts arbitrary: acc errs)
  case (Cons bt bts)
  show ?case unfolding listBlockTypes.simps
    by (intro gives_intros szl_ops_safe [OF assms] Cons.IH)
qed (simp add: gives_intros)

lemma uploadTry_safe:
  assumes "well_behaved tr" "0 < n \<or> lastErr \<noteq> None"
  shows "safe (uploadTry n tr ctx uid i lastErr)"
  using assms(2)
proof (induction n arbitrary: lastErr)
  case 0
  then show ?case by (auto intro!: gives_intros)
next
  case (Suc n)
  have "safe (uploadTry n tr ctx uid i (Some e))" for e by (rule Suc.IH) simp
  then show ?case unfolding uploadTry.simps Let_def by (intro gives_intros assms(1)) simp_all
qed

lemma uploadChunks_safe:
  assumes "well_behaved tr"
  shows "safe (uploadChunks n tr ctx uid payload k)"
proof (induction n arbitrary: payload k)
  case (Suc n)
  have "safe (uploadTry 3 tr ctx uid i None)" for i by (rule uploadTry_safe [OF assms]) simp
  then show ?case unfolding uploadChunks.simps Let_def by (intro gives_intros Suc.IH) simp_all
qed (simp add: gives_intros)

lemma gives_deferC [gives_intros]:
  assumes "gives m P" "safe d"
  shows "gives (deferC m d) P"
  unfolding gives_def
proof (intro allI)
  fix c w
  obtain r c' w' where m: "m c w = (r, c', w')" by (cases "m c w")
  obtain r' c'' w'' where d: "d c' w' = (r', c'', w'')" by (cases "d c' w'")
  have "case r of Ok x \<Rightarrow> P x | Err _ \<Rightarrow> True | Panic \<Rightarrow> False"
    using assms(1) [unfolded gives_def, rule_format, of c w] by (simp only: m fst_conv)
  moreover have "r' \<noteq> Panic" using assms(2) [unfolded safe_iff, rule_format, of c' w'] by (simp add: d)
  ultimately show "case fst (deferC m d c w) of Ok x \<Rightarrow> P x | Err _ \<Rightarrow> True | Panic \<Rightarrow> False"
    by (cases r') (simp_all add: deferC_def m d)
qed

lemma block_ops_safe:
  assumes "well_behaved tr"
  shows "safe (ListAllBlocks tr ctx)" "safe (GetBlockInfo tr ctx bt num)" "safe (UploadBlock tr ctx bt num)"
proof -
  show "safe (ListAllBlocks tr ctx)"
    unfolding ListAllBlocks_def by (intro gives_intros listBlockTypes_safe assms) simp_all
  show "safe (GetBlockInfo tr ctx bt num)"
    unfolding GetBlockInfo_def by (intro gives_intros assms) (simp_all split: res.split)
  show "safe (UploadBlock tr ctx bt num)"
    unfolding UploadBlock_def endUpload_def by (intro gives_intros uploadChunks_safe assms) simp_all
qed

section \<open>A bound on the requests\<close>

text \<open>The transport with a counter of the requests written.\<close>

definition counted :: "('w, 'r, 'c) transport \<Rightarrow> ('w \<times> nat, 'r, 'c) transport" where
  "counted tr = \<lparr>
     trDial = (\<lambda>(w, k) ctx a t. let (r, w) = trDial tr w ctx a t in (r, (w, k))),
     trConnect = (\<lambda>(w, k) ctx raw l rm n. let (r, w) = trConnect tr w ctx raw l rm n in (r, (w, k))),
     trClose = (\<lambda>(w, k) conn. let (r, w) = trClose tr w conn in (r, (w, k))),
     trIsErrClosed = trIsErrClosed tr,
     trWrite = (\<lambda>(w, k) ctx conn b. let (r, w) = trWrite tr w ctx conn b in (r, (w, k + 1))),
     trRead = (\<lambda>(w, k) ctx conn. let (r, w) = trRead tr w ctx conn in (r, (w, k))),
     trCtxErr = (\<lambda>(w, k) ctx. let (r, w) = trCtxErr tr w ctx in (r, (w, k))),
     trSleep = (\<lambda>(w, k) ctx d. let (r, w) = trSleep tr w ctx d in (r, (w, k)))\<rparr>"

definition requests :: "('a, 'c, 'w \<times> nat) cop \<Rightarrow> 'c Client \<Rightarrow> 'w \<Rightarrow> nat" where
  "requests m c w = snd (snd (snd (m c (w, 0))))"

definition costs :: "nat \<Rightarrow> ('a, 'c, 'w \<times> nat) cop \<Rightarrow> bool" where
  "costs n m \<longleftrightarrow> (\<forall>c w k. snd (snd (snd (m c (w, k)))) \<le> k + n)"

lemma costs_requests: "costs n m \<Longrightarrow> requests m c w \<le> n"
  unfolding costs_def requests_def by (metis add_0)

lemma costs_mono: "costs n m \<Longrightarrow> n \<le> k \<Longrightarrow> costs k m"
  unfolding costs_def by (meson add_le_cancel_left le_trans)

lemma costs_returnC: "costs n (returnC r)"
  by (simp add: costs_def returnC_def)

lemma costs_refC: "costs 0 refC"
  by (simp add: costs_def refC_def split: prod.split)

lemma costs_ctxErrC: "costs 0 (ctxErrC (counted tr) ctx)"
  by (simp add: costs_def ctxErrC_def counted_def split: prod.split)

lemma costs_exchangeC: "costs 1 (exchangeC (counted tr) ctx req ref)"
  unfolding costs_def exchangeC_def sendReceive_def
  by (auto simp: counted_def bindW_def split: option.split prod.split res.split)

lemma costs_at: "costs n m \<Longrightarrow> m c (w, k) = (r, c', w', k') \<Longrightarrow> k' \<le> k + n"
  unfolding costs_def by (metis snd_conv)

lemma costs_bindC:
  assumes "costs a m" "\<And>x. costs b (f x)"
  shows "costs (a + b) (bindC m f)"
  unfolding costs_def
proof (intro allI)
  fix c w k
  obtain r c' w' k' where m: "m c (w, k) = (r, c', w', k')" by (metis prod_cases4)
  have k': "k' \<le> k + a" by (rule costs_at [OF assms(1) m])
  show "snd (snd (snd (bindC m f c (w, k)))) \<le> k + (a + b)"
  proof (cases r)
    case (Ok x)
    have "snd (snd (snd (f x c' (w', k')))) \<le> k' + b" using assms(2) unfolding costs_def by blast
    with k' show ?thesis by (simp add: bindC_def m Ok)
  qed (use k' in \<open>simp_all add: bindC_def m\<close>)
qed

lemma costs_tryC: "costs n m \<Longrightarrow> costs n (tryC m)"
  unfolding costs_def by (simp add: tryC_def split: res.split prod.split) (metis snd_conv)

lemma costs_deferC:
  assumes "costs a m" "costs b d"
  shows "costs (a + b) (deferC m d)"
  unfolding costs_def
proof (intro allI)
  fix c w k
  obtain r c' w' k' where m: "m c (w, k) = (r, c', w', k')" by (metis prod_cases4)
  obtain r2 c2 w2 k2 where d: "d c' (w', k') = (r2, c2, w2, k2)" by (metis prod_cases4)
  have "k' \<le> k + a" "k2 \<le> k' + b" using costs_at [OF assms(1) m] costs_at [OF assms(2) d] by simp_all
  then show "snd (snd (snd (deferC m d c (w, k)))) \<le> k + (a + b)" by (simp add: deferC_def m d)
qed

lemma costs_cases:
  "costs n m \<Longrightarrow> costs n m' \<Longrightarrow> costs n (if b then m else m')"
  "(\<And>a b. costs n (g a b)) \<Longrightarrow> costs n (case x of (a, b) \<Rightarrow> g a b)"
  "(\<And>a. costs n (h a)) \<Longrightarrow> (\<And>e. costs n (h' e)) \<Longrightarrow> costs n (case y of Ok a \<Rightarrow> h a | Err e \<Rightarrow> h' e | Panic \<Rightarrow> returnC p)"
  "(\<And>a. costs n (j a)) \<Longrightarrow> (\<And>e. costs n (j' e)) \<Longrightarrow> costs n (case z of Inl a \<Rightarrow> j a | Inr e \<Rightarrow> j' e)"
  by (simp_all split: prod.split res.split sum.split add: costs_returnC)

lemmas costs_0 = costs_bindC [where a = 0, unfolded add_0]
lemmas costs_intros = costs_returnC costs_cases costs_0 [OF costs_refC] costs_0 [OF costs_ctxErrC]
  costs_0 [OF costs_returnC]

lemma costs_Suc: "costs a m \<Longrightarrow> (\<And>x. costs b (f x)) \<Longrightarrow> a + b \<le> n \<Longrightarrow> costs n (bindC m f)"
  by (rule costs_mono [OF costs_bindC])

lemma userdataFollow_costs: "costs n (userdataFollow n (counted tr) ctx grp subfunc up payload)"
proof (induction n arbitrary: up payload)
  case (Suc n)
  show ?case unfolding userdataFollow.simps
    by (intro costs_intros costs_Suc [OF costs_exchangeC, where b = n] Suc.IH) simp
qed (simp add: costs_returnC)

lemma userdata_costs: "costs 257 (userdata (counted tr) ctx req ref grp subfunc)"
  unfolding userdata_def
  by (intro costs_Suc [OF costs_exchangeC, where b = 256] costs_intros
      costs_Suc [OF userdataFollow_costs, where b = 0]) simp_all

lemma readSZL_costs: "costs 257 (readSZL (counted tr) ctx ident index)"
  unfolding readSZL_def
  by (intro costs_intros costs_Suc [OF userdata_costs, where b = 0]) simp_all

lemma szl_ops_cost:
  "costs 514 (Identify (counted tr) ctx)" "costs 257 (GetCPUState (counted tr) ctx)"
  "costs 257 (GetProtectionLevel (counted tr) ctx)" "costs 257 (ReadDiagBuffer (counted tr) ctx)"
  "costs 257 (ListBlocks (counted tr) ctx bt)" "costs 257 (BlockCounts (counted tr) ctx)"
proof -
  have 1: "costs 257 (tryC (readModuleIDSZL (counted tr) ctx))" "costs 257 (tryC (readComponentIDSZL (counted tr) ctx))"
    unfolding readModuleIDSZL_def readComponentIDSZL_def
    by (intro costs_tryC costs_Suc [OF readSZL_costs, where b = 0] costs_returnC; simp)+
  show "costs 514 (Identify (counted tr) ctx)"
    unfolding Identify_def
    by (intro costs_Suc [OF 1(1), where b = 257] costs_intros costs_Suc [OF 1(2), where b = 0]) simp_all
  show "costs 257 (GetCPUState (counted tr) ctx)" "costs 257 (GetProtectionLevel (counted tr) ctx)"
    unfolding GetCPUState_def GetProtectionLevel_def
    by (intro costs_Suc [OF readSZL_costs, where b = 0] costs_intros; simp)+
  have "costs 257 (ReadDiagBufferRaw (counted tr) ctx)"
    unfolding ReadDiagBufferRaw_def by (intro costs_Suc [OF readSZL_costs, where b = 0] costs_intros) simp
  then show "costs 257 (ReadDiagBuffer (counted tr) ctx)"
    unfolding ReadDiagBuffer_def by (rule costs_Suc [where b = 0]) (intro costs_intros, simp)
  show "costs 257 (ListBlocks (counted tr) ctx bt)" "costs 257 (BlockCounts (counted tr) ctx)"
    unfolding ListBlocks_def BlockCounts_def
    by (intro costs_intros costs_Suc [OF userdata_costs, where b = 0]; simp)+
qed

lemma listBlockTypes_costs: "costs (257 * length bts) (listBlockTypes (counted tr) ctx bts acc errs)"
proof (induction bts arbitrary: acc errs)
  case (Cons bt bts)
  show ?case unfolding listBlockTypes.simps
    by (intro costs_Suc [OF costs_tryC [OF szl_ops_cost(5)], where b = "257 * length bts"] costs_cases Cons.IH) simp
qed (simp add: costs_returnC)

lemma uploadTry_costs: "costs n (uploadTry n (counted tr) ctx uid i lastErr)"
proof (induction n arbitrary: lastErr)
  case (Suc n)
  show ?case unfolding uploadTry.simps Let_def
    by (intro costs_intros costs_Suc [OF costs_tryC [OF costs_exchangeC], where b = n] Suc.IH) simp
qed (simp add: costs_returnC)

lemma uploadChunks_costs: "costs (3 * n) (uploadChunks n (counted tr) ctx uid payload k)"
proof (induction n arbitrary: payload k)
  case (Suc n)
  show ?case unfolding uploadChunks.simps Let_def
    by (intro costs_Suc [OF uploadTry_costs, where b = "3 * n"] costs_intros Suc.IH) simp
qed (simp add: costs_returnC)

lemma block_ops_cost:
  "costs 1799 (ListAllBlocks (counted tr) ctx)" "costs 257 (GetBlockInfo (counted tr) ctx bt num)"
  "costs 12290 (UploadBlock (counted tr) ctx bt num)"
proof -
  show "costs 1799 (ListAllBlocks (counted tr) ctx)"
    unfolding ListAllBlocks_def by (intro costs_Suc [OF listBlockTypes_costs, where b = 0] costs_intros) simp
  show "costs 257 (GetBlockInfo (counted tr) ctx bt num)"
    unfolding GetBlockInfo_def by (intro costs_intros costs_Suc [OF userdata_costs, where b = 0]) simp
  have "costs 1 (endUpload (counted tr) uid)" for uid
    unfolding endUpload_def by (intro costs_intros costs_exchangeC)
  moreover have "costs 12288 (bindC (uploadChunks 4096 (counted tr) ctx uid [] 0) (\<lambda>(payload, n). returnC (g payload n)))" for uid g
    by (intro costs_Suc [OF uploadChunks_costs, where b = 0] costs_intros) simp
  ultimately have "costs (12288 + 1) (deferC (bindC (uploadChunks 4096 (counted tr) ctx uid [] 0) (\<lambda>(payload, n). returnC (g payload n)))
      (endUpload (counted tr) uid))" for uid g
    by (intro costs_deferC)
  then have "costs 12289 (deferC (bindC (uploadChunks 4096 (counted tr) ctx uid [] 0) (\<lambda>(payload, n). returnC (g payload n)))
      (endUpload (counted tr) uid))" for uid g by simp
  then show "costs 12290 (UploadBlock (counted tr) ctx bt num)"
    unfolding UploadBlock_def by (intro costs_intros costs_Suc [OF costs_exchangeC, where b = 12289]) simp_all
qed

section \<open>Properties\<close>



text \<open>C23 A CPU cannot hold the client: over any transport and whatever the peer answers, every
  operation ends after a bounded number of requests, a user data exchange after 257 (the first
  packet and 256 follow-ups) and an upload after 12290 (the start, three tries for each of 4096
  chunks, the end).\<close>

theorem requests_bounded:
  "requests (readSZL (counted tr) ctx ident index) c w \<le> 257 \<and>
   requests (Identify (counted tr) ctx) c w \<le> 2 * 257 \<and>
   requests (ListAllBlocks (counted tr) ctx) c w \<le> 7 * 257 \<and>
   requests (GetBlockInfo (counted tr) ctx bt num) c w \<le> 257 \<and>
   requests (UploadBlock (counted tr) ctx bt num) c w \<le> 1 + 4096 * 3 + 1"
  by (simp add: costs_requests [OF readSZL_costs] costs_requests [OF szl_ops_cost(1)] block_ops_cost [THEN costs_requests])

text \<open>An SZL list is split into records exactly: as many as the header announces or as fit what
  was received, each of the announced length, and together they are the bytes after the list
  header in order. It is refused only without a header or with record length 0.\<close>

lemma szlRecords_exact:
  "case szlRecords data of
     Ok rs \<Rightarrow> (let sz = unat (be16 (data ! 0) (data ! 1)); count = unat (be16 (data ! 2) (data ! 3)) in
       4 \<le> length data \<and> 0 < sz \<and> length rs = min count ((length data - 4) div sz) \<and>
       map length rs = replicate (length rs) sz \<and> concat rs = take (length rs * sz) (drop 4 data))
   | Err _ \<Rightarrow> length data < 4 \<or> be16 (data ! 0) (data ! 1) = 0
   | Panic \<Rightarrow> False"
proof (cases "szlRecords data")
  case (Ok rs)
  then have "map length rs = replicate (length rs) (unat (be16 (data ! 0) (data ! 1)))"
    using szlRecords_eq [of data] replicate_length_same [of "map length rs"] by simp
  then show ?thesis using Ok szlRecords_eq [of data] by (simp add: Let_def)
qed (use szlRecords_eq [of data] in simp_all)

text \<open>A half of \<^verbatim>\<open>Identify\<close> fails when its read fails, or what it read is no record list, or a record
  is too short.\<close>

definition halfFailed :: "nat \<Rightarrow> bytes res \<Rightarrow> bool" where
  "halfFailed n r \<longleftrightarrow>
    (case r of
       Ok raw \<Rightarrow> (case szlRecords raw of Ok rs \<Rightarrow> \<exists>x \<in> set rs. length x < n | _ \<Rightarrow> True)
     | _ \<Rightarrow> True)"

lemma applyModuleRecords_error:
  "applyModuleRecords rs info = Ok (info', e) \<Longrightarrow> e = None \<longleftrightarrow> (\<forall>x \<in> set rs. 28 \<le> length x)"
  by (induction rs info rule: applyModuleRecords.induct) (auto simp: go_simps not_less split: if_splits)

lemma applyComponentRecords_error:
  "applyComponentRecords rs info = Ok (info', e) \<Longrightarrow> e = None \<longleftrightarrow> (\<forall>x \<in> set rs. 34 \<le> length x)"
  by (induction rs info rule: applyComponentRecords.induct) (auto simp: go_simps not_less split: if_splits)

lemma identifyPart_module:
  assumes "r \<noteq> Panic"
  shows "\<exists>info' es. identifyPart what applyModuleID info (case r of Ok x \<Rightarrow> Inl x | Err e \<Rightarrow> Inr e) = Ok (info', es) \<and>
    (if halfFailed 28 r then \<exists>e. es = [e] else es = [])"
proof (cases r)
  case (Ok raw)
  note 1 = this
  show ?thesis
  proof (cases "szlRecords raw")
    case (Ok rs)
    obtain info' e where a: "applyModuleRecords rs info = Ok (info', e)" using applyModuleRecords_total by blast
    have "halfFailed 28 r \<longleftrightarrow> e \<noteq> None"
      unfolding applyModuleRecords_error [OF a] by (simp add: halfFailed_def 1 Ok linorder_not_le)
    then show ?thesis by (cases e) (simp_all add: 1 Ok a identifyPart_def applyModuleID_def)
  qed (simp_all add: 1 identifyPart_def applyModuleID_def halfFailed_def)
qed (use assms in \<open>simp_all add: identifyPart_def halfFailed_def\<close>)

lemma identifyPart_component:
  assumes "r \<noteq> Panic"
  shows "\<exists>info' es. identifyPart what applyComponentID info (case r of Ok x \<Rightarrow> Inl x | Err e \<Rightarrow> Inr e) = Ok (info', es) \<and>
    (if halfFailed 34 r then \<exists>e. es = [e] else es = [])"
proof (cases r)
  case (Ok raw)
  note 1 = this
  show ?thesis
  proof (cases "szlRecords raw")
    case (Ok rs)
    obtain info' e where a: "applyComponentRecords rs info = Ok (info', e)" using applyComponentRecords_total by blast
    have "halfFailed 34 r \<longleftrightarrow> e \<noteq> None"
      unfolding applyComponentRecords_error [OF a] by (simp add: halfFailed_def 1 Ok linorder_not_le)
    then show ?thesis by (cases e) (simp_all add: 1 Ok a identifyPart_def applyComponentID_def)
  qed (simp_all add: 1 identifyPart_def applyComponentID_def halfFailed_def)
qed (use assms in \<open>simp_all add: identifyPart_def halfFailed_def\<close>)

lemma tryC_run: "m c w = (r, c', w') \<Longrightarrow> r \<noteq> Panic \<Longrightarrow> tryC m c w = (Ok (case r of Ok x \<Rightarrow> Inl x | Err e \<Rightarrow> Inr e), c', w')"
  by (cases r) (simp_all add: tryC_def)

lemma Identify_run:
  assumes "well_behaved tr" "readModuleIDSZL tr ctx c w = (r1, c1, w1)" "readComponentIDSZL tr ctx c1 w1 = (r2, c2, w2)"
  shows "\<exists>info err. Identify tr ctx c w = (Ok (info, err), c2, w2) \<and>
    (info = None \<longleftrightarrow> halfFailed 28 r1 \<and> halfFailed 34 r2) \<and> (err = None \<longleftrightarrow> \<not> halfFailed 28 r1 \<and> \<not> halfFailed 34 r2)"
proof -
  have r: "r1 \<noteq> Panic" "r2 \<noteq> Panic"
    using szl_ops_safe(1,2) [OF assms(1), unfolded safe_iff] assms(2,3) by (metis fst_conv)+
  obtain info1 es1 where 1: "identifyPart ''module ID SZL'' applyModuleID emptyDeviceInfo (case r1 of Ok x \<Rightarrow> Inl x | Err e \<Rightarrow> Inr e) =
      Ok (info1, es1)" "if halfFailed 28 r1 then \<exists>e. es1 = [e] else es1 = []"
    using identifyPart_module [OF r(1)] by blast
  obtain info2 es2 where 2: "identifyPart ''component ID SZL'' applyComponentID info1 (case r2 of Ok x \<Rightarrow> Inl x | Err e \<Rightarrow> Inr e) =
      Ok (info2, es2)" "if halfFailed 34 r2 then \<exists>e. es2 = [e] else es2 = []"
    using identifyPart_component [OF r(2)] by blast
  show ?thesis
    using 1(2) 2(2)
    by (auto simp: Identify_def bindC_def returnC_def tryC_run [of "readModuleIDSZL tr ctx" c w, OF assms(2) r(1)] tryC_run [of "readComponentIDSZL tr ctx" c1 w1, OF assms(3) r(2)] 1(1) 2(1) split: if_splits)
qed

text \<open>C24 Identify keeps its contract. It reads the module list and then the component list; a half
  fails when its read fails or its records cannot be applied. There is no device information
  only when both halves fail, and no error only when none does; with one failure the caller
  gets what the other half filled in, and the error.\<close>

theorem Identify_contract:
  assumes "well_behaved tr"
  shows "case readModuleIDSZL tr ctx c w of (r1, c1, w1) \<Rightarrow> case readComponentIDSZL tr ctx c1 w1 of (r2, c2, w2) \<Rightarrow>
    \<exists>info err. Identify tr ctx c w = (Ok (info, err), c2, w2) \<and>
      (info = None \<longleftrightarrow> halfFailed 28 r1 \<and> halfFailed 34 r2) \<and> (err = None \<longleftrightarrow> \<not> halfFailed 28 r1 \<and> \<not> halfFailed 34 r2)"
  using Identify_run [OF assms] by (simp split: prod.split)

theorem Identify_contract_witness:
  "case readModuleIDSZL (scripted\<lparr>trRead := \<lambda>w ctx c. (Ok [], w)\<rparr>) CallerCtx demoClient [] of (r1, c1, w1) \<Rightarrow>
   case readComponentIDSZL (scripted\<lparr>trRead := \<lambda>w ctx c. (Ok [], w)\<rparr>) CallerCtx c1 w1 of (r2, c2, w2) \<Rightarrow>
    \<exists>info err. Identify (scripted\<lparr>trRead := \<lambda>w ctx c. (Ok [], w)\<rparr>) CallerCtx demoClient [] = (Ok (info, err), c2, w2) \<and>
      (info = None \<longleftrightarrow> halfFailed 28 r1 \<and> halfFailed 34 r2) \<and> (err = None \<longleftrightarrow> \<not> halfFailed 28 r1 \<and> \<not> halfFailed 34 r2)"
  by (rule Identify_contract [OF scripted_well_behaved])

section \<open>What an upload returns\<close>

text \<open>The exchanges of an upload as the CPU sees them: a chunk is fetched when its request is
  answered within the tries allowed, where a try may be lost to a transport error; an upload is a
  sequence of chunks of which exactly the last is marked as the end.\<close>

inductive fetches :: "('w, 'r, 'c) transport \<Rightarrow> go_ctx \<Rightarrow> uint32 \<Rightarrow> nat \<Rightarrow> UploadChunk \<Rightarrow>
    'c Client \<Rightarrow> 'w \<Rightarrow> 'c Client \<Rightarrow> 'w \<Rightarrow> bool" for tr ctx uid where
  answered: "trCtxErr tr w ctx = (Ok (), w1) \<Longrightarrow> fresh_ref c = (ref, c1) \<Longrightarrow>
    sendReceive tr c1 ctx (EncodeUploadRequest ref uid) ref w1 = (Ok (param, data), w2) \<Longrightarrow>
    ParseUploadResponse param data = Ok chunk \<Longrightarrow> fetches tr ctx uid (Suc n) chunk c w c1 w2"
| lost: "trCtxErr tr w ctx = (Ok (), w1) \<Longrightarrow> fresh_ref c = (ref, c1) \<Longrightarrow>
    sendReceive tr c1 ctx (EncodeUploadRequest ref uid) ref w1 = (Err e, w2) \<Longrightarrow> \<not> isUploadProtocolError e \<Longrightarrow>
    fetches tr ctx uid n chunk c1 w2 c3 w3 \<Longrightarrow> fetches tr ctx uid (Suc n) chunk c w c3 w3"

inductive uploads :: "('w, 'r, 'c) transport \<Rightarrow> go_ctx \<Rightarrow> uint32 \<Rightarrow> UploadChunk list \<Rightarrow>
    'c Client \<Rightarrow> 'w \<Rightarrow> 'c Client \<Rightarrow> 'w \<Rightarrow> bool" for tr ctx uid where
  last: "fetches tr ctx uid 3 chunk c w c1 w1 \<Longrightarrow> ucDone chunk \<Longrightarrow> uploads tr ctx uid [chunk] c w c1 w1"
| more: "fetches tr ctx uid 3 chunk c w c1 w1 \<Longrightarrow> \<not> ucDone chunk \<Longrightarrow> uploads tr ctx uid chunks c1 w1 c2 w2 \<Longrightarrow>
    uploads tr ctx uid (chunk # chunks) c w c2 w2"

definition started :: "('w, 'r, 'c) transport \<Rightarrow> go_ctx \<Rightarrow> BlockType \<Rightarrow> int \<Rightarrow> 'c Client \<Rightarrow> 'w \<Rightarrow> uint32 \<Rightarrow>
    'c Client \<Rightarrow> 'w \<Rightarrow> bool" where
  "started tr ctx bt num c w uid c1 w1 \<longleftrightarrow> 0 \<le> num \<and> num \<le> 0xFFFF \<and>
    (\<exists>ref req param data su. fresh_ref c = (ref, c1) \<and> EncodeStartUploadRequest ref bt num = Ok req \<and>
       sendReceive tr c1 ctx req ref w = (Ok (param, data), w1) \<and> ParseStartUploadResponse param = Ok su \<and>
       suUploadID su = uid)"

inductive_cases fetches_SucE: "fetches tr ctx uid (Suc n) chunk c w c' w'"
inductive_cases fetches_0E: "fetches tr ctx uid 0 chunk c w c' w'"
inductive_cases uploads_ConsE: "uploads tr ctx uid (chunk # chunks) c w c' w'"
inductive_simps uploads_Nil [simp]: "uploads tr ctx uid [] c w c' w'"

lemma isUploadProtocolError_joined [simp]:
  "isUploadProtocolError (wrap_error m (Join [e, Sentinel ErrProtocolFailure]))"
  by (simp add: isUploadProtocolError_def)

lemma uploadTry_step:
  assumes "trCtxErr tr w ctx = (Ok (), w1)" "fresh_ref c = (ref, c1)"
    "sendReceive tr c1 ctx (EncodeUploadRequest ref uid) ref w1 = (r, w2)" "r \<noteq> Panic"
  shows "uploadTry (Suc n) tr ctx uid i lastErr c w =
    (case r of
       Err e \<Rightarrow> if isUploadProtocolError e then (Err (wrap_error (''upload chunk '' @ utoa i) e), c1, w2)
         else uploadTry n tr ctx uid i (Some e) c1 w2
     | Ok (param, data) \<Rightarrow> case ParseUploadResponse param data of
         Ok chunk \<Rightarrow> (Ok (Inl chunk), c1, w2)
       | Err e \<Rightarrow> (Err (wrap_error (''upload chunk '' @ utoa i)
           (wrap_error ''parse upload response'' (Join [e, Sentinel ErrProtocolFailure]))), c1, w2))"
  using assms(4)
  by (cases r; simp add: bindC_def returnC_def ctxErrC_def refC_def exchangeC_def tryC_def assms(1-3) split: prod.split;
      simp add: returnC_def split: res.split)

lemma uploadTry_fetches:
  assumes "well_behaved tr"
  shows "uploadTry n tr ctx uid i lastErr c w = (Ok (Inl chunk), c', w') \<longleftrightarrow> fetches tr ctx uid n chunk c w c' w'"
proof (induction n arbitrary: lastErr c w)
  case 0
  show ?case by (auto simp: returnC_def split: option.split elim: fetches_0E)
next
  case (Suc n)
  obtain r0 w1 where ctx: "trCtxErr tr w ctx = (r0, w1)" by fastforce
  obtain ref c1 where ref: "fresh_ref c = (ref, c1)" by fastforce
  obtain r w2 where ex: "sendReceive tr c1 ctx (EncodeUploadRequest ref uid) ref w1 = (r, w2)" by fastforce
  show ?case
  proof (cases "r0 = Ok ()")
    case True
    note ctx = ctx [unfolded True]
    have "r \<noteq> Panic" using sendReceive_not_Panic [OF assms] ex by (metis fst_conv)
    then consider (answered) param data chunk' where "r = Ok (param, data)" "ParseUploadResponse param data = Ok chunk'"
      | (bad) param data e where "r = Ok (param, data)" "ParseUploadResponse param data = Err e"
      | (err) e where "r = Err e"
      by (cases r) (auto, metis ParseUploadResponse_not_Panic res.exhaust)
    then show ?thesis
    proof cases
      case answered
      then show ?thesis
        using ctx ref ex uploadTry_step [OF ctx ref ex] 
        by (auto elim!: fetches_SucE intro: fetches.answered)
    next
      case bad
      then show ?thesis
        using ctx ref ex uploadTry_step [OF ctx ref ex] by (auto elim!: fetches_SucE)
    next
      case err
      then show ?thesis
        using ctx ref ex uploadTry_step [OF ctx ref ex] Suc.IH
        by (auto elim!: fetches_SucE intro: fetches.lost)
    qed
  next
    case False
    have "uploadTry (Suc n) tr ctx uid i lastErr c w \<noteq> (Ok (Inl chunk), c', w')"
      using False by (cases r0) (simp_all add: bindC_def ctxErrC_def ctx)
    then show ?thesis using False ctx by (auto elim!: fetches_SucE)
  qed
qed

lemma uploadChunks_step:
  assumes "uploadTry 3 tr ctx uid (4096 - Suc n) None c w = (r, c1, w1)"
  shows "\<exists>e. uploadChunks (Suc n) tr ctx uid payload k c w =
    (case r of
       Ok (Inl ch) \<Rightarrow>
        (let k' = (if 0 < length (ucData ch) then k + 1 else k) in
         if ucDone ch then (Ok (payload @ ucData ch, k'), c1, w1)
         else uploadChunks n tr ctx uid (payload @ ucData ch) k' c1 w1)
     | Ok (Inr _) \<Rightarrow> (Err e, c1, w1)
     | Err e' \<Rightarrow> (Err e', c1, w1)
     | Panic \<Rightarrow> (Panic, c1, w1))"
  unfolding uploadChunks.simps bindC_def assms
  by (cases r) (auto simp: returnC_def Let_def length_greater_0_conv split: sum.split)

lemma uploadChunks_uploads:
  assumes "well_behaved tr"
  shows "uploadChunks n tr ctx uid payload k c w = (Ok (out, m), c', w') \<longleftrightarrow>
    (\<exists>chunks. uploads tr ctx uid chunks c w c' w' \<and> length chunks \<le> n \<and>
       out = payload @ concat (map ucData chunks) \<and> m = k + length (filter (\<lambda>ch. 0 < length (ucData ch)) chunks))"
proof (induction n arbitrary: payload k c w)
  case 0
  show ?case by (auto simp: returnC_def)
next
  case (Suc n)
  obtain r c1 w1 where r: "uploadTry 3 tr ctx uid (4096 - Suc n) None c w = (r, c1, w1)" by (metis prod_cases3)
  show ?case
  proof (cases "\<exists>ch. r = Ok (Inl ch)")
    case True
    then obtain ch where ch: "r = Ok (Inl ch)" by blast
    have f: "fetches tr ctx uid 3 ch' c w c2 w2 \<longleftrightarrow> ch' = ch \<and> c2 = c1 \<and> w2 = w1" for ch' c2 w2
      using uploadTry_fetches [OF assms, of 3 ctx uid "4096 - Suc n" None c w ch' c2 w2] r ch by auto
    have u: "uploads tr ctx uid chunks c w c' w' \<longleftrightarrow> (\<exists>chs. chunks = ch # chs \<and>
        (if ucDone ch then chs = [] \<and> c' = c1 \<and> w' = w1 else uploads tr ctx uid chs c1 w1 c' w'))" for chunks
      by (cases chunks) (auto simp: f elim!: uploads_ConsE intro: uploads.intros)
    from uploadChunks_step [OF r, of payload k] show ?thesis
      by (auto simp: u ch Suc.IH Let_def simp del: uploadChunks.simps)
  next
    case False
    have "\<not> uploads tr ctx uid chunks c w c' w'" for chunks
      using False r uploadTry_fetches [OF assms, of 3 ctx uid "4096 - Suc n" None c w]
      by (cases chunks) (auto elim!: uploads_ConsE)
    moreover have "uploadChunks (Suc n) tr ctx uid payload k c w \<noteq> (Ok (out, m), c', w')"
      using False uploadChunks_step [OF r, of payload k]
      by (cases r; auto split: sum.splits simp del: uploadChunks.simps) (metis sum.exhaust)
    ultimately show ?thesis by blast
  qed
qed

lemma deferC_Ok:
  assumes "safe d"
  shows "(\<exists>c3 w3. deferC m d c w = (Ok x, c3, w3)) \<longleftrightarrow> (\<exists>c2 w2. m c w = (Ok x, c2, w2))"
proof -
  obtain r c' w' where m: "m c w = (r, c', w')" by (cases "m c w")
  obtain r' c2 w2 where d: "d c' w' = (r', c2, w2)" by (cases "d c' w'")
  have "r' \<noteq> Panic" using assms [unfolded safe_iff, rule_format, of c' w'] by (simp add: d)
  then show ?thesis by (cases r') (simp_all add: deferC_def m d)
qed

lemma no_data_iff: "length (concat (map ucData chunks)) = 0 \<and> length (filter (\<lambda>ch. 0 < length (ucData ch)) chunks) = 0 \<longleftrightarrow>
    concat (map ucData chunks) = []"
  by (induction chunks) (auto simp: length_greater_0_conv)

lemma upload_body:
  assumes "well_behaved tr"
  shows "(\<exists>c3 w3. deferC
      (bindC (uploadChunks 4096 tr ctx uid [] 0) (\<lambda>(payload, chunkCount).
        returnC (if length payload = 0 \<and> chunkCount = 0 then Err e else Ok (f payload))))
      (endUpload tr uid) c w = (Ok bd, c3, w3)) \<longleftrightarrow>
    (\<exists>chunks c2 w2. uploads tr ctx uid chunks c w c2 w2 \<and> length chunks \<le> 4096 \<and>
       concat (map ucData chunks) \<noteq> [] \<and> bd = f (concat (map ucData chunks)))"
proof -
  have safe_end: "safe (endUpload tr uid)" unfolding endUpload_def by (intro gives_intros assms)
  obtain r c2 w2 where r: "uploadChunks 4096 tr ctx uid [] 0 c w = (r, c2, w2)" by (metis prod_cases3)
  note u = uploadChunks_uploads [OF assms, of 4096 ctx uid "[]" 0 c w, unfolded r]
  show ?thesis
  proof (cases "\<exists>out m. r = Ok (out, m)")
    case True
    then obtain out m where om: "r = Ok (out, m)" by blast
    then obtain chunks where ch: "uploads tr ctx uid chunks c w c2 w2" "length chunks \<le> 4096" "out = concat (map ucData chunks)"
      "m = length (filter (\<lambda>ch. 0 < length (ucData ch)) chunks)" using u [of out m c2 w2] by auto
    have uniq: "concat (map ucData chs) = out" if "uploads tr ctx uid chs c w c' w'" "length chs \<le> 4096" for chs c' w'
      using u [of "concat (map ucData chs)" "length (filter (\<lambda>ch. 0 < length (ucData ch)) chs)" c' w'] that om by auto
    have "(length out = 0 \<and> m = 0) = (out = [])" using no_data_iff [of chunks] unfolding ch(3,4) .
    then have b: "bindC (uploadChunks 4096 tr ctx uid [] 0) (\<lambda>(payload, chunkCount).
        returnC (if length payload = 0 \<and> chunkCount = 0 then Err e else Ok (f payload))) c w =
      (if out = [] then Err e else Ok (f out), c2, w2)"
      by (simp add: bindC_def r om returnC_def)
    show ?thesis
      unfolding deferC_Ok [OF safe_end] b
    proof
      assume "\<exists>c3 w3. (if out = [] then Err e else Ok (f out), c2, w2) = (Ok bd, c3, w3)"
      then have "out \<noteq> []" "bd = f out" by (auto split: if_splits)
      with ch(1,2) show "\<exists>chunks c2 w2. uploads tr ctx uid chunks c w c2 w2 \<and> length chunks \<le> 4096 \<and>
          concat (map ucData chunks) \<noteq> [] \<and> bd = f (concat (map ucData chunks))" unfolding ch(3) by blast
    next
      assume "\<exists>chunks c2 w2. uploads tr ctx uid chunks c w c2 w2 \<and> length chunks \<le> 4096 \<and>
          concat (map ucData chunks) \<noteq> [] \<and> bd = f (concat (map ucData chunks))"
      then have "out \<noteq> []" "bd = f out" using uniq by auto
      then show "\<exists>c3 w3. (if out = [] then Err e else Ok (f out), c2, w2) = (Ok bd, c3, w3)" by simp
    qed
  next
    case False
    then have "\<not> (uploads tr ctx uid chs c w c' w' \<and> length chs \<le> 4096)" for chs c' w'
      using u [of "concat (map ucData chs)" "length (filter (\<lambda>ch. 0 < length (ucData ch)) chs)" c' w'] by auto
    moreover have "bindC (uploadChunks 4096 tr ctx uid [] 0) g c w \<noteq> (Ok bd, c3, w3)" for g :: "bytes \<times> nat \<Rightarrow> _" and c3 w3
      using False by (cases r) (auto simp: bindC_def r)
    ultimately show ?thesis unfolding deferC_Ok [OF safe_end] by blast
  qed
qed

lemma bindC_run:
  "fresh_ref c = (ref, c1) \<Longrightarrow> bindC refC f c w = f ref c1 w"
  "sendReceive tr c ctx req ref w = (Ok x, w1) \<Longrightarrow> bindC (exchangeC tr ctx req ref) g c w = g x c w1"
  by (simp_all add: bindC_def refC_def exchangeC_def)

lemma bindC_exchange_Ok:
  "bindC (exchangeC tr ctx req ref) g c w = (Ok y, c', w') \<Longrightarrow>
   \<exists>x w1. sendReceive tr c ctx req ref w = (Ok x, w1) \<and> g x c w1 = (Ok y, c', w')"
  by (auto simp: bindC_def exchangeC_def split: prod.splits res.splits)

lemma UploadBlock_uploads:
  assumes "well_behaved tr"
  shows "(\<exists>c3 w3. UploadBlock tr ctx bt num c w = (Ok bd, c3, w3)) \<longleftrightarrow>
    (\<exists>uid c1 w1 chunks c2 w2. started tr ctx bt num c w uid c1 w1 \<and> uploads tr ctx uid chunks c1 w1 c2 w2 \<and>
       length chunks \<le> 4096 \<and> concat (map ucData chunks) \<noteq> [] \<and>
       bd = \<lparr>bkInfo = blockInfo bt num, bkData = concat (map ucData chunks)\<rparr>)"
proof -
  obtain ref c1 where ref: "fresh_ref c = (ref, c1)" by fastforce
  show ?thesis
  proof (cases "\<exists>uid c1 w1. started tr ctx bt num c w uid c1 w1")
    case True
    then obtain req param data su w1 where st: "0 \<le> num" "num \<le> 0xFFFF" "EncodeStartUploadRequest ref bt num = Ok req"
      "sendReceive tr c1 ctx req ref w = (Ok (param, data), w1)" "ParseStartUploadResponse param = Ok su"
      by (auto simp: started_def ref)
    then have s: "started tr ctx bt num c w uid c' w' \<longleftrightarrow> uid = suUploadID su \<and> c' = c1 \<and> w' = w1" for uid c' w'
      by (auto simp: started_def ref)
    have "UploadBlock tr ctx bt num c w = deferC
      (bindC (uploadChunks 4096 tr ctx (suUploadID su) [] 0) (\<lambda>(payload, chunkCount).
        returnC (if length payload = 0 \<and> chunkCount = 0 then Err (OtherError ''upload completed with no payload'')
          else Ok \<lparr>bkInfo = blockInfo bt num, bkData = payload\<rparr>)))
      (endUpload tr (suUploadID su)) c1 w1"
      using st by (simp add: UploadBlock_def bindC_run(1) [OF ref] bindC_run(2) [OF st(4)])
    then have "(\<exists>c3 w3. UploadBlock tr ctx bt num c w = (Ok bd, c3, w3)) \<longleftrightarrow>
      (\<exists>chunks c2 w2. uploads tr ctx (suUploadID su) chunks c1 w1 c2 w2 \<and> length chunks \<le> 4096 \<and>
         concat (map ucData chunks) \<noteq> [] \<and> bd = \<lparr>bkInfo = blockInfo bt num, bkData = concat (map ucData chunks)\<rparr>)"
      by (simp only: upload_body [OF assms, where f = "\<lambda>p. \<lparr>bkInfo = blockInfo bt num, bkData = p\<rparr>"])
    then show ?thesis unfolding s by blast
  next
    case False
    have "UploadBlock tr ctx bt num c w \<noteq> (Ok bd, c3, w3)" for c3 w3
    proof
      assume "UploadBlock tr ctx bt num c w = (Ok bd, c3, w3)"
      then have "\<exists>uid c1 w1. started tr ctx bt num c w uid c1 w1"
        by (auto simp: UploadBlock_def started_def bindC_run(1) [OF ref] ref returnC_def
            dest!: bindC_exchange_Ok split: if_splits res.splits)
      with False show False by blast
    qed
    with False show ?thesis by blast
  qed
qed

section \<open>Properties of uploads\<close>

text \<open>C22 An upload returns a block exactly when the CPU delivers one: the start is answered, then at
  most 4096 chunks are answered, each within three tries and only the last marked as the end, and
  they hold at least one byte. The data returned is the data of the chunks in order.\<close>

theorem UploadBlock_exact:
  assumes "well_behaved tr"
  shows "(\<exists>c3 w3. UploadBlock tr ctx bt num c w = (Ok bd, c3, w3)) \<longleftrightarrow>
    (\<exists>uid c1 w1 chunks c2 w2. started tr ctx bt num c w uid c1 w1 \<and> uploads tr ctx uid chunks c1 w1 c2 w2 \<and>
       length chunks \<le> 4096 \<and> concat (map ucData chunks) \<noteq> [] \<and>
       bd = \<lparr>bkInfo = blockInfo bt num, bkData = concat (map ucData chunks)\<rparr>)"
  using assms by (rule UploadBlock_uploads)

text \<open>A CPU that sends a block of three bytes in two chunks; after that reading times out.\<close>

definition uploadScript :: "(bytes list, unit, unit) transport" where
  "uploadScript = scripted\<lparr>trRead := \<lambda>w ctx c.
     case w of [] \<Rightarrow> (Err (Sentinel DeadlineExceeded), []) | b # bs \<Rightarrow> (Ok (take 1000 b), bs)\<rparr>"

lemma uploadScript_ok: "well_behaved uploadScript"
  by (auto simp: well_behaved_def uploadScript_def scripted_def split: list.split)

definition uploadAnswers :: "bytes list" where
  "uploadAnswers =
    [[0x32, 3, 0, 0, 0, 1, 0, 8, 0, 0, 0, 0, 0x1D, 0, 1, 0, 0, 0, 0, 7],
     [0x32, 3, 0, 0, 0, 2, 0, 2, 0, 6, 0, 0, 0x1E, 1, 0, 2, 0, 0xFB, 0x70, 0x71],
     [0x32, 3, 0, 0, 0, 3, 0, 2, 0, 5, 0, 0, 0x1E, 0, 0, 1, 0, 0xFB, 0x72]]"

lemma uploadScript_run:
  "sendReceive uploadScript (demoClient\<lparr>clPduRef := k\<rparr>) ctx req ref (b # bs) =
     (if 240 < length req then sendReceive uploadScript (demoClient\<lparr>clPduRef := k\<rparr>) ctx req ref (b # bs)
      else (decodeReply (take 1000 b) ref, bs))"
  "trCtxErr uploadScript bs ctx = (Ok (), bs)"
  by (simp_all add: sendReceive_def demoClient_def Client_New_def uploadScript_def scripted_def)

lemma uploadScript_refs:
  "fresh_ref demoClient = (1, demoClient\<lparr>clPduRef := 1\<rparr>)"
  "fresh_ref (demoClient\<lparr>clPduRef := 1\<rparr>) = (2, demoClient\<lparr>clPduRef := 2\<rparr>)"
  "fresh_ref (demoClient\<lparr>clPduRef := 2\<rparr>) = (3, demoClient\<lparr>clPduRef := 3\<rparr>)"
  by (simp_all add: fresh_ref_def nextPDURef_cases demoClient_def Client_New_def)

lemma uploadScript_started:
  "started uploadScript CallerCtx BlockDB 5 demoClient uploadAnswers 7 (demoClient\<lparr>clPduRef := 1\<rparr>) (tl uploadAnswers)"
  unfolding started_def
  by (simp add: uploadScript_refs uploadScript_run uploadAnswers_def EncodeStartUploadRequest_def blockAddress_def
      validBlockType_def dec05_def encodeMessage_def EncodeS7Header_def checkedUint16_def Let_def
      decodeReply_def ParseS7Header_ack payload_need_def header_fields_def be16_def go_slice_def
      ParseStartUploadResponse_def go_simps be32_def)

lemma uploadScript_uploads:
  "uploads uploadScript CallerCtx 7 [\<lparr>ucDone = False, ucData = [0x70, 0x71]\<rparr>, \<lparr>ucDone = True, ucData = [0x72]\<rparr>]
     (demoClient\<lparr>clPduRef := 1\<rparr>) (tl uploadAnswers) (demoClient\<lparr>clPduRef := 3\<rparr>) []"
proof -
  have 3: "3 = Suc 2" by simp
  have 1: "fetches uploadScript CallerCtx 7 3 \<lparr>ucDone = False, ucData = [0x70, 0x71]\<rparr>
      (demoClient\<lparr>clPduRef := 1\<rparr>) (tl uploadAnswers) (demoClient\<lparr>clPduRef := 2\<rparr>) (tl (tl uploadAnswers))"
    unfolding 3
    by (rule fetches.answered [where param = "[0x1E, 1]" and data = "[0, 2, 0, 0xFB, 0x70, 0x71]", OF uploadScript_run(2) uploadScript_refs(2)])
      (simp_all add: uploadScript_run uploadAnswers_def EncodeUploadRequest_def uploadSessionRequest_def s7Header_def
      EncodeS7Header_def decodeReply_def ParseS7Header_ack payload_need_def header_fields_def be16_def go_slice_def
      ParseUploadResponse_eq)
  have 2: "fetches uploadScript CallerCtx 7 3 \<lparr>ucDone = True, ucData = [0x72]\<rparr>
      (demoClient\<lparr>clPduRef := 2\<rparr>) (tl (tl uploadAnswers)) (demoClient\<lparr>clPduRef := 3\<rparr>) []"
    unfolding 3
    by (rule fetches.answered [where param = "[0x1E, 0]" and data = "[0, 1, 0, 0xFB, 0x72]", OF uploadScript_run(2) uploadScript_refs(3)])
      (simp_all add: uploadScript_run uploadAnswers_def EncodeUploadRequest_def uploadSessionRequest_def s7Header_def
      EncodeS7Header_def decodeReply_def ParseS7Header_ack payload_need_def header_fields_def be16_def go_slice_def
      ParseUploadResponse_eq)
  show ?thesis by (rule uploads.more [OF 1 _ uploads.last [OF 2]]) simp_all
qed

theorem UploadBlock_exact_witness:
  "\<exists>c3 w3. UploadBlock uploadScript CallerCtx BlockDB 5 demoClient uploadAnswers =
     (Ok \<lparr>bkInfo = blockInfo BlockDB 5, bkData = [0x70, 0x71, 0x72]\<rparr>, c3, w3)"
  unfolding UploadBlock_exact [OF uploadScript_ok]
  by (intro exI conjI, rule uploadScript_started, rule uploadScript_uploads) simp_all

end
