(* ===== verification/Client_Scan.thy ===== *)
theory Client_Scan
  imports Client_Data "HOL-Library.Multiset"
begin

text \<open>
  Scanning an area for readable ranges (\<^verbatim>\<open>client/rangescan.go\<close>) and comparing one read over several
  rack and slot candidates (\<^verbatim>\<open>client/compare.go\<close>), with the validation of their requests
  (\<^verbatim>\<open>client/validation.go\<close>). Both use the client's read operation.
\<close>

section \<open>Range probe requests\<close>

record RangeProbeRequest =
  rpArea :: byte
  rpDBNumber :: int
  rpStart :: int
  rpEnd :: int
  rpStep :: int
  rpProbeSize :: int
  rpRetries :: int
  rpRetryDelay :: int
  rpRepeat :: int
  rpInterval :: int
  rpParallelism :: int

definition validateRangeProbeRequest :: "RangeProbeRequest \<Rightarrow> go_error option" where
  "validateRangeProbeRequest req =
    (if rpEnd req < rpStart req
     then Some (ValidationError (''start must be <= end, got start='' @ itoa (rpStart req) @ '' end='' @ itoa (rpEnd req)))
     else if rpArea req = AreaDB \<and> rpDBNumber req < 0
     then Some (ValidationError (''DB number must be >= 0, got '' @ itoa (rpDBNumber req)))
     else if rpProbeSize req < 0
     then Some (ValidationError (''probe size must be >= 0, got '' @ itoa (rpProbeSize req)))
     else if rpRetries req < 0
     then Some (ValidationError (''retries must be >= 0, got '' @ itoa (rpRetries req)))
     else if rpRepeat req < 0
     then Some (ValidationError (''repeat must be >= 0, got '' @ itoa (rpRepeat req)))
     else if rpParallelism req < 0
     then Some (ValidationError (''parallelism must be >= 0, got '' @ itoa (rpParallelism req)))
     else None)"

record ReadProbeObservation =
  opOffset :: int
  opRequest :: Address
  opResult :: ReadResult
  opStable :: "bool option"
  opAllZero :: "bool option"

record ReadableSpan =
  spStart :: int
  spEnd :: int
  spStatus :: ReadStatus
  spStable :: "bool option"
  spAllZero :: "bool option"
  spNotes :: "string list"

record RangeProbeSummary =
  smReadableSpans :: "ReadableSpan list"
  smEmptySpans :: "ReadableSpan list"
  smFailedSpans :: "ReadableSpan list"
  smInconclusiveSpans :: "ReadableSpan list"

record RangeProbeResult =
  rzArea :: byte
  rzDBNumber :: int
  rzSpans :: "ReadableSpan list"
  rzProbes :: "ReadProbeObservation list"
  rzSummary :: RangeProbeSummary

section \<open>Consolidating probes into spans\<close>

text \<open>The inner loop: the probes after the first that continue its run, and the rest.\<close>

fun splitRun :: "ReadStatus \<Rightarrow> int \<Rightarrow> int \<Rightarrow> ReadProbeObservation list \<Rightarrow>
    ReadProbeObservation list \<times> ReadProbeObservation list" where
  "splitRun status prev step [] = ([], [])"
| "splitRun status prev step (x # xs) =
    (if rsStatus (opResult x) = status \<and> opOffset x = prev + step
     then (let (run, rest) = splitRun status (opOffset x) step xs in (x # run, rest))
     else ([], x # xs))"

text \<open>The two loops over the metadata of a run: the common value, or none and that they differ.\<close>

fun mergeFlag :: "bool option \<Rightarrow> bool option list \<Rightarrow> bool option \<times> bool" where
  "mergeFlag acc [] = (acc, False)"
| "mergeFlag acc (None # fs) = mergeFlag acc fs"
| "mergeFlag None (Some b # fs) = mergeFlag (Some b) fs"
| "mergeFlag (Some a) (Some b # fs) = (if a \<noteq> b then (None, True) else mergeFlag (Some a) fs)"

definition spanOf :: "int \<Rightarrow> ReadProbeObservation \<Rightarrow> ReadProbeObservation list \<Rightarrow> ReadableSpan" where
  "spanOf probeSize x run =
    (let end_off = opOffset (last (x # run)) + probeSize;
         (stable, stableDiffers) = mergeFlag None (map opStable (x # run));
         (allZero, allZeroDiffers) = mergeFlag None (map opAllZero (x # run)) in
     \<lparr>spStart = opOffset x, spEnd = end_off, spStatus = rsStatus (opResult x), spStable = stable,
      spAllZero = allZero,
      spNotes = (if stableDiffers then [''stable metadata differs across probes''] else []) @
        (if allZeroDiffers then [''allZero metadata differs across probes''] else [])\<rparr>)"

lemma splitRun_length: "length (snd (splitRun status prev step xs)) \<le> length xs"
  by (induction status prev step xs rule: splitRun.induct) (auto split: prod.splits)

function spansOf :: "int \<Rightarrow> int \<Rightarrow> ReadProbeObservation list \<Rightarrow> ReadableSpan list" where
  "spansOf step probeSize [] = []"
| "spansOf step probeSize (x # xs) =
    (let (run, rest) = splitRun (rsStatus (opResult x)) (opOffset x) step xs in
     spanOf probeSize x run # spansOf step probeSize rest)"
  by pat_completeness auto
termination
proof (relation "measure (\<lambda>(step, probeSize, xs). length xs)")
  fix step probeSize :: int and x :: ReadProbeObservation and xs z run rest
  assume "z = splitRun (rsStatus (opResult x)) (opOffset x) step xs" "(run, rest) = z"
  then have "length rest \<le> length xs" by (metis snd_conv splitRun_length)
  then show "((step, probeSize, rest), step, probeSize, x # xs) \<in> measure (\<lambda>(step, probeSize, xs). length xs)"
    by simp
qed simp

definition withStatus :: "ReadStatus \<Rightarrow> ReadableSpan list \<Rightarrow> ReadableSpan list" where
  "withStatus s spans = filter (\<lambda>sp. spStatus sp = s) spans"

definition emptySummary :: RangeProbeSummary where
  "emptySummary = \<lparr>smReadableSpans = [], smEmptySpans = [], smFailedSpans = [], smInconclusiveSpans = []\<rparr>"

definition ConsolidateSpans :: "ReadProbeObservation list \<Rightarrow> int \<Rightarrow> int \<Rightarrow> ReadableSpan list \<times> RangeProbeSummary" where
  "ConsolidateSpans observations step probeSize =
    (if length observations = 0 then ([], emptySummary)
     else
      (let step = (if step \<le> 0 then probeSize else step);
           spans = spansOf step probeSize observations in
       (spans, \<lparr>smReadableSpans = withStatus ReadStatusSuccess spans,
          smEmptySpans = withStatus ReadStatusEmptyRead spans,
          smFailedSpans = concat (map (\<lambda>s. withStatus s spans)
            [ReadStatusRejected, ReadStatusTimeout, ReadStatusTransportErr, ReadStatusProtocolErr, ReadStatusShortRead]),
          smInconclusiveSpans = withStatus ReadStatusInconclusive spans\<rparr>)))"

section \<open>Probing\<close>

definition readC :: "('w, 'r, 'c) transport \<Rightarrow> go_ctx \<Rightarrow> Address \<Rightarrow> (ReadResult, 'c, 'w) cop" where
  "readC tr ctx addr = (\<lambda>c w. ReadArea tr c ctx addr w)"

definition sleepC :: "('w, 'r, 'c) transport \<Rightarrow> go_ctx \<Rightarrow> int \<Rightarrow> (unit, 'c, 'w) cop" where
  "sleepC tr ctx d = (\<lambda>c w. let (r, w) = trSleep tr w ctx d in (r, c, w))"

text \<open>The loop that reads one address several times, with a pause before every read but the first; it
  stops with the context's error when the context ends. A read that returns an error counts as a
  failed result.\<close>

primrec probeReads :: "nat \<Rightarrow> ('w, 'r, 'c) transport \<Rightarrow> go_ctx \<Rightarrow> Address \<Rightarrow> int \<Rightarrow> int \<Rightarrow> bool \<Rightarrow>
    (ReadResult list + go_error, 'c, 'w) cop" where
  "probeReads 0 tr ctx addr probeSize pause first = returnC (Ok (Inl []))"
| "probeReads (Suc n) tr ctx addr probeSize pause first =
     bindC (tryC (ctxErrC tr ctx)) (\<lambda>r.
     case r of Inr e \<Rightarrow> returnC (Ok (Inr e)) | Inl _ \<Rightarrow>
     bindC (tryC (if \<not> first \<and> 0 < pause then sleepC tr ctx pause else returnC (Ok ()))) (\<lambda>r.
     case r of Inr e \<Rightarrow> returnC (Ok (Inr e)) | Inl _ \<Rightarrow>
     bindC (tryC (readC tr ctx addr)) (\<lambda>r.
     bindC (probeReads n tr ctx addr probeSize pause False) (\<lambda>rest.
     returnC (Ok (case rest of
         Inr e \<Rightarrow> Inr e
       | Inl rs \<Rightarrow> Inl ((case r of Inl res \<Rightarrow> res | Inr e \<Rightarrow> newFailedReadResult probeSize (Some e)) # rs)))))))"

definition sameResult :: "ReadResult \<Rightarrow> ReadResult \<Rightarrow> bool" where
  "sameResult a b \<longleftrightarrow> rsStatus a = rsStatus b \<and> rsData a = rsData b"

definition allSame :: "ReadResult list \<Rightarrow> bool" where
  "allSame rs \<longleftrightarrow> list_all (\<lambda>r. sameResult r (hd rs)) rs"

definition emptyObservation :: "ReadResult \<Rightarrow> ReadProbeObservation" where
  "emptyObservation r = \<lparr>opOffset = 0, opRequest = \<lparr>adArea = 0, adDBNumber = 0, adStart = 0, adSize = 0\<rparr>,
     opResult = r, opStable = None, opAllZero = None\<rparr>"

definition inconclusive :: "string \<Rightarrow> ReadResult \<Rightarrow> ReadResult" where
  "inconclusive msg r = r\<lparr>rsStatus := ReadStatusInconclusive, rsMessage := msg\<rparr>"

definition noReads :: "int \<Rightarrow> ReadResult" where
  "noReads probeSize = \<lparr>rsStatus = ReadStatusTransportErr, rsRequestedLength = probeSize, rsReturnedLength = 0,
     rsData = [], rsWarnings = [], rsMessage = ''no reads'', rsCause = None, rsItemStatus = [], rsReturnCode = 0\<rparr>"

text \<open>The stability and all-zero flags of repeated reads.\<close>

definition withFlags :: "nat \<Rightarrow> ReadResult list \<Rightarrow> ReadProbeObservation \<Rightarrow> ReadProbeObservation" where
  "withFlags reps repeated obs =
    (if 1 < reps \<and> 0 < length repeated
     then obs\<lparr>opStable := Some (allSame repeated),
       opAllZero := Some (list_all (\<lambda>r. rsStatus r = ReadStatusSuccess \<and> 0 < length (rsData r) \<and>
         list_all (\<lambda>b. b = 0) (rsData r)) repeated)\<rparr>
     else obs)"

text \<open>What follows the repeated reads: their last result, marked when they differ; then the retries.\<close>

definition finishProbe :: "('w, 'r, 'c) transport \<Rightarrow> go_ctx \<Rightarrow> RangeProbeRequest \<Rightarrow> Address \<Rightarrow> int \<Rightarrow> nat \<Rightarrow>
    ReadResult list \<Rightarrow> (ReadProbeObservation, 'c, 'w) cop" where
  "finishProbe tr ctx req addr probeSize reps repeated =
    (if length repeated = 0 then returnC (Ok (emptyObservation (noReads probeSize)))
     else
      (let obs = emptyObservation
         (if 1 < reps \<and> 1 < length repeated \<and> \<not> allSame repeated
          then inconclusive ''repeat reads produced mixed results'' (last repeated)
          else last repeated) in
       if 0 < rpRetries req then
         bindC (probeReads (nat (rpRetries req) + 1) tr ctx addr probeSize (rpRetryDelay req) True) (\<lambda>r.
         case r of
           Inr e \<Rightarrow> returnC (Ok (obs\<lparr>opResult := newFailedReadResult probeSize (Some e)\<rparr>))
         | Inl attempts \<Rightarrow>
            returnC (Ok (withFlags reps repeated
              (if 1 < length attempts \<and> \<not> allSame attempts
               then obs\<lparr>opResult := inconclusive ''retries produced mixed results'' (opResult obs)\<rparr>
               else obs))))
       else returnC (Ok (withFlags reps repeated obs))))"

definition probeOneOffset :: "('w, 'r, 'c) transport \<Rightarrow> go_ctx \<Rightarrow> RangeProbeRequest \<Rightarrow> int \<Rightarrow> int \<Rightarrow>
    (ReadProbeObservation, 'c, 'w) cop" where
  "probeOneOffset tr ctx req offset probeSize =
    (let addr = \<lparr>adArea = rpArea req, adDBNumber = rpDBNumber req, adStart = offset, adSize = probeSize\<rparr>;
         reps = nat (max (rpRepeat req) 1) in
     bindC (probeReads reps tr ctx addr probeSize (rpInterval req) True) (\<lambda>r.
     case r of
       Inr e \<Rightarrow> returnC (Ok ((emptyObservation (newFailedReadResult probeSize (Some e)))
                  \<lparr>opOffset := offset, opRequest := addr\<rparr>))
     | Inl repeated \<Rightarrow> finishProbe tr ctx req addr probeSize reps repeated))"

function offsetsFrom :: "int \<Rightarrow> int \<Rightarrow> int \<Rightarrow> int list" where
  "offsetsFrom o1 hi step =
    (if o1 < hi \<and> 0 < step then o1 # offsetsFrom (o1 + step) hi step else [])"
  by pat_completeness auto
termination
  by (relation "measure (\<lambda>(o1, hi, step). nat (hi - o1))") auto

declare offsetsFrom.simps [simp del]

text \<open>The step and the probe size in force.\<close>

definition probeStep :: "RangeProbeRequest \<Rightarrow> int" where
  "probeStep req =
    (let step = rpStep req;
         step = (if step \<le> 0 then rpProbeSize req else step) in
     if step \<le> 0 then 1 else step)"

definition probeSizeOf :: "RangeProbeRequest \<Rightarrow> int" where
  "probeSizeOf req = (if rpProbeSize req \<le> 0 then 8 else rpProbeSize req)"

fun probeOffsets :: "('w, 'r, 'c) transport \<Rightarrow> go_ctx \<Rightarrow> RangeProbeRequest \<Rightarrow> int list \<Rightarrow>
    (ReadProbeObservation list + go_error, 'c, 'w) cop" where
  "probeOffsets tr ctx req [] = returnC (Ok (Inl []))"
| "probeOffsets tr ctx req (offset # offsets) =
     bindC (tryC (ctxErrC tr ctx)) (\<lambda>r.
     case r of Inr e \<Rightarrow> returnC (Ok (Inr e)) | Inl _ \<Rightarrow>
     bindC (probeOneOffset tr ctx req offset (probeSizeOf req)) (\<lambda>obs.
     bindC (probeOffsets tr ctx req offsets) (\<lambda>rest.
     returnC (Ok (case rest of
         Inr e \<Rightarrow> Inr e
       | Inl os \<Rightarrow> Inl (obs\<lparr>opOffset := offset, opRequest := \<lparr>adArea = rpArea req, adDBNumber = rpDBNumber req,
           adStart = offset, adSize = probeSizeOf req\<rparr>\<rparr> # os))))))"

definition ProbeReadableRanges :: "('w, 'r, 'c) transport \<Rightarrow> go_ctx \<Rightarrow> RangeProbeRequest \<Rightarrow>
    (RangeProbeResult \<times> go_error option, 'c, 'w) cop" where
  "ProbeReadableRanges tr ctx req =
    (case validateRangeProbeRequest req of
       Some e \<Rightarrow> returnC (Err e)
     | None \<Rightarrow>
      (let out = \<lparr>rzArea = rpArea req, rzDBNumber = rpDBNumber req, rzSpans = [], rzProbes = [], rzSummary = emptySummary\<rparr>;
           offsets = offsetsFrom (rpStart req) (rpEnd req) (probeStep req) in
       (\<lambda>c. (if 0 < length offsets \<and> clConn c = None then returnC (Err (Sentinel ErrNotConnected))
         else
           bindC (probeOffsets tr ctx req offsets) (\<lambda>r.
           case r of
             Inr e \<Rightarrow> returnC (Ok (out, Some e))
           | Inl observations \<Rightarrow>
              (let (spans, summary) = ConsolidateSpans observations (probeStep req) (probeSizeOf req) in
               returnC (Ok (out\<lparr>rzProbes := observations, rzSpans := spans, rzSummary := summary\<rparr>, None))))) c)))"

section \<open>Comparing candidates\<close>

record RackSlot =
  rkRack :: int
  rkSlot :: int

record CompareReadRequest =
  cqAddress :: string
  cqPort :: int
  cqCandidates :: "RackSlot list"
  cqArea :: byte
  cqDBNumber :: int
  cqOffset :: int
  cqSize :: int
  cqTimeout :: int
  cqParallelism :: int

record CompareReadCandidate =
  ccRack :: int
  ccSlot :: int
  ccResult :: ReadResult

record CompareReadResult =
  crRequest :: CompareReadRequest
  crByCandidate :: "CompareReadCandidate list"
  crRackSlotInsensitive :: bool

text \<open>\<^verbatim>\<open>strings.TrimSpace(s) == ""\<close>: the string is made of white space characters, those of ASCII and
  the UTF-8 encodings of the others.\<close>

definition wide_space :: "nat \<Rightarrow> nat \<Rightarrow> nat \<Rightarrow> bool" where
  "wide_space a b c \<longleftrightarrow>
     a = 0xE1 \<and> b = 0x9A \<and> c = 0x80 \<or>
     a = 0xE2 \<and> b = 0x80 \<and> (0x80 \<le> c \<and> c \<le> 0x8A \<or> c = 0xA8 \<or> c = 0xA9 \<or> c = 0xAF) \<or>
     a = 0xE2 \<and> b = 0x81 \<and> c = 0x9F \<or>
     a = 0xE3 \<and> b = 0x80 \<and> c = 0x80"

fun blank :: "nat list \<Rightarrow> bool" where
  "blank [] = True"
| "blank (a # cs) =
    (if a \<in> {9, 10, 11, 12, 13, 32} then blank cs
     else (case cs of
        [] \<Rightarrow> False
      | b # ds \<Rightarrow>
         if a = 0xC2 \<and> (b = 0x85 \<or> b = 0xA0) then blank ds
         else (case ds of [] \<Rightarrow> False | c # es \<Rightarrow> wide_space a b c \<and> blank es)))"

definition is_blank :: "string \<Rightarrow> bool" where
  "is_blank s = blank (map of_char s)"

fun invalidCandidate :: "nat \<Rightarrow> RackSlot list \<Rightarrow> go_error option" where
  "invalidCandidate i [] = None"
| "invalidCandidate i (cand # cands) =
    (case ValidateRackSlot (rkRack cand) (rkSlot cand) of
       Some e \<Rightarrow> Some (ValidationError (''candidate '' @ utoa i @ '': '' @ error_text e))
     | None \<Rightarrow> invalidCandidate (Suc i) cands)"

definition validateCompareReadRequest :: "CompareReadRequest \<Rightarrow> go_error option" where
  "validateCompareReadRequest req =
    (if is_blank (cqAddress req) then Some (ValidationError ''address must be non-empty'')
     else if cqPort req < 0 then Some (ValidationError (''port must be >= 0, got '' @ itoa (cqPort req)))
     else if cqTimeout req < 0
     then Some (ValidationError (''timeout must be >= 0, got '' @ duration_text (cqTimeout req)))
     else if cqSize req < 0 then Some (ValidationError (''size must be >= 0, got '' @ itoa (cqSize req)))
     else if cqOffset req < 0 then Some (ValidationError (''offset must be >= 0, got '' @ itoa (cqOffset req)))
     else if cqArea req = AreaDB \<and> cqDBNumber req < 0
     then Some (ValidationError (''DB number must be >= 0, got '' @ itoa (cqDBNumber req)))
     else invalidCandidate 0 (cqCandidates req))"

definition compareCandidateFailure :: "RackSlot \<Rightarrow> int \<Rightarrow> go_error \<Rightarrow> CompareReadCandidate" where
  "compareCandidateFailure cand sz err =
     \<lparr>ccRack = rkRack cand, ccSlot = rkSlot cand, ccResult = newFailedReadResult sz (Some err)\<rparr>"

text \<open>The goroutine of one candidate: a new client, connect, read, close.\<close>

definition compareClient :: "CompareReadRequest \<Rightarrow> RackSlot \<Rightarrow> 'c Client" where
  "compareClient req cand = Client_New (cqAddress req)
     [WithPort (if cqPort req = 0 then 102 else cqPort req), WithRackSlot (rkRack cand) (rkSlot cand),
      WithTimeoutOption (if cqTimeout req = 0 then 5000000000 else cqTimeout req)]"

definition closeAfter :: "('w, 'r, 'c) transport \<Rightarrow> 'c Client \<Rightarrow> 'a \<Rightarrow> 'w \<Rightarrow> 'a res \<times> 'w" where
  "closeAfter tr c x w = (case Client_Close tr c w of (Panic, _, w) \<Rightarrow> (Panic, w) | (_, _, w) \<Rightarrow> (Ok x, w))"

definition compareOne :: "('w, 'r, 'c) transport \<Rightarrow> go_ctx \<Rightarrow> CompareReadRequest \<Rightarrow> RackSlot \<Rightarrow> 'w \<Rightarrow>
    CompareReadCandidate res \<times> 'w" where
  "compareOne tr ctx req cand w =
    (case Connect tr (compareClient req cand) ctx w of
       (Panic, c, w) \<Rightarrow> (Panic, w)
     | (Err e, c, w) \<Rightarrow> closeAfter tr c (compareCandidateFailure cand (cqSize req) e) w
     | (Ok _, c, w) \<Rightarrow>
        (case ReadArea tr c ctx \<lparr>adArea = cqArea req, adDBNumber = cqDBNumber req, adStart = cqOffset req,
               adSize = cqSize req\<rparr> w of
           (Panic, c, w) \<Rightarrow> (Panic, w)
         | (Err e, c, w) \<Rightarrow> closeAfter tr c (compareCandidateFailure cand (cqSize req) e) w
         | (Ok res, c, w) \<Rightarrow> closeAfter tr c \<lparr>ccRack = rkRack cand, ccSlot = rkSlot cand, ccResult = res\<rparr> w))"

text \<open>The loop over the candidates with at most one connection at a time (\<^verbatim>\<open>Parallelism\<close> up to 1): a
  candidate starts when the one before it has released the semaphore. When the context has
  ended, the \<^verbatim>\<open>select\<close> may still take the semaphore.\<close>

inductive compareAll :: "('w, 'r, 'c) transport \<Rightarrow> go_ctx \<Rightarrow> CompareReadRequest \<Rightarrow> RackSlot list \<Rightarrow> 'w \<Rightarrow>
    CompareReadCandidate list \<Rightarrow> 'w \<Rightarrow> bool" for tr ctx req where
  none_left: "compareAll tr ctx req [] w [] w"
| ctx_done: "trCtxErr tr w ctx = (Err e, w1) \<Longrightarrow>
    compareAll tr ctx req (cand # cands) w (map (\<lambda>x. compareCandidateFailure x (cqSize req) e) (cand # cands)) w1"
| next_one: "compareOne tr ctx req cand w = (Ok r, w1) \<Longrightarrow> compareAll tr ctx req cands w1 rs w2 \<Longrightarrow>
    compareAll tr ctx req (cand # cands) w (r # rs) w2"

definition insensitive :: "CompareReadCandidate list \<Rightarrow> bool" where
  "insensitive rs =
    (if length rs < 2 then False
     else (case find (\<lambda>r. rsStatus (ccResult r) = ReadStatusSuccess) rs of
         None \<Rightarrow> False
       | Some ok \<Rightarrow>
          list_all (\<lambda>r. rsStatus (ccResult r) = ReadStatusSuccess \<and> rsData (ccResult r) = rsData (ccResult ok)) rs))"

inductive CompareRead :: "('w, 'r, 'c) transport \<Rightarrow> go_ctx \<Rightarrow> CompareReadRequest \<Rightarrow> 'w \<Rightarrow>
    CompareReadResult res \<Rightarrow> 'w \<Rightarrow> bool" for tr ctx req where
  invalid: "validateCompareReadRequest req = Some e \<Longrightarrow> CompareRead tr ctx req w (Err e) w"
| no_candidates: "validateCompareReadRequest req = None \<Longrightarrow> cqCandidates req = [] \<Longrightarrow>
    CompareRead tr ctx req w (Ok \<lparr>crRequest = req, crByCandidate = [], crRackSlotInsensitive = False\<rparr>) w"
| compared: "validateCompareReadRequest req = None \<Longrightarrow> cqCandidates req \<noteq> [] \<Longrightarrow> cqParallelism req \<le> 1 \<Longrightarrow>
    compareAll tr ctx req (cqCandidates req) w rs w1 \<Longrightarrow>
    CompareRead tr ctx req w (Ok \<lparr>crRequest = req, crByCandidate = rs, crRackSlotInsensitive = insensitive rs\<rparr>) w1"

section \<open>Facts about spans\<close>

text \<open>A run: probes with one status, each a step after the one before.\<close>

fun follows :: "int \<Rightarrow> ReadProbeObservation list \<Rightarrow> bool" where
  "follows step (x # y # xs) \<longleftrightarrow>
     rsStatus (opResult y) = rsStatus (opResult x) \<and> opOffset y = opOffset x + step \<and> follows step (y # xs)"
| "follows step _ = True"

fun unmergeable :: "int \<Rightarrow> ReadProbeObservation list list \<Rightarrow> bool" where
  "unmergeable step (g # h # gs) \<longleftrightarrow> \<not> follows step (g @ h) \<and> unmergeable step (h # gs)"
| "unmergeable step _ = True"

lemma splitRun_run:
  assumes "splitRun (rsStatus (opResult x)) (opOffset x) step xs = (run, rest)"
  shows "xs = run @ rest \<and> follows step (x # run) \<and> (rest \<noteq> [] \<longrightarrow> \<not> follows step (x # run @ [hd rest]))"
  using assms
proof (induction xs arbitrary: x run)
  case (Cons y ys)
  show ?case
  proof (cases "rsStatus (opResult y) = rsStatus (opResult x) \<and> opOffset y = opOffset x + step")
    case True
    obtain run' where "splitRun (rsStatus (opResult y)) (opOffset y) step ys = (run', rest)" "run = y # run'"
      using Cons.prems True by (auto split: prod.splits)
    with Cons.IH [of y run'] True show ?thesis by simp
  next
    case False
    then show ?thesis using Cons.prems by auto
  qed
qed simp

lemma follows_prefix: "follows step (xs @ ys) \<Longrightarrow> follows step xs"
  by (induction step xs rule: follows.induct) auto

lemma follows_snoc: "\<not> follows step (xs @ [y]) \<Longrightarrow> \<not> follows step (xs @ y # ys)"
  using follows_prefix [of step "xs @ [y]" ys] by auto

lemma spansOf_groups:
  "\<exists>groups. concat groups = xs \<and> list_all (\<lambda>g. g \<noteq> [] \<and> follows step g) groups \<and> unmergeable step groups \<and>
     spansOf step n xs = map (\<lambda>g. spanOf n (hd g) (tl g)) groups"
proof (induction step n xs rule: spansOf.induct)
  case (1 step n)
  show ?case by (intro exI [of _ "[]"]) simp
next
  case (2 step n x xs)
  obtain run rest where sr: "splitRun (rsStatus (opResult x)) (opOffset x) step xs = (run, rest)" by fastforce
  from 2 [OF sr [symmetric] refl] obtain gs where gs: "concat gs = rest" "list_all (\<lambda>g. g \<noteq> [] \<and> follows step g) gs"
    "unmergeable step gs" "spansOf step n rest = map (\<lambda>g. spanOf n (hd g) (tl g)) gs" by blast
  have run: "xs = run @ rest" "follows step (x # run)" "rest \<noteq> [] \<Longrightarrow> \<not> follows step ((x # run) @ [hd rest])"
    using splitRun_run [OF sr] by simp_all
  have "unmergeable step ((x # run) # gs)"
  proof (cases gs)
    case (Cons g gs')
    then obtain y ys where g: "g = y # ys" using gs(2) by (cases g) auto
    then have "hd rest = y" "rest \<noteq> []" using gs(1) Cons by auto
    then have "\<not> follows step ((x # run) @ g)" using run(3) follows_snoc [of step "x # run" y ys] by (simp add: g)
    then show ?thesis using gs(3) Cons by simp
  qed simp
  then show ?case
    using gs run(1,2) sr by (intro exI [of _ "(x # run) # gs"]) simp
qed

lemma spanOf_simps:
  "spStart (spanOf n x run) = opOffset x" "spEnd (spanOf n x run) = opOffset (last (x # run)) + n"
  "spStatus (spanOf n x run) = rsStatus (opResult x)"
  by (simp_all add: spanOf_def Let_def split: prod.split)

lemma status_classes:
  "mset (withStatus ReadStatusSuccess xs) + mset (withStatus ReadStatusEmptyRead xs) +
   mset (concat (map (\<lambda>s. withStatus s xs) [ReadStatusRejected, ReadStatusTimeout, ReadStatusTransportErr,
     ReadStatusProtocolErr, ReadStatusShortRead])) + mset (withStatus ReadStatusInconclusive xs) = mset xs"
proof (induction xs)
  case (Cons x xs)
  then show ?case by (cases "spStatus x") (simp_all add: withStatus_def)
qed (simp add: withStatus_def)

text \<open>C25 Consolidation cuts the probes, in order, into maximal runs: every probe is in exactly one run,
  a run has one status and equal steps, and no two neighbouring runs could be one. Each run becomes
  the span from its first probe to the end of its last, and the summary lists hold every span exactly
  once, the readable, empty and inconclusive ones by their status and all others as failed.\<close>

theorem ConsolidateSpans_partition:
  "\<exists>groups. concat groups = observations \<and>
     list_all (\<lambda>g. g \<noteq> [] \<and> follows (if step \<le> 0 then n else step) g) groups \<and>
     unmergeable (if step \<le> 0 then n else step) groups \<and>
     (case ConsolidateSpans observations step n of (spans, summary) \<Rightarrow>
        map (\<lambda>s. (spStart s, spEnd s, spStatus s)) spans =
          map (\<lambda>g. (opOffset (hd g), opOffset (last g) + n, rsStatus (opResult (hd g)))) groups \<and>
        smReadableSpans summary = filter (\<lambda>s. spStatus s = ReadStatusSuccess) spans \<and>
        mset (smReadableSpans summary) + mset (smEmptySpans summary) + mset (smFailedSpans summary) +
          mset (smInconclusiveSpans summary) = mset spans)"
proof (cases "observations = []")
  case True
  then show ?thesis by (intro exI [of _ "[]"]) (simp add: ConsolidateSpans_def emptySummary_def)
next
  case False
  define st where "st = (if step \<le> 0 then n else step)"
  obtain groups where g: "concat groups = observations" "list_all (\<lambda>g. g \<noteq> [] \<and> follows st g) groups" "unmergeable st groups"
    "spansOf st n observations = map (\<lambda>g. spanOf n (hd g) (tl g)) groups" using spansOf_groups by blast
  have "map (\<lambda>s. (spStart s, spEnd s, spStatus s)) (spansOf st n observations) =
      map (\<lambda>g. (opOffset (hd g), opOffset (last g) + n, rsStatus (opResult (hd g)))) groups"
    unfolding g(4) using g(2) by (auto simp: list_all_iff spanOf_simps)
  then show ?thesis
    using g(1-3) False status_classes [of "spansOf st n observations"]
    by (intro exI [of _ groups]) (simp add: ConsolidateSpans_def Let_def withStatus_def [of ReadStatusSuccess] st_def [symmetric])
qed

section \<open>Facts about probing\<close>

lemma gives_readC:
  assumes "well_behaved tr" "0 \<le> adSize addr"
  shows "gives (readC tr ctx addr) (read_sound (adSize addr))"
  unfolding gives_def readC_def
proof (intro allI)
  fix c w
  show "case fst (ReadArea tr c ctx addr w) of Ok r \<Rightarrow> read_sound (adSize addr) r | Err _ \<Rightarrow> True | Panic \<Rightarrow> False"
    using ReadArea_facts [OF assms(1), where c = c and ctx = ctx and addr = addr and w = w] by (cases "ReadArea tr c ctx addr w") (auto split: res.splits)
qed

lemma gives_sleepC [gives_intros]: "well_behaved tr \<Longrightarrow> safe (sleepC tr ctx d)"
  using well_behaved_steps(3) [of tr] by (simp add: safe_iff sleepC_def case_prod_beta)

lemma gives_tryC_post:
  assumes "gives m P"
  shows "gives (tryC m) (\<lambda>r. case r of Inl x \<Rightarrow> P x | Inr e \<Rightarrow> True)"
  unfolding gives_def
proof (intro allI)
  fix c w
  obtain r c' w' where m: "m c w = (r, c', w')" by (cases "m c w")
  have "case r of Ok x \<Rightarrow> P x | Err _ \<Rightarrow> True | Panic \<Rightarrow> False"
    using assms [unfolded gives_def, rule_format, of c w] by (simp only: m fst_conv)
  then show "case fst (tryC m c w) of Ok r \<Rightarrow> (case r of Inl x \<Rightarrow> P x | Inr e \<Rightarrow> True) | Err _ \<Rightarrow> True | Panic \<Rightarrow> False"
    by (cases r) (simp_all add: tryC_def m)
qed

lemma probeReads_gives:
  assumes "well_behaved tr" "adSize addr = n" "0 \<le> n"
  shows "gives (probeReads k tr ctx addr n pause first)
    (\<lambda>r. case r of Inl rs \<Rightarrow> length rs = k \<and> list_all (read_sound n) rs | Inr e \<Rightarrow> True)"
proof (induction k arbitrary: first)
  case (Suc k)
  have tail: "gives (bindC (tryC (readC tr ctx addr)) (\<lambda>r. bindC (probeReads k tr ctx addr n pause False) (\<lambda>rest.
     returnC (Ok (case rest of Inr e \<Rightarrow> Inr e
       | Inl rs \<Rightarrow> Inl ((case r of Inl res \<Rightarrow> res | Inr e \<Rightarrow> newFailedReadResult n (Some e)) # rs))))))
    (\<lambda>r. case r of Inl rs \<Rightarrow> length rs = Suc k \<and> list_all (read_sound n) rs | Inr e \<Rightarrow> True)"
    by (rule gives_bindC [OF gives_tryC_post [OF gives_readC [OF assms(1)]]], simp add: assms(2,3),
        rule gives_bindC [OF Suc.IH], rule gives_returnC)
      (auto simp: assms(2) newFailedReadResult_sound [OF assms(3)] split: sum.splits)
  have pause: "safe (if \<not> first \<and> 0 < pause then sleepC tr ctx pause else returnC (Ok ()))"
    by (intro gives_if gives_sleepC gives_returnC assms(1)) simp_all
  show ?case
    unfolding probeReads.simps
    by (intro gives_bindC_safe [OF gives_tryC [OF gives_ctxErrC [OF assms(1)]]] gives_bindC_safe [OF gives_tryC [OF pause]]
        gives_sum tail gives_returnC) auto
qed (auto intro!: gives_returnC)

lemma read_sound_inconclusive: "read_sound n r \<Longrightarrow> read_sound n (inconclusive msg r)"
  by (simp add: read_sound_def inconclusive_def)

lemma withFlags_result [simp]: "opResult (withFlags k rs obs) = opResult obs"
  by (simp add: withFlags_def)

lemma finishProbe_gives:
  assumes "well_behaved tr" "adSize addr = n" "0 \<le> n" "list_all (read_sound n) repeated"
  shows "gives (finishProbe tr ctx req addr n reps repeated) (\<lambda>obs. read_sound n (opResult obs))"
proof (cases "repeated = []")
  case True
  then show ?thesis
    using assms(3) by (auto intro!: gives_returnC simp: finishProbe_def emptyObservation_def noReads_def read_sound_def)
next
  case False
  define obs where "obs = emptyObservation (if 1 < reps \<and> 1 < length repeated \<and> \<not> allSame repeated
      then inconclusive ''repeat reads produced mixed results'' (last repeated) else last repeated)"
  have "read_sound n (last repeated)" using assms(4) False by (simp add: list_all_iff)
  then have obs: "read_sound n (opResult obs)" by (simp add: obs_def emptyObservation_def read_sound_inconclusive)
  then have retry: "gives (bindC (probeReads k tr ctx addr n d True) (\<lambda>r.
       case r of Inr e \<Rightarrow> returnC (Ok (obs\<lparr>opResult := newFailedReadResult n (Some e)\<rparr>))
       | Inl attempts \<Rightarrow> returnC (Ok (withFlags reps repeated
           (if 1 < length attempts \<and> \<not> allSame attempts
            then obs\<lparr>opResult := inconclusive ''retries produced mixed results'' (opResult obs)\<rparr> else obs)))))
      (\<lambda>obs. read_sound n (opResult obs))" for k d
    by (intro gives_bindC_safe [OF gives_mono [OF probeReads_gives [OF assms(1-3)]]] gives_sum gives_returnC)
      (auto simp: newFailedReadResult_sound [OF assms(3)] read_sound_inconclusive)
  have "length repeated \<noteq> 0" using False by simp
  then show ?thesis
    unfolding finishProbe_def obs_def [symmetric] Let_def
    by (simp only: if_False, intro gives_if retry gives_returnC) (use obs in auto)
qed

lemma probeOneOffset_gives:
  assumes "well_behaved tr" "0 \<le> n"
  shows "gives (probeOneOffset tr ctx req offset n) (\<lambda>obs. read_sound n (opResult obs))"
  unfolding probeOneOffset_def Let_def
proof (rule gives_bindC [OF probeReads_gives [OF assms(1) _ assms(2)]])
  fix r :: "ReadResult list + go_error"
  assume "case r of Inl rs \<Rightarrow> length rs = nat (max (rpRepeat req) 1) \<and> list_all (read_sound n) rs | Inr e \<Rightarrow> True"
  then show "gives (case r of
       Inr e \<Rightarrow> returnC (Ok ((emptyObservation (newFailedReadResult n (Some e)))\<lparr>opOffset := offset,
         opRequest := \<lparr>adArea = rpArea req, adDBNumber = rpDBNumber req, adStart = offset, adSize = n\<rparr>\<rparr>))
     | Inl repeated \<Rightarrow> finishProbe tr ctx req \<lparr>adArea = rpArea req, adDBNumber = rpDBNumber req, adStart = offset, adSize = n\<rparr>
         n (nat (max (rpRepeat req) 1)) repeated) (\<lambda>obs. read_sound n (opResult obs))"
    by (cases r) (auto intro!: gives_returnC finishProbe_gives assms simp: newFailedReadResult_sound [OF assms(2)] emptyObservation_def)
qed simp

definition probes_ok :: "RangeProbeRequest \<Rightarrow> int list \<Rightarrow> ReadProbeObservation list \<Rightarrow> bool" where
  "probes_ok req offsets obs \<longleftrightarrow> map opOffset obs = offsets \<and>
     map opRequest obs = map (\<lambda>off. \<lparr>adArea = rpArea req, adDBNumber = rpDBNumber req, adStart = off, adSize = probeSizeOf req\<rparr>) offsets \<and>
     list_all (\<lambda>x. read_sound (probeSizeOf req) (opResult x)) obs"

lemma probeOffsets_gives:
  assumes "well_behaved tr"
  shows "gives (probeOffsets tr ctx req offsets) (\<lambda>r. case r of Inl obs \<Rightarrow> probes_ok req offsets obs | Inr e \<Rightarrow> True)"
proof (induction offsets)
  case (Cons off offs)
  have n: "0 \<le> probeSizeOf req" by (simp add: probeSizeOf_def)
  have tail: "gives (bindC (probeOneOffset tr ctx req off (probeSizeOf req)) (\<lambda>obs. bindC (probeOffsets tr ctx req offs) (\<lambda>rest.
     returnC (Ok (case rest of Inr e \<Rightarrow> Inr e
       | Inl os \<Rightarrow> Inl (obs\<lparr>opOffset := off, opRequest := \<lparr>adArea = rpArea req, adDBNumber = rpDBNumber req,
           adStart = off, adSize = probeSizeOf req\<rparr>\<rparr> # os))))))
    (\<lambda>r. case r of Inl obs \<Rightarrow> probes_ok req (off # offs) obs | Inr e \<Rightarrow> True)"
    by (rule gives_bindC [OF probeOneOffset_gives [OF assms n]], rule gives_bindC [OF Cons.IH], rule gives_returnC)
      (auto simp: probes_ok_def split: sum.splits)
  show ?case
    unfolding probeOffsets.simps
    by (intro gives_bindC_safe [OF gives_tryC [OF gives_ctxErrC [OF assms]]] gives_sum tail gives_returnC) auto
qed (auto intro!: gives_returnC simp: probes_ok_def)

lemma offsetsFrom_range:
  assumes "0 < step"
  shows "set (offsetsFrom lo hi step) = {o1. lo \<le> o1 \<and> o1 < hi \<and> step dvd (o1 - lo)} \<and> sorted_wrt (<) (offsetsFrom lo hi step)"
  using assms
proof (induction lo hi step rule: offsetsFrom.induct)
  case (1 lo hi step)
  show ?case
  proof (cases "lo < hi")
    case True
    with 1 have IH: "set (offsetsFrom (lo + step) hi step) = {o1. lo + step \<le> o1 \<and> o1 < hi \<and> step dvd (o1 - (lo + step))}"
      "sorted_wrt (<) (offsetsFrom (lo + step) hi step)" by simp_all
    have "step dvd (o1 - (lo + step)) \<longleftrightarrow> step dvd (o1 - lo)" for o1
      by (metis diff_diff_eq dvd_diff_left_iff dvd_refl)
    moreover have "lo + step \<le> o1" if "lo \<le> o1" "step dvd (o1 - lo)" "o1 \<noteq> lo" for o1
      using that zdvd_imp_le [of step "o1 - lo"] by simp
    ultimately show ?thesis
      using True 1(2) IH by (auto simp: offsetsFrom.simps [of lo])
  next
    case False
    then show ?thesis by (auto simp: offsetsFrom.simps [of lo])
  qed
qed

lemma probeStep_pos: "0 < probeStep req"
  by (simp add: probeStep_def Let_def)

definition errless :: "('a, 'c, 'w) cop \<Rightarrow> bool" where
  "errless m \<longleftrightarrow> (\<forall>c w e. fst (m c w) \<noteq> Err e)"

lemma errless_returnC: "errless (returnC (Ok x))"
  by (simp add: errless_def returnC_def)

lemma errless_tryC: "errless (tryC m)"
  by (simp add: errless_def tryC_def split: prod.split res.split)

lemma errless_bindC:
  assumes "errless m" "\<And>x. errless (k x)"
  shows "errless (bindC m k)"
  unfolding errless_def
proof (intro allI)
  fix c w e
  obtain r c' w' where m: "m c w = (r, c', w')" by (cases "m c w")
  have "r \<noteq> Err e" using assms(1) [unfolded errless_def, rule_format, of c w e] by (simp add: m)
  then show "fst (bindC m k c w) \<noteq> Err e"
    using assms(2) by (cases r) (auto simp: bindC_def m errless_def)
qed

lemma errless_sum: "(\<And>x. errless (f x)) \<Longrightarrow> (\<And>y. errless (g y)) \<Longrightarrow> errless (case s of Inl x \<Rightarrow> f x | Inr y \<Rightarrow> g y)"
  by (cases s) simp_all

lemma errless_if: "errless a \<Longrightarrow> errless b \<Longrightarrow> errless (if p then a else b)"
  by simp

lemmas errless_intros = errless_returnC errless_tryC errless_bindC errless_sum errless_if

lemma probeReads_errless: "errless (probeReads n tr ctx addr k pause first)"
  by (induction n arbitrary: first) (auto intro!: errless_intros)

lemma probeOneOffset_errless: "errless (probeOneOffset tr ctx req off k)"
  unfolding probeOneOffset_def finishProbe_def Let_def
  by (intro errless_intros probeReads_errless)

lemma probeOffsets_errless: "errless (probeOffsets tr ctx req offs)"
  by (induction offs) (auto intro!: errless_intros probeOneOffset_errless)


text \<open>A context that never ends leaves no way to fail half-way.\<close>

lemma gives_errless_Ok:
  assumes "gives m P" "errless m"
  obtains x c' w' where "m c w = (Ok x, c', w')" "P x"
proof -
  obtain r c' w' where m: "m c w = (r, c', w')" by (cases "m c w")
  then show thesis
    using that [of _ c' w'] assms(1) [unfolded gives_def, rule_format, of c w] assms(2) [unfolded errless_def]
    by (cases r) (simp_all, metis fst_conv)
qed

lemma probeOffsets_completes:
  assumes "well_behaved tr" "\<And>w. fst (trCtxErr tr w ctx) = Ok ()"
  shows "\<exists>obs c' w'. probeOffsets tr ctx req offs c w = (Ok (Inl obs), c', w')"
proof (induction offs arbitrary: c w)
  case (Cons off offs)
  have "0 \<le> probeSizeOf req" by (simp add: probeSizeOf_def)
  then obtain obs c1 w1 where one: "probeOneOffset tr ctx req off (probeSizeOf req) c (snd (trCtxErr tr w ctx)) = (Ok obs, c1, w1)"
    using gives_errless_Ok [OF probeOneOffset_gives [OF assms(1)] probeOneOffset_errless] by metis
  obtain rest c2 w2 where "probeOffsets tr ctx req offs c1 w1 = (Ok (Inl rest), c2, w2)" using Cons.IH by blast
  moreover have "tryC (ctxErrC tr ctx) c w = (Ok (Inl ()), c, snd (trCtxErr tr w ctx))"
    using assms(2) [of w] by (cases "trCtxErr tr w ctx") (simp add: tryC_def ctxErrC_def)
  ultimately show ?case by (simp add: bindC_def one returnC_def)
qed (simp add: returnC_def)

definition demoScan :: RangeProbeRequest where
  "demoScan = \<lparr>rpArea = AreaDB, rpDBNumber = 1, rpStart = 0, rpEnd = 4, rpStep = 2, rpProbeSize = 2, rpRetries = 0,
     rpRetryDelay = 0, rpRepeat = 1, rpInterval = 0, rpParallelism = 0\<rparr>"

lemma demoScan_ok:
  "\<exists>out c' w'. ProbeReadableRanges (scripted\<lparr>trRead := \<lambda>w ctx c. (Ok [], w)\<rparr>) CallerCtx demoScan demoClient [] = (Ok (out, None), c', w')"
proof -
  have "\<exists>obs c' w'. probeOffsets (scripted\<lparr>trRead := \<lambda>w ctx c. (Ok [], w)\<rparr>) CallerCtx demoScan [0, 2] demoClient [] = (Ok (Inl obs), c', w')"
    by (rule probeOffsets_completes [OF scripted_well_behaved]) (simp add: scripted_def)
  moreover have "offsetsFrom 0 4 2 = [0, 2]" by (simp add: offsetsFrom.simps)
  moreover have "validateRangeProbeRequest demoScan = None" by (simp add: validateRangeProbeRequest_def demoScan_def)
  moreover have "rpStart demoScan = 0" "rpEnd demoScan = 4" "probeStep demoScan = 2" "clConn demoClient = Some ()"
    by (simp_all add: demoScan_def probeStep_def demoClient_def)
  ultimately show ?thesis
    by (auto simp: ProbeReadableRanges_def Let_def bindC_def returnC_def split: prod.split)
qed


text \<open>A gap between probes, when the step is larger than the probe size, is covered by the merged span: bytes that
  no probe read are reported as readable.\<close>

lemma ConsolidateSpans_covers_gaps:
  assumes "rsStatus (opResult a) = ReadStatusSuccess" "rsStatus (opResult b) = ReadStatusSuccess"
    "opOffset a = 0" "opOffset b = 10"
  shows "map (\<lambda>s. (spStart s, spEnd s)) (fst (ConsolidateSpans [a, b] 10 4)) = [(0, 14)]"
  using assms by (simp add: ConsolidateSpans_def spansOf.simps spanOf_def splitRun.simps Let_def split: prod.split)

text \<open>Retries never improve a probe: when every retry gives the same answer, the result is still that of the
  last repeated read.\<close>

lemma retries_keep_result:
  assumes "probeReads (nat (rpRetries req) + 1) tr ctx addr n (rpRetryDelay req) True c w = (Ok (Inl attempts), c', w')"
    "allSame attempts" "0 < rpRetries req"
  shows "\<exists>obs. finishProbe tr ctx req addr n 1 [r] c w = (Ok obs, c', w') \<and> opResult obs = r"
  using assms by (simp add: finishProbe_def Let_def bindC_def returnC_def emptyObservation_def withFlags_def)

section \<open>Comparing candidates: facts\<close>

lemma insensitive_iff:
  "insensitive rs \<longleftrightarrow> 2 \<le> length rs \<and> (\<exists>xs. \<forall>r\<in>set rs. rsStatus (ccResult r) = ReadStatusSuccess \<and> rsData (ccResult r) = xs)"
proof (cases "length rs < 2")
  case False
  then obtain r rest where rs: "rs = r # rest" by (cases rs) auto
  show ?thesis
    using False by (auto simp: insensitive_def rs list_all_iff find_None_iff split: option.split dest!: find_Some_iff [THEN iffD1])
qed (simp add: insensitive_def)

lemma closeAfter_facts: "closeAfter tr c x w = (Ok y, w') \<Longrightarrow> y = x"
  by (auto simp: closeAfter_def split: prod.splits res.splits)

lemma compareOne_facts:
  assumes "compareOne tr ctx req cand w = (Ok r, w')" "well_behaved tr" "0 \<le> cqSize req"
  shows "ccRack r = rkRack cand \<and> ccSlot r = rkSlot cand \<and> read_sound (cqSize req) (ccResult r)"
proof -
  define addr where "addr = \<lparr>adArea = cqArea req, adDBNumber = cqDBNumber req, adStart = cqOffset req, adSize = cqSize req\<rparr>"
  obtain x c1 w1 where x: "Connect tr (compareClient req cand) ctx w = (x, c1, w1)" by (metis prod_cases3)
  obtain y c2 w2 where y: "ReadArea tr c1 ctx addr w1 = (y, c2, w2)" by (metis prod_cases3)
  have "case y of Ok res \<Rightarrow> read_sound (cqSize req) res | Err e \<Rightarrow> True | Panic \<Rightarrow> False"
    using ReadArea_facts [OF assms(2), where c = c1 and ctx = ctx and addr = addr and w = w1]
    by (simp only: y prod.case) (simp add: addr_def split: res.splits)
  then show ?thesis
    using assms(1) newFailedReadResult_sound [OF assms(3)]
    by (auto simp: compareOne_def x y addr_def [symmetric] compareCandidateFailure_def split: res.splits dest!: closeAfter_facts)
qed

lemma compareAll_facts:
  assumes "compareAll tr ctx req cands w rs w'" "well_behaved tr" "0 \<le> cqSize req"
  shows "map (\<lambda>r. (ccRack r, ccSlot r)) rs = map (\<lambda>x. (rkRack x, rkSlot x)) cands \<and>
    list_all (\<lambda>r. read_sound (cqSize req) (ccResult r)) rs"
  using assms(1)
proof induction
  case (next_one cand w r w1 cands rs w2)
  then show ?case using compareOne_facts [OF next_one(1) assms(2,3)] by simp
qed (auto simp: compareCandidateFailure_def newFailedReadResult_sound [OF assms(3)] list_all_iff)

lemma validateCompareReadRequest_size: "validateCompareReadRequest req = None \<Longrightarrow> 0 \<le> cqSize req"
  by (simp add: validateCompareReadRequest_def split: if_splits)

text \<open>A comparison gives one result per candidate, in the order of the candidates and naming their rack and
  slot, each consistent with the read it reports. It calls the device insensitive to rack and slot exactly when
  there are at least two candidates and all of them read the same bytes successfully.\<close>

lemma CompareRead_verdict:
  assumes "CompareRead tr ctx req w (Ok out) w'" "well_behaved tr"
  shows "crRequest out = req \<and>
    map (\<lambda>r. (ccRack r, ccSlot r)) (crByCandidate out) = map (\<lambda>x. (rkRack x, rkSlot x)) (cqCandidates req) \<and>
    list_all (\<lambda>r. read_sound (cqSize req) (ccResult r)) (crByCandidate out) \<and>
    (crRackSlotInsensitive out \<longleftrightarrow> 2 \<le> length (cqCandidates req) \<and>
      (\<exists>xs. \<forall>r\<in>set (crByCandidate out). rsStatus (ccResult r) = ReadStatusSuccess \<and> rsData (ccResult r) = xs))"
  using assms(1)
proof cases
  case (compared rs)
  then have "map (\<lambda>r. (ccRack r, ccSlot r)) rs = map (\<lambda>x. (rkRack x, rkSlot x)) (cqCandidates req) \<and>
    list_all (\<lambda>r. read_sound (cqSize req) (ccResult r)) rs"
    using compareAll_facts [OF compared(5) assms(2) validateCompareReadRequest_size] by simp
  moreover from this have "length rs = length (cqCandidates req)" by (metis length_map)
  ultimately show ?thesis using compared(1) by (simp add: insensitive_iff)
qed simp

definition demoCompare :: CompareReadRequest where
  "demoCompare = \<lparr>cqAddress = ''plc'', cqPort = 0, cqCandidates = [\<lparr>rkRack = 0, rkSlot = 1\<rparr>, \<lparr>rkRack = 0, rkSlot = 2\<rparr>],
     cqArea = AreaDB, cqDBNumber = 1, cqOffset = 0, cqSize = 4, cqTimeout = 0, cqParallelism = 1\<rparr>"

lemma demoCompare_valid: "validateCompareReadRequest demoCompare = None"
  by (simp add: validateCompareReadRequest_def demoCompare_def is_blank_def wide_space_def ValidateRackSlot_def)

end
