(* ===== verification/Link_Scan.thy ===== *)
theory Link_Scan
  imports Link Client_Scan
begin

text \<open>
  Scans and comparisons against the server. The locale \<open>refusing_peer\<close> extends \<open>area_peer\<close> by a peer that
  answers every read outside its areas with an item code for a fault of the address; it is interpreted on the network of \<open>Link\<close>, whose
  server does so. On such a peer every read of one address has the same outcome, so a range scan shows which
  spans the server's memory holds, and a comparison of rack and slot candidates gives the verdict that the
  server's memory calls for.
\<close>

section \<open>Refused reads\<close>

abbreviation refusals :: "byte set" where
  "refusals \<equiv> {RetCodeAddressFault, RetCodeNotAvailable}"

lemma resolve_refused_code:
  assumes "addr_matches addr spec" "snd (resolve m spec) \<noteq> RetCodeSuccess"
  shows "snd (resolve m spec) \<in> refusals"
proof -
  have "vsTransportSize spec = TransportSizeByte" using assms(1) by (simp add: addr_matches_def)
  then show ?thesis using assms(2) by (auto simp: resolve_def elementSize_def Let_def split: if_splits res.splits option.splits)
qed

lemma resolve_addr_refused:
  assumes "addr_matches addr spec" "0 < saSize addr" "0 \<le> saStart addr"
    "\<not> timerOrCounter (saArea addr) \<Longrightarrow> \<nexists>xs. mem_read m (saArea addr) (saDBNumber addr) (saStart addr) (saSize addr) = Ok xs"
  shows "snd (resolve m spec) \<in> refusals"
proof (rule resolve_refused_code [OF assms(1)], rule notI)
  assume "snd (resolve m spec) = RetCodeSuccess"
  then obtain t where t: "resolve m spec = (t, RetCodeSuccess)" by (cases "resolve m spec") auto
  from assms(1) have f: "vsTransportSize spec = TransportSizeByte" "vsArea spec = saArea addr"
    "int (unat (vsDBNumber spec)) = saDBNumber addr" "int (unat (vsCount spec)) = saSize addr" "uint (vsStartBit spec) = 8 * saStart addr + 0"
    by (auto simp: addr_matches_def)
  have area: "\<not> timerOrCounter (saArea addr)"
    using t f(1,2) by (auto simp: resolve_def elementSize_def Let_def split: if_splits res.splits option.splits)
  obtain k r where kr: "keyOf (saArea addr) (saDBNumber addr) = Ok k" "m k = Some r" "tgStart t + tgSize t \<le> length (rgData r)"
    "tgSize t = elementSize TransportSizeByte * unat (vsCount spec)" "tgStart t = unat (drop_bit 3 (vsStartBit spec))"
    using resolve_success [OF t] area f by auto
  have "unat (drop_bit 3 (vsStartBit spec)) = nat (saStart addr)"
    using word_start [OF f(5) _ _ assms(3)] by simp
  then have "nat (saStart addr) + unat (vsCount spec) \<le> length (rgData r)" using kr(3-5) by (simp add: elementSize_def)
  then have "saStart addr + saSize addr \<le> int (length (rgData r))" using f(4) assms(3) by linarith
  then have "\<exists>xs. mem_read m (saArea addr) (saDBNumber addr) (saStart addr) (saSize addr) = Ok xs"
    using kr(1,2) assms(2,3) by (simp add: mem_read_eq_Ok)
  with assms(4) area show False by blast
qed

lemma session_read_refused:
  assumes "ParseReadVarRequest param = Ok [spec]" "vsSyntax spec = SyntaxIDS7Any"
    "resolve (svMem (ssSrv s)) spec = (t, code)" "code \<noteq> RetCodeSuccess" "18 \<le> ssPduSize s"
  shows "session_read s ref param = EncodeReadVarResponse ref [refusal code]"
proof -
  obtain ranges where "ParseReadVarDBRead param = Ok ranges"
    using ParseReadVarDBRead_length [OF assms(1)] by blast
  then show ?thesis using assms by (auto simp: session_read_def Let_def split: if_splits)
qed

lemma handle_read_refused:
  assumes req: "EncodeReadVarRequest ref [addr] = Ok req" and sz: "0 < saSize addr" "18 \<le> ssPduSize s"
    and mem: "\<not> timerOrCounter (saArea addr) \<Longrightarrow>
      \<nexists>xs. Server_Read (ssSrv s) (saArea addr) (saDBNumber addr) (saStart addr) (saSize addr) = Ok xs"
  shows "\<exists>out h param data item. handle s req = Ok ((out, True), s) \<and>
    ParseS7Header out = Ok (h, param @ data) \<and> PDURef h = ref \<and> ErrorClass h = 0 \<and> ErrorCode h = 0 \<and>
    unat (ParamLength h) = length param \<and> unat (DataLength h) = length data \<and>
    ParseReadVarResponse param data = Ok [item] \<and> ReturnCode item \<in> refusals \<and> length out = 18"
proof -
  from req obtain item where items: "encodeItems [addr] = Ok item"
    and e: "encodeMessage ROSCTRJob ref ([FuncReadVar, word_of_nat (length [addr])] @ item) [] = Ok req"
    by (auto simp: EncodeReadVarRequest_def bindR_eq_Ok split: if_splits)
  obtain spec where spec: "ParseReadVarRequest ([FuncReadVar, word_of_nat (length [addr])] @ item) = Ok [spec]"
      "addr_matches addr spec"
    using parseVarSpecs_encoded [OF items, of FuncReadVar] unfolding ParseReadVarRequest_def
    by (auto simp: list_all2_Cons1)
  obtain t code where r: "resolve (svMem (ssSrv s)) spec = (t, code)" by fastforce
  have "uint (vsStartBit spec) = 8 * saStart addr" using spec(2) by (simp add: addr_matches_def)
  then have "0 \<le> saStart addr" using uint_ge_0 [of "vsStartBit spec"] by linarith
  then have codes: "code \<in> refusals"
    using resolve_addr_refused [OF spec(2) sz(1), of "svMem (ssSrv s)"] mem r by (auto simp: Server_Read_def)
  then have code: "code \<noteq> RetCodeSuccess" by auto
  have "session_read s ref ([FuncReadVar, word_of_nat (length [addr])] @ item) = EncodeReadVarResponse ref [refusal code]"
    by (rule session_read_refused [OF spec(1) _ r code sz(2)]) (use spec(2) in \<open>simp add: addr_matches_def\<close>)
  moreover obtain out where out: "EncodeReadVarResponse ref [refusal code] = Ok out"
    using EncodeReadVarResponse_one [of "refusal code" ref] by auto
  ultimately have "handle s req = Ok ((out, True), s)"
    using answer_of_job [OF e] by (simp add: handle_framed [OF job_framed(1) [OF e]])
  moreover have "length out = 18" using EncodeReadVarResponse_length [OF out] by simp
  moreover obtain h param data where "ParseS7Header out = Ok (h, param @ data)" "PDURef h = ref" "ErrorClass h = 0"
      "ErrorCode h = 0" "unat (ParamLength h) = length param" "unat (DataLength h) = length data"
      "ParseReadVarResponse param data = Ok [item_of_result (refusal code)]"
    using ReadVarResponse_parsed [OF out] result_ok_refusal [OF code] by auto
  moreover have "ReturnCode (item_of_result (refusal code)) \<in> refusals"
    using codes by (simp add: item_of_result_def refusal_def)
  ultimately show ?thesis by blast
qed

lemma net_refuse_law:
  assumes "netReady w conn" "EncodeReadVarRequest ref [a] = Ok req" "int (length req) \<le> netLimit w conn"
    "0 < saSize a" "netGet w (saArea a) (saDBNumber a) (saStart a) (saSize a) = None"
  shows "\<exists>out param data item. netServe w conn req = Some (out, w) \<and> decodeReply out ref = Ok (param, data) \<and>
    ParseReadVarResponse param data = Ok [item] \<and> ReturnCode item \<in> refusals"
proof -
  obtain p where p: "ntConns w conn = Some (p, [])" "netLimit w conn = p" "p \<le> cfgMaxPDUSize (svCfg (ntSrv w))"
    using assms(1) by (rule netReady_facts)
  have "length req = 24"
    using assms(2) by (auto simp: EncodeReadVarRequest_def bindR_eq_Ok encodeMessage_eq_Ok EncodeS7Any_def split: if_splits)
  then have "18 \<le> p" using assms(3) p(2) by simp
  then obtain out h param data item where o: "handle (sess w p) req = Ok ((out, True), sess w p)"
    "ParseS7Header out = Ok (h, param @ data)" "PDURef h = ref" "ErrorClass h = 0" "ErrorCode h = 0"
    "unat (ParamLength h) = length param" "unat (DataLength h) = length data"
    "ParseReadVarResponse param data = Ok [item]" "ReturnCode item \<in> refusals" "length out = 18"
    using handle_read_refused [OF assms(2,4), of "sess w p"] assms(5) by (auto simp: netGet_def split: res.splits if_splits)
  have "decodeReply out ref = Ok (param, data)" using o(2-7,10) by (intro decodeReply_small) simp_all
  moreover have "netServe w conn req = Some (out, w)"
    using netServe_answer [OF p(1), of req out "ntSrv w"] o(1) assms(3) p(2,3) by simp
  ultimately show ?thesis using o(8,9) by blast
qed

lemma net_rd_join:
  assumes "netGet w area db s m = Some xs" "netGet w area db (s + m) n = Some ys"
  shows "netGet w area db s (m + n) = Some (xs @ ys)"
proof -
  have "take (nat (m + n)) (drop (nat s) d) = take (nat m) (drop (nat s) d) @ take (nat n) (drop (nat (s + m)) d)"
    if "0 \<le> s" "0 \<le> m" "0 \<le> n" for d :: bytes
    using that by (simp add: nat_add_distrib take_add add.commute)
  then show ?thesis using assms by (auto simp: netGet_eq_Some)
qed
section \<open>Reads that may be refused\<close>

text \<open>Reading leaves the connection and the negotiated size of the client as they are.\<close>

lemma fresh_ref_keeps:
  "clConn (snd (fresh_ref c)) = clConn c" "clPduSize (snd (fresh_ref c)) = clPduSize c"
  by (simp_all add: fresh_ref_def split: prod.split)

lemma readChunks_keeps:
  assumes "readChunks tr ctx addr n chunks first off xs c w = (r, c', w')"
  shows "clConn c' = clConn c \<and> clPduSize c' = clPduSize c"
  using assms
proof (induction chunks arbitrary: first off xs c w)
  case (Cons k ks)
  show ?case
    using Cons.prems fresh_ref_keeps [of c]
    by (auto simp: Let_def split: prod.splits res.splits sum.splits dest: Cons.IH)
qed simp

lemma ReadArea_keeps:
  assumes "ReadArea tr c ctx addr w = (r, c', w')"
  shows "clConn c' = clConn c \<and> clPduSize c' = clPduSize c"
  using assms by (auto simp: ReadArea_def Let_def dest: readChunks_keeps split: option.splits)

text \<open>Every read of an address ends with the same status and data and changes nothing.\<close>

definition steady :: "('w, 'r, 'c) transport \<Rightarrow> go_ctx \<Rightarrow> Address \<Rightarrow> 'w \<Rightarrow> 'c \<Rightarrow> int \<Rightarrow> ReadStatus \<Rightarrow> bytes \<Rightarrow> bool" where
  "steady tr ctx addr w conn lim st d \<longleftrightarrow> (\<forall>c. clConn c = Some conn \<and> clPduSize c = lim \<longrightarrow>
     (\<exists>r c'. ReadArea tr c ctx addr w = (Ok r, c', w) \<and> rsStatus r = st \<and> rsData r = d \<and>
       (st = ReadStatusRejected \<longrightarrow> rsReturnCode r \<in> refusals)))"

text \<open>A peer that also answers every request outside its areas, with an item code for a fault of the address.\<close>

locale refusing_peer = area_peer tr serve ready rd wr limit
  for tr :: "('w, 'r, 'c) transport" and serve and ready and rd and wr and limit +
  assumes refuse_law: "ready w conn \<Longrightarrow> EncodeReadVarRequest ref [a] = Ok req \<Longrightarrow>
      int (length req) \<le> limit w conn \<Longrightarrow> 0 < saSize a \<Longrightarrow>
      rd w (saArea a) (saDBNumber a) (saStart a) (saSize a) = None \<Longrightarrow>
      \<exists>out param data item. serve w conn req = Some (out, w) \<and> decodeReply out ref = Ok (param, data) \<and>
        ParseReadVarResponse param data = Ok [item] \<and> ReturnCode item \<in> refusals"
    and rd_join: "rd w area db s m = Some xs \<Longrightarrow> rd w area db (s + m) n = Some ys \<Longrightarrow>
      rd w area db s (m + n) = Some (xs @ ys)"
begin

lemma readChunks_refused_step:
  assumes "ready w conn" "clConn c = Some conn" "clPduSize c = limit w conn" "1 \<le> k" "24 + k \<le> limit w conn"
    "k \<le> MaxS7AnyCount" "0 \<le> adDBNumber addr" "adDBNumber addr \<le> MaxS7AnyDBNumber"
    "0 \<le> off" "off \<le> MaxS7AnyByteOffset" "rd w (adArea addr) (adDBNumber addr) off k = None"
  shows "\<exists>r c'. readChunks tr ctx addr n (k # ks) first off xs c w = (Ok r, c', w) \<and> rsStatus r = ReadStatusRejected \<and> rsReturnCode r \<in> refusals \<and> rsData r = xs"
proof -
  obtain ref c' where ref: "fresh_ref c = (ref, c')" by fastforce
  then have c': "clConn c' = Some conn" "clPduSize c' = limit w conn"
    using assms(2,3) fresh_ref_keeps [of c] by simp_all
  define a where "a = \<lparr>saArea = adArea addr, saDBNumber = adDBNumber addr, saStart = off, saSize = k\<rparr>"
  have a: "saSize a = k" "saArea a = adArea addr" "saDBNumber a = adDBNumber addr" "saStart a = off"
    by (simp_all add: a_def)
  obtain req where req: "EncodeReadVarRequest ref [a] = Ok req" "length req = 24"
    using EncodeReadVarRequest_total [of a ref] assms(4-10) by (auto simp: a)
  have l: "int (length req) \<le> limit w conn" "0 < saSize a" using assms(4,5) req(2) by (simp_all add: a)
  obtain out param data item where out: "serve w conn req = Some (out, w)" "decodeReply out ref = Ok (param, data)"
    and item: "ParseReadVarResponse param data = Ok [item]" "ReturnCode item \<in> refusals"
    using refuse_law [OF assms(1) req(1) l] assms(11) unfolding a by metis
  have "sendReceive tr c' ctx req ref w = (Ok (param, data), w)"
    using sendReceive_serve [OF c'(1) assms(1) out(1)] l(1) c'(2) out(2) by simp
  moreover obtain e where "ReturnCodeError (ReturnCode item) = Some e"
    using item(2) by (auto simp: ReturnCodeError_def)
  then have "\<exists>r. readItem n k xs param data = Ok (Inl r) \<and> rsStatus r = ReadStatusRejected \<and> rsReturnCode r \<in> refusals \<and> rsData r = xs"
    using item by (simp add: readItem_def idx_def stopRead_def)
  ultimately show ?thesis using req(1) by (auto simp: ratePause_over ref a_def)
qed

lemma readChunks_refused:
  assumes "ready w conn" "\<forall>k \<in> set chunks. 1 \<le> k \<and> 24 + k \<le> limit w conn \<and> k \<le> MaxS7AnyCount"
    "0 \<le> adDBNumber addr" "adDBNumber addr \<le> MaxS7AnyDBNumber"
    "0 \<le> off" "off + sum_list chunks \<le> MaxS7AnyByteOffset + 1"
    "rd w (adArea addr) (adDBNumber addr) off (sum_list chunks) = None" "chunks \<noteq> []"
  shows "\<exists>d. \<forall>(c :: 'c Client) first xs. clConn c = Some conn \<and> clPduSize c = limit w conn \<longrightarrow>
    (\<exists>r c'. readChunks tr ctx addr n chunks first off xs c w = (Ok r, c', w) \<and> rsStatus r = ReadStatusRejected \<and> rsReturnCode r \<in> refusals \<and> rsData r = xs @ d)"
  using assms
proof (induction chunks arbitrary: off)
  case (Cons k ks)
  have nonneg: "0 \<le> sum_list ks" using Cons.prems(2) by (intro sum_list_nonneg) auto
  have k: "1 \<le> k" "24 + k \<le> limit w conn" "k \<le> MaxS7AnyCount" using Cons.prems(2) by auto
  have off: "off \<le> MaxS7AnyByteOffset" using Cons.prems(6) nonneg k(1) by simp
  show ?case
  proof (cases "rd w (adArea addr) (adDBNumber addr) off k")
    case None
    show ?thesis
      by (intro exI [of _ "[]"] allI impI)
        (use readChunks_refused_step [OF Cons.prems(1) _ _ k Cons.prems(3-5) off None] in fastforce)
  next
    case (Some ys)
    have rest: "rd w (adArea addr) (adDBNumber addr) (off + k) (sum_list ks) = None"
      using rd_join [OF Some] Cons.prems(7) by (cases "rd w (adArea addr) (adDBNumber addr) (off + k) (sum_list ks)") auto
    have "ks \<noteq> []" using Some Cons.prems(7) by auto
    then obtain d where d: "\<forall>(c :: 'c Client) first xs. clConn c = Some conn \<and> clPduSize c = limit w conn \<longrightarrow>
      (\<exists>r c'. readChunks tr ctx addr n ks first (off + k) xs c w = (Ok r, c', w) \<and> rsStatus r = ReadStatusRejected \<and> rsReturnCode r \<in> refusals \<and> rsData r = xs @ d)"
      using Cons.IH [of "off + k"] Cons.prems rest k(1) by (auto simp: add.assoc)
    show ?thesis
    proof (intro exI [of _ "ys @ d"] allI impI)
      fix c :: "'c Client" and first xs
      assume c: "clConn c = Some conn \<and> clPduSize c = limit w conn"
      then obtain c1 where c1: "clConn c1 = clConn c" "clPduSize c1 = clPduSize c"
        "readChunks tr ctx addr n (k # ks) first off xs c w = readChunks tr ctx addr n ks False (off + k) (xs @ ys) c1 w"
        using readChunks_step [OF Cons.prems(1) _ _ k Cons.prems(3-5) off Some] by metis
      show "\<exists>r c'. readChunks tr ctx addr n (k # ks) first off xs c w = (Ok r, c', w) \<and>
          rsStatus r = ReadStatusRejected \<and> rsReturnCode r \<in> refusals \<and> rsData r = xs @ ys @ d"
        unfolding c1(3) using d [rule_format, of c1 False "xs @ ys"] c c1(1,2) by simp
    qed
  qed
qed simp

text \<open>A read gives the peer's bytes or is rejected.\<close>

lemma ReadArea_steady:
  assumes "ready w conn" "25 \<le> limit w conn" "limit w conn \<le> 65535" "validateAddress addr = None"
    "validateRangeEnd (adStart addr) (adSize addr) = None" "0 < adSize addr"
  shows "case rd w (adArea addr) (adDBNumber addr) (adStart addr) (adSize addr) of
      Some ys \<Rightarrow> steady tr ctx addr w conn (limit w conn) ReadStatusSuccess ys
    | None \<Rightarrow> \<exists>d. steady tr ctx addr w conn (limit w conn) ReadStatusRejected d"
proof (cases "rd w (adArea addr) (adDBNumber addr) (adStart addr) (adSize addr)")
  case (Some ys)
  have "\<exists>c'. ReadArea tr c ctx addr w = (Ok (finishRead (adSize addr) ys), c', w)"
    if "clConn c = Some conn" "clPduSize c = limit w conn" for c
    using ReadArea_peer [OF assms(1) that assms(2-5) Some] .
  moreover have "rsStatus (finishRead (adSize addr) ys) = ReadStatusSuccess" "rsData (finishRead (adSize addr) ys) = ys"
    using rd_length [OF Some] by (simp_all add: finishRead_def ClassifyReadOutcome_def Let_def)
  ultimately show ?thesis using Some by (fastforce simp: steady_def)
next
  case None
  let ?k = "limit w conn - 24"
  have v: "0 \<le> adStart addr" "0 \<le> adDBNumber addr" "adDBNumber addr \<le> MaxS7AnyDBNumber"
    using assms(4) by (simp_all add: validateAddress_eq_None)
  have e: "adStart addr + adSize addr \<le> MaxS7AnyByteOffset + 1"
    using assms(5) by (simp add: validateRangeEnd_def split: if_splits)
  have s: "sum_list (planReadChunks (adSize addr) ?k) = adSize addr"
    using planReadChunks_props(1) [of "adSize addr" ?k] assms(6) by simp
  then have "planReadChunks (adSize addr) ?k \<noteq> []" using assms(6) by force
  moreover have "\<forall>k \<in> set (planReadChunks (adSize addr) ?k). 1 \<le> k \<and> 24 + k \<le> limit w conn \<and> k \<le> MaxS7AnyCount"
    using planReadChunks_max [of ?k _ "adSize addr"] assms(2,3) by fastforce
  ultimately obtain d where d: "\<forall>(c :: 'c Client) first xs. clConn c = Some conn \<and> clPduSize c = limit w conn \<longrightarrow>
      (\<exists>r c'. readChunks tr ctx addr (adSize addr) (planReadChunks (adSize addr) ?k) first (adStart addr) xs c w = (Ok r, c', w) \<and>
        rsStatus r = ReadStatusRejected \<and> rsReturnCode r \<in> refusals \<and> rsData r = xs @ d)"
    using readChunks_refused [OF assms(1), of "planReadChunks (adSize addr) ?k" addr "adStart addr" ctx "adSize addr"] v e s None by auto
  have "steady tr ctx addr w conn (limit w conn) ReadStatusRejected d"
    unfolding steady_def
  proof (intro allI impI)
    fix c :: "'c Client"
    assume c: "clConn c = Some conn \<and> clPduSize c = limit w conn"
    then have "ReadArea tr c ctx addr w =
        readChunks tr ctx addr (adSize addr) (planReadChunks (adSize addr) ?k) True (adStart addr) [] c w"
      using assms(2,4,5,6) by (simp add: ReadArea_def Let_def)
    then show "\<exists>r c'. ReadArea tr c ctx addr w = (Ok r, c', w) \<and> rsStatus r = ReadStatusRejected \<and> rsData r = d \<and>
        (ReadStatusRejected = ReadStatusRejected \<longrightarrow> rsReturnCode r \<in> refusals)"
      using d [rule_format, OF c, of True "[]"] by auto
  qed
  then show ?thesis using None by auto
qed

end

interpretation refusing_net: refusing_peer netTransport netServe netReady netGet netPut netLimit
  by unfold_locales (rule net_refuse_law net_rd_join; assumption)+
section \<open>Scanning the server\<close>

lemma steadyE:
  assumes "steady tr ctx addr w conn lim st d" "clConn c = Some conn" "clPduSize c = lim"
  obtains r c' where "ReadArea tr c ctx addr w = (Ok r, c', w)" "rsStatus r = st" "rsData r = d"
    "clConn c' = Some conn" "clPduSize c' = lim" "st = ReadStatusRejected \<Longrightarrow> rsReturnCode r \<in> refusals"
  using assms ReadArea_keeps unfolding steady_def by metis

context exchange
begin

lemma probeReads_steady:
  assumes "steady tr ctx addr w conn lim st d" "clConn c = Some conn" "clPduSize c = lim"
  shows "\<exists>rs c'. probeReads k tr ctx addr n pause first c w = (Ok (Inl rs), c', w) \<and> length rs = k \<and>
    (\<forall>r\<in>set rs. rsStatus r = st \<and> rsData r = d) \<and> clConn c' = Some conn \<and> clPduSize c' = lim"
  using assms(2,3)
proof (induction k arbitrary: first c)
  case (Suc k)
  obtain r c1 where r: "ReadArea tr c ctx addr w = (Ok r, c1, w)" "rsStatus r = st" "rsData r = d"
    "clConn c1 = Some conn" "clPduSize c1 = lim"
    using assms(1) Suc.prems by (rule steadyE)
  obtain rs c2 where rs: "probeReads k tr ctx addr n pause False c1 w = (Ok (Inl rs), c2, w)" "length rs = k"
    "\<forall>r\<in>set rs. rsStatus r = st \<and> rsData r = d" "clConn c2 = Some conn" "clPduSize c2 = lim"
    using Suc.IH [OF r(4,5), of False] by blast
  show ?case
    using r rs by (simp add: bindC_def tryC_def returnC_def ctxErrC_def sleepC_def readC_def ctx_live sleep_over)
qed (simp add: returnC_def)

lemma allSame_steady: "\<forall>r\<in>set rs. rsStatus r = st \<and> rsData r = d \<Longrightarrow> allSame rs"
  by (cases rs) (auto simp: allSame_def sameResult_def list_all_iff)

lemma probeOneOffset_steady:
  assumes "steady tr ctx \<lparr>adArea = rpArea req, adDBNumber = rpDBNumber req, adStart = off, adSize = n\<rparr> w conn lim st d"
    "clConn c = Some conn" "clPduSize c = lim"
  shows "\<exists>obs c'. probeOneOffset tr ctx req off n c w = (Ok obs, c', w) \<and> rsStatus (opResult obs) = st \<and>
    rsData (opResult obs) = d \<and> clConn c' = Some conn \<and> clPduSize c' = lim"
proof -
  let ?addr = "\<lparr>adArea = rpArea req, adDBNumber = rpDBNumber req, adStart = off, adSize = n\<rparr>"
  let ?k = "nat (max (rpRepeat req) 1)"
  obtain rs c1 where rs: "probeReads ?k tr ctx ?addr n (rpInterval req) True c w = (Ok (Inl rs), c1, w)" "length rs = ?k"
      "\<forall>r\<in>set rs. rsStatus r = st \<and> rsData r = d" "clConn c1 = Some conn" "clPduSize c1 = lim"
    using probeReads_steady [OF assms, of ?k n "rpInterval req" True] by blast
  define k' where "k' = nat (rpRetries req) + 1"
  obtain at c2 where at: "probeReads k' tr ctx ?addr n (rpRetryDelay req) True c1 w = (Ok (Inl at), c2, w)"
      "\<forall>r\<in>set at. rsStatus r = st \<and> rsData r = d" "clConn c2 = Some conn" "clPduSize c2 = lim"
    using probeReads_steady [OF assms(1) rs(4,5), of k' n "rpRetryDelay req" True] by blast
  have "rs \<noteq> []" using rs(2) by auto
  then have l: "rsStatus (last rs) = st" "rsData (last rs) = d" using rs(3) by auto
  have "\<exists>obs c'. finishProbe tr ctx req ?addr n ?k rs c1 w = (Ok obs, c', w) \<and> rsStatus (opResult obs) = st \<and>
      rsData (opResult obs) = d \<and> clConn c' = Some conn \<and> clPduSize c' = lim"
    unfolding finishProbe_def Let_def k'_def [symmetric]
    using \<open>rs \<noteq> []\<close> l rs(4,5) at(3,4) allSame_steady [OF rs(3)] allSame_steady [OF at(2)]
    by (cases "0 < rpRetries req") (simp_all add: bindC_def at(1) returnC_def emptyObservation_def)
  then show ?thesis
    by (simp add: probeOneOffset_def Let_def bindC_def rs(1))
qed

text \<open>One probe per offset, when every probe is steady.\<close>

lemma probeOffsets_steady:
  assumes "\<And>i. i \<in> set offs \<Longrightarrow> \<exists>st d. P i st d \<and>
      steady tr ctx \<lparr>adArea = rpArea req, adDBNumber = rpDBNumber req, adStart = i, adSize = probeSizeOf req\<rparr> w conn lim st d"
    "clConn c = Some conn" "clPduSize c = lim"
  shows "\<exists>obs c'. probeOffsets tr ctx req offs c w = (Ok (Inl obs), c', w) \<and> map opOffset obs = offs \<and>
    (\<forall>x\<in>set obs. P (opOffset x) (rsStatus (opResult x)) (rsData (opResult x)))"
  using assms
proof (induction offs arbitrary: c)
  case (Cons off offs)
  obtain st d where sd: "P off st d"
    "steady tr ctx \<lparr>adArea = rpArea req, adDBNumber = rpDBNumber req, adStart = off, adSize = probeSizeOf req\<rparr> w conn lim st d"
    using Cons.prems(1) [of off] by auto
  obtain x c1 where x: "probeOneOffset tr ctx req off (probeSizeOf req) c w = (Ok x, c1, w)" "rsStatus (opResult x) = st"
      "rsData (opResult x) = d" "clConn c1 = Some conn" "clPduSize c1 = lim"
    using probeOneOffset_steady [OF sd(2) Cons.prems(2,3)] by blast
  obtain obs c2 where obs: "probeOffsets tr ctx req offs c1 w = (Ok (Inl obs), c2, w)" "map opOffset obs = offs"
      "\<forall>x\<in>set obs. P (opOffset x) (rsStatus (opResult x)) (rsData (opResult x))"
    using Cons.IH [OF Cons.prems(1) x(4,5)] by auto
  show ?case
    using sd(1) x obs by (simp add: bindC_def tryC_def ctxErrC_def ctx_live returnC_def)
qed (simp add: returnC_def)

end


definition demoRange :: RangeProbeRequest where
  "demoRange = \<lparr>rpArea = AreaDB, rpDBNumber = 1, rpStart = 0, rpEnd = 6, rpStep = 2, rpProbeSize = 2, rpRetries = 1,
     rpRetryDelay = 0, rpRepeat = 2, rpInterval = 0, rpParallelism = 0\<rparr>"

section \<open>Comparing candidates on the server\<close>

inductive_simps compareAll_Nil: "compareAll tr ctx req [] w rs w'"
inductive_simps compareAll_Cons: "compareAll tr ctx req (cand # cands) w rs w'"
inductive_simps CompareRead_simps: "CompareRead tr ctx req w out w'"

abbreviation compareAddress :: "CompareReadRequest \<Rightarrow> Address" where
  "compareAddress req \<equiv> \<lparr>adArea = cqArea req, adDBNumber = cqDBNumber req, adStart = cqOffset req, adSize = cqSize req\<rparr>"

text \<open>What a candidate's result says of the server's memory.\<close>

definition shows_memory :: "net \<Rightarrow> CompareReadRequest \<Rightarrow> CompareReadCandidate \<Rightarrow> bool" where
  "shows_memory w req r \<longleftrightarrow> (case netGet w (cqArea req) (cqDBNumber req) (cqOffset req) (cqSize req) of
      Some ys \<Rightarrow> rsStatus (ccResult r) = ReadStatusSuccess \<and> rsData (ccResult r) = ys
    | None \<Rightarrow> rsStatus (ccResult r) = ReadStatusRejected)"

lemma compareClient_facts:
  "clConn (compareClient req cand) = None" "optMaxPDU (clOpts (compareClient req cand)) = 480"
  "cqPort req \<in> {0..65535} \<Longrightarrow> 0 \<le> cqTimeout req \<Longrightarrow> ValidateRackSlot (rkRack cand) (rkSlot cand) = None \<Longrightarrow>
    options_ok (clOpts (compareClient req cand))"
  by (simp_all add: compareClient_def Client_New_def defaultOptions_def WithPort_def WithRackSlot_def WithTimeoutOption_def options_ok_def)

lemma compareOne_net:
  assumes "server_ok (ntSrv w)" "cqPort req \<in> {0..65535}" "0 \<le> cqTimeout req"
    "ValidateRackSlot (rkRack cand) (rkSlot cand) = None" "validateAddress (compareAddress req) = None"
    "validateRangeEnd (cqOffset req) (cqSize req) = None" "0 < cqSize req"
  shows "\<exists>r w'. compareOne netTransport ctx req cand w = (Ok r, w') \<and> ntSrv w' = ntSrv w \<and> ntNext w' = ntNext w + 1 \<and>
    ntConns w' = (ntConns w)(ntNext w := None) \<and> shows_memory w req r \<and> ccRack r = rkRack cand \<and> ccSlot r = rkSlot cand"
proof -
  obtain c1 w1 where c1: "Connect netTransport (compareClient req cand) ctx w = (Ok (), c1, w1)"
      "connected (compareClient req cand) w c1 w1"
    using Connect_net [OF assms(1) compareClient_facts(3) [OF assms(2-4)]] compareClient_facts(1) by (metis option.distinct(1))
  then have w1: "clConn c1 = Some (ntNext w)" "netReady w1 (ntNext w)" "clPduSize c1 = netLimit w1 (ntNext w)"
    "netLimit w1 (ntNext w) = min 480 (cfgMaxPDUSize (svCfg (ntSrv w)))" "ntSrv w1 = ntSrv w" "ntNext w1 = ntNext w + 1"
    "\<And>conn. conn = ntNext w \<or> ntConns w1 conn = ntConns w conn"
    by (simp_all add: connected_def compareClient_facts)
  have "MinPDUSize \<le> cfgMaxPDUSize (svCfg (ntSrv w))" using assms(1) by (simp add: server_ok_def)
  then have lim: "25 \<le> netLimit w1 (ntNext w)" "netLimit w1 (ntNext w) \<le> 65535" using w1(4) by simp_all
  have get: "netGet w1 a b s n = netGet w a b s n" for a b s n by (simp add: netGet_def w1(5))
  obtain st d where sd: "steady netTransport ctx (compareAddress req) w1 (ntNext w) (netLimit w1 (ntNext w)) st d"
      "case netGet w (cqArea req) (cqDBNumber req) (cqOffset req) (cqSize req) of
         Some ys \<Rightarrow> st = ReadStatusSuccess \<and> d = ys | None \<Rightarrow> st = ReadStatusRejected"
    using refusing_net.ReadArea_steady [OF w1(2) lim, of "compareAddress req" ctx] assms(5-7)
    by (auto simp: get split: option.splits)
  obtain res c2 where res: "ReadArea netTransport c1 ctx (compareAddress req) w1 = (Ok res, c2, w1)" "rsStatus res = st"
      "rsData res = d" "clConn c2 = Some (ntNext w)"
    using sd(1) w1(1,3) by (rule steadyE)
  define w2 where "w2 = w1\<lparr>ntConns := (ntConns w1)(ntNext w := None)\<rparr>"
  have "Client_Close netTransport c2 w1 = (Ok (), fst (snd (Client_Close netTransport c2 w1)), w2)"
    using res(4) by (simp add: Client_Close_def closeConnLocked_def closeCOTP_def Let_def w2_def)
  then have "closeAfter netTransport c2 x w1 = (Ok x, w2)" for x :: CompareReadCandidate
    by (metis (no_types, lifting) closeAfter_def prod.case res.case(1))
  moreover have "ntConns w2 = (ntConns w)(ntNext w := None)" using w1(7) by (auto simp: w2_def fun_eq_iff)
  moreover have "shows_memory w req \<lparr>ccRack = rkRack cand, ccSlot = rkSlot cand, ccResult = res\<rparr>"
    using sd(2) res(2,3) by (simp add: shows_memory_def split: option.splits)
  ultimately show ?thesis
    using c1(1) res(1) w1(5,6) by (simp add: compareOne_def w2_def)
qed

lemma invalidCandidate_None:
  "invalidCandidate i cands = None \<Longrightarrow> cand \<in> set cands \<Longrightarrow> ValidateRackSlot (rkRack cand) (rkSlot cand) = None"
  by (induction i cands rule: invalidCandidate.induct) (auto split: option.splits)

lemma shows_memory_cong: "ntSrv w' = ntSrv w \<Longrightarrow> shows_memory w' req r = shows_memory w req r"
  by (simp add: shows_memory_def netGet_def)

lemma compareAll_net:
  assumes "server_ok (ntSrv w)" "cqPort req \<in> {0..65535}" "0 \<le> cqTimeout req"
    "\<And>cand. cand \<in> set cands \<Longrightarrow> ValidateRackSlot (rkRack cand) (rkSlot cand) = None"
    "validateAddress (compareAddress req) = None" "validateRangeEnd (cqOffset req) (cqSize req) = None" "0 < cqSize req"
  shows "\<exists>rs w'. (\<forall>rs' w''. compareAll netTransport ctx req cands w rs' w'' \<longleftrightarrow> rs' = rs \<and> w'' = w') \<and>
    map (\<lambda>r. (ccRack r, ccSlot r)) rs = map (\<lambda>x. (rkRack x, rkSlot x)) cands \<and> list_all (shows_memory w req) rs \<and> ntSrv w' = ntSrv w \<and>
    (\<forall>conn. ntConns w' conn = (if conn \<in> {ntNext w ..< ntNext w + length cands} then None else ntConns w conn))"
  using assms(1,4)
proof (induction cands arbitrary: w)
  case Nil
  then show ?case by (intro exI [of _ "[]"] exI [of _ w]) (auto simp: compareAll_Nil)
next
  case (Cons cand cands)
  have v: "ValidateRackSlot (rkRack cand) (rkSlot cand) = None" by (rule Cons.prems(2)) simp
  obtain r w1 where r: "compareOne netTransport ctx req cand w = (Ok r, w1)" "ntSrv w1 = ntSrv w" "ntNext w1 = ntNext w + 1"
      "ntConns w1 = (ntConns w)(ntNext w := None)" "shows_memory w req r"
      "ccRack r = rkRack cand" "ccSlot r = rkSlot cand"
    using compareOne_net [OF Cons.prems(1) assms(2,3) v assms(5-7)] by blast
  have "server_ok (ntSrv w1)" using r(2) Cons.prems(1) by simp
  then obtain rs w2 where rs: "\<And>rs' w''. compareAll netTransport ctx req cands w1 rs' w'' \<longleftrightarrow> rs' = rs \<and> w'' = w2"
      "map (\<lambda>r. (ccRack r, ccSlot r)) rs = map (\<lambda>x. (rkRack x, rkSlot x)) cands" "list_all (shows_memory w1 req) rs" "ntSrv w2 = ntSrv w1"
      "\<And>conn. ntConns w2 conn = (if conn \<in> {ntNext w1 ..< ntNext w1 + length cands} then None else ntConns w1 conn)"
    using Cons.IH [of w1] Cons.prems(2) by auto
  have "\<forall>rs' w''. compareAll netTransport ctx req (cand # cands) w rs' w'' \<longleftrightarrow> rs' = r # rs \<and> w'' = w2"
    by (auto simp: compareAll_Cons r(1) rs(1))
  moreover have "ntConns w2 conn = (if conn \<in> {ntNext w ..< ntNext w + length (cand # cands)} then None else ntConns w conn)" for conn
    unfolding rs(5) r(3,4) by auto
  moreover have "list_all (shows_memory w req) (r # rs)"
    using r(5) rs(3) by (simp add: list_all_iff shows_memory_cong [OF r(2)])
  moreover have "ntSrv w2 = ntSrv w" using rs(4) r(2) by simp
  ultimately show ?case using rs(2) r(6,7) by (intro exI [of _ "r # rs"] exI [of _ w2]) simp
qed

text \<open>Comparing candidates on the server never misleads: the server ignores rack and slot, so a comparison of
  two or more valid candidates on a readable span reports the device as insensitive to them, every candidate with
  the bytes of the host-side read, and one on an unreadable span does not. It always returns, its outcome is
  determined, it leaves the memory as it is and closes the connections it opened.\<close>

lemma compare_shows_memory:
  assumes "server_ok (ntSrv w)" "validateCompareReadRequest req = None" "cqParallelism req \<le> 1" "cqPort req \<le> 65535"
    "validateAddress (compareAddress req) = None" "validateRangeEnd (cqOffset req) (cqSize req) = None" "0 < cqSize req"
  shows "\<exists>out w'. (\<forall>res w''. CompareRead netTransport ctx req w res w'' \<longleftrightarrow> res = Ok out \<and> w'' = w') \<and>
    ntSrv w' = ntSrv w \<and>
    (\<forall>conn. ntConns w' conn =
       (if conn \<in> {ntNext w ..< ntNext w + length (cqCandidates req)} then None else ntConns w conn)) \<and>
    map (\<lambda>r. (ccRack r, ccSlot r)) (crByCandidate out) = map (\<lambda>x. (rkRack x, rkSlot x)) (cqCandidates req) \<and>
    list_all (shows_memory w req) (crByCandidate out) \<and>
    (crRackSlotInsensitive out \<longleftrightarrow> 2 \<le> length (cqCandidates req) \<and>
       netGet w (cqArea req) (cqDBNumber req) (cqOffset req) (cqSize req) \<noteq> None)"
proof -
  have v: "0 \<le> cqPort req" "0 \<le> cqTimeout req" "invalidCandidate 0 (cqCandidates req) = None"
    using assms(2) by (simp_all add: validateCompareReadRequest_def split: if_splits)
  obtain rs w' where rs: "\<And>rs' w''. compareAll netTransport ctx req (cqCandidates req) w rs' w'' \<longleftrightarrow> rs' = rs \<and> w'' = w'"
      "map (\<lambda>r. (ccRack r, ccSlot r)) rs = map (\<lambda>x. (rkRack x, rkSlot x)) (cqCandidates req)" "list_all (shows_memory w req) rs" "ntSrv w' = ntSrv w"
      "\<forall>conn. ntConns w' conn =
        (if conn \<in> {ntNext w ..< ntNext w + length (cqCandidates req)} then None else ntConns w conn)"
    using compareAll_net [OF assms(1) _ v(2) invalidCandidate_None [OF v(3)] assms(5-7), where ctx = ctx and cands = "cqCandidates req"] v(1) assms(4) by auto
  have len: "length rs = length (cqCandidates req)" using rs(2) by (metis length_map)
  define out where "out = \<lparr>crRequest = req, crByCandidate = rs, crRackSlotInsensitive = insensitive rs\<rparr>"
  have "(CompareRead netTransport ctx req w res w'' \<longleftrightarrow> res = Ok out \<and> w'' = w')" for res w''
  proof (cases "cqCandidates req = []")
    case True
    then have "rs = []" "w' = w" using rs(1) [of "[]" w] by (auto simp: compareAll_Nil)
    then show ?thesis using True assms(2) by (auto simp: CompareRead_simps out_def insensitive_def)
  next
    case False
    then show ?thesis using assms(2,3) by (auto simp: CompareRead_simps out_def rs(1))
  qed
  moreover have "insensitive rs \<longleftrightarrow> 2 \<le> length (cqCandidates req) \<and>
      netGet w (cqArea req) (cqDBNumber req) (cqOffset req) (cqSize req) \<noteq> None"
  proof (cases rs)
    case Nil
    then show ?thesis using len by (simp add: insensitive_def)
  next
    case (Cons r rest)
    then show ?thesis
      using len rs(3) by (auto simp: insensitive_iff shows_memory_def list_all_iff split: option.splits)
  qed
  ultimately show ?thesis using rs(2-5) by (intro exI [of _ out] exI [of _ w']) (simp add: out_def)
qed

end
