(* ===== verification/Client_Probe.thy ===== *)
theory Client_Probe
  imports Client_Scan "HOL-Library.Sublist"
begin

text \<open>
  The rack and slot probe (\<^verbatim>\<open>client/probe.go\<close>): the request and its defaults, the probe of one candidate with its
  classification, and the loop of \<^verbatim>\<open>ProbeRackSlots\<close> with its goroutines as a step relation. A candidate is
  probed over the transport record; the random source of the jitter is a parameter. What one goroutine
  sees of the network while others run is left open: in the step relation the outcome of a probe is any candidate
  that \<open>probeOne\<close> gives on some network.
\<close>

section \<open>Requests and candidates\<close>

type_synonym SafetyMode = string
type_synonym ProbeStage = string
type_synonym ProbeStatus = string
type_synonym ConfirmationKind = string
type_synonym Confidence = string

abbreviation SafetyConservative :: SafetyMode where "SafetyConservative \<equiv> ''conservative''"
abbreviation SafetyNormal :: SafetyMode where "SafetyNormal \<equiv> ''normal''"
abbreviation SafetyAggressive :: SafetyMode where "SafetyAggressive \<equiv> ''aggressive''"

abbreviation ProbeStageTCP :: ProbeStage where "ProbeStageTCP \<equiv> ''tcp''"
abbreviation ProbeStageCOTP :: ProbeStage where "ProbeStageCOTP \<equiv> ''cotp''"
abbreviation ProbeStageSetup :: ProbeStage where "ProbeStageSetup \<equiv> ''setup''"
abbreviation ProbeStageQuery :: ProbeStage where "ProbeStageQuery \<equiv> ''query''"

abbreviation StatusUnreachable :: ProbeStatus where "StatusUnreachable \<equiv> ''unreachable''"
abbreviation StatusTCPOnly :: ProbeStatus where "StatusTCPOnly \<equiv> ''tcp-only''"
abbreviation StatusCOTPOnly :: ProbeStatus where "StatusCOTPOnly \<equiv> ''cotp-only''"
abbreviation StatusSetupOnly :: ProbeStatus where "StatusSetupOnly \<equiv> ''setup-only''"
abbreviation StatusValidConnect :: ProbeStatus where "StatusValidConnect \<equiv> ''valid-connect''"
abbreviation StatusValidQuery :: ProbeStatus where "StatusValidQuery \<equiv> ''valid-query''"
abbreviation StatusRejected :: ProbeStatus where "StatusRejected \<equiv> ''rejected''"
abbreviation StatusTimeout :: ProbeStatus where "StatusTimeout \<equiv> ''timeout''"
abbreviation StatusFlaky :: ProbeStatus where "StatusFlaky \<equiv> ''flaky''"

abbreviation ConfirmNone :: ConfirmationKind where "ConfirmNone \<equiv> ''none''"
abbreviation ConfirmSZL :: ConfirmationKind where "ConfirmSZL \<equiv> ''szl''"
abbreviation ConfirmCPUState :: ConfirmationKind where "ConfirmCPUState \<equiv> ''cpu-state''"
abbreviation ConfirmAny :: ConfirmationKind where "ConfirmAny \<equiv> ''any''"

abbreviation ConfidenceNone :: Confidence where "ConfidenceNone \<equiv> ''none''"
abbreviation ConfidenceLow :: Confidence where "ConfidenceLow \<equiv> ''low''"
abbreviation ConfidenceHigh :: Confidence where "ConfidenceHigh \<equiv> ''high''"

text \<open>A duration is its number of nanoseconds.\<close>

record RackSlotProbeRequest =
  prAddress :: string
  prPort :: int
  prRackMin :: int
  prRackMax :: int
  prSlotMin :: int
  prSlotMax :: int
  prTimeout :: int
  prParallelism :: int
  prDelayMS :: int
  prStopOnFirst :: bool
  prLocalTSAP :: "uint16 option"
  prRemoteTSAP :: "uint16 option"
  prSafetyMode :: SafetyMode
  prJitterMS :: int
  prMaxAttemptsPerHost :: int
  prStrict :: bool
  prConfirm :: ConfirmationKind
  prRetries :: int
  prRetryDelay :: int
  prStopOnFirstConfirmed :: bool

record RackSlotCandidate =
  rcRack :: int
  rcSlot :: int
  rcLocalTSAP :: uint16
  rcRemoteTSAP :: uint16
  rcStage :: ProbeStage
  rcStatus :: ProbeStatus
  rcPDUSize :: int
  rcConfirmedBy :: ConfirmationKind
  rcConfidence :: Confidence
  rcError :: string

record RackSlotProbeResult =
  rrAddress :: string
  rrCandidates :: "RackSlotCandidate list"
  rrValid :: "RackSlotCandidate list"
  rrSetupAccepted :: nat
  rrConfirmedByQuery :: nat
  rrFlaky :: nat
  rrTCPOnly :: nat
  rrStoppedEarly :: bool
  rrStoppedReason :: string

definition DefaultRackSlotProbeRequest :: "string \<Rightarrow> RackSlotProbeRequest" where
  "DefaultRackSlotProbeRequest address = \<lparr>prAddress = address, prPort = 102, prRackMin = 0, prRackMax = 7,
     prSlotMin = 0, prSlotMax = 31, prTimeout = 2000000000, prParallelism = 4, prDelayMS = 0, prStopOnFirst = False,
     prLocalTSAP = None, prRemoteTSAP = None, prSafetyMode = '''', prJitterMS = 0, prMaxAttemptsPerHost = 0,
     prStrict = False, prConfirm = '''', prRetries = 0, prRetryDelay = 0, prStopOnFirstConfirmed = False\<rparr>"

definition applyProbeDefaults :: "RackSlotProbeRequest \<Rightarrow> RackSlotProbeRequest" where
  "applyProbeDefaults req =
    (let req = (if prPort req = 0 then req\<lparr>prPort := 102\<rparr> else req);
         mode = (if prSafetyMode req = '''' then SafetyNormal else prSafetyMode req);
         req = (if prTimeout req = 0
           then req\<lparr>prTimeout := (if mode = SafetyConservative then 5000000000
             else if mode = SafetyAggressive then 1000000000 else 2000000000)\<rparr> else req);
         req = (if prParallelism req < 1
           then req\<lparr>prParallelism := (if mode = SafetyConservative then 2 else if mode = SafetyAggressive then 8 else 4)\<rparr>
           else req);
         req = (if prDelayMS req = 0 \<and> mode = SafetyConservative then req\<lparr>prDelayMS := 50\<rparr> else req)
     in if prStrict req \<and> (prConfirm req = '''' \<or> prConfirm req = ConfirmNone)
        then req\<lparr>prConfirm := ConfirmAny\<rparr> else req)"

definition validateRackSlotProbeRequest :: "RackSlotProbeRequest \<Rightarrow> go_error option" where
  "validateRackSlotProbeRequest req =
    (if is_blank (prAddress req) then Some (ValidationError ''address must be non-empty'')
     else if prPort req < 0 \<or> 65535 < prPort req
     then Some (ValidationError (''port must be 0..65535, got '' @ itoa (prPort req)))
     else if prRackMin req < 0 \<or> 7 < prRackMin req
     then Some (ValidationError (''rack min must be 0..7, got '' @ itoa (prRackMin req)))
     else if prRackMax req < 0 \<or> 7 < prRackMax req
     then Some (ValidationError (''rack max must be 0..7, got '' @ itoa (prRackMax req)))
     else if prSlotMin req < 0 \<or> 31 < prSlotMin req
     then Some (ValidationError (''slot min must be 0..31, got '' @ itoa (prSlotMin req)))
     else if prSlotMax req < 0 \<or> 31 < prSlotMax req
     then Some (ValidationError (''slot max must be 0..31, got '' @ itoa (prSlotMax req)))
     else if prRackMax req < prRackMin req
     then Some (ValidationError (''rack min must be <= rack max, got min='' @ itoa (prRackMin req) @ '' max='' @ itoa (prRackMax req)))
     else if prSlotMax req < prSlotMin req
     then Some (ValidationError (''slot min must be <= slot max, got min='' @ itoa (prSlotMin req) @ '' max='' @ itoa (prSlotMax req)))
     else if prTimeout req < 0
     then Some (ValidationError (''timeout must be >= 0, got '' @ duration_text (prTimeout req)))
     else if prRetries req < 0 then Some (ValidationError (''retries must be >= 0, got '' @ itoa (prRetries req)))
     else if prDelayMS req < 0 then Some (ValidationError (''delay ms must be >= 0, got '' @ itoa (prDelayMS req)))
     else if prParallelism req < 0
     then Some (ValidationError (''parallelism must be >= 0, got '' @ itoa (prParallelism req)))
     else if prJitterMS req < 0 then Some (ValidationError (''jitter ms must be >= 0, got '' @ itoa (prJitterMS req)))
     else if prMaxAttemptsPerHost req < 0
     then Some (ValidationError (''max attempts per host must be >= 0, got '' @ itoa (prMaxAttemptsPerHost req)))
     else None)"

abbreviation maxJitterMS :: int where "maxJitterMS \<equiv> 3600000"

text \<open>\<open>rnd\<close> is \<^verbatim>\<open>rand.Int(rand.Reader, bound)\<close>, a number below the bound or no number.\<close>

definition randomJitter :: "(int \<Rightarrow> int option) \<Rightarrow> int \<Rightarrow> int" where
  "randomJitter rnd maxMS =
    (if maxMS \<le> 0 then 0
     else (case rnd (min maxMS maxJitterMS + 1) of None \<Rightarrow> 0 | Some n \<Rightarrow> n * 1000000))"

definition isProbeTimeout :: "go_error \<Rightarrow> bool" where
  "isProbeTimeout err \<longleftrightarrow> errors_is err DeadlineExceeded \<or> as_net_error err = Some True"

section \<open>The probe of one candidate\<close>

text \<open>The answer to the query: whether it holds a list, and the reason when not.\<close>

definition szlAnswer :: "uint16 \<Rightarrow> bytes \<Rightarrow> (bool \<times> string) res" where
  "szlAnswer pduRef s7Data =
    (case ParseS7Header s7Data of
       Panic \<Rightarrow> Panic
     | Err e \<Rightarrow> Ok (False, error_text e)
     | Ok (hdr, rest) \<Rightarrow>
       if PDURef hdr \<noteq> pduRef
       then Ok (False, ''PDU ref mismatch: expected '' @ utoa (unat pduRef) @ '' got '' @ utoa (unat (PDURef hdr)))
       else if ErrorClass hdr \<noteq> 0 \<or> ErrorCode hdr \<noteq> 0
       then Ok (False, ''S7 error 0x'' @ hex02 (ErrorClass hdr) @ ''/0x'' @ hex02 (ErrorCode hdr))
       else if length rest < unat (ParamLength hdr) + unat (DataLength hdr) then Ok (False, ''short S7 payload'')
       else
        bindR (go_slice rest (unat (ParamLength hdr)) (unat (ParamLength hdr + DataLength hdr))) (\<lambda>dataSlice.
        case ParseSZLResponse dataSlice of
          Panic \<Rightarrow> Panic
        | Err e \<Rightarrow> Ok (False, error_text e)
        | Ok _ \<Rightarrow> Ok (True, [])))"

definition trySZL :: "('w, 'r, 'c) transport \<Rightarrow> go_ctx \<Rightarrow> 'c \<Rightarrow> uint16 \<Rightarrow> uint16 \<Rightarrow> 'w \<Rightarrow> (bool \<times> string) res \<times> 'w" where
  "trySZL tr ctx conn pduRef szl w =
    (case trWrite tr w ctx conn (EncodeSZLRequest pduRef szl 0) of
       (Panic, w) \<Rightarrow> (Panic, w)
     | (Err e, w) \<Rightarrow> (Ok (False, error_text e), w)
     | (Ok _, w) \<Rightarrow>
        (case trRead tr w ctx conn of
           (Panic, w) \<Rightarrow> (Panic, w)
         | (Err e, w) \<Rightarrow> (Ok (False, error_text e), w)
         | (Ok s7Data, w) \<Rightarrow> (szlAnswer pduRef s7Data, w)))"

definition runFollowUp :: "('w, 'r, 'c) transport \<Rightarrow> go_ctx \<Rightarrow> 'c \<Rightarrow> uint16 \<Rightarrow> ConfirmationKind \<Rightarrow> 'w \<Rightarrow>
    (bool \<times> ConfirmationKind \<times> string) res \<times> 'w" where
  "runFollowUp tr ctx conn pduRef strategy w =
    (if strategy = ConfirmSZL then
       bindW (trySZL tr ctx conn pduRef SZLModuleID w) (\<lambda>(ok, msg) w.
       (Ok (if ok then (True, ConfirmSZL, []) else (False, ConfirmNone, msg)), w))
     else if strategy = ConfirmCPUState then
       bindW (trySZL tr ctx conn pduRef SZLCPUState w) (\<lambda>(ok, msg) w.
       (Ok (if ok then (True, ConfirmCPUState, []) else (False, ConfirmNone, msg)), w))
     else if strategy = ConfirmAny then
       bindW (trySZL tr ctx conn pduRef SZLModuleID w) (\<lambda>(ok, msg) w.
       if ok then (Ok (True, ConfirmSZL, []), w) else
       bindW (trySZL tr ctx conn pduRef SZLCPUState w) (\<lambda>(ok, msg) w.
       if ok then (Ok (True, ConfirmCPUState, []), w) else
       bindW (trySZL tr ctx conn pduRef SZLProtectionInfo w) (\<lambda>(ok, msg) w.
       (Ok (if ok then (True, ConfirmAny, []) else (False, ConfirmNone, msg)), w))))
     else (Ok (False, ConfirmNone, ''no confirmation strategy''), w))"

definition zeroCandidate :: RackSlotCandidate where
  "zeroCandidate = \<lparr>rcRack = 0, rcSlot = 0, rcLocalTSAP = 0, rcRemoteTSAP = 0, rcStage = '''', rcStatus = '''',
     rcPDUSize = 0, rcConfirmedBy = '''', rcConfidence = '''', rcError = ''''\<rparr>"

text \<open>The part of \<^verbatim>\<open>probeOne\<close> on an open connection, which is closed when it returns.\<close>

definition probeSession :: "('w, 'r, 'c) transport \<Rightarrow> go_ctx \<Rightarrow> RackSlotProbeRequest \<Rightarrow> 'c \<Rightarrow> RackSlotCandidate \<Rightarrow> 'w \<Rightarrow>
    RackSlotCandidate res \<times> 'w" where
  "probeSession tr ctx req conn c w =
    (case performS7Setup tr (withOptionalTimeout ctx (prTimeout req)) conn 1 1 1 480 w of
       (Panic, w) \<Rightarrow> (Panic, w)
     | (Err e, w) \<Rightarrow>
        (Ok (c\<lparr>rcStage := ProbeStageSetup,
           rcStatus := (if isProbeTimeout e then StatusTimeout else if as_S7Error e then StatusRejected else StatusCOTPOnly),
           rcError := error_text e\<rparr>), w)
     | (Ok setup, w) \<Rightarrow>
        (let c = c\<lparr>rcPDUSize := int (PDUSize setup)\<rparr> in
         if \<not> prStrict req
         then (Ok (c\<lparr>rcStage := ProbeStageSetup, rcStatus := StatusSetupOnly, rcConfidence := ConfidenceLow\<rparr>), w)
         else
          (let c = c\<lparr>rcStage := ProbeStageQuery\<rparr> in
           bindW (runFollowUp tr (withOptionalTimeout ctx (prTimeout req)) conn (1 + 1) (prConfirm req) w)
            (\<lambda>(ok, confirmedBy, errStr) w.
             (Ok (if ok then c\<lparr>rcStatus := StatusValidQuery, rcConfirmedBy := confirmedBy, rcConfidence := ConfidenceHigh\<rparr>
              else c\<lparr>rcStatus := StatusValidConnect, rcConfidence := ConfidenceLow,
                rcError := (if errStr \<noteq> '''' then ''follow-up failed: '' @ errStr else rcError c)\<rparr>), w)))))"

definition closeProbe :: "('w, 'r, 'c) transport \<Rightarrow> 'c \<Rightarrow> 'a res \<times> 'w \<Rightarrow> 'a res \<times> 'w" where
  "closeProbe tr conn m = (case m of (r, w) \<Rightarrow>
     (case closeCOTP tr (Some conn) w of (Panic, w) \<Rightarrow> (Panic, w) | (_, w) \<Rightarrow> (r, w)))"

definition probeOne :: "('w, 'r, 'c) transport \<Rightarrow> go_ctx \<Rightarrow> RackSlotProbeRequest \<Rightarrow> int \<Rightarrow> int \<Rightarrow> 'w \<Rightarrow>
    RackSlotCandidate res \<times> 'w" where
  "probeOne tr ctx req rack slot w =
    (let c = zeroCandidate\<lparr>rcRack := rack, rcSlot := slot, rcConfidence := ConfidenceNone\<rparr>;
         addr = JoinHostPort (prAddress req) (itoa (prPort req));
         localTSAP = (case prLocalTSAP req of Some t \<Rightarrow> Ok t | None \<Rightarrow> BuildTSAP 1 0 0);
         remoteTSAP = (case prRemoteTSAP req of Some t \<Rightarrow> Ok t | None \<Rightarrow> BuildTSAP 3 rack slot) in
     case localTSAP of
       Panic \<Rightarrow> (Panic, w)
     | Err e \<Rightarrow> (Ok (c\<lparr>rcError := error_text e, rcStatus := StatusRejected\<rparr>), w)
     | Ok localTSAP \<Rightarrow>
     (case remoteTSAP of
       Panic \<Rightarrow> (Panic, w)
     | Err e \<Rightarrow> (Ok (c\<lparr>rcError := error_text e, rcStatus := StatusRejected\<rparr>), w)
     | Ok remoteTSAP \<Rightarrow>
       (let c = c\<lparr>rcLocalTSAP := localTSAP, rcRemoteTSAP := remoteTSAP\<rparr> in
        case dialTCP tr ctx addr (prTimeout req) w of
          (Panic, w) \<Rightarrow> (Panic, w)
        | (Err e, w) \<Rightarrow>
           (Ok (c\<lparr>rcStage := ProbeStageTCP, rcStatus := (if isProbeTimeout e then StatusTimeout else StatusUnreachable),
              rcError := error_text e\<rparr>), w)
        | (Ok raw, w) \<Rightarrow>
           (case connectCOTP tr ctx raw (prTimeout req) localTSAP remoteTSAP w of
              (Panic, w) \<Rightarrow> (Panic, w)
            | (Err e, w) \<Rightarrow>
               (Ok (c\<lparr>rcStage := ProbeStageCOTP, rcStatus := (if isProbeTimeout e then StatusTimeout else StatusTCPOnly),
                  rcError := error_text e\<rparr>), w)
            | (Ok conn, w) \<Rightarrow> closeProbe tr conn (probeSession tr ctx req conn c w)))))"

section \<open>The loop over the candidates\<close>

definition probeJobs :: "RackSlotProbeRequest \<Rightarrow> (int \<times> int) list" where
  "probeJobs req = [(rack, slot). rack \<leftarrow> [prRackMin req..prRackMax req], slot \<leftarrow> [prSlotMin req..prSlotMax req]]"

definition maxJobs :: "RackSlotProbeRequest \<Rightarrow> nat" where
  "maxJobs req = (let n = length (probeJobs req) in
     if 0 < prMaxAttemptsPerHost req \<and> prMaxAttemptsPerHost req < int n then nat (prMaxAttemptsPerHost req) else n)"

definition setupAccepted :: "RackSlotCandidate \<Rightarrow> bool" where
  "setupAccepted c \<longleftrightarrow> rcStatus c = StatusSetupOnly \<or> rcStatus c = StatusValidConnect \<or> rcStatus c = StatusValidQuery"

definition validForStop :: "RackSlotProbeRequest \<Rightarrow> RackSlotCandidate \<Rightarrow> bool" where
  "validForStop req c \<longleftrightarrow> (if prStrict req then rcStatus c = StatusValidQuery else setupAccepted c)"

text \<open>
  The main loop is at the check of its context, at the pause of the jitter, at the delay between attempts, at the
  semaphore, or it has been left. Its state: the index of the next job, the jobs whose goroutines run (each holds
  a place of the semaphore), the candidates, whether \<^verbatim>\<open>cancel\<close> was called, and the error of the caller's context
  once it has ended. A goroutine stores its candidate, cancels and releases its place in one step:
  the main loop takes no place between the three.
\<close>

datatype loop_at = AtCheck | AtJitter | AtDelay | AtAcquire | AtEnd

record probing =
  pbNext :: nat
  pbAt :: loop_at
  pbRunning :: "nat list"
  pbCandidates :: "RackSlotCandidate list"
  pbCancelled :: bool
  pbCtxErr :: "go_error option"

definition probeStart :: "RackSlotProbeRequest \<Rightarrow> probing" where
  "probeStart req = \<lparr>pbNext = 0, pbAt = AtCheck, pbRunning = [],
     pbCandidates = replicate (length (probeJobs req)) zeroCandidate, pbCancelled = False, pbCtxErr = None\<rparr>"

text \<open>\<^verbatim>\<open>probeCtx.Done()\<close>\<close>

definition probeDone :: "probing \<Rightarrow> bool" where
  "probeDone s \<longleftrightarrow> pbCancelled s \<or> pbCtxErr s \<noteq> None"

type_synonym probe_outcome = "RackSlotProbeRequest \<Rightarrow> int \<Rightarrow> int \<Rightarrow> RackSlotCandidate \<Rightarrow> bool"

inductive probe_step :: "probe_outcome \<Rightarrow> RackSlotProbeRequest \<Rightarrow> probing \<Rightarrow> probing \<Rightarrow> bool" for outcome req where
  loop_over: "pbAt s = AtCheck \<Longrightarrow> maxJobs req \<le> pbNext s \<Longrightarrow> probe_step outcome req s (s\<lparr>pbAt := AtEnd\<rparr>)"
| check_done: "pbAt s = AtCheck \<Longrightarrow> pbNext s < maxJobs req \<Longrightarrow> probeDone s \<Longrightarrow>
    probe_step outcome req s (s\<lparr>pbAt := AtEnd\<rparr>)"
| check_open: "pbAt s = AtCheck \<Longrightarrow> pbNext s < maxJobs req \<Longrightarrow> \<not> probeDone s \<Longrightarrow>
    probe_step outcome req s (s\<lparr>pbAt := AtJitter\<rparr>)"
| jitter_over: "pbAt s = AtJitter \<Longrightarrow> probe_step outcome req s (s\<lparr>pbAt := AtDelay\<rparr>)"
| jitter_done: "pbAt s = AtJitter \<Longrightarrow> 0 < randomJitter rnd (prJitterMS req) \<Longrightarrow> probeDone s \<Longrightarrow>
    probe_step outcome req s (s\<lparr>pbAt := AtEnd\<rparr>)"
| delay_over: "pbAt s = AtDelay \<Longrightarrow> probe_step outcome req s (s\<lparr>pbAt := AtAcquire\<rparr>)"
| delay_done: "pbAt s = AtDelay \<Longrightarrow> 0 < prDelayMS req \<Longrightarrow> 0 < pbNext s \<Longrightarrow> probeDone s \<Longrightarrow>
    probe_step outcome req s (s\<lparr>pbAt := AtEnd\<rparr>)"
| acquire_done: "pbAt s = AtAcquire \<Longrightarrow> probeDone s \<Longrightarrow> probe_step outcome req s (s\<lparr>pbAt := AtEnd\<rparr>)"
| acquire: "pbAt s = AtAcquire \<Longrightarrow> int (length (pbRunning s)) < prParallelism req \<Longrightarrow>
    probe_step outcome req s (s\<lparr>pbAt := AtCheck, pbNext := pbNext s + 1, pbRunning := pbNext s # pbRunning s\<rparr>)"
| job_over: "i \<in> set (pbRunning s) \<Longrightarrow> probeJobs req ! i = (rack, slot) \<Longrightarrow> outcome req rack slot c \<Longrightarrow>
    probe_step outcome req s (s\<lparr>pbRunning := remove1 i (pbRunning s), pbCandidates := (pbCandidates s)[i := c],
      pbCancelled := (pbCancelled s \<or> (validForStop req c \<and> (prStopOnFirst req \<or> prStopOnFirstConfirmed req)))\<rparr>)"
| ctx_ends: "pbCtxErr s = None \<Longrightarrow> probe_step outcome req s (s\<lparr>pbCtxErr := Some e\<rparr>)"

definition probeResult :: "RackSlotProbeRequest \<Rightarrow> RackSlotCandidate list \<Rightarrow> RackSlotProbeResult" where
  "probeResult req candidates = \<lparr>rrAddress = prAddress req, rrCandidates = candidates,
     rrValid = filter (validForStop req) candidates,
     rrSetupAccepted = length (filter setupAccepted candidates),
     rrConfirmedByQuery = length (filter (\<lambda>c. rcStatus c = StatusValidQuery) candidates),
     rrFlaky = length (filter (\<lambda>c. rcStatus c = StatusFlaky) candidates),
     rrTCPOnly = length (filter (\<lambda>c. rcStatus c = StatusTCPOnly) candidates),
     rrStoppedEarly = (maxJobs req < length (probeJobs req)),
     rrStoppedReason = (if maxJobs req < length (probeJobs req) then ''max_attempts_reached'' else '''')\<rparr>"

text \<open>The result and the error returned; the main loop waits for the goroutines before it makes the result.\<close>

inductive ProbeRackSlots :: "probe_outcome \<Rightarrow> RackSlotProbeRequest \<Rightarrow> RackSlotProbeResult option \<Rightarrow> go_error option \<Rightarrow> bool"
  for outcome where
  invalid: "validateRackSlotProbeRequest (applyProbeDefaults req) = Some e \<Longrightarrow> ProbeRackSlots outcome req None (Some e)"
| probed: "validateRackSlotProbeRequest (applyProbeDefaults req) = None \<Longrightarrow>
    (probe_step outcome (applyProbeDefaults req))\<^sup>*\<^sup>* (probeStart (applyProbeDefaults req)) s \<Longrightarrow>
    pbAt s = AtEnd \<Longrightarrow> pbRunning s = [] \<Longrightarrow>
    ProbeRackSlots outcome req (Some (probeResult (applyProbeDefaults req) (pbCandidates s))) (pbCtxErr s)"

text \<open>The outcomes of a probe on the networks a goroutine may see.\<close>

definition probedOn :: "('w, 'r, 'c) transport set \<Rightarrow> go_ctx \<Rightarrow> probe_outcome" where
  "probedOn trs ctx req rack slot c \<longleftrightarrow> (\<exists>tr \<in> trs. \<exists>w w'. probeOne tr ctx req rack slot w = (Ok c, w'))"

section \<open>Facts about one candidate\<close>

text \<open>A network whose opening and closing calls do not panic either.\<close>

definition opens_well :: "('w, 'r, 'c) transport \<Rightarrow> bool" where
  "opens_well tr \<longleftrightarrow> well_behaved tr \<and> (\<forall>w ctx a t. fst (trDial tr w ctx a t) \<noteq> Panic) \<and>
     (\<forall>w ctx r l rm n. fst (trConnect tr w ctx r l rm n) \<noteq> Panic) \<and> (\<forall>w c. fst (trClose tr w c) \<noteq> Panic)"

text \<open>A call on a network that returns a value with a property, and no error.\<close>

definition ends :: "'a res \<times> 'w \<Rightarrow> ('a \<Rightarrow> bool) \<Rightarrow> bool" where
  "ends m P \<longleftrightarrow> (\<exists>x w. m = (Ok x, w) \<and> P x)"

lemma ends_pair [simp]: "ends (Ok x, w) P = P x"
  by (simp add: ends_def)

lemma ends_bindW: "ends m Q \<Longrightarrow> (\<And>x w. Q x \<Longrightarrow> ends (f x w) P) \<Longrightarrow> ends (bindW m f) P"
  by (auto simp: ends_def)

text \<open>An answer that confirms a candidate: no error, the right reference and a list.\<close>

definition confirms :: "uint16 \<Rightarrow> bytes \<Rightarrow> bool" where
  "confirms ref d \<longleftrightarrow> (\<exists>h param data junk szl. ParseS7Header d = Ok (h, param @ data @ junk) \<and> PDURef h = ref \<and>
     ErrorClass h = 0 \<and> ErrorCode h = 0 \<and> length param = unat (ParamLength h) \<and> length data = unat (DataLength h) \<and>
     ParseSZLResponse data = Ok szl)"

lemma szlAnswer_facts:
  assumes "length d \<le> 65535"
  shows "\<exists>ok msg. szlAnswer ref d = Ok (ok, msg) \<and> (ok \<longrightarrow> confirms ref d)"
proof (cases "ParseS7Header d")
  case (Ok hr)
  then obtain h rest where p: "ParseS7Header d = Ok (h, rest)" by (cases hr) auto
  note len = ParseS7Header_rest [OF p]
  then have sum: "unat (ParamLength h + DataLength h) = unat (ParamLength h) + unat (DataLength h)"
    using assms by (intro unat_sum_uint16) simp
  let ?pl = "unat (ParamLength h)" and ?dl = "unat (DataLength h)"
  define data where "data = take ?dl (drop ?pl rest)"
  obtain junk where rest: "rest = take ?pl rest @ data @ junk" unfolding data_def using take_take_junk by blast
  show ?thesis
  proof (cases "PDURef h = ref \<and> ErrorClass h = 0 \<and> ErrorCode h = 0 \<and> ?pl + ?dl \<le> length rest")
    case True
    have s: "go_slice rest ?pl (?pl + ?dl) = Ok data" using True by (simp add: go_slice_def data_def take_drop)
    show ?thesis
    proof (cases "ParseSZLResponse data")
      case (Ok szl)
      have "confirms ref d" unfolding confirms_def
        using p rest Ok True by (intro exI [of _ h] exI [of _ "take ?pl rest"] exI [of _ data] exI [of _ junk] exI [of _ szl])
          (auto simp: data_def)
      then show ?thesis using True Ok s by (auto simp: szlAnswer_def p sum)
    qed (use True s in \<open>auto simp: szlAnswer_def p sum\<close>)
  next
    case False
    then have "\<exists>msg. szlAnswer ref d = Ok (False, msg)" by (auto simp: szlAnswer_def p)
    then show ?thesis by blast
  qed
next
  case Panic
  then show ?thesis using ParseS7Header_not_Panic by blast
qed (auto simp: szlAnswer_def)

text \<open>That a transport can deliver a confirming answer at all.\<close>

definition answered :: "('w, 'r, 'c) transport \<Rightarrow> uint16 \<Rightarrow> bool" where
  "answered tr ref \<longleftrightarrow> (\<exists>w ctx conn w' d. trRead tr w ctx conn = (Ok d, w') \<and> confirms ref d)"

lemma trySZL_ends:
  assumes "well_behaved tr"
  shows "ends (trySZL tr ctx conn ref szl w) (\<lambda>(ok, msg). ok \<longrightarrow> answered tr ref)"
proof -
  obtain r1 w1 where w: "trWrite tr w ctx conn (EncodeSZLRequest ref szl 0) = (r1, w1)" by fastforce
  obtain r2 w2 where r: "trRead tr w1 ctx conn = (r2, w2)" by fastforce
  have "r1 \<noteq> Panic" using well_behaved_steps(1) [OF assms, of w ctx conn "EncodeSZLRequest ref szl 0"] by (simp add: w)
  moreover have "r2 \<noteq> Panic" using well_behaved_read(1) [OF assms, of w1 ctx conn] by (simp add: r)
  moreover have "\<exists>ok msg. szlAnswer ref d = Ok (ok, msg) \<and> (ok \<longrightarrow> answered tr ref)" if "r2 = Ok d" for d
    using szlAnswer_facts [OF well_behaved_read(2) [OF assms, of w1 ctx conn d w2], of ref] that r
    unfolding answered_def by blast
  ultimately show ?thesis by (cases r1; cases r2) (auto simp: trySZL_def w r)
qed

definition confirmation :: "ConfirmationKind \<Rightarrow> bool" where
  "confirmation kind \<longleftrightarrow> kind \<in> {ConfirmSZL, ConfirmCPUState, ConfirmAny}"

lemma runFollowUp_ends:
  assumes "well_behaved tr"
  shows "ends (runFollowUp tr ctx conn ref strategy (w :: 'a)) (\<lambda>(ok, kind, msg). ok \<longrightarrow> answered tr ref \<and> confirmation kind)"
proof -
  have kinds: "confirmation ConfirmSZL" "confirmation ConfirmCPUState" "confirmation ConfirmAny" by (simp_all add: confirmation_def)
  have next_try: "ends (bindW (trySZL tr ctx conn ref szl w) f) P"
    if "\<And>ok msg w. ok \<longrightarrow> answered tr ref \<Longrightarrow> ends (f (ok, msg) w) P" for szl w f and P :: "bool \<times> ConfirmationKind \<times> string \<Rightarrow> bool"
    by (rule ends_bindW [OF trySZL_ends [OF assms]]) (auto intro: that)
  let ?R = "\<lambda>(ok, kind, msg). ok \<longrightarrow> answered tr ref \<and> confirmation kind"
  have one: "ends (bindW (trySZL tr ctx conn ref szl w) (\<lambda>(ok, msg) w. (Ok (if ok then (True, kind, []) else (False, ConfirmNone, msg)), w))) ?R"
    if "confirmation kind" for szl w kind by (rule next_try) (simp add: that)
  have two: "ends (bindW (trySZL tr ctx conn ref szl w) (\<lambda>(ok, msg) w. if ok then (Ok (True, kind, [] :: string), w) else f w)) ?R"
    if "confirmation kind" "\<And>w. ends (f w) ?R" for szl w kind f by (rule next_try) (use that in simp)
  have branch: "ends (if b then x else y) ?R" if "ends x ?R" "ends y ?R" for b and x y :: "(bool \<times> ConfirmationKind \<times> string) res \<times> 'a"
    using that by simp
  show ?thesis
    unfolding runFollowUp_def
    by (rule branch, rule one, rule kinds, rule branch, rule one, rule kinds, rule branch,
        rule two, rule kinds, rule two, rule kinds, rule one, rule kinds) simp
qed

lemma ParseSetupCommResponse_not_Panic: "ParseSetupCommResponse p \<noteq> Panic"
proof (cases "length p < 8")
  case False
  then have "idx p 0 = Ok (p ! 0)" by (intro idx_Ok) linarith
  then show ?thesis using False by (simp add: ParseSetupCommResponse_def go_simps)
qed (simp add: ParseSetupCommResponse_def)

lemma setupReply_not_Panic: "setupReply d ref \<noteq> Panic"
proof (cases "ParseS7Header d")
  case (Ok hp)
  obtain h p where hp: "hp = (h, p)" by fastforce
  have "bindR (NewS7ErrorWithParam (ErrorClass h) (ErrorCode h) p) Err \<noteq> Panic"
    using NewS7ErrorWithParam_Ok [of "ErrorClass h" "ErrorCode h" p] by auto
  then show ?thesis
    using ParseSetupCommResponse_not_Panic [of p] by (cases "ParseSetupCommResponse p") (auto simp: setupReply_def Ok hp)
next
  case Panic
  then show ?thesis using ParseS7Header_not_Panic by blast
qed (simp add: setupReply_def)

lemma performS7Setup_not_Panic:
  assumes "well_behaved tr"
  shows "fst (performS7Setup tr ctx conn ref a b sz w) \<noteq> Panic"
proof -
  have "EncodeSetupCommRequest ref a b sz \<noteq> Panic"
    by (auto simp: EncodeSetupCommRequest_def encodeMessage_def EncodeS7Header_def checkedUint16_def Let_def split: if_splits)
  moreover have "fst (bindW (trWrite tr w ctx conn req) (\<lambda>_ w. bindW (trRead tr w ctx conn) (\<lambda>s7Data w. (setupReply s7Data ref, w)))) \<noteq> Panic"
    for req w
    by (intro bindW_not_Panic well_behaved_steps [OF assms] well_behaved_read(1) [OF assms]) (simp add: setupReply_not_Panic)
  ultimately show ?thesis
    unfolding performS7Setup_def
    by (intro bindW_not_Panic well_behaved_steps [OF assms]) (simp split: res.split)
qed

text \<open>
  What a candidate of one probe says: its rack and slot, the stage reached, and a status and a confidence
  that fit the stage.
\<close>

definition classified :: "RackSlotProbeRequest \<Rightarrow> int \<Rightarrow> int \<Rightarrow> RackSlotCandidate \<Rightarrow> bool" where
  "classified req rack slot c \<longleftrightarrow> rcRack c = rack \<and> rcSlot c = slot \<and>
     (if rcStage c = [] then rcStatus c = StatusRejected \<and> rcConfidence c = ConfidenceNone
      else if rcStage c = ProbeStageTCP then rcStatus c \<in> {StatusTimeout, StatusUnreachable} \<and> rcConfidence c = ConfidenceNone
      else if rcStage c = ProbeStageCOTP then rcStatus c \<in> {StatusTimeout, StatusTCPOnly} \<and> rcConfidence c = ConfidenceNone
      else if rcStage c = ProbeStageSetup
      then rcStatus c \<in> {StatusTimeout, StatusRejected, StatusCOTPOnly} \<and> rcConfidence c = ConfidenceNone \<or>
           rcStatus c = StatusSetupOnly \<and> rcConfidence c = ConfidenceLow \<and> \<not> prStrict req
      else rcStage c = ProbeStageQuery \<and> prStrict req \<and>
          (rcStatus c = StatusValidConnect \<and> rcConfidence c = ConfidenceLow \<and> rcConfirmedBy c = [] \<or>
           rcStatus c = StatusValidQuery \<and> rcConfidence c = ConfidenceHigh \<and> rcError c = [] \<and>
             confirmation (rcConfirmedBy c)))"

lemma probeSession_ends:
  assumes "well_behaved tr" "rcRack c = rack" "rcSlot c = slot" "rcConfidence c = ConfidenceNone" "rcError c = []" "rcConfirmedBy c = []"
  shows "ends (probeSession tr ctx req conn c w) (\<lambda>c. classified req rack slot c \<and> (rcStatus c = StatusValidQuery \<longrightarrow> answered tr 2))"
proof -
  obtain r w' where r: "performS7Setup tr (withOptionalTimeout ctx (prTimeout req)) conn 1 1 1 480 w = (r, w')" by fastforce
  have np: "r \<noteq> Panic"
    using performS7Setup_not_Panic [OF assms(1), of "withOptionalTimeout ctx (prTimeout req)" conn 1 1 1 480 w] by (simp add: r)
  obtain ok kind msg w2 where f: "runFollowUp tr (withOptionalTimeout ctx (prTimeout req)) conn 2 (prConfirm req) w' = (Ok (ok, kind, msg), w2)"
      "ok \<longrightarrow> answered tr 2 \<and> confirmation kind"
    using runFollowUp_ends [OF assms(1), of "withOptionalTimeout ctx (prTimeout req)" conn 2 "prConfirm req" w'] by (auto simp: ends_def)
  show ?thesis
  proof (cases r)
    case (Ok comm)
    then show ?thesis using assms(2-) f(2)
      by (simp add: probeSession_def r Let_def f(1) classified_def)
  qed (use np assms(2-) in \<open>auto simp: probeSession_def r classified_def\<close>)
qed

lemma probeOne_ends:
  assumes "opens_well tr"
  shows "ends (probeOne tr ctx req rack slot w) (\<lambda>c. classified req rack slot c \<and> (rcStatus c = StatusValidQuery \<longrightarrow> answered tr 2))"
proof -
  have wb: "well_behaved tr" and op: "fst (trDial tr w ctx a t) \<noteq> Panic" "fst (trConnect tr w ctx r l rm n) \<noteq> Panic" "fst (trClose tr w c) \<noteq> Panic"
    for w ctx a t r l rm n c using assms by (auto simp: opens_well_def)
  have tsap: "BuildTSAP k r s \<noteq> Panic" for k r s by (simp add: BuildTSAP_def Let_def split: option.split)
  have dial: "fst (dialTCP tr ctx a t w) \<noteq> Panic" for a t w
    using op(1) [of w ctx a t] by (cases "trDial tr w ctx a t"; cases "fst (trDial tr w ctx a t)") (auto simp: dialTCP_def)
  have conn: "fst (connectCOTP tr ctx raw t l rm w) \<noteq> Panic" for raw t l rm w unfolding connectCOTP_def by (rule op(2))
  have closed: "ends (closeProbe tr conn m) P" if "ends m P" for conn m P
    using that op(3) [of "snd m" conn] by (cases "trClose tr (snd m) conn"; cases "fst (trClose tr (snd m) conn)")
      (auto simp: closeProbe_def closeCOTP_def ends_def)
  define c0 where "c0 = zeroCandidate\<lparr>rcRack := rack, rcSlot := slot, rcConfidence := ConfidenceNone\<rparr>"
  have c0: "rcRack c0 = rack" "rcSlot c0 = slot" "rcConfidence c0 = ConfidenceNone" "rcError c0 = []" "rcConfirmedBy c0 = []" "rcStage c0 = []"
    by (simp_all add: c0_def zeroCandidate_def)
  obtain lt where lt: "(case prLocalTSAP req of Some t \<Rightarrow> Ok t | None \<Rightarrow> BuildTSAP 1 0 0) = lt" "lt \<noteq> Panic"
    using tsap by (cases "prLocalTSAP req") auto
  obtain rt where rt: "(case prRemoteTSAP req of Some t \<Rightarrow> Ok t | None \<Rightarrow> BuildTSAP 3 rack slot) = rt" "rt \<noteq> Panic"
    using tsap by (cases "prRemoteTSAP req") auto
  obtain dr w1 where dr: "dialTCP tr ctx (JoinHostPort (prAddress req) (itoa (prPort req))) (prTimeout req) w = (dr, w1)" "dr \<noteq> Panic"
    using dial by (metis prod.collapse)
  show ?thesis
  proof (cases "\<exists>l r raw. lt = Ok l \<and> rt = Ok r \<and> dr = Ok raw")
    case False
    then show ?thesis using lt rt dr c0
      by (cases lt; cases rt; cases dr) (auto simp: probeOne_def Let_def c0_def [symmetric] classified_def)
  next
    case True
    then obtain l r raw where ok: "lt = Ok l" "rt = Ok r" "dr = Ok raw" by blast
    obtain cr w2 where cr: "connectCOTP tr ctx raw (prTimeout req) l r w1 = (cr, w2)" "cr \<noteq> Panic"
      using conn by (metis prod.collapse)
    have sess: "ends (probeSession tr ctx req k (c0\<lparr>rcLocalTSAP := l, rcRemoteTSAP := r\<rparr>) w2)
        (\<lambda>c. classified req rack slot c \<and> (rcStatus c = StatusValidQuery \<longrightarrow> answered tr 2))" for k
      by (rule probeSession_ends [OF wb]) (simp_all add: c0)
    have eq: "probeOne tr ctx req rack slot w = (case cr of Panic \<Rightarrow> (Panic, w2)
        | Err e \<Rightarrow> (Ok (c0\<lparr>rcLocalTSAP := l, rcRemoteTSAP := r, rcStage := ProbeStageCOTP,
            rcStatus := (if isProbeTimeout e then StatusTimeout else StatusTCPOnly), rcError := error_text e\<rparr>), w2)
        | Ok k \<Rightarrow> closeProbe tr k (probeSession tr ctx req k (c0\<lparr>rcLocalTSAP := l, rcRemoteTSAP := r\<rparr>) w2))"
      unfolding probeOne_def Let_def lt(1) rt(1) ok dr(1) c0_def [symmetric] res.case prod.case cr(1)
      by (cases cr) simp_all
    show ?thesis
    proof (cases cr)
      case (Ok k)
      then show ?thesis unfolding eq by (simp add: closed [OF sess])
    qed (use cr(2) c0 in \<open>auto simp: eq classified_def\<close>)
  qed
qed

section \<open>Facts about the loop\<close>

lemma maxJobs_le: "maxJobs req \<le> length (probeJobs req)"
  by (simp add: maxJobs_def Let_def) linarith

text \<open>
  What every state of a run satisfies: the goroutines started are those of the first jobs, at most as many run as the
  request allows, the candidate of a job that is over is an outcome of its probe, every other one is
  still zero, and the loop is left only at its end or when the probe's context has ended.
\<close>

definition slots_ok :: "probe_outcome \<Rightarrow> RackSlotProbeRequest \<Rightarrow> nat \<Rightarrow> nat list \<Rightarrow> RackSlotCandidate list \<Rightarrow> bool" where
  "slots_ok outcome req next running cands \<longleftrightarrow> length cands = length (probeJobs req) \<and>
     (\<forall>i < length (probeJobs req). if next \<le> i \<or> i \<in> set running then cands ! i = zeroCandidate
        else outcome req (fst (probeJobs req ! i)) (snd (probeJobs req ! i)) (cands ! i))"

definition running_ok :: "RackSlotProbeRequest \<Rightarrow> nat \<Rightarrow> nat list \<Rightarrow> bool" where
  "running_ok req next running \<longleftrightarrow> distinct running \<and> (\<forall>i \<in> set running. i < next) \<and> int (length running) \<le> max 0 (prParallelism req)"

definition stop_seen :: "RackSlotProbeRequest \<Rightarrow> nat \<Rightarrow> nat list \<Rightarrow> RackSlotCandidate list \<Rightarrow> bool" where
  "stop_seen req next running cands \<longleftrightarrow> (prStopOnFirst req \<or> prStopOnFirstConfirmed req) \<and>
     (\<exists>i < next. i \<notin> set running \<and> validForStop req (cands ! i))"

definition probing_ok :: "probe_outcome \<Rightarrow> RackSlotProbeRequest \<Rightarrow> probing \<Rightarrow> bool" where
  "probing_ok outcome req s \<longleftrightarrow> pbNext s \<le> maxJobs req \<and>
     (pbAt s \<in> {AtJitter, AtDelay, AtAcquire} \<longrightarrow> pbNext s < maxJobs req) \<and>
     running_ok req (pbNext s) (pbRunning s) \<and> slots_ok outcome req (pbNext s) (pbRunning s) (pbCandidates s) \<and>
     (pbAt s = AtEnd \<longrightarrow> pbNext s = maxJobs req \<or> probeDone s) \<and>
     (pbCancelled s \<longrightarrow> stop_seen req (pbNext s) (pbRunning s) (pbCandidates s))"

lemma started_ok:
  assumes "running_ok req n running" "int (length running) < prParallelism req"
  shows "running_ok req (n + 1) (n # running)"
    "slots_ok outcome req n running cands \<Longrightarrow> slots_ok outcome req (n + 1) (n # running) cands"
    "stop_seen req n running cands \<Longrightarrow> stop_seen req (n + 1) (n # running) cands"
proof -
  show "running_ok req (n + 1) (n # running)" using assms by (auto simp: running_ok_def)
  show "slots_ok outcome req (n + 1) (n # running) cands" if s: "slots_ok outcome req n running cands"
    unfolding slots_ok_def
  proof (intro conjI allI impI)
    fix i
    assume "i < length (probeJobs req)"
    then show "if n + 1 \<le> i \<or> i \<in> set (n # running) then cands ! i = zeroCandidate
        else outcome req (fst (probeJobs req ! i)) (snd (probeJobs req ! i)) (cands ! i)"
      using s unfolding slots_ok_def by (cases "i = n") (auto split: if_splits)
  qed (use s in \<open>simp add: slots_ok_def\<close>)
  show "stop_seen req (n + 1) (n # running) cands" if "stop_seen req n running cands"
    using that by (auto simp: stop_seen_def intro: less_SucI)
qed

lemma finished_ok:
  assumes "running_ok req n running" "n \<le> maxJobs req" "i \<in> set running" "probeJobs req ! i = (rack, slot)" "outcome req rack slot c"
    "slots_ok outcome req n running cands"
  shows "running_ok req n (remove1 i running)" "slots_ok outcome req n (remove1 i running) (cands[i := c])"
    "stop_seen req n running cands \<or> validForStop req c \<and> (prStopOnFirst req \<or> prStopOnFirstConfirmed req) \<Longrightarrow>
     stop_seen req n (remove1 i running) (cands[i := c])"
proof -
  have s: "set (remove1 i running) = set running - {i}" using assms(1) by (simp add: running_ok_def set_remove1_eq)
  have i: "i < n" "i < length (probeJobs req)" "i < length cands"
    using assms maxJobs_le [of req] by (auto simp: running_ok_def slots_ok_def)
  show "running_ok req n (remove1 i running)" using assms(1) by (auto simp: running_ok_def s length_remove1 distinct_remove1)
  show "slots_ok outcome req n (remove1 i running) (cands[i := c])"
    using assms(4-6) i unfolding slots_ok_def s by (auto simp: nth_list_update)
  show "stop_seen req n (remove1 i running) (cands[i := c])"
    if seen: "stop_seen req n running cands \<or> validForStop req c \<and> (prStopOnFirst req \<or> prStopOnFirstConfirmed req)"
  proof (cases "validForStop req c")
    case True
    then show ?thesis using i seen unfolding stop_seen_def s by (auto intro!: exI [of _ i])
  next
    case False
    then obtain j where "j < n" "j \<notin> set running" "validForStop req (cands ! j)" "prStopOnFirst req \<or> prStopOnFirstConfirmed req"
      using seen by (auto simp: stop_seen_def)
    moreover have "j \<noteq> i" using calculation(2) assms(3) by blast
    ultimately show ?thesis unfolding stop_seen_def s by (intro conjI exI [of _ j]) simp_all
  qed
qed

lemma probing_ok_step:
  assumes "probe_step outcome req s s'" "probing_ok outcome req s"
  shows "probing_ok outcome req s'"
  using assms(1)
proof (cases rule: probe_step.cases)
  case (job_over i rack slot c)
  have "running_ok req (pbNext s) (pbRunning s)" "pbNext s \<le> maxJobs req" "slots_ok outcome req (pbNext s) (pbRunning s) (pbCandidates s)"
    using assms(2) by (simp_all add: probing_ok_def)
  from finished_ok [OF this(1,2) job_over(2-4) this(3)] show ?thesis
    using assms(2) by (auto simp: job_over(1) probing_ok_def probeDone_def)
next
  case acquire
  have "running_ok req (pbNext s) (pbRunning s)" using assms(2) by (simp add: probing_ok_def)
  from started_ok [OF this acquire(3)] show ?thesis
    using assms(2) acquire(2) by (simp add: acquire(1) probing_ok_def probeDone_def)
qed (use assms(2) in \<open>auto simp: probing_ok_def probeDone_def\<close>)

lemma probing_ok_reachable:
  "(probe_step outcome req)\<^sup>*\<^sup>* (probeStart req) s \<Longrightarrow> probing_ok outcome req s"
proof (induction rule: rtranclp_induct)
  case base
  show ?case by (simp add: probing_ok_def probeStart_def running_ok_def slots_ok_def)
qed (rule probing_ok_step)

text \<open>Every step brings a run nearer to its end, and a run that is not over can go on by itself.\<close>

fun stepsLeft :: "loop_at \<Rightarrow> nat" where
  "stepsLeft AtCheck = 4" | "stepsLeft AtJitter = 3" | "stepsLeft AtDelay = 2" | "stepsLeft AtAcquire = 1" | "stepsLeft AtEnd = 0"

definition probeWork :: "RackSlotProbeRequest \<Rightarrow> probing \<Rightarrow> nat" where
  "probeWork req s = 6 * (maxJobs req - pbNext s) + stepsLeft (pbAt s) + length (pbRunning s) + (if pbCtxErr s = None then 1 else 0)"

lemma probeWork_step:
  assumes "probe_step outcome req s s'" "probing_ok outcome req s"
  shows "probeWork req s' < probeWork req s"
  using assms(1)
proof (cases rule: probe_step.cases)
  case (job_over i rack slot c)
  then have "0 < length (pbRunning s)" by (cases "pbRunning s") auto
  then show ?thesis using job_over(2) by (simp add: job_over(1) probeWork_def length_remove1)
next
  case acquire
  have "pbNext s < maxJobs req" using assms(2) acquire(2) by (simp add: probing_ok_def)
  then show ?thesis by (simp add: acquire(1) probeWork_def acquire(2))
qed (simp_all add: probeWork_def)

lemma probeWork_steps:
  assumes "(probe_step outcome req ^^ n) (probeStart req) s"
  shows "probing_ok outcome req s \<and> n + probeWork req s \<le> 6 * maxJobs req + 5"
  using assms
proof (induction n arbitrary: s)
  case 0
  then have s: "s = probeStart req" by simp
  show ?case using probing_ok_reachable [of outcome req "probeStart req"] by (simp add: s) (simp add: probeWork_def probeStart_def)
next
  case (Suc n)
  then obtain s1 where s1: "(probe_step outcome req ^^ n) (probeStart req) s1" "probe_step outcome req s1 s" by auto
  then have "probing_ok outcome req s1" "n + probeWork req s1 \<le> 6 * maxJobs req + 5" using Suc.IH by blast+
  then show ?case using probeWork_step [OF s1(2)] probing_ok_step [OF s1(2)] by linarith
qed

lemma probe_progress:
  assumes "1 \<le> prParallelism req" "\<And>rack slot. \<exists>c. outcome req rack slot c"
  shows "pbAt s = AtEnd \<and> pbRunning s = [] \<or> (\<exists>s'. probe_step outcome req s s' \<and> pbCtxErr s' = pbCtxErr s)"
proof (cases "pbRunning s")
  case Nil
  then show ?thesis
  proof (cases "pbAt s")
    case AtCheck
    then show ?thesis using loop_over [of s req outcome] check_done [of s req outcome] check_open [of s req outcome] by fastforce
  next
    case AtJitter
    then show ?thesis using jitter_over [of s outcome req] by fastforce
  next
    case AtDelay
    then show ?thesis using delay_over [of s outcome req] by fastforce
  next
    case AtAcquire
    then show ?thesis using acquire [of s req outcome] assms(1) Nil by fastforce
  qed simp
next
  case (Cons i rest)
  obtain rack slot where "probeJobs req ! i = (rack, slot)" by fastforce
  moreover obtain c where "outcome req rack slot c" using assms(2) by blast
  ultimately show ?thesis using job_over [of i s req rack slot outcome c] Cons by fastforce
qed

lemma applyProbeDefaults_parallel: "1 \<le> prParallelism (applyProbeDefaults req)"
proof -
  have any: "(\<And>y. 1 \<le> prParallelism (f y)) \<Longrightarrow> 1 \<le> prParallelism (Let x f)" for x :: 'x and f by (simp add: Let_def)
  have keep: "1 \<le> prParallelism x \<Longrightarrow> (\<And>y. 1 \<le> prParallelism y \<Longrightarrow> 1 \<le> prParallelism (f y)) \<Longrightarrow> 1 \<le> prParallelism (Let x f)" for x f
    by (simp add: Let_def)
  show ?thesis
    unfolding applyProbeDefaults_def by (rule any, rule any, rule any, rule keep, simp, rule keep, simp, simp)
qed

lemma probedOn_total:
  assumes "trs \<noteq> {}" "\<forall>tr \<in> trs. opens_well tr"
  shows "\<exists>c. probedOn trs ctx req rack slot c"
proof -
  obtain tr where "tr \<in> trs" "opens_well tr" using assms by blast
  then show ?thesis using probeOne_ends [of tr ctx req rack slot undefined] unfolding probedOn_def ends_def by blast
qed

lemma probedOn_classified:
  assumes "probedOn trs ctx req rack slot c" "\<forall>tr \<in> trs. opens_well tr"
  shows "classified req rack slot c \<and> (rcStatus c = StatusValidQuery \<longrightarrow> (\<exists>tr \<in> trs. answered tr 2))"
proof -
  obtain tr w w' where "tr \<in> trs" "probeOne tr ctx req rack slot w = (Ok c, w')" using assms(1) by (auto simp: probedOn_def)
  then show ?thesis using probeOne_ends [of tr ctx req rack slot w] assms(2) by (auto simp: ends_def)
qed

section \<open>What the probe of a host gives\<close>

lemma validForStop_zero [simp]: "\<not> validForStop req zeroCandidate"
  by (simp add: validForStop_def setupAccepted_def zeroCandidate_def)

text \<open>The candidates at the end of a run: outcomes of the first jobs, then zero values.\<close>

lemma run_candidates:
  assumes "probing_ok outcome req s" "pbAt s = AtEnd" "pbRunning s = []"
  shows "\<exists>done k. pbCandidates s = done @ replicate k zeroCandidate \<and> length done = pbNext s \<and>
    list_all2 (\<lambda>(rack, slot). outcome req rack slot) (take (pbNext s) (probeJobs req)) done \<and>
    length done + k = length (probeJobs req)"
proof (intro exI conjI)
  let ?n = "pbNext s" and ?k = "length (probeJobs req) - pbNext s"
  have ok: "slots_ok outcome req ?n [] (pbCandidates s)" "?n \<le> length (probeJobs req)"
    using assms maxJobs_le [of req] by (simp_all add: probing_ok_def)
  show "pbCandidates s = take ?n (pbCandidates s) @ replicate ?k zeroCandidate"
    using ok by (intro nth_equalityI) (auto simp: slots_ok_def nth_append)
  show "length (take ?n (pbCandidates s)) = ?n" "length (take ?n (pbCandidates s)) + ?k = length (probeJobs req)"
    using ok by (simp_all add: slots_ok_def)
  show "list_all2 (\<lambda>(rack, slot). outcome req rack slot) (take ?n (probeJobs req)) (take ?n (pbCandidates s))"
    using ok by (auto simp: list_all2_conv_all_nth slots_ok_def case_prod_beta)
qed

lemma valid_jobs:
  assumes "list_all2 (\<lambda>(rack, slot). P rack slot) jobs cs" "\<And>rack slot c. P rack slot c \<Longrightarrow> rcRack c = rack \<and> rcSlot c = slot"
  shows "map (\<lambda>c. (rcRack c, rcSlot c)) cs = jobs" "list_all (\<lambda>c. P (rcRack c) (rcSlot c) c) cs"
  using assms(1) by (induction rule: list_all2_induct) (auto dest: assms(2))

text \<open>A run that the caller does not end reaches its end.\<close>

lemma run_completes:
  assumes "1 \<le> prParallelism req" "\<And>rack slot. \<exists>c. outcome req rack slot c" "(probe_step outcome req)\<^sup>*\<^sup>* (probeStart req) s"
  shows "\<exists>s'. (probe_step outcome req)\<^sup>*\<^sup>* (probeStart req) s' \<and> pbAt s' = AtEnd \<and> pbRunning s' = [] \<and> pbCtxErr s' = pbCtxErr s"
  using assms(3)
proof (induction "probeWork req s" arbitrary: s rule: less_induct)
  case less
  show ?case
  proof (cases "pbAt s = AtEnd \<and> pbRunning s = []")
    case False
    then obtain s1 where s1: "probe_step outcome req s s1" "pbCtxErr s1 = pbCtxErr s"
      using probe_progress [where outcome = outcome and req = req and s = s] assms(1,2) by blast
    have "probeWork req s1 < probeWork req s" by (rule probeWork_step [OF s1(1) probing_ok_reachable [OF less.prems]])
    from less.hyps [OF this] show ?thesis using less.prems s1 by (auto intro: rtranclp.rtrancl_into_rtrancl)
  qed (use less.prems in blast)
qed

lemma ProbeRackSlots_exists:
  assumes "validateRackSlotProbeRequest (applyProbeDefaults req) = None"
    "\<And>rack slot. \<exists>c. outcome (applyProbeDefaults req) rack slot c"
  shows "\<exists>r. ProbeRackSlots outcome req (Some r) None"
proof -
  let ?q = "applyProbeDefaults req"
  obtain s where s: "(probe_step outcome ?q)\<^sup>*\<^sup>* (probeStart ?q) s" "pbAt s = AtEnd" "pbRunning s = []" "pbCtxErr s = pbCtxErr (probeStart ?q)"
    using run_completes [where outcome = outcome and req = ?q and s = "probeStart ?q"] applyProbeDefaults_parallel assms(2) by blast
  from probed [OF assms(1) s(1-3)] show ?thesis unfolding s(4) by (auto simp: probeStart_def)
qed

text \<open>What a result says of the run behind it.\<close>

lemma ProbeRackSlots_run:
  assumes "ProbeRackSlots outcome req (Some r) err" "q = applyProbeDefaults req"
    "\<And>rack slot c. outcome q rack slot c \<Longrightarrow> rcRack c = rack \<and> rcSlot c = slot"
  shows "\<exists>found k. rrCandidates r = found @ replicate k zeroCandidate \<and> r = probeResult q (rrCandidates r) \<and>
    map (\<lambda>c. (rcRack c, rcSlot c)) found = take (length found) (probeJobs q) \<and>
    list_all (\<lambda>c. outcome q (rcRack c) (rcSlot c) c) found \<and> length found \<le> maxJobs q \<and> length found + k = length (probeJobs q) \<and> rrValid r = filter (validForStop q) found \<and>
    (length found = maxJobs q \<or> err \<noteq> None \<or> (prStopOnFirst q \<or> prStopOnFirstConfirmed q) \<and> rrValid r \<noteq> [])"
  using assms(1)
proof (cases rule: ProbeRackSlots.cases)
  case (probed s)
  have ok: "probing_ok outcome q s" using probing_ok_reachable probed(4) assms(2) by blast
  obtain cs k where cs: "pbCandidates s = cs @ replicate k zeroCandidate" "length cs = pbNext s"
      "list_all2 (\<lambda>(rack, slot). outcome q rack slot) (take (pbNext s) (probeJobs q)) cs"
      "length cs + k = length (probeJobs q)"
    using run_candidates [OF ok probed(5,6)] by blast
  have jobs: "map (\<lambda>c. (rcRack c, rcSlot c)) cs = take (length cs) (probeJobs q)"
    using valid_jobs(1) [where P = "outcome q", OF cs(3)] assms(3) cs(2) by simp
  have r: "r = probeResult q (cs @ replicate k zeroCandidate)" using probed(1) assms(2) cs(1) by simp
  have valid: "rrValid r = filter (validForStop q) cs" by (simp add: r probeResult_def)
  have "list_all (\<lambda>c. outcome q (rcRack c) (rcSlot c) c) cs"
    using valid_jobs(2) [where P = "outcome q", OF cs(3)] assms(3) by simp
  moreover have "length cs \<le> maxJobs q" using ok cs(2) by (simp add: probing_ok_def)
  moreover have "length cs = maxJobs q \<or> err \<noteq> None \<or> (prStopOnFirst q \<or> prStopOnFirstConfirmed q) \<and> rrValid r \<noteq> []"
  proof (rule ccontr)
    assume no: "\<not> ?thesis"
    then have "pbCancelled s" using ok probed(2,5) cs(2) by (auto simp: probing_ok_def probeDone_def)
    then have "stop_seen q (length cs) [] (cs @ replicate k zeroCandidate)" using ok probed(6) cs by (simp add: probing_ok_def)
    then obtain i where "i < length cs" "validForStop q (cs ! i)" "prStopOnFirst q \<or> prStopOnFirstConfirmed q"
      by (auto simp: stop_seen_def nth_append)
    then show False using no nth_mem [of i cs] by (auto simp: valid filter_empty_conv)
  qed
  ultimately show ?thesis
    using jobs valid cs(4) by (intro exI [of _ cs] exI [of _ k]) (simp add: r probeResult_def)
qed

text \<open>C27 The probe of a host reports on the rack and slot pairs of its request, in order: under every interleaving
  of its goroutines, on networks that may behave differently towards each of them, the candidates are the outcomes
  of the first jobs (each with its own rack and slot and a status that fits the stage it reached) followed by
  zero values, one for each job never started; all jobs up to the limit are probed unless the caller's context ends or a valid
  candidate stops the probe. The valid ones are in the order of the jobs without repetition, and in strict
  mode each was confirmed by the answer to a query.\<close>

theorem ProbeRackSlots_candidates:
  assumes "ProbeRackSlots (probedOn trs ctx) req (Some r) err" "\<forall>tr \<in> trs. opens_well tr" "q = applyProbeDefaults req"
  shows "(\<exists>found k. rrCandidates r = found @ replicate k zeroCandidate \<and>
    map (\<lambda>c. (rcRack c, rcSlot c)) found = take (length found) (probeJobs q) \<and>
    list_all (\<lambda>c. classified q (rcRack c) (rcSlot c) c) found \<and> length found \<le> maxJobs q \<and> length found + k = length (probeJobs q) \<and>
    (length found = maxJobs q \<or> err \<noteq> None \<or> (prStopOnFirst q \<or> prStopOnFirstConfirmed q) \<and> rrValid r \<noteq> [])) \<and>
    subseq (map (\<lambda>c. (rcRack c, rcSlot c)) (rrValid r)) (probeJobs q) \<and>
    list_all (\<lambda>c. if prStrict q then rcStatus c = StatusValidQuery \<and> rcConfidence c = ConfidenceHigh \<and> (\<exists>tr \<in> trs. answered tr 2)
      else rcStatus c = StatusSetupOnly \<and> rcConfidence c = ConfidenceLow) (rrValid r)"
proof (intro conjI)
  note cl = probedOn_classified [OF _ assms(2), of ctx q]
  obtain cs k where cs: "rrCandidates r = cs @ replicate k zeroCandidate"
      "map (\<lambda>c. (rcRack c, rcSlot c)) cs = take (length cs) (probeJobs q)"
      "list_all (\<lambda>c. probedOn trs ctx q (rcRack c) (rcSlot c) c) cs" "length cs \<le> maxJobs q" "rrValid r = filter (validForStop q) cs"
      "length cs = maxJobs q \<or> err \<noteq> None \<or> (prStopOnFirst q \<or> prStopOnFirstConfirmed q) \<and> rrValid r \<noteq> []"
      "length cs + k = length (probeJobs q)"
    using ProbeRackSlots_run [OF assms(1,3)] cl unfolding classified_def by blast
  have each: "classified q (rcRack c) (rcSlot c) c" "rcStatus c = StatusValidQuery \<longrightarrow> (\<exists>tr \<in> trs. answered tr 2)" if "c \<in> set cs" for c
    using cs(3) cl that by (auto simp: list_all_iff)
  show "\<exists>found k. rrCandidates r = found @ replicate k zeroCandidate \<and>
    map (\<lambda>c. (rcRack c, rcSlot c)) found = take (length found) (probeJobs q) \<and>
    list_all (\<lambda>c. classified q (rcRack c) (rcSlot c) c) found \<and> length found \<le> maxJobs q \<and> length found + k = length (probeJobs q) \<and>
    (length found = maxJobs q \<or> err \<noteq> None \<or> (prStopOnFirst q \<or> prStopOnFirstConfirmed q) \<and> rrValid r \<noteq> [])"
    using cs each(1) by (intro exI [of _ cs] exI [of _ k]) (simp add: list_all_iff)
  have "subseq (map (\<lambda>c. (rcRack c, rcSlot c)) (rrValid r)) (map (\<lambda>c. (rcRack c, rcSlot c)) cs)"
    unfolding cs(5) by (intro subseq_map) simp
  also have "subseq \<dots> (probeJobs q)" unfolding cs(2) by (rule prefix_imp_subseq [OF take_is_prefix])
  finally show "subseq (map (\<lambda>c. (rcRack c, rcSlot c)) (rrValid r)) (probeJobs q)" .
  have "if prStrict q then rcStatus c = StatusValidQuery \<and> rcConfidence c = ConfidenceHigh \<and> (\<exists>tr \<in> trs. answered tr 2)
      else rcStatus c = StatusSetupOnly \<and> rcConfidence c = ConfidenceLow" if c: "c \<in> set cs" "validForStop q c" for c
    using each [OF c(1)] c(2) by (auto simp: classified_def validForStop_def setupAccepted_def split: if_splits)
  then show "list_all (\<lambda>c. if prStrict q then rcStatus c = StatusValidQuery \<and> rcConfidence c = ConfidenceHigh \<and> (\<exists>tr \<in> trs. answered tr 2)
      else rcStatus c = StatusSetupOnly \<and> rcConfidence c = ConfidenceLow) (rrValid r)"
    unfolding cs(5) list_all_iff set_filter by blast
qed


definition demoProbe :: RackSlotProbeRequest where
  "demoProbe = (DefaultRackSlotProbeRequest ''plc'')\<lparr>prRackMax := 0, prSlotMax := 1\<rparr>"

lemma demoProbe_defaults: "applyProbeDefaults demoProbe = demoProbe"
  by (simp add: applyProbeDefaults_def demoProbe_def DefaultRackSlotProbeRequest_def)

lemma demoProbe_valid: "validateRackSlotProbeRequest demoProbe = None"
  by (simp add: validateRackSlotProbeRequest_def demoProbe_def DefaultRackSlotProbeRequest_def is_blank_def wide_space_def)

lemma scripted_opens_well: "opens_well (scripted\<lparr>trRead := \<lambda>w ctx c. (Ok [], w)\<rparr>)"
  using scripted_well_behaved by (simp add: opens_well_def) (simp add: scripted_def)


theorem ProbeRackSlots_candidates_witness:
  "\<exists>r found k. ProbeRackSlots (probedOn {scripted\<lparr>trRead := \<lambda>w ctx c. (Ok [], w)\<rparr>} CallerCtx) demoProbe (Some r) None \<and>
    rrCandidates r = found @ replicate k zeroCandidate \<and> map (\<lambda>c. (rcRack c, rcSlot c)) found = [(0, 0), (0, 1)]"
proof -
  let ?o = "probedOn {scripted\<lparr>trRead := \<lambda>w ctx c. (Ok [], w)\<rparr>} CallerCtx"
  obtain r where r: "ProbeRackSlots ?o demoProbe (Some r) None"
    using demoProbe_valid demoProbe_defaults ProbeRackSlots_exists [where outcome = ?o and req = demoProbe]
      probedOn_total [of "{scripted\<lparr>trRead := \<lambda>w ctx c. (Ok [], w)\<rparr>}"] scripted_opens_well by auto
  have jobs: "probeJobs demoProbe = [(0, 0), (0, 1)]" "maxJobs demoProbe = 2"
    by (simp_all add: probeJobs_def maxJobs_def demoProbe_def DefaultRackSlotProbeRequest_def upto.simps)
  have "\<not> (prStopOnFirst demoProbe \<or> prStopOnFirstConfirmed demoProbe)" by (simp add: demoProbe_def DefaultRackSlotProbeRequest_def)
  then obtain cs k where "rrCandidates r = cs @ replicate k zeroCandidate" "map (\<lambda>c. (rcRack c, rcSlot c)) cs = take (length cs) (probeJobs demoProbe)" "length cs = 2"
    using ProbeRackSlots_candidates [OF r _ demoProbe_defaults [symmetric]] scripted_opens_well by (auto simp: jobs)
  then show ?thesis using r by (intro exI [of _ r] exI [of _ cs] exI [of _ k]) (simp add: jobs)
qed

end
