(* ===== verification/Client_Discover.thy ===== *)
theory Client_Discover
  imports Client_Probe
begin

text \<open>
  The scan of a network for devices (\<^verbatim>\<open>client/discover.go\<close>): options, the addresses of an IPv4 prefix, the probe of one
  host, and the workers of \<^verbatim>\<open>Discover\<close> as a step relation. Of the standard library it models
  \<^verbatim>\<open>net.ParseCIDR\<close>, \<^verbatim>\<open>net.IP\<close> and \<^verbatim>\<open>net.IPNet\<close> as far as they are used; the parser of IPv6 addresses is a
  parameter, whose result is only ever rejected or masked.
\<close>

section \<open>Options\<close>

record DiscoverResult =
  drIP :: string
  drPort :: int
  drIsS7 :: bool
  drRack :: int
  drSlot :: int
  drPDUSize :: int
  drTSAP :: string
  drError :: string
  drAbandonedReason :: string

record discoverOpts =
  doTimeout :: int
  doParallel :: int
  doRackMin :: int
  doRackMax :: int
  doSlotMin :: int
  doSlotMax :: int
  doRateMS :: int
  doSafetyMode :: SafetyMode
  doJitterMS :: int
  doMaxAttemptsPerHost :: int

type_synonym DiscoverOption = "discoverOpts \<Rightarrow> discoverOpts"

definition WithDiscoverTimeout :: "int \<Rightarrow> DiscoverOption" where
  "WithDiscoverTimeout ms = (\<lambda>opts. opts\<lparr>doTimeout := ms\<rparr>)"

definition WithDiscoverParallel :: "int \<Rightarrow> DiscoverOption" where
  "WithDiscoverParallel n = (\<lambda>opts. opts\<lparr>doParallel := n\<rparr>)"

definition WithDiscoverRackSlotRange :: "int \<Rightarrow> int \<Rightarrow> int \<Rightarrow> int \<Rightarrow> DiscoverOption" where
  "WithDiscoverRackSlotRange rackMin rackMax slotMin slotMax =
     (\<lambda>opts. opts\<lparr>doRackMin := rackMin, doRackMax := rackMax, doSlotMin := slotMin, doSlotMax := slotMax\<rparr>)"

definition WithDiscoverRateLimit :: "int \<Rightarrow> DiscoverOption" where
  "WithDiscoverRateLimit ms = (\<lambda>opts. opts\<lparr>doRateMS := ms\<rparr>)"

definition WithDiscoverSafetyMode :: "SafetyMode \<Rightarrow> DiscoverOption" where
  "WithDiscoverSafetyMode mode = (\<lambda>opts. opts\<lparr>doSafetyMode := mode\<rparr>)"

definition WithDiscoverJitter :: "int \<Rightarrow> DiscoverOption" where
  "WithDiscoverJitter ms = (\<lambda>opts. opts\<lparr>doJitterMS := ms\<rparr>)"

definition WithDiscoverMaxAttemptsPerHost :: "int \<Rightarrow> DiscoverOption" where
  "WithDiscoverMaxAttemptsPerHost n = (\<lambda>opts. opts\<lparr>doMaxAttemptsPerHost := n\<rparr>)"

definition defaultDiscoverOpts :: discoverOpts where
  "defaultDiscoverOpts = \<lparr>doTimeout = 2000, doParallel = 10, doRackMin = 0, doRackMax = 3, doSlotMin = 0, doSlotMax = 5,
     doRateMS = 0, doSafetyMode = [], doJitterMS = 0, doMaxAttemptsPerHost = 0\<rparr>"

definition applySafetyMode :: "discoverOpts \<Rightarrow> discoverOpts" where
  "applySafetyMode opts =
    (let opts = (if doSafetyMode opts = [] then opts\<lparr>doSafetyMode := SafetyNormal\<rparr> else opts) in
     if doSafetyMode opts = SafetyConservative then
       opts\<lparr>doTimeout := (if doTimeout opts = 2000 then 5000 else doTimeout opts),
         doParallel := (if doParallel opts = 10 then 3 else doParallel opts),
         doRateMS := (if doRateMS opts = 0 then 50 else doRateMS opts)\<rparr>
     else if doSafetyMode opts = SafetyAggressive then
       opts\<lparr>doTimeout := (if doTimeout opts = 2000 then 1000 else doTimeout opts),
         doParallel := (if doParallel opts = 10 then 15 else doParallel opts)\<rparr>
     else opts)"

definition discoverOptions :: "DiscoverOption list \<Rightarrow> discoverOpts" where
  "discoverOptions options = applySafetyMode (foldl (\<lambda>opts f. f opts) defaultDiscoverOpts options)"

definition validateDiscover :: "discoverOpts \<Rightarrow> go_error option" where
  "validateDiscover opts =
    (if doRackMax opts < doRackMin opts
     then Some (ValidationError (''discover: rack min ('' @ itoa (doRackMin opts) @ '') must be <= rack max ('' @ itoa (doRackMax opts) @ '')''))
     else if doSlotMax opts < doSlotMin opts
     then Some (ValidationError (''discover: slot min ('' @ itoa (doSlotMin opts) @ '') must be <= slot max ('' @ itoa (doSlotMax opts) @ '')''))
     else if doJitterMS opts < 0
     then Some (ValidationError (''discover: jitter ms must be >= 0, got '' @ itoa (doJitterMS opts)))
     else if doMaxAttemptsPerHost opts < 0
     then Some (ValidationError (''discover: max attempts per host must be >= 0, got '' @ itoa (doMaxAttemptsPerHost opts)))
     else None)"

section \<open>Addresses\<close>

text \<open>
  An address is its 4 or 16 bytes. \<open>parseIPv4\<close> is the IPv4 parser of \<^verbatim>\<open>netip.ParseAddr\<close>: the number in progress,
  how many digits it has, and the octets before it.
\<close>

fun parseIPv4 :: "string \<Rightarrow> nat \<Rightarrow> nat \<Rightarrow> bytes \<Rightarrow> bytes option" where
  "parseIPv4 [] val digLen octs =
    (if digLen = 0 \<or> length octs \<noteq> 3 then None else Some (octs @ [word_of_nat val]))"
| "parseIPv4 (ch # s) val digLen octs =
    (let c = of_char ch :: nat in
     if 48 \<le> c \<and> c \<le> 57 then
       (if digLen = 1 \<and> val = 0 then None
        else if 255 < val * 10 + (c - 48) then None
        else parseIPv4 s (val * 10 + (c - 48)) (digLen + 1) octs)
     else if ch = CHR ''.'' then
       (if digLen = 0 \<or> length octs = 3 then None else parseIPv4 s 0 0 (octs @ [word_of_nat val]))
     else None)"

text \<open>\<^verbatim>\<open>netip.ParseAddr\<close>: the first dot, colon or percent sign decides.\<close>

fun parseAddr :: "(string \<Rightarrow> bytes option) \<Rightarrow> string \<Rightarrow> string \<Rightarrow> bytes option" where
  "parseAddr parse6 whole [] = None"
| "parseAddr parse6 whole (ch # s) =
    (if ch = CHR ''.'' then parseIPv4 whole 0 0 []
     else if ch = CHR '':'' then parse6 whole
     else if ch = CHR 0x25 then None
     else parseAddr parse6 whole s)"

fun decimal :: "string \<Rightarrow> nat \<Rightarrow> nat option" where
  "decimal [] n = Some n"
| "decimal (ch # s) n = (let c = of_char ch :: nat in
     if 48 \<le> c \<and> c \<le> 57 then decimal s (n * 10 + (c - 48)) else None)"

text \<open>\<^verbatim>\<open>net.CIDRMask\<close>, \<^verbatim>\<open>IP.Mask\<close> and \<^verbatim>\<open>IP.To4\<close>.\<close>

fun CIDRMask :: "nat \<Rightarrow> nat \<Rightarrow> bytes" where
  "CIDRMask ones 0 = []"
| "CIDRMask ones (Suc l) = (if 8 \<le> ones then 0xFF # CIDRMask (ones - 8) l else NOT (drop_bit ones 0xFF) # CIDRMask 0 l)"

definition IP_Mask :: "bytes \<Rightarrow> bytes \<Rightarrow> bytes" where
  "IP_Mask ip m = map2 (\<lambda>a b. a AND b) ip m"

definition v4InV6 :: bytes where
  "v4InV6 = replicate 10 0 @ [0xFF, 0xFF]"

definition To4 :: "bytes \<Rightarrow> bytes option" where
  "To4 ip = (if length ip = 4 then Some ip else if length ip = 16 \<and> take 12 ip = v4InV6 then Some (drop 12 ip) else None)"

text \<open>The prefix a CIDR text names: its address, the number of ones of its mask and the number of bits.\<close>

record IPNet =
  inIP :: bytes
  inOnes :: nat
  inBits :: nat

definition inMask :: "IPNet \<Rightarrow> bytes" where
  "inMask n = CIDRMask (inOnes n) (inBits n div 8)"

definition ParseCIDR :: "(string \<Rightarrow> bytes option) \<Rightarrow> string \<Rightarrow> IPNet res" where
  "ParseCIDR parse6 cidr =
    (let addr = takeWhile (\<lambda>ch. ch \<noteq> CHR ''/'') cidr; mask = dropWhile (\<lambda>ch. ch \<noteq> CHR ''/'') cidr;
         invalid = Err (OtherError (''invalid CIDR address: '' @ cidr)) in
     if mask = [] then invalid
     else
      (case parseAddr parse6 addr addr of
         None \<Rightarrow> invalid
       | Some ip \<Rightarrow>
          (case (if tl mask = [] then None else decimal (tl mask) 0) of
             None \<Rightarrow> invalid
           | Some ones \<Rightarrow>
             let bits = 8 * length ip in
             if bits < ones then invalid
             else Ok \<lparr>inIP = IP_Mask ip (CIDRMask ones (length ip)), inOnes = ones, inBits = bits\<rparr>)))"

text \<open>\<^verbatim>\<open>IP.String\<close> of an address that has an IPv4 form.\<close>

definition IP_String :: "bytes \<Rightarrow> string" where
  "IP_String ip = (case To4 ip of
      Some [a, b, c, d] \<Rightarrow> utoa (unat a) @ ''.'' @ utoa (unat b) @ ''.'' @ utoa (unat c) @ ''.'' @ utoa (unat d)
    | _ \<Rightarrow> [])"

text \<open>\<^verbatim>\<open>IPNet.Contains\<close> for a network with an IPv4 form.\<close>

definition Contains :: "IPNet \<Rightarrow> bytes \<Rightarrow> bool" where
  "Contains n ip = (case (To4 (inIP n), To4 ip) of
      (Some nn, Some x) \<Rightarrow>
        (let m = (if length (inMask n) = 16 then drop 12 (inMask n) else inMask n) in IP_Mask nn m = IP_Mask x m)
    | _ \<Rightarrow> False)"

text \<open>The loop from the last byte to the first, on the bytes in that order.\<close>

fun incBytes :: "bytes \<Rightarrow> bytes" where
  "incBytes [] = []"
| "incBytes (b # bs) = (if 0 < b + 1 then (b + 1) # bs else (b + 1) # incBytes bs)"

definition incIP :: "bytes \<Rightarrow> bytes" where
  "incIP ip = rev (incBytes (rev ip))"

abbreviation maxDiscoveryHostBits :: nat where "maxDiscoveryHostBits \<equiv> 20"

text \<open>The loop of \<^verbatim>\<open>streamCIDR\<close> from index \<open>i\<close>, as long as \<open>send\<close> takes the addresses: those it yields.\<close>

fun streamFrom :: "nat \<Rightarrow> nat \<Rightarrow> bytes \<Rightarrow> bytes list" where
  "streamFrom hosts 0 ip = []"
| "streamFrom hosts (Suc left) ip =
    (let i = hosts - Suc left; skipEnds = 2 < hosts in
     if skipEnds \<and> (i = 0 \<or> i = hosts - 1) then streamFrom hosts left (if i = 0 then incIP ip else ip)
     else ip # streamFrom hosts left (incIP ip))"

definition streamCIDR :: "(string \<Rightarrow> bytes option) \<Rightarrow> string \<Rightarrow> string list res" where
  "streamCIDR parse6 cidr =
    (case ParseCIDR parse6 cidr of
       Panic \<Rightarrow> Panic
     | Err e \<Rightarrow> Err (ValidationError (error_text e))
     | Ok n \<Rightarrow>
       if To4 (inIP n) = None then Err (ValidationError (''discovery is IPv4-only; got IPv6 CIDR '' @ cidr))
       else if inBits n \<noteq> 32 then Err (ValidationError (''expected IPv4 mask, got '' @ utoa (inBits n) @ '' bits''))
       else
        (let hostBits = inBits n - inOnes n in
         if maxDiscoveryHostBits < hostBits
         then Err (ValidationError (''CIDR too large for discovery (max /12): '' @ cidr))
         else
          (let hosts = 2 ^ hostBits in
           Ok (map IP_String (streamFrom hosts hosts (IP_Mask (inIP n) (inMask n)))))))"

text \<open>The loop of \<^verbatim>\<open>expandCIDR\<close>, which has no bound.\<close>

partial_function (option) expandFrom :: "IPNet \<Rightarrow> bytes \<Rightarrow> string list option" where
  "expandFrom n ip =
    (if Contains n ip then Option.bind (expandFrom n (incIP ip)) (\<lambda>ips. Some (IP_String ip # ips)) else Some [])"

definition expandCIDR :: "(string \<Rightarrow> bytes option) \<Rightarrow> string \<Rightarrow> string list res option" where
  "expandCIDR parse6 cidr =
    (case ParseCIDR parse6 cidr of
       Panic \<Rightarrow> Some Panic
     | Err e \<Rightarrow> Some (Err (ValidationError (error_text e)))
     | Ok n \<Rightarrow>
       if To4 (inIP n) = None then Some (Err (ValidationError (''discovery is IPv4-only; got IPv6 CIDR '' @ cidr)))
       else Option.bind (expandFrom n (IP_Mask (inIP n) (inMask n))) (\<lambda>ips.
         Some (if 2 < length ips then go_slice ips 1 (length ips - 1) else Ok ips)))"

section \<open>The probe of one host\<close>

definition discoverClient :: "string \<Rightarrow> int \<Rightarrow> discoverOpts \<Rightarrow> int \<Rightarrow> int \<Rightarrow> 'c Client" where
  "discoverClient ip port opts rack slot =
     Client_New ip [WithPort port, WithRackSlot rack slot, WithTimeoutOption (doTimeout opts * 1000000)]"

definition abandoned :: "DiscoverResult \<Rightarrow> go_error \<Rightarrow> DiscoverResult" where
  "abandoned r e = r\<lparr>drError := error_text e, drAbandonedReason := ''context_canceled''\<rparr>"

text \<open>The two loops over racks and slots; \<open>rnd k\<close> is the random source at attempt \<open>k\<close>.\<close>

fun probeS7From :: "('w, 'r, 'c) transport \<Rightarrow> go_ctx \<Rightarrow> (nat \<Rightarrow> int \<Rightarrow> int option) \<Rightarrow> discoverOpts \<Rightarrow> DiscoverResult \<Rightarrow>
    nat \<Rightarrow> (int \<times> int) list \<Rightarrow> 'w \<Rightarrow> DiscoverResult res \<times> 'w" where
  "probeS7From tr ctx rnd opts result attempts [] w =
     (Ok (result\<lparr>drError := ''no valid COTP+S7 setup for tested rack/slot range''\<rparr>), w)"
| "probeS7From tr ctx rnd opts result attempts ((rack, slot) # pairs) w =
    (if 0 < doMaxAttemptsPerHost opts \<and> doMaxAttemptsPerHost opts \<le> int attempts
     then (Ok (result\<lparr>drAbandonedReason := ''max_attempts'', drError := ''max attempts per host reached''\<rparr>), w)
     else
      (case trCtxErr tr w ctx of
         (Panic, w) \<Rightarrow> (Panic, w)
       | (Err e, w) \<Rightarrow> (Ok (abandoned result e), w)
       | (Ok _, w) \<Rightarrow>
         (let jitter = randomJitter (rnd attempts) (doJitterMS opts) in
          case (if 0 < jitter then trSleep tr w ctx jitter else (Ok (), w)) of
            (Panic, w) \<Rightarrow> (Panic, w)
          | (Err e, w) \<Rightarrow> (Ok (abandoned result e), w)
          | (Ok _, w) \<Rightarrow>
            (case (if 0 < doRateMS opts then trSleep tr w ctx (doRateMS opts * 1000000) else (Ok (), w)) of
               (Panic, w) \<Rightarrow> (Panic, w)
             | (Err e, w) \<Rightarrow> (Ok (abandoned result e), w)
             | (Ok _, w) \<Rightarrow>
               (case Connect tr (discoverClient (drIP result) (drPort result) opts rack slot) ctx w of
                  (Panic, c, w) \<Rightarrow> (Panic, w)
                | (Err e, c, w) \<Rightarrow> probeS7From tr ctx rnd opts result (attempts + 1) pairs w
                | (Ok _, c, w) \<Rightarrow>
                  (let info = Client_ConnectionInfo c in
                   case Client_Close tr c w of
                     (Panic, c, w) \<Rightarrow> (Panic, w)
                   | (_, c, w) \<Rightarrow>
                      (Ok (result\<lparr>drIsS7 := True, drRack := ciRack info, drSlot := ciSlot info, drPDUSize := ciPDUSize info,
                         drTSAP := ''0x'' @ hex04 (ciRemoteTSAP info)\<rparr>), w)))))))"

definition zeroDiscover :: DiscoverResult where
  "zeroDiscover = \<lparr>drIP = [], drPort = 0, drIsS7 = False, drRack = 0, drSlot = 0, drPDUSize = 0, drTSAP = [], drError = [],
     drAbandonedReason = []\<rparr>"

definition discoverPairs :: "discoverOpts \<Rightarrow> (int \<times> int) list" where
  "discoverPairs opts = [(rack, slot). rack \<leftarrow> [doRackMin opts..doRackMax opts], slot \<leftarrow> [doSlotMin opts..doSlotMax opts]]"

definition probeS7 :: "('w, 'r, 'c) transport \<Rightarrow> go_ctx \<Rightarrow> (nat \<Rightarrow> int \<Rightarrow> int option) \<Rightarrow> string \<Rightarrow> int \<Rightarrow> discoverOpts \<Rightarrow> 'w \<Rightarrow>
    DiscoverResult res \<times> 'w" where
  "probeS7 tr ctx rnd ip port opts w =
     probeS7From tr ctx rnd opts (zeroDiscover\<lparr>drIP := ip, drPort := port\<rparr>) 0 (discoverPairs opts) w"

text \<open>\<open>close\<close> is \<^verbatim>\<open>conn.Close()\<close> on the raw connection, whose error is dropped.\<close>

definition isPortOpen :: "('w, 'r, 'c) transport \<Rightarrow> ('r \<Rightarrow> 'w \<Rightarrow> 'w) \<Rightarrow> go_ctx \<Rightarrow> string \<Rightarrow> int \<Rightarrow> int \<Rightarrow> 'w \<Rightarrow> unit res \<times> 'w" where
  "isPortOpen tr close ctx ip port timeout w =
    (let timeout = (if timeout \<le> 0 then 800000000 else timeout) in
     case trDial tr w (WithTimeout ctx timeout) (JoinHostPort ip (itoa port)) 0 of
       (Panic, w) \<Rightarrow> (Panic, w)
     | (Err e, w) \<Rightarrow> (Err e, w)
     | (Ok raw, w) \<Rightarrow> (Ok (), close raw w))"

section \<open>The workers\<close>

text \<open>
  A goroutine gives the indices of the addresses to a channel of twice as many places as there are workers and closes it;
  the workers probe them and send the results to a channel with a place for each; the caller collects them. The state:
  how many addresses were given and whether the giver still runs, the two channels, the workers, the results collected
  and the error of the context once it has ended. Without a context error the caller ends when every worker
  has quit and every result is collected.
\<close>

datatype worker = Waiting | Probing nat | Holding nat DiscoverResult | Quit

record discovering =
  dvGiven :: nat
  dvGiving :: bool
  dvJobs :: "nat list"
  dvWorkers :: "worker list"
  dvOut :: "(nat \<times> DiscoverResult) list"
  dvResults :: "DiscoverResult list"
  dvCtxErr :: "go_error option"

definition discoverStart :: "discoverOpts \<Rightarrow> string list \<Rightarrow> discovering" where
  "discoverStart opts ips = \<lparr>dvGiven = 0, dvGiving = True, dvJobs = [],
     dvWorkers = replicate (nat (if doParallel opts < 1 then 1 else doParallel opts)) Waiting, dvOut = [],
     dvResults = replicate (length ips) zeroDiscover, dvCtxErr = None\<rparr>"

type_synonym host_outcome = "discoverOpts \<Rightarrow> string \<Rightarrow> DiscoverResult \<Rightarrow> bool"

inductive discover_step :: "host_outcome \<Rightarrow> discoverOpts \<Rightarrow> string list \<Rightarrow> discovering \<Rightarrow> discovering \<Rightarrow> bool"
  for outcome opts ips where
  give: "dvGiving s \<Longrightarrow> dvGiven s < length ips \<Longrightarrow> length (dvJobs s) < 2 * length (dvWorkers s) \<Longrightarrow>
    discover_step outcome opts ips s (s\<lparr>dvGiven := dvGiven s + 1, dvJobs := dvJobs s @ [dvGiven s]\<rparr>)"
| give_up: "dvGiving s \<Longrightarrow> dvGiven s < length ips \<Longrightarrow> dvCtxErr s \<noteq> None \<Longrightarrow>
    discover_step outcome opts ips s (s\<lparr>dvGiving := False\<rparr>)"
| all_given: "dvGiving s \<Longrightarrow> dvGiven s = length ips \<Longrightarrow> discover_step outcome opts ips s (s\<lparr>dvGiving := False\<rparr>)"
| take_job: "k < length (dvWorkers s) \<Longrightarrow> dvWorkers s ! k = Waiting \<Longrightarrow> dvJobs s = i # rest \<Longrightarrow>
    discover_step outcome opts ips s (s\<lparr>dvJobs := rest, dvWorkers := (dvWorkers s)[k := Probing i]\<rparr>)"
| no_jobs: "k < length (dvWorkers s) \<Longrightarrow> dvWorkers s ! k = Waiting \<Longrightarrow> dvJobs s = [] \<Longrightarrow> \<not> dvGiving s \<Longrightarrow>
    discover_step outcome opts ips s (s\<lparr>dvWorkers := (dvWorkers s)[k := Quit]\<rparr>)"
| probe_host: "k < length (dvWorkers s) \<Longrightarrow> dvWorkers s ! k = Probing i \<Longrightarrow> outcome opts (ips ! i) r \<Longrightarrow>
    discover_step outcome opts ips s (s\<lparr>dvWorkers := (dvWorkers s)[k := Holding i r]\<rparr>)"
| send_result: "k < length (dvWorkers s) \<Longrightarrow> dvWorkers s ! k = Holding i r \<Longrightarrow> length (dvOut s) < length ips \<Longrightarrow>
    discover_step outcome opts ips s (s\<lparr>dvWorkers := (dvWorkers s)[k := Waiting], dvOut := dvOut s @ [(i, r)]\<rparr>)"
| drop_result: "k < length (dvWorkers s) \<Longrightarrow> dvWorkers s ! k = Holding i r \<Longrightarrow> dvCtxErr s \<noteq> None \<Longrightarrow>
    discover_step outcome opts ips s (s\<lparr>dvWorkers := (dvWorkers s)[k := Quit]\<rparr>)"
| collect: "dvOut s = (i, r) # rest \<Longrightarrow>
    discover_step outcome opts ips s (s\<lparr>dvOut := rest, dvResults := (dvResults s)[i := r]\<rparr>)"
| discover_ctx_ends: "dvCtxErr s = None \<Longrightarrow> discover_step outcome opts ips s (s\<lparr>dvCtxErr := Some e\<rparr>)"

definition discoverOver :: "discovering \<Rightarrow> bool" where
  "discoverOver s \<longleftrightarrow> list_all (\<lambda>k. k = Quit) (dvWorkers s) \<and> dvOut s = []"

text \<open>
  What \<^verbatim>\<open>Discover\<close> returns: the error of the options, of the text of the range, or of a context that ends while the addresses are
  counted; nothing for a range without addresses; otherwise the results of a run, with the error of the context.
\<close>

inductive Discover :: "(string \<Rightarrow> bytes option) \<Rightarrow> host_outcome \<Rightarrow> string \<Rightarrow> DiscoverOption list \<Rightarrow>
    DiscoverResult list \<Rightarrow> go_error option \<Rightarrow> bool" for parse6 outcome cidr options where
  bad_options: "validateDiscover (discoverOptions options) = Some e \<Longrightarrow> Discover parse6 outcome cidr options [] (Some e)"
| bad_range: "validateDiscover (discoverOptions options) = None \<Longrightarrow> streamCIDR parse6 cidr = Err e \<Longrightarrow>
    Discover parse6 outcome cidr options [] (Some e)"
| ended_counting: "validateDiscover (discoverOptions options) = None \<Longrightarrow> streamCIDR parse6 cidr = Ok (ip # ips) \<Longrightarrow>
    Discover parse6 outcome cidr options [] (Some e)"
| no_hosts: "validateDiscover (discoverOptions options) = None \<Longrightarrow> streamCIDR parse6 cidr = Ok [] \<Longrightarrow>
    Discover parse6 outcome cidr options [] None"
| scanned: "validateDiscover (discoverOptions options) = None \<Longrightarrow> streamCIDR parse6 cidr = Ok ips \<Longrightarrow> ips \<noteq> [] \<Longrightarrow>
    (discover_step outcome (discoverOptions options) ips)\<^sup>*\<^sup>* (discoverStart (discoverOptions options) ips) s \<Longrightarrow>
    discoverOver s \<Longrightarrow> Discover parse6 outcome cidr options (dvResults s) (dvCtxErr s)"

text \<open>The outcomes of the probe of a host on the networks a worker may see.\<close>

definition hostOn :: "('w, 'r, 'c) transport set \<Rightarrow> go_ctx \<Rightarrow> host_outcome" where
  "hostOn trs ctx opts ip r \<longleftrightarrow> (\<exists>tr \<in> trs. \<exists>rnd w w'. probeS7 tr ctx rnd ip 102 opts w = (Ok r, w'))"

section \<open>Facts about addresses\<close>

text \<open>The number an address stands for, from its first byte and from its last.\<close>

fun ipValue :: "bytes \<Rightarrow> nat" where
  "ipValue [] = 0"
| "ipValue (b # bs) = unat b * 256 ^ length bs + ipValue bs"

fun revValue :: "bytes \<Rightarrow> nat" where
  "revValue [] = 0"
| "revValue (b # bs) = unat b + 256 * revValue bs"

lemma ipValue_append: "ipValue (xs @ ys) = ipValue xs * 256 ^ length ys + ipValue ys"
  by (induction xs) (simp_all add: power_add algebra_simps)

lemma ipValue_rev: "ipValue (rev bs) = revValue bs"
  by (induction bs) (simp_all add: ipValue_append)

lemma byte_bound: "unat (b :: byte) < 256"
  using unsigned_less [of b, where ?'a = nat] by simp

lemma ipValue_bound: "ipValue bs < 256 ^ length bs"
proof (induction bs)
  case (Cons b bs)
  have "unat b + 1 \<le> 256" using byte_bound [of b] by linarith
  from mult_le_mono1 [OF this, of "256 ^ length bs"]
  have "unat b * 256 ^ length bs + 256 ^ length bs \<le> 256 * 256 ^ length bs" by (simp only: add_mult_distrib mult_1)
  then have "unat b * 256 ^ length bs + ipValue bs < 256 * 256 ^ length bs" using Cons by linarith
  then show ?case by simp
qed simp

lemma ipValue_inj: "length xs = length ys \<Longrightarrow> ipValue xs = ipValue ys \<Longrightarrow> xs = ys"
proof (induction xs ys rule: list_induct2)
  case (Cons x xs y ys)
  have "ipValue (x # xs) div 256 ^ length xs = unat x" "ipValue (y # ys) div 256 ^ length ys = unat y"
    using ipValue_bound [of xs] ipValue_bound [of ys] by simp_all
  then have "unat x = unat y" using Cons.prems Cons.hyps by metis
  then have "x = y" by (simp only: word_unat_eq_iff)
  then show ?case using Cons by simp
qed simp

lemma length_incBytes [simp]: "length (incBytes bs) = length bs"
  by (induction bs) simp_all

lemma length_incIP [simp]: "length (incIP ip) = length ip"
  by (simp add: incIP_def)

lemma byte_inc: "0 < (b :: byte) + 1 \<longleftrightarrow> unat b < 255" "unat (b + 1) = (if unat b < 255 then unat b + 1 else 0)"
proof -
  have u: "unat (b + 1) = (unat b + 1) mod 256" by (simp add: unat_word_ariths)
  have "unat b < 255 \<or> unat b = 255" using byte_bound [of b] by linarith
  then show v: "unat (b + 1) = (if unat b < 255 then unat b + 1 else 0)" by (auto simp: u)
  have "0 < b + 1 \<longleftrightarrow> unat (b + 1) \<noteq> 0" by (simp add: word_gt_0 word_unat_eq_iff)
  then show "0 < b + 1 \<longleftrightarrow> unat b < 255" by (simp add: v)
qed

lemma revValue_bound: "revValue bs < 256 ^ length bs"
  using ipValue_bound [of "rev bs"] by (simp add: ipValue_rev)

lemma revValue_inc: "revValue (incBytes bs) = (revValue bs + 1) mod 256 ^ length bs"
proof (induction bs)
  case (Cons b bs)
  show ?case
  proof (cases "unat b < 255")
    case True
    have "revValue ((b + 1) # bs) < 256 ^ length ((b + 1) # bs)" by (rule revValue_bound)
    then show ?thesis using True by (simp add: byte_inc)
  next
    case False
    then have "unat b = 255" using byte_bound [of b] by linarith
    then have "(revValue (b # bs) + 1) mod 256 ^ length (b # bs) = (256 * (revValue bs + 1)) mod (256 * 256 ^ length bs)" by simp
    also have "\<dots> = 256 * ((revValue bs + 1) mod 256 ^ length bs)" by (rule mult_mod_right [symmetric])
    finally show ?thesis using False Cons by (simp add: byte_inc)
  qed
qed simp

lemma ipValue_inc: "ipValue (incIP ip) = (ipValue ip + 1) mod 256 ^ length ip"
  using revValue_inc [of "rev ip"] ipValue_rev [of "rev ip"] by (simp add: incIP_def ipValue_rev)

subsection \<open>Masks\<close>

lemma byte_ones: "(0xFF :: byte) = mask 8"
  by (simp add: mask_eq_exp_minus_1)

lemma byte_and_ones: "(b :: byte) AND 0xFF = b"
  unfolding byte_ones by (rule bit_word_eqI) (simp add: bit_simps)

lemma byte_mask:
  assumes "n \<le> 8"
  shows "unat ((b :: byte) AND NOT (drop_bit n 0xFF)) = unat b div 2 ^ (8 - n) * 2 ^ (8 - n)"
proof -
  have "b AND NOT (drop_bit n 0xFF) = push_bit (8 - n) (drop_bit (8 - n) b)"
    unfolding byte_ones using assms by (intro bit_word_eqI) (auto simp: bit_simps)
  then have "unat (b AND NOT (drop_bit n 0xFF)) = take_bit 8 (push_bit (8 - n) (drop_bit (8 - n) (unat b)))"
    by (simp only: unsigned_push_bit_eq unsigned_drop_bit_eq) (simp add: take_bit_nat_eq_self [of "unat b" 8] byte_bound)
  also have "\<dots> = (unat b div 2 ^ (8 - n) * 2 ^ (8 - n)) mod 256"
    by (simp only: push_bit_eq_mult drop_bit_eq_div take_bit_eq_mod) simp
  also have "\<dots> = unat b div 2 ^ (8 - n) * 2 ^ (8 - n)"
    using byte_bound [of b] div_times_less_eq_dividend [of "unat b" "2 ^ (8 - n)"] by (intro mod_less) linarith
  finally show ?thesis .
qed

lemma length_CIDRMask [simp]: "length (CIDRMask ones l) = l"
  by (induction l arbitrary: ones) simp_all

lemma length_IP_Mask [simp]: "length m = length ip \<Longrightarrow> length (IP_Mask ip m) = length ip"
  by (simp add: IP_Mask_def)

lemma div_block:
  fixes a v :: nat
  assumes "h \<le> k" "v < 2 ^ k"
  shows "(a * 2 ^ k + v) div 2 ^ h = a * 2 ^ (k - h) + v div 2 ^ h"
proof -
  have "(2 :: nat) ^ k = 2 ^ (k - h) * 2 ^ h" using assms(1) by (simp add: power_add [symmetric])
  then have e: "a * 2 ^ k + v = v + (a * 2 ^ (k - h)) * 2 ^ h" by simp
  show ?thesis unfolding e by (subst div_mult_self1) simp_all
qed

lemma ipValue_mask:
  assumes "length ip = l" "ones \<le> 8 * l"
  shows "ipValue (IP_Mask ip (CIDRMask ones l)) = ipValue ip div 2 ^ (8 * l - ones) * 2 ^ (8 * l - ones)"
  using assms
proof (induction l arbitrary: ip ones)
  case (Suc l)
  then obtain b bs where ip: "ip = b # bs" "length bs = l" by (cases ip) auto
  have p: "(256 :: nat) ^ l = 2 ^ (8 * l)" by (simp add: power_mult)
  have lt: "ipValue bs < 2 ^ (8 * l)" using ipValue_bound [of bs] by (simp add: ip p)
  have len: "length (IP_Mask bs (CIDRMask k l)) = l" for k using ip(2) by simp
  show ?case
  proof (cases "8 \<le> ones")
    case True
    define h where "h = 8 * l - (ones - 8)"
    have h: "h \<le> 8 * l" "8 * Suc l - ones = h" using True by (simp_all add: h_def)
    have "ipValue (IP_Mask ip (CIDRMask ones (Suc l))) = unat b * 2 ^ (8 * l) + ipValue bs div 2 ^ h * 2 ^ h"
      using True Suc.IH [OF ip(2), of "ones - 8"] Suc.prems(2) len [of "ones - 8"] by (simp add: ip IP_Mask_def h_def p byte_and_ones)
    moreover have "(unat b * 2 ^ (8 * l) + ipValue bs) div 2 ^ h * 2 ^ h = unat b * 2 ^ (8 * l) + ipValue bs div 2 ^ h * 2 ^ h"
      using h(1) by (simp add: div_block [OF h(1) lt] add_mult_distrib power_add [symmetric])
    ultimately show ?thesis unfolding h(2) by (simp add: ip p)
  next
    case False
    have tail: "ipValue (IP_Mask bs (CIDRMask 0 l)) = 0" using Suc.IH [OF ip(2), of 0] lt by simp
    have e: "8 * Suc l - ones = (8 - ones) + 8 * l" using False by simp
    have "ipValue (IP_Mask ip (CIDRMask ones (Suc l))) = unat b div 2 ^ (8 - ones) * 2 ^ (8 - ones) * 2 ^ (8 * l)"
      using False byte_mask [of ones b] tail len [of 0] by (simp add: ip IP_Mask_def p)
    moreover have "(unat b * 2 ^ (8 * l) + ipValue bs) div 2 ^ ((8 - ones) + 8 * l) = unat b div 2 ^ (8 - ones)"
      using lt by (simp add: power_add mult.commute [of "2 ^ (8 - ones)"] div_mult2_eq)
    ultimately show ?thesis unfolding e by (simp add: ip p power_add)
  qed
qed (simp add: IP_Mask_def)

subsection \<open>The addresses of a prefix\<close>

lemma ipValue_iter:
  assumes "length ip = 4"
  shows "length ((incIP ^^ k) ip) = 4 \<and> ipValue ((incIP ^^ k) ip) = (ipValue ip + k) mod 2 ^ 32"
proof (induction k)
  case 0
  show ?case using ipValue_bound [of ip] assms by simp
next
  case (Suc k)
  then show ?case by (simp add: ipValue_inc mod_Suc_eq)
qed

text \<open>An IPv4 prefix as \<^verbatim>\<open>net.ParseCIDR\<close> gives it, its first address and the number of its host bits.\<close>

definition prefix_of :: "bytes \<Rightarrow> nat \<Rightarrow> IPNet" where
  "prefix_of ip ones = \<lparr>inIP = IP_Mask ip (CIDRMask ones 4), inOnes = ones, inBits = 32\<rparr>"

definition base_of :: "bytes \<Rightarrow> nat \<Rightarrow> bytes" where
  "base_of ip ones = IP_Mask (inIP (prefix_of ip ones)) (inMask (prefix_of ip ones))"

lemma base_of:
  assumes "length ip = 4" "ones \<le> 32"
  shows "length (base_of ip ones) = 4" "ipValue (base_of ip ones) = ipValue ip div 2 ^ (32 - ones) * 2 ^ (32 - ones)"
    "To4 (inIP (prefix_of ip ones)) = Some (inIP (prefix_of ip ones))"
  using assms ipValue_mask [of ip 4 ones] ipValue_mask [of "IP_Mask ip (CIDRMask ones 4)" 4 ones]
  by (simp_all add: base_of_def prefix_of_def inMask_def To4_def)

lemma Contains_iff:
  assumes "length ip = 4" "length x = 4" "ones \<le> 32"
  shows "Contains (prefix_of ip ones) x \<longleftrightarrow> ipValue x div 2 ^ (32 - ones) = ipValue ip div 2 ^ (32 - ones)"
proof -
  let ?m = "CIDRMask ones 4" and ?h = "32 - ones"
  have "Contains (prefix_of ip ones) x \<longleftrightarrow> base_of ip ones = IP_Mask x ?m"
    using assms by (simp add: Contains_def base_of_def prefix_of_def To4_def inMask_def Let_def)
  also have "\<dots> \<longleftrightarrow> ipValue (base_of ip ones) = ipValue (IP_Mask x ?m)"
    using ipValue_inj [of "base_of ip ones" "IP_Mask x ?m"] base_of(1) [OF assms(1,3)] assms(2) by auto
  also have "\<dots> \<longleftrightarrow> ipValue ip div 2 ^ ?h * 2 ^ ?h = ipValue x div 2 ^ ?h * 2 ^ ?h"
    using base_of(2) [OF assms(1,3)] ipValue_mask [of x 4 ones] assms(2,3) by simp
  also have "\<dots> \<longleftrightarrow> ipValue ip div 2 ^ ?h = ipValue x div 2 ^ ?h" by simp
  finally show ?thesis by auto
qed

lemma block_value:
  assumes "length ip = 4" "ones \<le> 32" "k < 2 ^ (32 - ones)"
  shows "ipValue ((incIP ^^ k) (base_of ip ones)) = ipValue ip div 2 ^ (32 - ones) * 2 ^ (32 - ones) + k"
proof -
  let ?q = "ipValue ip div 2 ^ (32 - ones)" and ?h = "32 - ones"
  have e: "(2 :: nat) ^ 32 = 2 ^ ones * 2 ^ ?h" using assms(2) by (simp add: power_add [symmetric] del: power_numeral)
  have "ipValue ip < 2 ^ ones * 2 ^ ?h" using ipValue_bound [of ip] assms(1) e by simp
  then have "?q < 2 ^ ones" by (simp add: less_mult_imp_div_less)
  then have "(?q + 1) * 2 ^ ?h \<le> 2 ^ 32" unfolding e by (intro mult_le_mono1) simp
  then have "?q * 2 ^ ?h + k < 2 ^ 32" using assms(3) by simp
  then show ?thesis using ipValue_iter [OF base_of(1) [OF assms(1,2)], of k] base_of(2) [OF assms(1,2)] by simp
qed

lemma block_end:
  assumes "length ip = 4" "0 < ones" "ones \<le> 32"
  shows "\<not> Contains (prefix_of ip ones) ((incIP ^^ (2 ^ (32 - ones))) (base_of ip ones))"
proof -
  let ?q = "ipValue ip div 2 ^ (32 - ones)" and ?h = "32 - ones"
  have e: "(2 :: nat) ^ 32 = 2 ^ ones * 2 ^ ?h" using assms(3) by (simp add: power_add [symmetric] del: power_numeral)
  have "ipValue ((incIP ^^ (2 ^ ?h)) (base_of ip ones)) = (?q * 2 ^ ?h + 2 ^ ?h) mod (2 ^ ones * 2 ^ ?h)"
    using ipValue_iter [OF base_of(1) [OF assms(1,3)], of "2 ^ ?h"] base_of(2) [OF assms(1,3)] e by simp
  also have "?q * 2 ^ ?h + 2 ^ ?h = (?q + 1) * 2 ^ ?h" by simp
  finally have "ipValue ((incIP ^^ (2 ^ ?h)) (base_of ip ones)) div 2 ^ ?h = (?q + 1) mod 2 ^ ones"
    by (simp only: mod_mult_mult2) simp
  moreover have "(?q + 1) mod 2 ^ ones \<noteq> ?q"
  proof
    assume eq: "(?q + 1) mod 2 ^ ones = ?q"
    then have "?q < 2 ^ ones" using mod_less_divisor [of "2 ^ ones" "?q + 1"] by simp
    moreover have "1 < (2 :: nat) ^ ones" using assms(2) by (intro one_less_power) simp
    ultimately show False using eq by (cases "?q + 1 = 2 ^ ones") auto
  qed
  ultimately show ?thesis
    using Contains_iff [OF assms(1) _ assms(3)] ipValue_iter [OF base_of(1) [OF assms(1,3)], of "2 ^ ?h"] by simp
qed

lemma block_contains:
  assumes "length ip = 4" "ones \<le> 32" "k < 2 ^ (32 - ones)"
  shows "Contains (prefix_of ip ones) ((incIP ^^ k) (base_of ip ones))"
proof -
  have "(ipValue ip div 2 ^ (32 - ones) * 2 ^ (32 - ones) + k) div 2 ^ (32 - ones) = ipValue ip div 2 ^ (32 - ones)"
    using assms(3) by simp
  moreover have "length ((incIP ^^ k) (base_of ip ones)) = 4" using ipValue_iter [OF base_of(1) [OF assms(1,2)], of k] by simp
  ultimately show ?thesis using Contains_iff [OF assms(1) _ assms(2)] block_value [OF assms] by metis
qed

lemma expandFrom_block:
  assumes "length ip = 4" "0 < ones" "ones \<le> 32" "j \<le> 2 ^ (32 - ones)"
  shows "expandFrom (prefix_of ip ones) ((incIP ^^ (2 ^ (32 - ones) - j)) (base_of ip ones)) =
    Some (map (\<lambda>k. IP_String ((incIP ^^ k) (base_of ip ones))) [2 ^ (32 - ones) - j..<2 ^ (32 - ones)])"
  using assms(4)
proof (induction j)
  case 0
  then show ?case using block_end [OF assms(1-3)] by (simp add: expandFrom.simps)
next
  case (Suc j)
  define k where "k = 2 ^ (32 - ones) - Suc j"
  have k: "k < 2 ^ (32 - ones)" "2 ^ (32 - ones) - j = Suc k" using Suc.prems by (simp_all add: k_def)
  have "expandFrom (prefix_of ip ones) ((incIP ^^ Suc k) (base_of ip ones)) =
      Some (map (\<lambda>k. IP_String ((incIP ^^ k) (base_of ip ones))) [Suc k..<2 ^ (32 - ones)])"
    using Suc.IH Suc.prems unfolding k(2) by simp
  moreover have "[k..<2 ^ (32 - ones)] = k # [Suc k..<2 ^ (32 - ones)]" using k(1) by (simp add: upt_conv_Cons)
  ultimately show ?case
    using block_contains [OF assms(1,3) k(1)] unfolding k_def [symmetric]
    by (simp add: expandFrom.simps [of _ "(incIP ^^ k) (base_of ip ones)"])
qed

lemma expandFrom_everything:
  assumes "length ip = 4"
  shows "expandFrom (prefix_of ip 0) (base_of ip 0) = None"
proof -
  have "\<not> (n = prefix_of ip 0 \<and> length x = 4)" if "expandFrom n x = Some y" for n x y
  proof (rule expandFrom.raw_induct [OF _ that])
    fix f and n :: IPNet and x :: bytes and y
    assume IH: "\<And>n x y. f n x = Some y \<Longrightarrow> \<not> (n = prefix_of ip 0 \<and> length x = 4)"
      and body: "(if Contains n x then Option.bind (f n (incIP x)) (\<lambda>ips. Some (IP_String x # ips)) else Some []) = Some y"
    have "Contains (prefix_of ip 0) x" if "length x = 4"
      using Contains_iff [OF assms that, of 0] ipValue_bound [of x] ipValue_bound [of ip] that assms by simp
    then show "\<not> (n = prefix_of ip 0 \<and> length x = 4)" using IH body by (fastforce simp: bind_eq_Some_conv split: if_splits)
  qed
  then show ?thesis using base_of(1) [OF assms, of 0] by (metis le0 not_None_eq)
qed

lemma streamFrom_middle:
  assumes "2 < hosts" "left < hosts" "1 \<le> left"
  shows "streamFrom hosts left ip = map (\<lambda>k. (incIP ^^ k) ip) [0..<left - 1]"
  using assms(2,3)
proof (induction left arbitrary: ip)
  case (Suc left)
  show ?case
  proof (cases "left = 0")
    case False
    then have "streamFrom hosts (Suc left) ip = ip # streamFrom hosts left (incIP ip)"
      using Suc.prems assms(1) by (auto simp: Let_def)
    moreover have "streamFrom hosts left (incIP ip) = map (\<lambda>k. (incIP ^^ k) (incIP ip)) [0..<left - 1]"
      using Suc.IH [of "incIP ip"] Suc.prems False by simp
    moreover have "[0..<left] = 0 # map Suc [0..<left - 1]" using False by (simp add: map_Suc_upt upt_conv_Cons)
    ultimately show ?thesis by (simp add: funpow_swap1)
  qed (use assms(1) Suc.prems in \<open>simp add: Let_def\<close>)
qed simp

lemma streamFrom_all: "hosts \<le> 2 \<Longrightarrow> streamFrom hosts left ip = map (\<lambda>k. (incIP ^^ k) ip) [0..<left]"
proof (induction left arbitrary: ip)
  case (Suc left)
  have "[0..<Suc left] = 0 # map Suc [0..<left]" by (simp add: map_Suc_upt upt_conv_Cons del: upt_Suc)
  then show ?case using Suc by (simp add: funpow_swap1 del: upt_Suc)
qed simp

subsection \<open>The text of a prefix\<close>

definition digits :: "string \<Rightarrow> bool" where
  "digits s \<longleftrightarrow> list_all (\<lambda>ch. 48 \<le> (of_char ch :: nat) \<and> (of_char ch :: nat) \<le> 57) s"

lemma of_char_digit: "d < 10 \<Longrightarrow> of_char (digit_char d) = (48 + d :: nat)"
  by (simp add: digit_char_def)

lemma digits_utoa: "digits (utoa n)"
  by (induction n rule: utoa.induct) (subst utoa.simps, auto simp: digits_def of_char_digit)

lemma utoa_cases:
  "n < 10 \<Longrightarrow> utoa n = [digit_char n]"
  "10 \<le> n \<Longrightarrow> n < 100 \<Longrightarrow> utoa n = [digit_char (n div 10), digit_char (n mod 10)]"
  "100 \<le> n \<Longrightarrow> n < 1000 \<Longrightarrow> utoa n = [digit_char (n div 100), digit_char (n div 10 mod 10), digit_char (n mod 10)]"
proof -
  show "n < 10 \<Longrightarrow> utoa n = [digit_char n]" by (simp add: utoa.simps [of n])
  show two: "utoa n = [digit_char (n div 10), digit_char (n mod 10)]" if "10 \<le> n" "n < 100" for n
  proof -
    have "n div 10 < 10" using that by (simp add: div_less_iff_less_mult)
    then show ?thesis using that by (simp add: utoa.simps [of n] utoa.simps [of "n div 10"])
  qed
  show "utoa n = [digit_char (n div 100), digit_char (n div 10 mod 10), digit_char (n mod 10)]" if "100 \<le> n" "n < 1000"
  proof -
    have "10 \<le> n div 10" "n div 10 < 100" "n div 10 div 10 = n div 100"
      using that by (simp_all add: less_eq_div_iff_mult_less_eq div_less_iff_less_mult div_mult2_eq [symmetric])
    then show ?thesis using that two [of "n div 10"] by (simp add: utoa.simps [of n])
  qed
qed

lemma parseIPv4_digit:
  "d < 10 \<Longrightarrow> digLen \<noteq> 1 \<or> val \<noteq> 0 \<Longrightarrow> val * 10 + d \<le> 255 \<Longrightarrow>
   parseIPv4 (digit_char d # s) val digLen octs = parseIPv4 s (val * 10 + d) (digLen + 1) octs"
  by (auto simp: of_char_digit Let_def)

lemma parseIPv4_utoa:
  assumes "n < 256"
  shows "\<exists>l > 0. parseIPv4 (utoa n @ s) 0 0 octs = parseIPv4 s n l octs"
proof -
  have "n div 100 * 10 + n div 10 mod 10 = n div 10 div 10 * 10 + n div 10 mod 10" by (simp add: div_mult2_eq [symmetric])
  then have d2: "n div 10 * 10 + n mod 10 = n" "n div 100 * 10 + n div 10 mod 10 = n div 10" by (simp_all only: div_mult_mod_eq)
  consider "n < 10" | "10 \<le> n" "n < 100" | "100 \<le> n" by linarith
  then show ?thesis
  proof cases
    case 1
    then show ?thesis by (intro exI [of _ 1]) (simp add: utoa_cases parseIPv4_digit del: parseIPv4.simps)
  next
    case 2
    then show ?thesis using d2 assms by (intro exI [of _ "Suc (Suc 0)"]) (simp add: utoa_cases parseIPv4_digit del: parseIPv4.simps)
  next
    case 3
    then have "n div 100 < 10" "n div 10 \<noteq> 0" using assms by auto
    then show ?thesis using d2 assms 3 by (intro exI [of _ "Suc (Suc (Suc 0))"]) (simp add: utoa_cases parseIPv4_digit del: parseIPv4.simps)
  qed
qed

lemma parseIPv4_dot:
  "0 < l \<Longrightarrow> length octs < 3 \<Longrightarrow> parseIPv4 (CHR ''.'' # s) n l octs = parseIPv4 s 0 0 (octs @ [word_of_nat n])"
  by simp

lemma decimal_digit: "d < 10 \<Longrightarrow> decimal (digit_char d # s) n = decimal s (n * 10 + d)"
  by (simp add: of_char_digit)

lemma decimal_utoa:
  assumes "n < 100"
  shows "decimal (utoa n) 0 = Some n"
proof (cases "n < 10")
  case True
  then show ?thesis by (simp add: utoa_cases decimal_digit del: decimal.simps(2))
next
  case False
  have "n div 10 < 10" "n mod 10 < 10" "n div 10 * 10 + n mod 10 = n" using assms by (simp_all add: div_less_iff_less_mult)
  then show ?thesis using False assms by (simp add: utoa_cases decimal_digit del: decimal.simps(2))
qed

lemma parseAddr_digits:
  "digits ds \<Longrightarrow> parseAddr parse6 whole (ds @ CHR ''.'' # s) = parseIPv4 whole 0 0 []"
  by (induction ds) (auto simp: digits_def)

lemma parseAddr_IPv4:
  assumes "length ip = 4"
  shows "parseAddr parse6 (IP_String ip) (IP_String ip) = Some ip" "list_all (\<lambda>ch. ch \<noteq> CHR ''/'') (IP_String ip)"
proof -
  obtain a b c d where ip: "ip = [a, b, c, d]" using assms by (auto simp: length_Suc_conv eval_nat_numeral)
  let ?A = "utoa (unat a)" and ?B = "utoa (unat b)" and ?C = "utoa (unat c)" and ?D = "utoa (unat d)"
  have s: "IP_String ip = ?A @ CHR ''.'' # ?B @ CHR ''.'' # ?C @ CHR ''.'' # ?D" by (simp add: IP_String_def To4_def ip)
  have "digits ?A" "digits ?B" "digits ?C" "digits ?D" by (rule digits_utoa)+
  then show "list_all (\<lambda>ch. ch \<noteq> CHR ''/'') (IP_String ip)" unfolding s by (auto simp: digits_def list_all_iff)
  have "parseIPv4 (IP_String ip) 0 0 [] = Some ip"
  proof -
    obtain l1 where l1: "0 < l1" "parseIPv4 (?A @ CHR ''.'' # ?B @ CHR ''.'' # ?C @ CHR ''.'' # ?D) 0 0 [] =
        parseIPv4 (CHR ''.'' # ?B @ CHR ''.'' # ?C @ CHR ''.'' # ?D) (unat a) l1 []"
      using parseIPv4_utoa [OF byte_bound [of a]] by blast
    obtain l2 where l2: "0 < l2" "parseIPv4 (?B @ CHR ''.'' # ?C @ CHR ''.'' # ?D) 0 0 [a] =
        parseIPv4 (CHR ''.'' # ?C @ CHR ''.'' # ?D) (unat b) l2 [a]"
      using parseIPv4_utoa [OF byte_bound [of b]] by blast
    obtain l3 where l3: "0 < l3" "parseIPv4 (?C @ CHR ''.'' # ?D) 0 0 [a, b] = parseIPv4 (CHR ''.'' # ?D) (unat c) l3 [a, b]"
      using parseIPv4_utoa [OF byte_bound [of c]] by blast
    obtain l4 where l4: "0 < l4" "parseIPv4 (?D @ []) 0 0 [a, b, c] = parseIPv4 [] (unat d) l4 [a, b, c]"
      using parseIPv4_utoa [OF byte_bound [of d]] by blast
    show ?thesis using l1 l2 l3 l4 unfolding s by (simp add: ip parseIPv4_dot del: parseIPv4.simps(2))
  qed
  moreover have "parseAddr parse6 (IP_String ip) (IP_String ip) = parseIPv4 (IP_String ip) 0 0 []"
    using parseAddr_digits [OF digits_utoa, of parse6 "IP_String ip" "unat a" "?B @ CHR ''.'' # ?C @ CHR ''.'' # ?D"] by (simp only: s [symmetric])
  ultimately show "parseAddr parse6 (IP_String ip) (IP_String ip) = Some ip" by simp
qed

lemma ParseCIDR_text:
  assumes "length ip = 4" "ones \<le> 32"
  shows "ParseCIDR parse6 (IP_String ip @ ''/'' @ utoa ones) = Ok (prefix_of ip ones)"
proof -
  have ne: "utoa ones \<noteq> []" by (subst utoa.simps) simp
  have all: "\<forall>ch \<in> set (IP_String ip). ch \<noteq> CHR ''/''" using parseAddr_IPv4(2) [OF assms(1)] by (simp add: list_all_iff)
  have tw: "takeWhile (\<lambda>ch. ch \<noteq> CHR ''/'') (IP_String ip @ ''/'' @ utoa ones) = IP_String ip"
    "dropWhile (\<lambda>ch. ch \<noteq> CHR ''/'') (IP_String ip @ ''/'' @ utoa ones) = CHR ''/'' # utoa ones"
    using all by (simp_all add: takeWhile_append2 dropWhile_append2)
  have d: "decimal (utoa ones) 0 = Some ones" using assms(2) by (intro decimal_utoa) simp
  show ?thesis
    unfolding ParseCIDR_def Let_def tw parseAddr_IPv4(1) [OF assms(1)] list.sel d
    using ne assms by (simp add: prefix_of_def)
qed

text \<open>The numbers of the addresses scanned: all of the block, without its ends when it has more than two.\<close>

definition hostRange :: "nat \<Rightarrow> nat \<Rightarrow> nat list" where
  "hostRange v h = (let first = v div 2 ^ h * 2 ^ h in
     if h \<le> 1 then [first..<first + 2 ^ h] else [first + 1..<first + 2 ^ h - 1])"

definition hostsOf :: "bytes \<Rightarrow> nat \<Rightarrow> bytes list" where
  "hostsOf ip ones = map (\<lambda>k. (incIP ^^ k) (base_of ip ones))
     (if 32 - ones \<le> 1 then [0..<2 ^ (32 - ones)] else [1..<2 ^ (32 - ones) - 1])"

lemma hostsOf_values:
  assumes "length ip = 4" "ones \<le> 32"
  shows "map ipValue (hostsOf ip ones) = hostRange (ipValue ip) (32 - ones)"
proof -
  let ?v = "ipValue ip div 2 ^ (32 - ones) * 2 ^ (32 - ones)"
  have "map ipValue (map (\<lambda>k. (incIP ^^ k) (base_of ip ones)) [i..<j]) = [?v + i..<?v + j]" if "j \<le> 2 ^ (32 - ones)" for i j
  proof -
    have "map ipValue (map (\<lambda>k. (incIP ^^ k) (base_of ip ones)) [i..<j]) = map (\<lambda>k. k + ?v) [i..<j]"
      using that block_value [OF assms] by (auto simp: add.commute)
    also have "\<dots> = [?v + i..<?v + j]" by (induction j) (auto simp: add.commute)
    finally show ?thesis .
  qed
  from this [of "2 ^ (32 - ones)" 0] this [of "2 ^ (32 - ones) - 1" 1] show ?thesis
    by (simp add: hostsOf_def hostRange_def Let_def)
qed

lemma streamFrom_hosts: "streamFrom (2 ^ (32 - ones)) (2 ^ (32 - ones)) (base_of ip ones) = hostsOf ip ones"
proof (cases "32 - ones \<le> 1")
  case True
  then have "(2 :: nat) ^ (32 - ones) \<le> 2" using power_increasing [OF True, of "2 :: nat"] by simp
  then show ?thesis using True by (simp add: streamFrom_all hostsOf_def)
next
  case False
  define n :: nat where "n = 2 ^ (32 - ones)"
  have "2 ^ 2 \<le> n" unfolding n_def using False by (intro power_increasing) simp_all
  then have n: "2 < n" by simp
  then obtain m where m: "n = Suc m" "1 \<le> m" by (cases n) auto
  have "streamFrom n n (base_of ip ones) = streamFrom n m (incIP (base_of ip ones))" using n m by (simp add: Let_def)
  also have "\<dots> = map (\<lambda>k. (incIP ^^ k) (incIP (base_of ip ones))) [0..<m - 1]" using n m by (intro streamFrom_middle) simp_all
  also have "\<dots> = map (\<lambda>k. (incIP ^^ k) (base_of ip ones)) [1..<m]"
  proof -
    have "[1..<m] = map Suc [0..<m - 1]" using m(2) by (simp add: map_Suc_upt)
    then show ?thesis by (simp add: funpow_swap1)
  qed
  finally show ?thesis using False m by (simp add: hostsOf_def n_def)
qed

lemma expand_hosts:
  assumes "length ip = 4" "0 < ones" "ones \<le> 32"
  shows "expandCIDR parse6 (IP_String ip @ ''/'' @ utoa ones) = Some (Ok (map IP_String (hostsOf ip ones)))"
proof -
  define n :: nat where "n = 2 ^ (32 - ones)"
  let ?f = "\<lambda>k. IP_String ((incIP ^^ k) (base_of ip ones))"
  have e: "expandFrom (prefix_of ip ones) (base_of ip ones) = Some (map ?f [0..<n])"
    using expandFrom_block [OF assms order_refl] by (simp add: n_def)
  have "(if 2 < length (map ?f [0..<n]) then go_slice (map ?f [0..<n]) 1 (length (map ?f [0..<n]) - 1) else Ok (map ?f [0..<n])) =
      Ok (map IP_String (hostsOf ip ones))"
  proof (cases "32 - ones \<le> 1")
    case True
    then have "n \<le> 2" unfolding n_def using power_increasing [OF True, of "2 :: nat"] by simp
    then show ?thesis using True by (simp add: hostsOf_def n_def comp_def)
  next
    case False
    then have "2 ^ 2 \<le> n" unfolding n_def by (intro power_increasing) simp_all
    then have n: "2 < n" by simp
    have "1 + (n - 1 - 1) = n - 1" using n by simp
    then have "take (n - 1 - 1) (drop 1 [0..<n]) = [1..<n - 1]" using n take_upt [of 1 "n - 1 - 1" n] by (simp only: drop_upt) simp
    then show ?thesis using False n
      by (simp add: hostsOf_def n_def [symmetric] go_slice_def take_map drop_map comp_def del: drop_upt take_upt)
  qed
  then show ?thesis
    unfolding expandCIDR_def ParseCIDR_text [OF assms(1,3)] res.case base_of(3) [OF assms(1,3)] base_of_def [symmetric] e by simp
qed

lemma stream_hosts:
  assumes "length ip = 4" "ones \<le> 32" "12 \<le> ones"
  shows "streamCIDR parse6 (IP_String ip @ ''/'' @ utoa ones) = Ok (map IP_String (hostsOf ip ones))"
  unfolding streamCIDR_def ParseCIDR_text [OF assms(1,2)] res.case base_of(3) [OF assms(1,2)] base_of_def [symmetric] Let_def
  using assms(2,3) streamFrom_hosts [of ones ip] by (simp add: prefix_of_def)

text \<open>C29 The scan visits the host addresses of a prefix: for the text of any IPv4 prefix of 12 or more bits the addresses
  streamed are those whose numbers lie in the block of the prefix, each once and in order, without the first and
  the last when the block has more than two; the older function that builds the whole list gives the same
  list. A shorter prefix is refused before any address is sent, and on the empty prefix the older function
  never returns.\<close>

theorem streamCIDR_hosts:
  assumes "length ip = 4" "ones \<le> 32" "cidr = IP_String ip @ ''/'' @ utoa ones"
  shows "(12 \<le> ones \<longrightarrow> (\<exists>hosts. streamCIDR parse6 cidr = Ok (map IP_String hosts) \<and>
      expandCIDR parse6 cidr = Some (Ok (map IP_String hosts)) \<and>
      map ipValue hosts = hostRange (ipValue ip) (32 - ones) \<and> list_all (\<lambda>x. length x = 4 \<and> Contains (prefix_of ip ones) x) hosts)) \<and>
    (ones < 12 \<longrightarrow> (\<exists>m. streamCIDR parse6 cidr = Err (ValidationError m))) \<and>
    (ones = 0 \<longrightarrow> expandCIDR parse6 cidr = None)"
proof (intro conjI impI)
  note parsed = ParseCIDR_text [OF assms(1,2), of parse6] and base = base_of [OF assms(1,2)]
  show "ones < 12 \<Longrightarrow> \<exists>m. streamCIDR parse6 cidr = Err (ValidationError m)"
    unfolding assms(3) streamCIDR_def parsed res.case base(3) Let_def by (simp add: prefix_of_def)
  show "ones = 0 \<Longrightarrow> expandCIDR parse6 cidr = None"
    unfolding assms(3) expandCIDR_def parsed res.case base(3) base_of_def [symmetric]
    using expandFrom_everything [OF assms(1)] by simp
  assume ones: "12 \<le> ones"
  have "streamCIDR parse6 cidr = Ok (map IP_String (hostsOf ip ones))" using stream_hosts [OF assms(1,2) ones] by (simp add: assms(3))
  moreover have "list_all (\<lambda>x. length x = 4 \<and> Contains (prefix_of ip ones) x) (hostsOf ip ones)"
    using block_contains [OF assms(1,2)] ipValue_iter [OF base(1)] by (auto simp: hostsOf_def list_all_iff)
  ultimately show "\<exists>hosts. streamCIDR parse6 cidr = Ok (map IP_String hosts) \<and>
      expandCIDR parse6 cidr = Some (Ok (map IP_String hosts)) \<and>
      map ipValue hosts = hostRange (ipValue ip) (32 - ones) \<and> list_all (\<lambda>x. length x = 4 \<and> Contains (prefix_of ip ones) x) hosts"
    using expand_hosts [OF assms(1) _ assms(2)] hostsOf_values [OF assms(1,2)] ones assms(3) by auto
qed

theorem streamCIDR_hosts_witness:
  "\<exists>hosts. streamCIDR (\<lambda>_. None) (IP_String [192, 168, 1, 77] @ ''/'' @ utoa 30) = Ok (map IP_String hosts) \<and>
    map ipValue hosts = [3232235853, 3232235854]"
proof -
  have "hostRange (ipValue [192, 168, 1, 77]) (32 - 30) = [3232235853, 3232235854]"
    by (simp add: hostRange_def upt_conv_Cons)
  then show ?thesis
    using streamCIDR_hosts [of "[192, 168, 1, 77]" 30, OF _ _ refl, of "\<lambda>_. None"] by auto
qed

section \<open>Facts about the workers\<close>

fun busy :: "worker \<Rightarrow> bool" where
  "busy (Probing _) = True" | "busy (Holding _ _) = True" | "busy _ = False"

fun heldBy :: "nat \<Rightarrow> worker \<Rightarrow> bool" where
  "heldBy i (Probing j) = (i = j)" | "heldBy i (Holding j _) = (i = j)" | "heldBy i _ = False"

text \<open>What a worker, a result on its way and a collected result may be.\<close>

fun worker_ok :: "(nat \<Rightarrow> DiscoverResult \<Rightarrow> bool) \<Rightarrow> nat \<Rightarrow> worker \<Rightarrow> bool" where
  "worker_ok P n (Probing i) = (i < n)"
| "worker_ok P n (Holding i r) = (i < n \<and> P i r)"
| "worker_ok P n _ = True"

definition places_ok :: "(nat \<Rightarrow> DiscoverResult \<Rightarrow> bool) \<Rightarrow> discovering \<Rightarrow> bool" where
  "places_ok P s \<longleftrightarrow> list_all (\<lambda>i. i < dvGiven s) (dvJobs s) \<and> list_all (worker_ok P (dvGiven s)) (dvWorkers s) \<and>
     list_all (\<lambda>(i, r). i < dvGiven s \<and> P i r) (dvOut s) \<and>
     length (dvJobs s) + length (filter busy (dvWorkers s)) + length (dvOut s) \<le> dvGiven s"

definition collected_ok :: "(nat \<Rightarrow> DiscoverResult \<Rightarrow> bool) \<Rightarrow> nat \<Rightarrow> DiscoverResult list \<Rightarrow> bool" where
  "collected_ok P n rs \<longleftrightarrow> length rs = n \<and> (\<forall>i < n. rs ! i = zeroDiscover \<or> P i (rs ! i))"

definition heldIn :: "worker list \<Rightarrow> nat \<Rightarrow> bool" where
  "heldIn ws i \<longleftrightarrow> (\<exists>m < length ws. heldBy i (ws ! m))"

text \<open>Where every address given is, as long as the context has not ended.\<close>

definition located :: "(nat \<Rightarrow> DiscoverResult \<Rightarrow> bool) \<Rightarrow> discovering \<Rightarrow> bool" where
  "located P s \<longleftrightarrow> (\<forall>i < dvGiven s. i \<in> set (dvJobs s) \<or> heldIn (dvWorkers s) i \<or>
     i \<in> fst ` set (dvOut s) \<or> P i (dvResults s ! i))"

definition discover_ok :: "(nat \<Rightarrow> DiscoverResult \<Rightarrow> bool) \<Rightarrow> nat \<Rightarrow> discovering \<Rightarrow> bool" where
  "discover_ok P n s \<longleftrightarrow> dvGiven s \<le> n \<and> places_ok P s \<and> collected_ok P n (dvResults s) \<and> 0 < length (dvWorkers s) \<and>
     (dvCtxErr s = None \<longrightarrow> (\<not> dvGiving s \<longrightarrow> dvGiven s = n) \<and> (Quit \<in> set (dvWorkers s) \<longrightarrow> \<not> dvGiving s \<and> dvJobs s = []) \<and> located P s)"

lemma filter_update:
  "k < length xs \<Longrightarrow> length (filter P (xs[k := v])) + (if P (xs ! k) then 1 else 0) = length (filter P xs) + (if P v then 1 else 0)"
proof (induction xs arbitrary: k)
  case (Cons x xs)
  then show ?case by (cases k) auto
qed simp

lemma list_all_update: "list_all P xs \<Longrightarrow> P v \<Longrightarrow> list_all P (xs[k := v])"
  using set_update_subset_insert [of xs k v] by (auto simp: list_all_iff)

lemma heldIn_update:
  "heldIn ws i \<Longrightarrow> \<not> heldBy i (ws ! k) \<or> heldBy i v \<Longrightarrow> heldIn (ws[k := v]) i"
  "k < length ws \<Longrightarrow> heldBy i v \<Longrightarrow> heldIn (ws[k := v]) i"
  unfolding heldIn_def by (metis length_list_update nth_list_update_eq nth_list_update_neq)+

lemma collected_ok_update: "collected_ok P n rs \<Longrightarrow> i < n \<Longrightarrow> P i r \<Longrightarrow> collected_ok P n (rs[i := r])"
  unfolding collected_ok_def by (metis length_list_update nth_list_update_eq nth_list_update_neq)

lemma worker_ok_mono: "worker_ok P n k \<Longrightarrow> n \<le> n' \<Longrightarrow> worker_ok P n' k"
  by (cases k) auto

lemma places_ok_step:
  assumes "discover_step outcome opts ips s s'" "places_ok (\<lambda>i. outcome opts (ips ! i)) s"
  shows "places_ok (\<lambda>i. outcome opts (ips ! i)) s'"
  using assms(1)
proof (cases rule: discover_step.cases)
  case give
  then show ?thesis using assms(2)
    by (auto simp: places_ok_def list_all_iff intro: worker_ok_mono less_SucI)
next
  case (take_job k i rest)
  then show ?thesis using assms(2) filter_update [of k "dvWorkers s" busy "Probing i"]
    by (auto simp: places_ok_def intro: list_all_update)
next
  case (no_jobs k)
  then show ?thesis using assms(2) filter_update [of k "dvWorkers s" busy Quit]
    by (auto simp: places_ok_def intro: list_all_update)
next
  case (probe_host k i r)
  moreover have "worker_ok (\<lambda>i. outcome opts (ips ! i)) (dvGiven s) (dvWorkers s ! k)"
    using assms(2) probe_host(2) by (auto simp: places_ok_def list_all_length)
  ultimately show ?thesis using assms(2) filter_update [of k "dvWorkers s" busy "Holding i r"]
    by (auto simp: places_ok_def intro: list_all_update)
next
  case (send_result k i r)
  moreover have "worker_ok (\<lambda>i. outcome opts (ips ! i)) (dvGiven s) (dvWorkers s ! k)"
    using assms(2) send_result(2) by (auto simp: places_ok_def list_all_length)
  ultimately show ?thesis using assms(2) filter_update [of k "dvWorkers s" busy Waiting]
    by (auto simp: places_ok_def intro: list_all_update)
next
  case (drop_result k i r)
  then show ?thesis using assms(2) filter_update [of k "dvWorkers s" busy Quit]
    by (auto simp: places_ok_def intro: list_all_update)
qed (use assms(2) in \<open>auto simp: places_ok_def\<close>)

lemma located_step:
  assumes "discover_step outcome opts ips s s'" "places_ok (\<lambda>i. outcome opts (ips ! i)) s" "length (dvResults s) = length ips"
    "dvGiven s \<le> length ips" "located (\<lambda>i. outcome opts (ips ! i)) s" "dvCtxErr s' = None"
  shows "located (\<lambda>i. outcome opts (ips ! i)) s'"
  using assms(1)
proof (cases rule: discover_step.cases)
  case give
  then show ?thesis using assms(5) by (auto simp: located_def less_Suc_eq)
next
  case (take_job k i rest)
  have "heldIn ((dvWorkers s)[k := Probing i]) j" if "heldIn (dvWorkers s) j" for j
    by (rule heldIn_update(1) [OF that]) (simp add: take_job(3))
  then show ?thesis using assms(5) take_job(4) heldIn_update(2) [OF take_job(2), of i "Probing i"]
    unfolding located_def take_job(1) by auto
next
  case (no_jobs k)
  have "heldIn ((dvWorkers s)[k := Quit]) j" if "heldIn (dvWorkers s) j" for j
    by (rule heldIn_update(1) [OF that]) (simp add: no_jobs(3))
  then show ?thesis using assms(5) unfolding located_def no_jobs(1) by auto
next
  case (probe_host k i r)
  have "heldIn ((dvWorkers s)[k := Holding i r]) j" if "heldIn (dvWorkers s) j" for j
    by (rule heldIn_update(1) [OF that]) (simp add: probe_host(3))
  then show ?thesis using assms(5) unfolding located_def probe_host(1) by auto
next
  case (send_result k i r)
  have "heldIn ((dvWorkers s)[k := Waiting]) j" if "heldIn (dvWorkers s) j" "j \<noteq> i" for j
    by (rule heldIn_update(1) [OF that(1)]) (simp add: send_result(3) that(2))
  then show ?thesis using assms(5) unfolding located_def send_result(1) by force
next
  case (drop_result k i r)
  then show ?thesis using assms(6) by simp
next
  case (collect i r rest)
  have i: "i < length (dvResults s)" "outcome opts (ips ! i) r"
    using assms(2-4) collect(2) by (auto simp: places_ok_def)
  have "j \<in> set (dvJobs s) \<or> heldIn (dvWorkers s) j \<or> j \<in> fst ` set rest \<or>
      outcome opts (ips ! j) ((dvResults s)[i := r] ! j)" if "j < dvGiven s" for j
    using assms(5) that i collect(2) by (cases "j = i") (auto simp: located_def)
  then show ?thesis by (simp add: located_def collect(1))
qed (use assms in \<open>auto simp: located_def\<close>)

lemma discover_ok_step:
  assumes "discover_step outcome opts ips s s'" "discover_ok (\<lambda>i. outcome opts (ips ! i)) (length ips) s"
  shows "discover_ok (\<lambda>i. outcome opts (ips ! i)) (length ips) s'"
proof -
  let ?P = "\<lambda>i. outcome opts (ips ! i)"
  have ok: "dvGiven s \<le> length ips" "places_ok ?P s" "collected_ok ?P (length ips) (dvResults s)" "0 < length (dvWorkers s)"
    using assms(2) by (simp_all add: discover_ok_def)
  have ctx: "dvCtxErr s = None" if "dvCtxErr s' = None"
    using assms(1) that by (cases rule: discover_step.cases) auto
  have "located ?P s'" if "dvCtxErr s' = None"
    using located_step [OF assms(1) ok(2) _ ok(1) _ that] assms(2) ctx [OF that] ok(3) by (simp add: discover_ok_def collected_ok_def)
  moreover have "places_ok ?P s'" by (rule places_ok_step [OF assms(1) ok(2)])
  moreover have "collected_ok ?P (length ips) (dvResults s')"
    using assms(1) ok(1-3)
    by (cases rule: discover_step.cases) (auto simp: places_ok_def intro: collected_ok_update)
  moreover have "dvGiven s' \<le> length ips" "0 < length (dvWorkers s')"
    using assms(1) ok(1,4) by (cases rule: discover_step.cases; simp)+
  moreover have "(\<not> dvGiving s' \<longrightarrow> dvGiven s' = length ips) \<and> (Quit \<in> set (dvWorkers s') \<longrightarrow> \<not> dvGiving s' \<and> dvJobs s' = [])"
    if none: "dvCtxErr s' = None"
  proof -
    have q: "(\<not> dvGiving s \<longrightarrow> dvGiven s = length ips)" "(Quit \<in> set (dvWorkers s) \<longrightarrow> \<not> dvGiving s \<and> dvJobs s = [])"
      using assms(2) ctx [OF none] by (simp_all add: discover_ok_def)
    have sub: "Quit \<in> set (dvWorkers s)" if "Quit \<in> set ((dvWorkers s)[k := v])" "v \<noteq> Quit" for k v
      using that set_update_subset_insert [of "dvWorkers s" k v] by blast
    show ?thesis using assms(1) q none
      by (cases rule: discover_step.cases) (auto dest: sub)
  qed
  ultimately show ?thesis by (simp add: discover_ok_def)
qed

lemma discover_ok_reachable:
  assumes "(discover_step outcome opts ips)\<^sup>*\<^sup>* (discoverStart opts ips) s"
  shows "discover_ok (\<lambda>i. outcome opts (ips ! i)) (length ips) s"
  using assms
proof (induction rule: rtranclp_induct)
  case base
  have "filter busy (replicate k Waiting) = []" for k by (induction k) simp_all
  then show ?case
    by (auto simp: discover_ok_def discoverStart_def places_ok_def collected_ok_def located_def list_all_iff)
qed (rule discover_ok_step)

fun workerWork :: "worker \<Rightarrow> nat" where
  "workerWork Waiting = 1" | "workerWork (Probing _) = 5" | "workerWork (Holding _ _) = 4" | "workerWork Quit = 0"

definition discoverWork :: "nat \<Rightarrow> discovering \<Rightarrow> nat" where
  "discoverWork n s = 6 * (n - dvGiven s) + (if dvGiving s then 1 else 0) + 5 * length (dvJobs s) +
     sum_list (map workerWork (dvWorkers s)) + length (dvOut s) + (if dvCtxErr s = None then 1 else 0)"

lemma work_update:
  assumes "k < length ws"
  shows "sum_list (map workerWork (ws[k := v])) + workerWork (ws ! k) = sum_list (map workerWork ws) + workerWork v"
  using assms
proof (induction ws arbitrary: k)
  case (Cons x ws)
  then show ?case by (cases k) auto
qed simp

lemma discoverWork_step:
  assumes "discover_step outcome opts ips s s'"
  shows "discoverWork (length ips) s' < discoverWork (length ips) s"
  using assms
proof (cases rule: discover_step.cases)
  case (take_job k i rest)
  then show ?thesis using work_update [OF take_job(2), of "Probing i"] by (simp add: discoverWork_def)
next
  case (no_jobs k)
  then show ?thesis using work_update [OF no_jobs(2), of Quit] by (simp add: discoverWork_def)
next
  case (probe_host k i r)
  then show ?thesis using work_update [OF probe_host(2), of "Holding i r"] by (simp add: discoverWork_def)
next
  case (send_result k i r)
  then show ?thesis using work_update [OF send_result(2), of Waiting] by (simp add: discoverWork_def)
next
  case (drop_result k i r)
  then show ?thesis using work_update [OF drop_result(2), of Quit] by (simp add: discoverWork_def)
qed (simp_all add: discoverWork_def)

lemma discover_progress:
  assumes "discover_ok P (length ips) s" "\<And>ip. \<exists>r. outcome opts ip r"
  shows "discoverOver s \<or> (\<exists>s'. discover_step outcome opts ips s s' \<and> dvCtxErr s' = dvCtxErr s)"
proof (cases "list_all (\<lambda>k. k = Quit) (dvWorkers s)")
  case True
  show ?thesis
  proof (cases "dvOut s")
    case Nil
    then show ?thesis using True by (simp add: discoverOver_def)
  next
    case (Cons ir rest)
    then show ?thesis using collect [of s "fst ir" "snd ir" rest outcome opts ips] by fastforce
  qed
next
  case False
  then obtain k where k: "k < length (dvWorkers s)" "dvWorkers s ! k \<noteq> Quit" by (auto simp: list_all_length)
  have ok: "places_ok P s" "dvGiven s \<le> length ips" "0 < length (dvWorkers s)" using assms(1) by (simp_all add: discover_ok_def)
  show ?thesis
  proof (cases "dvWorkers s ! k")
    case Waiting
    then show ?thesis
    proof (cases "dvJobs s")
      case (Cons i rest)
      then show ?thesis using take_job [OF k(1) Waiting Cons, of outcome opts ips] by fastforce
    next
      case Nil
      show ?thesis
      proof (cases "dvGiving s")
        case False
        then show ?thesis using no_jobs [OF k(1) Waiting Nil, of outcome opts ips] by fastforce
      next
        case True
        then show ?thesis
          using give [OF True, of ips outcome opts] all_given [OF True, of ips outcome opts] ok(2,3) Nil by (cases "dvGiven s = length ips") fastforce+
      qed
    qed
  next
    case (Probing i)
    obtain r where "outcome opts (ips ! i) r" using assms(2) by blast
    then show ?thesis using probe_host [where outcome = outcome, OF k(1) Probing] by fastforce
  next
    case (Holding i r)
    then have "Suc (length (filter busy ((dvWorkers s)[k := Quit]))) = length (filter busy (dvWorkers s))"
      using k(1) filter_update [of k "dvWorkers s" busy Quit] by simp
    then have "length (dvOut s) < length ips" using ok(1,2) unfolding places_ok_def by linarith
    then show ?thesis using send_result [OF k(1) Holding, of ips outcome opts] by fastforce
  qed (use k(2) in simp)
qed

lemma discover_completes:
  assumes "\<And>ip. \<exists>r. outcome opts ip r" "(discover_step outcome opts ips)\<^sup>*\<^sup>* (discoverStart opts ips) s"
  shows "\<exists>s'. (discover_step outcome opts ips)\<^sup>*\<^sup>* (discoverStart opts ips) s' \<and> discoverOver s' \<and> dvCtxErr s' = dvCtxErr s"
  using assms(2)
proof (induction "discoverWork (length ips) s" arbitrary: s rule: less_induct)
  case less
  show ?case
  proof (cases "discoverOver s")
    case False
    then obtain s1 where s1: "discover_step outcome opts ips s s1" "dvCtxErr s1 = dvCtxErr s"
      using discover_progress [where outcome = outcome and opts = opts, OF discover_ok_reachable [OF less.prems]] assms(1) by blast
    from less.hyps [OF discoverWork_step [OF s1(1)]] show ?thesis
      using less.prems s1 by (auto intro: rtranclp.rtrancl_into_rtrancl)
  qed (use less.prems in blast)
qed

text \<open>The results of a run that is over.\<close>

lemma over_results:
  assumes "discover_ok P n s" "discoverOver s"
  shows "length (dvResults s) = n" "i < n \<Longrightarrow> (dvResults s ! i = zeroDiscover \<and> dvCtxErr s \<noteq> None) \<or> P i (dvResults s ! i)"
proof -
  show "length (dvResults s) = n" using assms(1) by (simp add: discover_ok_def collected_ok_def)
  have q: "\<forall>k \<in> set (dvWorkers s). k = Quit" "dvOut s = []" "0 < length (dvWorkers s)"
    using assms by (simp_all add: discoverOver_def list_all_iff discover_ok_def)
  then have quit: "Quit \<in> set (dvWorkers s)" by (metis length_greater_0_conv list.set_sel(1))
  have held: "\<not> heldIn (dvWorkers s) j" for j using q(1) by (auto simp: heldIn_def) (metis heldBy.simps(4) nth_mem)
  show "(dvResults s ! i = zeroDiscover \<and> dvCtxErr s \<noteq> None) \<or> P i (dvResults s ! i)" if "i < n"
  proof (cases "dvCtxErr s = None")
    case True
    then have "dvJobs s = []" "dvGiven s = n" "located P s" using assms(1) quit by (auto simp: discover_ok_def)
    then show ?thesis using that held q(2) by (auto simp: located_def)
  next
    case False
    then show ?thesis using assms(1) that by (auto simp: discover_ok_def collected_ok_def)
  qed
qed

section \<open>Facts about the probe of a host\<close>

lemma closeCOTP_not_Panic: "opens_well tr \<Longrightarrow> fst (closeCOTP tr conn w) \<noteq> Panic"
proof (cases conn)
  case (Some k)
  assume "opens_well tr"
  then have "fst (trClose tr w k) \<noteq> Panic" by (simp add: opens_well_def)
  then show ?thesis by (cases "trClose tr w k"; cases "fst (trClose tr w k)") (auto simp: closeCOTP_def Some)
qed (simp add: closeCOTP_def)

lemma Client_Close_not_Panic: "opens_well tr \<Longrightarrow> fst (Client_Close tr c w) \<noteq> Panic"
  using closeCOTP_not_Panic [of tr "clConn c" w]
  by (cases "clConn c") (auto simp: Client_Close_def closeConnLocked_def split: prod.splits)

lemma dialCOTP_not_Panic:
  assumes "opens_well tr"
  shows "fst (dialCOTP tr ctx a t l r w) \<noteq> Panic"
proof -
  have "fst (trDial tr w ctx a t) \<noteq> Panic" using assms by (simp add: opens_well_def)
  then have "fst (dialTCP tr ctx a t w) \<noteq> Panic"
    by (cases "trDial tr w ctx a t"; cases "fst (trDial tr w ctx a t)") (auto simp: dialTCP_def)
  moreover have "fst (connectCOTP tr ctx raw t l r w) \<noteq> Panic" for raw w using assms by (simp add: connectCOTP_def opens_well_def)
  ultimately show ?thesis unfolding dialCOTP_def by (intro bindW_not_Panic) auto
qed

lemma connectOnce_not_Panic:
  assumes "opens_well tr"
  shows "fst (connectOnce tr c ctx rack slot w) \<noteq> Panic"
proof -
  have tsap: "BuildTSAP k r s \<noteq> Panic" for k r s by (simp add: BuildTSAP_def Let_def split: option.split)
  define tsaps where "tsaps = (if optUseExplicit (clOpts c) then Ok (optLocalTSAP (clOpts c), optRemoteTSAP (clOpts c))
      else (case BuildTSAP 1 0 0 of Panic \<Rightarrow> Panic | Err e \<Rightarrow> Err (ValidationError (error_text e))
        | Ok l \<Rightarrow> (case BuildTSAP 3 rack slot of Panic \<Rightarrow> Panic | Err e \<Rightarrow> Err (ValidationError (error_text e))
          | Ok r \<Rightarrow> Ok (l, r))))"
  have np: "tsaps \<noteq> Panic" using tsap by (auto simp: tsaps_def split: res.split)
  show ?thesis
  proof (cases tsaps)
    case (Ok lr)
    obtain l r where lr: "lr = (l, r)" by fastforce
    obtain d w1 where d: "dialCOTP tr ctx (JoinHostPort (clHost c) (itoa (optPort (clOpts c)))) (optTimeout (clOpts c)) l r w = (d, w1)" "d \<noteq> Panic"
      using dialCOTP_not_Panic [OF assms] by (metis prod.collapse)
    show ?thesis
    proof (cases d)
      case (Ok conn)
      obtain q w2 where q: "performS7Setup tr (withOptionalTimeout ctx (optTimeout (clOpts c))) conn 1
          (optMaxAmqCalling (clOpts c)) (optMaxAmqCalled (clOpts c)) (optMaxPDU (clOpts c)) w1 = (q, w2)" "q \<noteq> Panic"
        using performS7Setup_not_Panic assms unfolding opens_well_def by (metis prod.collapse)
      show ?thesis using q(2)
        unfolding connectOnce_def Let_def tsaps_def [symmetric] \<open>tsaps = Ok lr\<close> lr res.case prod.case d(1) Ok q(1)
        by (cases q) (auto split: prod.split)
    qed (use d(2) in \<open>simp_all add: connectOnce_def tsaps_def [symmetric] \<open>tsaps = Ok lr\<close> lr d(1)\<close>)
  qed (use np in \<open>simp_all add: connectOnce_def tsaps_def [symmetric]\<close>)
qed

lemma discoverClient_options [simp]:
  "optAutoRackSlot (clOpts (discoverClient ip port opts rack slot)) = False"
  by (simp add: discoverClient_def Client_New_def WithPort_def WithRackSlot_def WithTimeoutOption_def defaultOptions_def)

lemma Connect_discover_cases:
  assumes "Connect tr (discoverClient ip port opts rack slot) ctx w = (r, c, w')"
  obtains e where "r = Err e"
    | "connectOnce tr (discoverClient ip port opts rack slot) ctx rack slot w = (r, c, w')"
proof -
  let ?c = "discoverClient ip port opts rack slot"
  have rs: "optRack (clOpts ?c) = rack" "optSlot (clOpts ?c) = slot"
    by (simp_all add: discoverClient_def Client_New_def WithPort_def WithRackSlot_def WithTimeoutOption_def)
  show thesis using assms that unfolding Connect_def Let_def rs by (auto split: if_splits)
qed

lemma Connect_discover_place:
  assumes "Connect tr (discoverClient ip port opts rack slot) ctx w = (Ok (), c, w')"
  shows "clRack c = rack \<and> clSlot c = slot"
  using assms
proof (cases rule: Connect_discover_cases)
  case 2
  then show ?thesis by (cases rule: connectOnce_cases [of tr "discoverClient ip port opts rack slot" ctx rack slot w]) auto
qed simp

lemma Connect_discover:
  assumes "opens_well tr" "Connect tr (discoverClient ip port opts rack slot) ctx w = (r, c, w')"
  shows "r \<noteq> Panic" "r = Ok () \<Longrightarrow> clRack c = rack \<and> clSlot c = slot"
proof -
  show "r \<noteq> Panic"
    using assms(2) connectOnce_not_Panic [OF assms(1), of "discoverClient ip port opts rack slot" ctx rack slot w]
    by (cases rule: Connect_discover_cases) auto
  show "clRack c = rack \<and> clSlot c = slot" if "r = Ok ()" by (rule Connect_discover_place [OF assms(2) [unfolded that]])
qed

text \<open>What the result for a host says: a device at a pair of the range, or why none was found.\<close>

definition reported :: "discoverOpts \<Rightarrow> string \<Rightarrow> DiscoverResult \<Rightarrow> bool" where
  "reported opts ip r \<longleftrightarrow> drIP r = ip \<and> drPort r = 102 \<and>
     (if drIsS7 r then (drRack r, drSlot r) \<in> set (discoverPairs opts) \<and> drError r = [] \<and> drAbandonedReason r = []
      else drAbandonedReason r \<in> {''max_attempts'', ''context_canceled''} \<or>
           drError r = ''no valid COTP+S7 setup for tested rack/slot range'')"

lemma probeS7From_ends:
  assumes "opens_well tr" "drIP r = ip" "drPort r = 102" "\<not> drIsS7 r" "drError r = []" "drAbandonedReason r = []"
    "set pairs \<subseteq> set (discoverPairs opts)"
  shows "ends (probeS7From tr ctx rnd opts r n pairs w) (reported opts ip)"
  using assms(7)
proof (induction pairs arbitrary: n w)
  case Nil
  then show ?case using assms by (simp add: reported_def)
next
  case (Cons p pairs)
  obtain rack slot where p: "p = (rack, slot)" by fastforce
  have wb: "well_behaved tr" using assms(1) by (simp add: opens_well_def)
  have ab: "reported opts ip (abandoned r e)" for e using assms by (simp add: reported_def abandoned_def)
  obtain c1 w1 where c1: "trCtxErr tr w ctx = (c1, w1)" "c1 \<noteq> Panic" using well_behaved_steps(2) [OF wb] by (metis prod.collapse)
  obtain j w2 where j: "(if 0 < randomJitter (rnd n) (doJitterMS opts) then trSleep tr w1 ctx (randomJitter (rnd n) (doJitterMS opts)) else (Ok (), w1)) = (j, w2)" "j \<noteq> Panic"
    using well_behaved_steps(3) [OF wb] by (metis fst_conv prod.collapse res.distinct(3))
  obtain d w3 where d: "(if 0 < doRateMS opts then trSleep tr w2 ctx (doRateMS opts * 1000000) else (Ok (), w2)) = (d, w3)" "d \<noteq> Panic"
    using well_behaved_steps(3) [OF wb] by (metis fst_conv prod.collapse res.distinct(3))
  obtain q c w4 where q: "Connect tr (discoverClient (drIP r) (drPort r) opts rack slot) ctx w3 = (q, c, w4)" by (metis prod_cases3)
  note qc = Connect_discover [OF assms(1) q]
  obtain x c5 w5 where x: "Client_Close tr c w4 = (x, c5, w5)" "x \<noteq> Panic"
    using Client_Close_not_Panic [OF assms(1), of c w4] by (metis fst_conv prod_cases3)
  have hit: "reported opts ip (r\<lparr>drIsS7 := True, drRack := rack, drSlot := slot, drPDUSize := a, drTSAP := b\<rparr>)" for a b
    using assms Cons.prems by (simp add: reported_def p)
  show ?case
  proof (cases "0 < doMaxAttemptsPerHost opts \<and> doMaxAttemptsPerHost opts \<le> int n")
    case True
    then show ?thesis using assms by (simp add: p reported_def)
  next
    case False
    have step: "probeS7From tr ctx rnd opts r n (p # pairs) w =
      (case c1 of Panic \<Rightarrow> (Panic, w1) | Err e \<Rightarrow> (Ok (abandoned r e), w1) | Ok _ \<Rightarrow>
       (case j of Panic \<Rightarrow> (Panic, w2) | Err e \<Rightarrow> (Ok (abandoned r e), w2) | Ok _ \<Rightarrow>
        (case d of Panic \<Rightarrow> (Panic, w3) | Err e \<Rightarrow> (Ok (abandoned r e), w3) | Ok _ \<Rightarrow>
         (case q of Panic \<Rightarrow> (Panic, w4) | Err e \<Rightarrow> probeS7From tr ctx rnd opts r (n + 1) pairs w4 | Ok _ \<Rightarrow>
           (Ok (r\<lparr>drIsS7 := True, drRack := clRack c, drSlot := clSlot c, drPDUSize := clPduSize c,
              drTSAP := ''0x'' @ hex04 (clRemoteTSAP c)\<rparr>), w5)))))"
      unfolding p probeS7From.simps if_not_P [OF False] Let_def c1(1) prod.case j(1) d(1) q x(1)
      using x(2) by (auto split: res.split simp: Client_ConnectionInfo_def)
    show ?thesis
      unfolding step using c1(2) j(2) d(2) qc Cons.IH [of "n + 1" w4] Cons.prems hit ab by (auto split: res.split)
  qed
qed

lemma probeS7_ends: "opens_well tr \<Longrightarrow> ends (probeS7 tr ctx rnd ip 102 opts w) (reported opts ip)"
  unfolding probeS7_def by (rule probeS7From_ends) (simp_all add: zeroDiscover_def)

lemma hostOn_total:
  assumes "trs \<noteq> {}" "\<forall>tr \<in> trs. opens_well tr"
  shows "\<exists>r. hostOn trs ctx opts ip r"
proof -
  obtain tr where "tr \<in> trs" "opens_well tr" using assms by blast
  then show ?thesis using probeS7_ends [of tr ctx undefined ip opts undefined] unfolding hostOn_def ends_def by blast
qed

lemma hostOn_reported:
  assumes "hostOn trs ctx opts ip r" "\<forall>tr \<in> trs. opens_well tr"
  shows "reported opts ip r"
proof -
  obtain tr rnd w w' where "tr \<in> trs" "probeS7 tr ctx rnd ip 102 opts w = (Ok r, w')" using assms(1) by (auto simp: hostOn_def)
  then show ?thesis using probeS7_ends [of tr ctx rnd ip opts w] assms(2) by (auto simp: ends_def)
qed

section \<open>What a scan gives\<close>

text \<open>C30 A scan reports on the addresses of its range, in their order, whatever the interleaving of its workers and
  however the network treats each of them: the result at a position is that of the probe of the address at that
  position (a device at a rack and slot of the range, or the reason why none was found), or a zero value
  when the caller's context ended before it was collected. Without an error of the context every address has its
  result.\<close>

theorem Discover_reports:
  assumes "Discover parse6 (hostOn trs ctx) cidr options rs err" "\<forall>tr \<in> trs. opens_well tr" "opts = discoverOptions options"
  shows "(rs = [] \<and> err \<noteq> None) \<or> (\<exists>ips. streamCIDR parse6 cidr = Ok ips \<and> length rs = length ips \<and>
    (\<forall>i < length ips. reported opts (ips ! i) (rs ! i) \<or> rs ! i = zeroDiscover \<and> err \<noteq> None))"
  using assms(1)
proof (cases rule: Discover.cases)
  case (scanned ips s)
  have ok: "discover_ok (\<lambda>i. hostOn trs ctx opts (ips ! i)) (length ips) s"
    using discover_ok_reachable scanned(6) assms(3) by blast
  note res = over_results [OF ok scanned(7)]
  have "reported opts (ips ! i) (rs ! i) \<or> rs ! i = zeroDiscover \<and> err \<noteq> None" if "i < length ips" for i
    using res(2) [OF that] hostOn_reported [OF _ assms(2)] scanned(1,2) by blast
  then show ?thesis using res(1) scanned(1,4) by blast
qed auto

lemma ParseCIDR_not_Panic: "ParseCIDR parse6 cidr \<noteq> Panic"
  by (simp add: ParseCIDR_def Let_def split: option.split)


lemma Discover_exists:
  assumes "validateDiscover (discoverOptions options) = None" "streamCIDR parse6 cidr = Ok ips" "ips \<noteq> []"
    "\<And>ip. \<exists>r. outcome (discoverOptions options) ip r"
  shows "\<exists>rs. Discover parse6 outcome cidr options rs None"
proof -
  let ?o = "discoverOptions options"
  obtain s where "(discover_step outcome ?o ips)\<^sup>*\<^sup>* (discoverStart ?o ips) s" "discoverOver s" "dvCtxErr s = dvCtxErr (discoverStart ?o ips)"
    using discover_completes [where outcome = outcome and opts = ?o and ips = ips, OF assms(4) rtranclp.rtrancl_refl] by blast
  moreover have "dvCtxErr (discoverStart ?o ips) = None" by (simp add: discoverStart_def)
  ultimately show ?thesis using scanned [OF assms(1-3)] by metis
qed


theorem Discover_reports_witness:
  "\<exists>rs. Discover (\<lambda>_. None) (hostOn {scripted\<lparr>trRead := \<lambda>w ctx c. (Ok [], w)\<rparr>} CallerCtx) (IP_String [10, 0, 0, 0] @ ''/'' @ utoa 30) [] rs None \<and>
    list_all2 (reported (discoverOptions [])) (map IP_String [[10, 0, 0, 1], [10, 0, 0, 2]]) rs"
proof -
  let ?t = "IP_String [10, 0, 0, 0] @ ''/'' @ utoa 30" and ?trs = "{scripted\<lparr>trRead := \<lambda>w ctx c. (Ok [], w)\<rparr>}"
  have "hostsOf [10, 0, 0, 0] 30 = [[10, 0, 0, 1], [10, 0, 0, 2]]" by code_simp
  then have ips: "streamCIDR (\<lambda>_. None) ?t = Ok (map IP_String [[10, 0, 0, 1], [10, 0, 0, 2]])"
    using stream_hosts [of "[10, 0, 0, 0]" 30 "\<lambda>_. None"] by simp
  have v: "validateDiscover (discoverOptions []) = None"
    by (simp add: validateDiscover_def discoverOptions_def applySafetyMode_def defaultDiscoverOpts_def)
  obtain rs where rs: "Discover (\<lambda>_. None) (hostOn ?trs CallerCtx) ?t [] rs None"
    using Discover_exists [where outcome = "hostOn ?trs CallerCtx" and options = "[]", OF v ips] hostOn_total [of ?trs] scripted_opens_well by auto
  have "length rs = 2 \<and> (\<forall>i < 2. reported (discoverOptions []) (map IP_String [[10, 0, 0, 1], [10, 0, 0, 2]] ! i) (rs ! i))"
    using Discover_reports [OF rs _ refl] ips scripted_opens_well by simp
  then have "list_all2 (reported (discoverOptions [])) (map IP_String [[10, 0, 0, 1], [10, 0, 0, 2]]) rs"
    by (simp add: list_all2_conv_all_nth)
  then show ?thesis using rs by blast
qed

end
