(* ===== verification/Link_Discover.thy ===== *)
theory Link_Discover
  imports Link_Scan Client_Discover
begin

text \<open>
  Probing and scanning a network whose hosts are the server: what \<^verbatim>\<open>ProbeRackSlots\<close> and \<^verbatim>\<open>Discover\<close> say of a server
  that serves memory and refuses user data.
\<close>

section \<open>A query is refused\<close>

lemma EncodeSZLRequest_bytes:
  "EncodeSZLRequest ref szl 0 = s7Header ROSCTRUserdata ref 8 8 @ [0x00, 0x01, 0x12, 0x04, 0x11, 0x44, 0x01, 0x00] @
     [0xFF, 0x09] @ put16 4 @ put16 szl @ put16 0"
  by (simp add: EncodeSZLRequest_def userdataRequest_def EncodeUserdataRequest_def Let_def encodeMessage_def EncodeS7Header_def checkedUint16_def)

lemma handle_szl:
  "\<exists>out msg. handle s (EncodeSZLRequest ref szl 0) = Ok ((out, True), s) \<and> szlAnswer ref out = Ok (False, msg)"
proof -
  let ?req = "EncodeSZLRequest ref szl 0"
  let ?param = "[0x00, 0x01, 0x12, 0x04, 0x11, 0x44, 0x01, 0x00] :: bytes"
  have len: "length ?req = 26" by (simp add: EncodeSZLRequest_bytes s7Header_def)
  have f: "framed ?req" "?req ! 1 = ROSCTRUserdata" "req_ref ?req = ref" "req_param ?req = ?param"
    by (simp_all add: framed_def req_ref_def req_param_def len)
      (simp_all add: EncodeSZLRequest_bytes s7Header_def put16_def)
  define resp :: bytes where "resp = [0x00, 0x01, 0x12, 0x08, 0x12, 0x84, 0x01, 0x00, 0x00, 0x00, errClassApp, errCodeNotImpl]"
  define data :: bytes where "data = [RetCodeNotAvailable, 0x00, 0x00, 0x00]"
  define out where "out = s7Header ROSCTRUserdata ref 12 4 @ resp @ data"
  have u: "userdataNotImplemented ref ?param = Ok out"
    by (simp add: userdataNotImplemented_def idx_def Let_def or_nil_def out_def resp_def data_def EncodeS7Header_def checkedUint16_def)
  have "handle s ?req = Ok ((out, True), s)"
    unfolding handle_framed [OF f(1)] answer_of_def Let_def f(2-4) u by (simp add: IsUserdata_def)
  moreover have "ParseS7Header out = Ok (\<lparr>ProtocolID = 0x32, ROSCTR = ROSCTRUserdata, RedundancyID = 0, PDURef = ref,
      ParamLength = 12, DataLength = 4, ErrorClass = 0, ErrorCode = 0\<rparr>, resp @ data)"
    using ParseS7Header_message [of resp data ROSCTRUserdata ref] by (simp add: out_def resp_def data_def IsAck_def IsAckData_def)
  then have "\<exists>msg. szlAnswer ref out = Ok (False, msg)"
    by (simp add: szlAnswer_def go_slice_def) (simp add: resp_def data_def ParseSZLResponse_def idx_def ReturnCodeError_def)
  ultimately show ?thesis by blast
qed

lemma trySZL_net:
  assumes "netReady w conn"
  shows "\<exists>msg. trySZL netTransport ctx conn ref szl w = (Ok (False, msg), w)"
proof -
  obtain p where p: "ntConns w conn = Some (p, [])" "session_ok (sess w p)" using assms by (auto simp: netReady_def)
  obtain out msg where o: "handle (sess w p) (EncodeSZLRequest ref szl 0) = Ok ((out, True), sess w p)" "szlAnswer ref out = Ok (False, msg)"
    using handle_szl by blast
  have "length (EncodeSZLRequest ref szl 0) = 26" by (simp add: EncodeSZLRequest_bytes s7Header_def)
  then have "\<not> cfgMaxPDUSize (svCfg (ntSrv w)) < int (length (EncodeSZLRequest ref szl 0))"
    using p(2) by (simp add: session_ok_def server_ok_def)
  then have "netWrite w conn (EncodeSZLRequest ref szl 0) = (Ok (), w\<lparr>ntConns := (ntConns w)(conn \<mapsto> (p, [out]))\<rparr>)"
    using p(1) o(1) by (simp add: netWrite_def)
  moreover have "netRead (w\<lparr>ntConns := (ntConns w)(conn \<mapsto> (p, [out]))\<rparr>) conn = (Ok out, w)"
    using p(1) by (simp add: netRead_def) (simp add: fun_upd_idem)
  ultimately show ?thesis using o(2) by (simp add: trySZL_def)
qed

lemma runFollowUp_net:
  assumes "netReady w conn"
  shows "\<exists>msg. runFollowUp netTransport ctx conn ref strategy w = (Ok (False, ConfirmNone, msg), w)"
proof -
  obtain f where "trySZL netTransport ctx conn ref szl w = (Ok (False, f szl), w)" for szl using trySZL_net [OF assms] by metis
  then show ?thesis by (simp add: runFollowUp_def)
qed

section \<open>The probe of one candidate\<close>

lemma probeOne_net:
  assumes "server_ok (ntSrv w)" "ValidateRackSlot rack slot = None \<or> prRemoteTSAP req \<noteq> None"
  shows "\<exists>c w'. probeOne netTransport ctx req rack slot w = (Ok c, w') \<and> rcRack c = rack \<and> rcSlot c = slot \<and>
    rcPDUSize c = min 480 (cfgMaxPDUSize (svCfg (ntSrv w))) \<and>
    rcStatus c = (if prStrict req then StatusValidConnect else StatusSetupOnly) \<and>
    ntSrv w' = ntSrv w \<and> (\<forall>conn. conn \<noteq> ntNext w \<longrightarrow> ntConns w' conn = ntConns w conn) \<and> ntConns w' (ntNext w) = None"
proof -
  define c0 where "c0 = zeroCandidate\<lparr>rcRack := rack, rcSlot := slot, rcConfidence := ConfidenceNone\<rparr>"
  obtain l where l: "(case prLocalTSAP req of Some t \<Rightarrow> Ok t | None \<Rightarrow> BuildTSAP 1 0 0) = Ok l"
    using BuildTSAP_total [of 1 0 0] by (cases "prLocalTSAP req") (auto simp: ValidateRackSlot_def)
  obtain r where r: "(case prRemoteTSAP req of Some t \<Rightarrow> Ok t | None \<Rightarrow> BuildTSAP 3 rack slot) = Ok r"
    using BuildTSAP_total [of 3 rack slot] assms(2) by (cases "prRemoteTSAP req") auto
  define w1 where "w1 = w\<lparr>ntConns := (ntConns w)(ntNext w \<mapsto> (ssPduSize (newSession (ntSrv w)), [])), ntNext := ntNext w + 1\<rparr>"
  have dial: "dialTCP netTransport ctx a t w = (Ok (), w)" for a t by (simp add: dialTCP_def)
  have conn: "connectCOTP netTransport ctx () t l r w = (Ok (ntNext w), w1)" for t by (simp add: connectCOTP_def w1_def)
  have ready: "netReady w1 (ntNext w)" using newSession_ok [OF assms(1)] by (simp add: netReady_def w1_def newSession_def)
  have "\<exists>m. EncodeSetupCommRequest 1 1 1 480 = Ok m"
    by (simp add: EncodeSetupCommRequest_def checkedUint16_def encodeMessage_def EncodeS7Header_def)
  then obtain q where q: "performS7Setup netTransport (withOptionalTimeout ctx (prTimeout req)) (ntNext w) 1 1 1 480 w1 =
      (Ok q, w1\<lparr>ntConns := (ntConns w1)(ntNext w \<mapsto> (int (PDUSize q), []))\<rparr>)"
    and sz: "int (PDUSize q) = min 480 (cfgMaxPDUSize (svCfg (ntSrv w)))"
    using net_setup [OF ready] by (fastforce simp: w1_def)
  define w2 where "w2 = w1\<lparr>ntConns := (ntConns w1)(ntNext w \<mapsto> (int (PDUSize q), []))\<rparr>"
  have "netReady w2 (ntNext w)" using assms(1) sz by (simp add: netReady_def w2_def w1_def session_ok_def)
  then obtain msg where f: "runFollowUp netTransport (withOptionalTimeout ctx (prTimeout req)) (ntNext w) 2 (prConfirm req) w2 =
      (Ok (False, ConfirmNone, msg), w2)"
    using runFollowUp_net by blast
  define c1 where "c1 = c0\<lparr>rcLocalTSAP := l, rcRemoteTSAP := r\<rparr>"
  obtain c where c: "probeSession netTransport ctx req (ntNext w) c1 w1 = (Ok c, w2)" "rcRack c = rack" "rcSlot c = slot"
      "rcPDUSize c = min 480 (cfgMaxPDUSize (svCfg (ntSrv w)))" "rcStatus c = (if prStrict req then StatusValidConnect else StatusSetupOnly)"
  proof (cases "prStrict req")
    case True
    show thesis by (rule that, unfold probeSession_def q w2_def [symmetric] res.case prod.case Let_def) (use True f in simp, use True sz in \<open>simp_all add: c1_def c0_def\<close>)
  next
    case False
    show thesis by (rule that, unfold probeSession_def q w2_def [symmetric] res.case prod.case Let_def) (use False in simp, use False sz in \<open>simp_all add: c1_def c0_def\<close>)
  qed
  have "probeOne netTransport ctx req rack slot w = closeProbe netTransport (ntNext w) (Ok c, w2)"
    unfolding probeOne_def Let_def l r dial conn res.case prod.case c0_def [symmetric] c1_def [symmetric] c(1) ..
  also have "\<dots> = (Ok c, w2\<lparr>ntConns := (ntConns w2)(ntNext w := None)\<rparr>)" by (simp add: closeProbe_def closeCOTP_def)
  finally show ?thesis using c(2-) by (simp add: w2_def w1_def)
qed

text \<open>The probes of a host that is the server, with the largest PDU it grants.\<close>

definition servedProbe :: "go_ctx \<Rightarrow> int \<Rightarrow> probe_outcome" where
  "servedProbe ctx m req rack slot c \<longleftrightarrow> (\<exists>w w'. server_ok (ntSrv w) \<and> cfgMaxPDUSize (svCfg (ntSrv w)) = m \<and>
     probeOne netTransport ctx req rack slot w = (Ok c, w'))"

lemma servedProbe_facts:
  assumes "servedProbe ctx m req rack slot c" "ValidateRackSlot rack slot = None \<or> prRemoteTSAP req \<noteq> None"
  shows "rcRack c = rack \<and> rcSlot c = slot \<and> rcPDUSize c = min 480 m \<and>
    rcStatus c = (if prStrict req then StatusValidConnect else StatusSetupOnly)"
proof -
  obtain w w' where w: "server_ok (ntSrv w)" "cfgMaxPDUSize (svCfg (ntSrv w)) = m" "probeOne netTransport ctx req rack slot w = (Ok c, w')"
    using assms(1) by (auto simp: servedProbe_def)
  show ?thesis using probeOne_net [OF w(1) assms(2), of ctx] w(2,3) by auto
qed

lemma servedProbe_place:
  assumes "servedProbe ctx m req rack slot c"
  shows "rcRack c = rack \<and> rcSlot c = slot"
proof (cases "ValidateRackSlot rack slot = None \<or> prRemoteTSAP req \<noteq> None")
  case False
  then obtain e where "(case prRemoteTSAP req of Some t \<Rightarrow> Ok t | None \<Rightarrow> BuildTSAP 3 rack slot) = Err e" by (auto simp: BuildTSAP_def)
  then have "probeOne netTransport ctx req rack slot w = (Ok (zeroCandidate\<lparr>rcRack := rack, rcSlot := slot, rcConfidence := ConfidenceNone,
      rcError := error_text e, rcStatus := StatusRejected\<rparr>), w)" for w
    by (cases "prLocalTSAP req") (auto simp: probeOne_def BuildTSAP_def ValidateRackSlot_def Let_def)
  then show ?thesis using assms by (auto simp: servedProbe_def)
qed (use assms servedProbe_facts in blast)

text \<open>C10 The probe of a host that is the server, whatever its memory holds and however the goroutines are interleaved:
  when nothing stops it early it reports every pair of the range in order, each with the PDU size the server grants,
  because the server accepts every rack and slot. Without strict confirmation all of them are valid. With it none is: the
  server answers every query with a refusal, so each candidate is reported as connected and not confirmed.\<close>

theorem probe_server:
  assumes "ProbeRackSlots (servedProbe ctx m) req (Some r) None" "q = applyProbeDefaults req"
    "prMaxAttemptsPerHost q = 0" "\<not> prStopOnFirst q" "\<not> prStopOnFirstConfirmed q"
  shows "map (\<lambda>c. (rcRack c, rcSlot c)) (rrCandidates r) = probeJobs q \<and>
    list_all (\<lambda>c. rcPDUSize c = min 480 m \<and> rcStatus c = (if prStrict q then StatusValidConnect else StatusSetupOnly)) (rrCandidates r) \<and>
    rrValid r = (if prStrict q then [] else rrCandidates r)"
proof -
  have v: "validateRackSlotProbeRequest q = None" using assms(1,2) by (cases rule: ProbeRackSlots.cases) simp_all
  have jobs: "ValidateRackSlot rack slot = None" if "(rack, slot) \<in> set (probeJobs q)" for rack slot
    using v that by (auto simp: probeJobs_def ValidateRackSlot_def validateRackSlotProbeRequest_def split: if_splits)
  obtain cs k where cs: "rrCandidates r = cs @ replicate k zeroCandidate" "r = probeResult q (rrCandidates r)"
      "map (\<lambda>c. (rcRack c, rcSlot c)) cs = take (length cs) (probeJobs q)"
      "list_all (\<lambda>c. servedProbe ctx m q (rcRack c) (rcSlot c) c) cs" "length cs \<le> maxJobs q" "rrValid r = filter (validForStop q) cs"
      "length cs = maxJobs q" "length cs + k = length (probeJobs q)"
    using ProbeRackSlots_run [where outcome = "servedProbe ctx m", OF assms(1,2)] servedProbe_place assms(4,5) by blast
  have "length cs = length (probeJobs q)" using cs(7) assms(3) by (simp add: maxJobs_def)
  then have r: "rrCandidates r = cs" "map (\<lambda>c. (rcRack c, rcSlot c)) cs = probeJobs q" using cs(1,3,8) by simp_all
  have each: "rcPDUSize c = min 480 m \<and> rcStatus c = (if prStrict q then StatusValidConnect else StatusSetupOnly)" if "c \<in> set cs" for c
  proof -
    have "(rcRack c, rcSlot c) \<in> set (probeJobs q)" using that unfolding r(2) [symmetric] by auto
    then show ?thesis using servedProbe_facts [of ctx m q "rcRack c" "rcSlot c" c] cs(4) that jobs by (auto simp: list_all_iff)
  qed
  have "filter (validForStop q) cs = (if prStrict q then [] else cs)"
    using each by (auto simp: validForStop_def setupAccepted_def filter_empty_conv filter_id_conv)
  then show ?thesis using r each cs(6) by (simp add: list_all_iff)
qed

section \<open>The probe of a host in a scan\<close>

lemma probeS7_net:
  assumes "server_ok (ntSrv w)" "ValidateRackSlot (doRackMin opts) (doSlotMin opts) = None" "validateDiscover opts = None" "0 \<le> doTimeout opts"
  shows "\<exists>r w'. probeS7 netTransport ctx rnd ip 102 opts w = (Ok r, w') \<and> drIP r = ip \<and> drIsS7 r \<and>
    drRack r = doRackMin opts \<and> drSlot r = doSlotMin opts \<and> drPDUSize r = min 480 (cfgMaxPDUSize (svCfg (ntSrv w))) \<and>
    ntSrv w' = ntSrv w \<and> (\<forall>conn. conn \<noteq> ntNext w \<longrightarrow> ntConns w' conn = ntConns w conn) \<and> ntConns w' (ntNext w) = None"
proof -
  let ?rack = "doRackMin opts" and ?slot = "doSlotMin opts"
  define c where "c = (discoverClient ip 102 opts ?rack ?slot :: nat Client)"
  have c: "options_ok (clOpts c)" "clConn c = None" "optMaxPDU (clOpts c) = 480"
    using assms(2,4) by (simp_all add: c_def discoverClient_def Client_New_def WithPort_def WithRackSlot_def WithTimeoutOption_def
      defaultOptions_def options_ok_def)
  obtain c' w' where conn: "Connect netTransport c ctx w = (Ok (), c', w')" "connected c w c' w'"
    using Connect_net [OF assms(1) c(1), of ctx] c(2) by auto
  have place: "clRack c' = ?rack" "clSlot c' = ?slot" using Connect_discover_place [OF conn(1) [unfolded c_def]] by simp_all
  have pairs: "\<exists>ps. discoverPairs opts = (?rack, ?slot) # ps"
    using assms(3) by (auto simp: validateDiscover_def discoverPairs_def upto_rec1 split: if_splits)
  have close: "Client_Close netTransport c' w' = (Ok (), c'\<lparr>clConn := None, clRack := 0, clSlot := 0, clLocalTSAP := 0, clRemoteTSAP := 0,
      clPduSize := 0, clMaxAmqCalling := 0, clMaxAmqCalled := 0\<rparr>, w'\<lparr>ntConns := (ntConns w')(ntNext w := None)\<rparr>)"
    using conn(2) by (simp add: connected_def Client_Close_def closeConnLocked_def closeCOTP_def)
  define r where "r = zeroDiscover\<lparr>drIP := ip, drPort := 102, drIsS7 := True, drRack := clRack c', drSlot := clSlot c',
    drPDUSize := clPduSize c', drTSAP := ''0x'' @ hex04 (clRemoteTSAP c')\<rparr>"
  have "probeS7 netTransport ctx rnd ip 102 opts w = (Ok r, w'\<lparr>ntConns := (ntConns w')(ntNext w := None)\<rparr>)"
    using pairs conn(1) close by (auto simp: probeS7_def c_def r_def Client_ConnectionInfo_def Let_def)
  moreover have "drIP r = ip \<and> drIsS7 r \<and> drRack r = ?rack \<and> drSlot r = ?slot \<and> drPDUSize r = clPduSize c'" using place by (simp add: r_def)
  ultimately show ?thesis using conn(2) c by (auto simp: connected_def)
qed

text \<open>The hosts of a network that are all servers, with the largest PDU they grant.\<close>

definition servedHost :: "go_ctx \<Rightarrow> int \<Rightarrow> host_outcome" where
  "servedHost ctx m opts ip r \<longleftrightarrow> (\<exists>rnd w w'. server_ok (ntSrv w) \<and> cfgMaxPDUSize (svCfg (ntSrv w)) = m \<and>
     probeS7 netTransport ctx rnd ip 102 opts w = (Ok r, w'))"


section \<open>The claims at a concrete server\<close>

text \<open>The server of the examples grants 480 bytes.\<close>

lemma demoNet_grants: "server_ok (ntSrv demoNet)" "cfgMaxPDUSize (svCfg (ntSrv demoNet)) = 480"
  using demoNet_facts(5) by (simp_all add: demoNet_def demo_defs)

lemma servedProbe_demo:
  assumes "ValidateRackSlot rack slot = None \<or> prRemoteTSAP req \<noteq> None"
  shows "\<exists>c. servedProbe ctx 480 req rack slot c"
  using probeOne_net [OF demoNet_grants(1) assms, of ctx] demoNet_grants unfolding servedProbe_def by blast

theorem probe_server_witness:
  "\<exists>r. ProbeRackSlots (servedProbe CallerCtx 480) (demoProbe\<lparr>prRemoteTSAP := Some 0x0300\<rparr>) (Some r) None \<and>
    map (\<lambda>c. (rcRack c, rcSlot c)) (rrValid r) = [(0, 0), (0, 1)]"
proof -
  let ?q = "demoProbe\<lparr>prRemoteTSAP := Some 0x0300\<rparr>"
  have d: "applyProbeDefaults ?q = ?q" by (simp add: applyProbeDefaults_def demoProbe_def DefaultRackSlotProbeRequest_def)
  have v: "validateRackSlotProbeRequest ?q = None"
    by (simp add: validateRackSlotProbeRequest_def demoProbe_def DefaultRackSlotProbeRequest_def is_blank_def wide_space_def)
  obtain r where r: "ProbeRackSlots (servedProbe CallerCtx 480) ?q (Some r) None"
    using ProbeRackSlots_exists [where outcome = "servedProbe CallerCtx 480" and req = ?q] v d servedProbe_demo [where req = ?q] by auto
  have jobs: "probeJobs ?q = [(0, 0), (0, 1)]"
    by (simp add: probeJobs_def demoProbe_def DefaultRackSlotProbeRequest_def upto.simps)
  have q: "prMaxAttemptsPerHost ?q = 0" "\<not> prStopOnFirst ?q" "\<not> prStopOnFirstConfirmed ?q" "\<not> prStrict ?q"
    by (simp_all add: demoProbe_def DefaultRackSlotProbeRequest_def)
  show ?thesis using probe_server [OF r d [symmetric] q(1-3)] q(4) jobs r by auto
qed


end
