(* ===== verification/Interop_Fixture.thy ===== *)
theory Interop_Fixture
  imports Client_RW
begin

text \<open>
  The fixtures of the interoperability runs (\<^verbatim>\<open>interop/fixture.go\<close>): what a compiled fixture says, read
  from the value \<^verbatim>\<open>json.Unmarshal\<close> gives for its file. The value is a dynamically typed one (\<open>any\<close>); the
  lemmas say which documents are accepted and that an accepted one has the types the runner relies on.
\<close>

section \<open>Outcomes and steps\<close>

type_synonym Outcome = string

abbreviation OutcomeSuccess :: Outcome where "OutcomeSuccess \<equiv> ''success''"
abbreviation OutcomeAddressOutOfRange :: Outcome where "OutcomeAddressOutOfRange \<equiv> ''address-out-of-range''"
abbreviation OutcomeWriteProtected :: Outcome where "OutcomeWriteProtected \<equiv> ''write-protected''"
abbreviation OutcomeUnsupported :: Outcome where "OutcomeUnsupported \<equiv> ''unsupported''"
abbreviation OutcomeTransportFailure :: Outcome where "OutcomeTransportFailure \<equiv> ''transport-failure''"
abbreviation OutcomeProtocolFailure :: Outcome where "OutcomeProtocolFailure \<equiv> ''protocol-failure''"

record Expectation =
  exOperation :: string
  exAreaType :: string
  exAreaNum :: int
  exOffset :: int
  exLength :: int
  exBit :: int
  exHasBit :: bool
  exClients :: int
  exData :: bytes
  exWantOutcome :: Outcome
  exWantBytes :: bytes
  exHasBytes :: bool

record CompiledFixture =
  fxID :: string
  fxRevision :: int
  fxRack :: int
  fxSlot :: int
  fxFilename :: string
  fxExpectations :: "Expectation list"

section \<open>Dynamic values\<close>

text \<open>
  A value of type \<^verbatim>\<open>any\<close> as the decoder makes it, and the two other kinds of number the code
  looks for. A \<^verbatim>\<open>float64\<close> is \<open>m * 2 ^ e\<close>, given by \<open>m\<close> and \<open>e\<close>; the numbers of a document are finite. A
  \<^verbatim>\<open>map[string]any\<close> is the list of its members, with one member per key; a failed type assertion gives the nil
  map, which has none. \<open>Null\<close> is JSON null, and what a map gives for a key it does not have.
\<close>

datatype any = Null | Bool bool | Float64 int int | IntValue "64 word" | Number string | Str string | Slice "any list"
  | Map "(string \<times> any) list"

definition member :: "(string \<times> any) list \<Rightarrow> string \<Rightarrow> any" where
  "member m k = (case map_of m k of None \<Rightarrow> Null | Some v \<Rightarrow> v)"

definition asMap :: "any \<Rightarrow> (string \<times> any) list" where
  "asMap v = (case v of Map m \<Rightarrow> m | _ \<Rightarrow> [])"

definition asSlice :: "any \<Rightarrow> any list" where
  "asSlice v = (case v of Slice vs \<Rightarrow> vs | _ \<Rightarrow> [])"

text \<open>
  \<^verbatim>\<open>int(n)\<close> of a float: it drops the fraction; \<open>big\<close> is what the machine gives for a number that
  no \<^verbatim>\<open>int\<close> holds, which the language leaves open.
\<close>

definition truncated :: "int \<Rightarrow> int \<Rightarrow> int" where
  "truncated m e = (if 0 \<le> e then m * 2 ^ nat e else sgn m * (\<bar>m\<bar> div 2 ^ nat (- e)))"

definition fits_int :: "int \<Rightarrow> bool" where
  "fits_int i \<longleftrightarrow> - (2 ^ 63) \<le> i \<and> i < 2 ^ 63"

text \<open>\<^verbatim>\<open>strconv.ParseInt(s, 10, 64)\<close>\<close>

fun digitsValue :: "string \<Rightarrow> int \<Rightarrow> int option" where
  "digitsValue [] n = Some n"
| "digitsValue (c # s) n =
     (if 48 \<le> (of_char c :: nat) \<and> (of_char c :: nat) \<le> 57 then digitsValue s (10 * n + int (of_char c - 48)) else None)"

definition parseInt :: "string \<Rightarrow> int option" where
  "parseInt s =
    (let neg = (s \<noteq> [] \<and> hd s = CHR ''-''); t = (if s \<noteq> [] \<and> hd s \<in> {CHR ''-'', CHR ''+''} then tl s else s) in
     if t = [] then None
     else case digitsValue t 0 of
         None \<Rightarrow> None
       | Some n \<Rightarrow> (let i = (if neg then - n else n) in if fits_int i then Some i else None))"

definition asInt :: "(int \<Rightarrow> int \<Rightarrow> int) \<Rightarrow> any \<Rightarrow> int \<Rightarrow> int" where
  "asInt big v dflt =
    (case v of
       Float64 m e \<Rightarrow> (if fits_int (truncated m e) then truncated m e else big m e)
     | IntValue n \<Rightarrow> sint n
     | Number s \<Rightarrow> (case parseInt s of None \<Rightarrow> dflt | Some i \<Rightarrow> i)
     | _ \<Rightarrow> dflt)"

text \<open>
  \<^verbatim>\<open>fmt.Sprint(v)\<close>; \<open>sprint\<close> is its text of a float, a slice and a map.
\<close>

definition asString :: "(any \<Rightarrow> string) \<Rightarrow> any \<Rightarrow> string" where
  "asString sprint v =
    (case v of
       Null \<Rightarrow> []
     | Str s \<Rightarrow> s
     | Number s \<Rightarrow> s
     | IntValue n \<Rightarrow> itoa (sint n)
     | Bool b \<Rightarrow> (if b then ''true'' else ''false'')
     | _ \<Rightarrow> sprint v)"

text \<open>\<^verbatim>\<open>%T\<close>\<close>

definition typeName :: "any \<Rightarrow> string" where
  "typeName v =
    (case v of
       Null \<Rightarrow> ''<nil>''
     | Bool _ \<Rightarrow> ''bool''
     | Float64 _ _ \<Rightarrow> ''float64''
     | IntValue _ \<Rightarrow> ''int''
     | Number _ \<Rightarrow> ''json.Number''
     | Str _ \<Rightarrow> ''string''
     | Slice _ \<Rightarrow> ''[]interface {}''
     | Map _ \<Rightarrow> ''map[string]interface {}'')"

section \<open>Payloads\<close>

definition hexValue :: "char \<Rightarrow> nat option" where
  "hexValue c =
    (let n = (of_char c :: nat) in
     if 48 \<le> n \<and> n \<le> 57 then Some (n - 48)
     else if 97 \<le> n \<and> n \<le> 102 then Some (n - 87)
     else if 65 \<le> n \<and> n \<le> 70 then Some (n - 55)
     else None)"

text \<open>\<^verbatim>\<open>hex.DecodeString\<close>; \<open>badHex\<close> is the text of its error for a character, an odd number of digits has its own.\<close>

fun hexDecode :: "(char \<Rightarrow> string) \<Rightarrow> string \<Rightarrow> bytes res" where
  "hexDecode badHex [] = Ok []"
| "hexDecode badHex [c] =
    (case hexValue c of
       None \<Rightarrow> Err (OtherError (badHex c))
     | Some _ \<Rightarrow> Err (OtherError ''encoding/hex: odd length hex string''))"
| "hexDecode badHex (c # d # s) =
    (case hexValue c of
       None \<Rightarrow> Err (OtherError (badHex c))
     | Some h \<Rightarrow>
    (case hexValue d of
       None \<Rightarrow> Err (OtherError (badHex d))
     | Some l \<Rightarrow> bindR (hexDecode badHex s) (\<lambda>b. Ok (word_of_nat (16 * h + l) # b))))"

definition decodePayload :: "(char \<Rightarrow> string) \<Rightarrow> (string \<times> any) list \<Rightarrow> bytes res" where
  "decodePayload badHex m =
    (case member m ''hex'' of
       Str h \<Rightarrow> hexDecode badHex (filter (\<lambda>c. c \<noteq> CHR '' '') h)
     | _ \<Rightarrow> Err (OtherError ''payload requires hex''))"

section \<open>Steps and fixtures\<close>

definition normalizeResultString :: "string \<Rightarrow> Outcome" where
  "normalizeResultString s =
    (if s = ''accepted'' \<or> s = ''success'' then OutcomeSuccess
     else if s = ''address-out-of-range'' then OutcomeAddressOutOfRange
     else if s = ''write-protected'' then OutcomeWriteProtected
     else if s = ''unsupported'' then OutcomeUnsupported
     else if s = ''transport-failure'' then OutcomeTransportFailure
     else if s = ''protocol-failure'' then OutcomeProtocolFailure
     else s)"

text \<open>What the standard library leaves open, as one parameter.\<close>

record stdlib =
  bigInt :: "int \<Rightarrow> int \<Rightarrow> int"
  sprintOf :: "any \<Rightarrow> string"
  badHexText :: "char \<Rightarrow> string"

definition parseExpectation :: "stdlib \<Rightarrow> (string \<times> any) list \<Rightarrow> Expectation res" where
  "parseExpectation std m =
    (let area = asMap (member m ''area'');
         num = (\<lambda>v. asInt (bigInt std) v 0);
         hasBit = (map_of m ''bit'' \<noteq> None);
         exp = \<lparr>exOperation = asString (sprintOf std) (member m ''operation''),
           exAreaType = asString (sprintOf std) (member area ''type''), exAreaNum = num (member area ''number''),
           exOffset = num (member m ''offset''), exLength = num (member m ''length''),
           exBit = (if hasBit then num (member m ''bit'') else 0), exHasBit = hasBit,
           exClients = num (member m ''clients''), exData = [], exWantOutcome = [], exWantBytes = [], exHasBytes = False\<rparr> in
     bindR (case member m ''data'' of Map d \<Rightarrow> decodePayload (badHexText std) d | _ \<Rightarrow> Ok []) (\<lambda>data.
     let exp = exp\<lparr>exData := data\<rparr> in
     case member m ''result'' of
       Str s \<Rightarrow> Ok (exp\<lparr>exWantOutcome := normalizeResultString s\<rparr>)
     | Map r \<Rightarrow>
         bindR (decodePayload (badHexText std) r) (\<lambda>b.
         Ok (exp\<lparr>exWantBytes := b, exHasBytes := True, exWantOutcome := OutcomeSuccess,
           exLength := (if exLength exp = 0 then int (length b) else exLength exp)\<rparr>))
     | v \<Rightarrow> Err (OtherError (''unsupported result type '' @ typeName v))))"

text \<open>The loop over the steps, from the step with index \<open>i\<close>.\<close>

fun parseExpectations :: "stdlib \<Rightarrow> nat \<Rightarrow> any list \<Rightarrow> Expectation list res" where
  "parseExpectations std i [] = Ok []"
| "parseExpectations std i (v # vs) =
    (case v of
       Map m \<Rightarrow>
        (case parseExpectation std m of
           Panic \<Rightarrow> Panic
         | Err e \<Rightarrow> Err (wrap_error (''expectations['' @ utoa i @ '']'') e)
         | Ok exp \<Rightarrow> bindR (parseExpectations std (i + 1) vs) (\<lambda>exps. Ok (exp # exps)))
     | _ \<Rightarrow> Err (OtherError (''expectations['' @ utoa i @ '']: not an object'')))"

text \<open>
  A fixture from the contents of its file; \<open>unmarshal\<close> is \<^verbatim>\<open>json.Unmarshal\<close> into a map and
  \<open>readFile\<close> reads a file of the directory.
\<close>

definition loadCompiledFixture :: "stdlib \<Rightarrow> (bytes \<Rightarrow> (string \<times> any) list res) \<Rightarrow> (string \<Rightarrow> bytes res) \<Rightarrow> string \<Rightarrow>
    CompiledFixture res" where
  "loadCompiledFixture std unmarshal readFile path =
     bindR (readFile path) (\<lambda>raw.
     bindR (unmarshal raw) (\<lambda>doc.
     let meta = asMap (member doc ''fixture''); server = asMap (member doc ''server'') in
     bindR (parseExpectations std 0 (asSlice (member doc ''expectations''))) (\<lambda>exps.
     Ok \<lparr>fxID = asString (sprintOf std) (member meta ''id''), fxRevision = asInt (bigInt std) (member meta ''revision'') 1,
       fxRack = asInt (bigInt std) (member server ''rack'') 0, fxSlot = asInt (bigInt std) (member server ''slot'') 2,
       fxFilename = [], fxExpectations = exps\<rparr>)))"

definition hasSuffix :: "string \<Rightarrow> string \<Rightarrow> bool" where
  "hasSuffix s suffix \<longleftrightarrow> length suffix \<le> length s \<and> drop (length s - length suffix) s = suffix"

text \<open>The loop over the entries of the directory, each a name and whether it is a directory.\<close>

fun loadEntries :: "(string \<Rightarrow> CompiledFixture res) \<Rightarrow> (string \<times> bool) list \<Rightarrow> CompiledFixture list res" where
  "loadEntries load [] = Ok []"
| "loadEntries load ((name, isDir) # es) =
    (if isDir \<or> \<not> hasSuffix name ''.compiled.json'' then loadEntries load es
     else
      (case load name of
         Panic \<Rightarrow> Panic
       | Err e \<Rightarrow> Err (wrap_error name e)
       | Ok fx \<Rightarrow> bindR (loadEntries load es) (\<lambda>fxs. Ok (fx\<lparr>fxFilename := name\<rparr> # fxs))))"

definition loadAllFixtures :: "stdlib \<Rightarrow> (bytes \<Rightarrow> (string \<times> any) list res) \<Rightarrow> (string \<Rightarrow> (string \<times> bool) list res) \<Rightarrow>
    (string \<Rightarrow> string \<Rightarrow> bytes res) \<Rightarrow> string \<Rightarrow> CompiledFixture list res" where
  "loadAllFixtures std unmarshal readDir readIn dir =
     bindR (readDir dir) (\<lambda>entries.
     bindR (loadEntries (loadCompiledFixture std unmarshal (readIn dir)) entries) (\<lambda>out.
     if out = [] then Err (OtherError (''no compiled fixtures in '' @ dir)) else Ok out))"

section \<open>Hexadecimal texts\<close>

text \<open>\<^verbatim>\<open>hex.EncodeToString\<close>\<close>

definition hexByteText :: "byte \<Rightarrow> string" where
  "hexByteText b = [lower_digit_char (unat b div 16), lower_digit_char (unat b mod 16)]"

definition hexEncode :: "bytes \<Rightarrow> string" where
  "hexEncode b = concat (map hexByteText b)"

text \<open>Lower case, for the letters a hexadecimal text has.\<close>

definition lowerHex :: "char \<Rightarrow> char" where
  "lowerHex c = (if 65 \<le> (of_char c :: nat) \<and> (of_char c :: nat) \<le> 70 then char_of ((of_char c :: nat) + 32) else c)"

lemma hexValue_bound: "hexValue c = Some h \<Longrightarrow> h < 16"
  by (auto simp: hexValue_def Let_def split: if_splits)

lemma of_char_lower_digit: "d < 16 \<Longrightarrow> of_char (lower_digit_char d) = (d + (if d < 10 then 48 else 87) :: nat)"
  by (simp add: lower_digit_char_def)

lemma of_char_lowerHex:
  "of_char (lowerHex c) = (if 65 \<le> (of_char c :: nat) \<and> (of_char c :: nat) \<le> 70 then of_char c + 32 else (of_char c :: nat))"
  by (simp add: lowerHex_def)

lemma hexValue_lower: "hexValue c = Some h \<longleftrightarrow> h < 16 \<and> lowerHex c = lower_digit_char h"
proof
  assume l: "hexValue c = Some h"
  have "(of_char (lowerHex c) :: nat) = of_char (lower_digit_char h)"
    using l hexValue_bound [OF l] by (auto simp: hexValue_def of_char_lowerHex of_char_lower_digit Let_def split: if_splits)
  then show "h < 16 \<and> lowerHex c = lower_digit_char h" using hexValue_bound [OF l] by simp
next
  assume r: "h < 16 \<and> lowerHex c = lower_digit_char h"
  then have "(of_char (lowerHex c) :: nat) = h + (if h < 10 then 48 else 87)" using of_char_lower_digit by simp
  then show "hexValue c = Some h" using r
    unfolding of_char_lowerHex by (auto simp: hexValue_def Let_def split: if_splits)
qed

lemma unat_word_of_nat_byte: "n < 256 \<Longrightarrow> unat (word_of_nat n :: byte) = n"
  by (simp add: unsigned_of_nat take_bit_eq_mod)

lemma byte_high: "unat (b :: byte) div 16 < 16"
  using unat_byte_less [of b] by (simp add: less_mult_imp_div_less)

lemma hexByteText_lower:
  "[lowerHex c, lowerHex d] = hexByteText b \<longleftrightarrow> (\<exists>h l. hexValue c = Some h \<and> hexValue d = Some l \<and> b = word_of_nat (16 * h + l))"
proof
  assume "[lowerHex c, lowerHex d] = hexByteText b"
  then have "hexValue c = Some (unat b div 16)" "hexValue d = Some (unat b mod 16)"
    using byte_high [of b] by (auto simp: hexByteText_def hexValue_lower)
  moreover have "b = word_of_nat (16 * (unat b div 16) + unat b mod 16)" by simp
  ultimately show "\<exists>h l. hexValue c = Some h \<and> hexValue d = Some l \<and> b = word_of_nat (16 * h + l)" by blast
next
  assume "\<exists>h l. hexValue c = Some h \<and> hexValue d = Some l \<and> b = word_of_nat (16 * h + l)"
  then obtain h l where hl: "hexValue c = Some h" "hexValue d = Some l" "b = word_of_nat (16 * h + l)" by blast
  then have "h < 16" "l < 16" by (simp_all add: hexValue_bound)
  then have "16 * h + l < 256" by simp
  then have "unat b = 16 * h + l" unfolding hl(3) by (rule unat_word_of_nat_byte)
  with \<open>l < 16\<close> hl(1,2) show "[lowerHex c, lowerHex d] = hexByteText b" by (simp add: hexByteText_def hexValue_lower)
qed

lemma hexDecode_eq_Ok: "hexDecode bad s = Ok b \<longleftrightarrow> map lowerHex s = hexEncode b"
proof (induction bad s arbitrary: b rule: hexDecode.induct)
  case (1 bad)
  then show ?case by (cases b) (auto simp: hexEncode_def hexByteText_def)
next
  case (2 bad c)
  then show ?case by (cases b) (auto simp: hexEncode_def hexByteText_def split: option.split)
next
  case (3 bad c d s)
  show ?case
  proof (cases b)
    case Nil
    then show ?thesis by (auto simp: hexEncode_def bindR_eq_Ok split: option.split)
  next
    case (Cons x xs)
    have "map lowerHex (c # d # s) = hexEncode b \<longleftrightarrow> [lowerHex c, lowerHex d] = hexByteText x \<and> map lowerHex s = hexEncode xs"
      by (simp add: Cons hexEncode_def hexByteText_def)
    also have "\<dots> \<longleftrightarrow> hexDecode bad (c # d # s) = Ok b"
      unfolding hexByteText_lower using 3 by (auto simp: Cons bindR_eq_Ok split: option.split)
    finally show ?thesis by blast
  qed
qed

lemma hexDecode_not_Panic: "hexDecode bad s \<noteq> Panic"
proof (induction bad s rule: hexDecode.induct)
  case (3 bad c d s)
  show ?case
  proof (cases "hexValue c")
    case (Some h)
    then show ?thesis using 3 by (cases "hexValue d"; cases "hexDecode bad s") auto
  qed simp
qed (auto split: option.split)

lemma hexEncode_inj: "hexEncode a = hexEncode b \<longleftrightarrow> a = b"
proof -
  have low: "lowerHex (lower_digit_char d) = lower_digit_char d" if "d < 16" for d
  proof -
    have "hexValue (lower_digit_char d) = Some d" using that by (auto simp: hexValue_def of_char_lower_digit Let_def)
    then show ?thesis by (simp add: hexValue_lower)
  qed
  have "map lowerHex (hexEncode x) = hexEncode x" for x
    by (induction x) (simp_all add: hexEncode_def hexByteText_def low byte_high)
  then have "hexDecode (\<lambda>_. []) (hexEncode x) = Ok x" for x by (simp add: hexDecode_eq_Ok)
  then show ?thesis by (metis res.inject(1))
qed

section \<open>The shape of a fixture\<close>

text \<open>A payload is an object with a text of hexadecimal digits, with spaces anywhere, that stands for its bytes.\<close>

definition payload :: "(string \<times> any) list \<Rightarrow> bytes \<Rightarrow> bool" where
  "payload m b \<longleftrightarrow> (\<exists>h. member m ''hex'' = Str h \<and> map lowerHex (filter (\<lambda>c. c \<noteq> CHR '' '') h) = hexEncode b)"

lemma decodePayload_eq_Ok: "decodePayload bad m = Ok b \<longleftrightarrow> payload m b"
  by (auto simp: decodePayload_def payload_def hexDecode_eq_Ok split: any.split)

lemma decodePayload_not_Panic: "decodePayload bad m \<noteq> Panic"
  using hexDecode_not_Panic by (simp add: decodePayload_def split: any.split)

text \<open>
  The shape of a step: an object whose result is a text or a payload, and whose data, if it is an object, is a
  payload. \<open>typed\<close> is what the runner relies on: numbers fit a Go \<^verbatim>\<open>int\<close> (a length may be that of a payload), bytes are expected only of a step that
  succeeds, and there is no bit index without a bit.
\<close>

definition step_shape :: "any \<Rightarrow> bool" where
  "step_shape v \<longleftrightarrow> (case v of
     Map m \<Rightarrow> (case member m ''data'' of Map d \<Rightarrow> (\<exists>b. payload d b) | _ \<Rightarrow> True) \<and>
       (case member m ''result'' of Str _ \<Rightarrow> True | Map r \<Rightarrow> (\<exists>b. payload r b) | _ \<Rightarrow> False)
   | _ \<Rightarrow> False)"

definition typed :: "Expectation \<Rightarrow> bool" where
  "typed e \<longleftrightarrow> list_all fits_int [exAreaNum e, exOffset e, exBit e, exClients e] \<and>
     (fits_int (exLength e) \<or> exLength e = int (length (exWantBytes e))) \<and>
     (exHasBytes e \<longrightarrow> exWantOutcome e = OutcomeSuccess \<and> (exWantBytes e \<noteq> [] \<longrightarrow> exLength e \<noteq> 0)) \<and>
     (\<not> exHasBytes e \<longrightarrow> exWantBytes e = []) \<and> (\<not> exHasBit e \<longrightarrow> exBit e = 0)"

lemma parseExpectation_not_Panic: "parseExpectation std m \<noteq> Panic"
  using decodePayload_not_Panic
  by (auto simp: parseExpectation_def Let_def bindR_eq_Panic split: any.split)

lemma ex_bindR: "(\<exists>y. bindR m f = Ok y) \<longleftrightarrow> (\<exists>x. m = Ok x \<and> (\<exists>y. f x = Ok y))"
  by (auto simp: bindR_eq_Ok)

lemma parseExpectation_shape: "(\<exists>e. parseExpectation std m = Ok e) \<longleftrightarrow> step_shape (Map m)"
  unfolding parseExpectation_def Let_def ex_bindR step_shape_def
  by (auto simp: decodePayload_eq_Ok ex_bindR split: any.split)

lemma asInt_fits:
  assumes "\<And>m e. fits_int (big m e)" "fits_int d"
  shows "fits_int (asInt big v d)"
proof -
  have "fits_int (sint n)" for n :: "64 word" using sint_greater_eq [of n] sint_less [of n] by (simp add: fits_int_def)
  moreover have "fits_int i" if "parseInt s = Some i" for s i
    using that by (auto simp: parseInt_def Let_def split: if_splits option.splits)
  ultimately show ?thesis using assms by (auto simp: asInt_def split: any.split option.split)
qed

lemma parseExpectation_typed:
  assumes "\<And>m e. fits_int (bigInt std m e)" "parseExpectation std m = Ok e"
  shows "typed e"
proof -
  have num: "fits_int (asInt (bigInt std) v 0)" for v by (rule asInt_fits [OF assms(1)]) (simp add: fits_int_def)
  have zero: "fits_int 0" by (simp add: fits_int_def)
  show ?thesis
  proof (cases "member m ''result''")
    case (Str s)
    then show ?thesis using assms(2) num zero by (auto simp: parseExpectation_def Let_def bindR_eq_Ok typed_def)
  next
    case (Map r)
    then show ?thesis using assms(2) num zero
      by (auto simp: parseExpectation_def Let_def bindR_eq_Ok typed_def decodePayload_eq_Ok asMap_def split: if_splits)
  qed (use assms(2) in \<open>auto simp: parseExpectation_def Let_def bindR_eq_Ok\<close>)
qed

lemma parseExpectations_not_Panic: "parseExpectations std i vs \<noteq> Panic"
proof (induction vs arbitrary: i)
  case (Cons v vs)
  show ?case
  proof (cases v)
    case (Map m)
    then show ?thesis using Cons [of "i + 1"] parseExpectation_not_Panic [of std m]
      by (cases "parseExpectation std m"; cases "parseExpectations std (i + 1) vs") simp_all
  qed simp_all
qed simp

lemma parseExpectations_Cons:
  "parseExpectations std i (v # vs) = Ok es \<longleftrightarrow>
     (\<exists>m e es'. v = Map m \<and> parseExpectation std m = Ok e \<and> parseExpectations std (i + 1) vs = Ok es' \<and> es = e # es')"
  by (auto simp: bindR_eq_Ok split: any.split res.split)

lemma parseExpectations_eq_Ok:
  "parseExpectations std i vs = Ok es \<longleftrightarrow> list_all2 (\<lambda>v e. \<exists>m. v = Map m \<and> parseExpectation std m = Ok e) vs es"
proof (induction vs arbitrary: i es)
  case (Cons v vs)
  show ?case unfolding parseExpectations_Cons Cons list_all2_Cons1 by blast
qed auto

lemma ex_list_all2: "(\<exists>ys. list_all2 P xs ys) \<longleftrightarrow> (\<forall>x \<in> set xs. \<exists>y. P x y)"
  by (induction xs) (auto simp: list_all2_Cons1)

text \<open>C34 A fixture file whose text decodes to an object is loaded exactly when every entry of its list of
  expectations is an object with a result that is a text or a payload of hexadecimal digits and with well-formed
  data; nothing panics. The loaded fixture has one step per entry, in order, and each is typed as the runner
  relies on. A document whose list is missing or is not a list is loaded as a fixture without steps.\<close>

theorem fixture_typed:
  assumes "\<And>m e. fits_int (bigInt std m e)" "readFile path = Ok raw" "unmarshal raw = Ok doc"
    "entries = asSlice (member doc ''expectations'')"
  shows "((\<exists>fx. loadCompiledFixture std unmarshal readFile path = Ok fx) \<longleftrightarrow> list_all step_shape entries) \<and>
    loadCompiledFixture std unmarshal readFile path \<noteq> Panic \<and>
    (\<forall>fx. loadCompiledFixture std unmarshal readFile path = Ok fx \<longrightarrow>
       length (fxExpectations fx) = length entries \<and> list_all typed (fxExpectations fx))"
proof -
  have load: "loadCompiledFixture std unmarshal readFile path = Ok fx \<Longrightarrow> parseExpectations std 0 entries = Ok (fxExpectations fx)"
    "(\<exists>fx. loadCompiledFixture std unmarshal readFile path = Ok fx) \<longleftrightarrow> (\<exists>es. parseExpectations std 0 entries = Ok es)"
    "loadCompiledFixture std unmarshal readFile path = Panic \<longleftrightarrow> parseExpectations std 0 entries = Panic" for fx
    using assms(2-4) by (auto simp: loadCompiledFixture_def Let_def bindR_eq_Ok bindR_eq_Panic)
  have "(\<exists>es. parseExpectations std 0 entries = Ok es) \<longleftrightarrow> list_all step_shape entries"
  proof -
    have "step_shape v \<longleftrightarrow> (\<exists>e m. v = Map m \<and> parseExpectation std m = Ok e)" for v
      using parseExpectation_shape [of std] by (cases v) (auto simp: step_shape_def)
    then show ?thesis unfolding parseExpectations_eq_Ok by (simp add: list_all_iff ex_list_all2)
  qed
  moreover have "length es = length entries \<and> list_all typed es" if "parseExpectations std 0 entries = Ok es" for es
    using that parseExpectation_typed [OF assms(1)] unfolding parseExpectations_eq_Ok
    by (induction rule: list_all2_induct) auto
  ultimately show ?thesis using load parseExpectations_not_Panic by blast
qed

text \<open>
  The document of the fixture \<^verbatim>\<open>read-only-reject\<close> (\<^verbatim>\<open>interop/testdata/fixtures\<close>), with the members the
  loader looks at, and what is loaded from it.
\<close>

definition dbStep :: "(string \<times> any) list \<Rightarrow> any" where
  "dbStep ms = Map ((''area'', Map [(''number'', Float64 1 0), (''type'', Str ''db'')]) # (''offset'', Float64 0 0) # ms)"

definition readOnlyDoc :: "(string \<times> any) list" where
  "readOnlyDoc = [(''expectations'', Slice
     [dbStep [(''length'', Float64 1 2), (''operation'', Str ''read''), (''result'', Map [(''hex'', Str ''cafebabe'')])],
      dbStep [(''data'', Map [(''hex'', Str ''deadbeef'')]), (''operation'', Str ''rejected-write''),
        (''result'', Str ''address-out-of-range'')],
      dbStep [(''length'', Float64 1 2), (''operation'', Str ''read''), (''result'', Map [(''hex'', Str ''cafebabe'')])]]),
     (''fixture'', Map [(''id'', Str ''read-only-reject''), (''revision'', Float64 1 0)]),
     (''server'', Map [(''pduSize'', Float64 15 5), (''rack'', Float64 0 0), (''slot'', Float64 1 1)])]"

definition plainStep :: Expectation where
  "plainStep = \<lparr>exOperation = ''read'', exAreaType = ''db'', exAreaNum = 1, exOffset = 0, exLength = 4, exBit = 0,
     exHasBit = False, exClients = 0, exData = [], exWantOutcome = OutcomeSuccess, exWantBytes = [0xCA, 0xFE, 0xBA, 0xBE],
     exHasBytes = True\<rparr>"

definition readOnlyFixture :: CompiledFixture where
  "readOnlyFixture = \<lparr>fxID = ''read-only-reject'', fxRevision = 1, fxRack = 0, fxSlot = 2, fxFilename = [],
     fxExpectations = [plainStep,
       plainStep\<lparr>exOperation := ''rejected-write'', exLength := 0, exData := [0xDE, 0xAD, 0xBE, 0xEF],
         exWantOutcome := OutcomeAddressOutOfRange, exWantBytes := [], exHasBytes := False\<rparr>,
       plainStep]\<rparr>"

definition plainStd :: stdlib where
  "plainStd = \<lparr>bigInt = (\<lambda>m e. - (2 ^ 63)), sprintOf = (\<lambda>_. []), badHexText = (\<lambda>c. ''encoding/hex: invalid byte'')\<rparr>"

lemma readOnly_loaded: "loadCompiledFixture plainStd (\<lambda>_. Ok readOnlyDoc) (\<lambda>_. Ok []) path = Ok readOnlyFixture"
  by code_simp

theorem fixture_typed_witness:
  "list_all typed (fxExpectations readOnlyFixture) \<and> length (fxExpectations readOnlyFixture) = 3"
proof -
  have "\<And>m e. fits_int (bigInt plainStd m e)" by (simp add: fits_int_def plainStd_def)
  from fixture_typed [OF this, of "\<lambda>_. Ok []" "[]" "[]" "\<lambda>_. Ok readOnlyDoc" readOnlyDoc "asSlice (member readOnlyDoc ''expectations'')"]
  have "length (fxExpectations readOnlyFixture) = length (asSlice (member readOnlyDoc ''expectations'')) \<and> list_all typed (fxExpectations readOnlyFixture)"
    using readOnly_loaded by simp
  moreover have "length (asSlice (member readOnlyDoc ''expectations'')) = 3" by (simp add: readOnlyDoc_def member_def asSlice_def)
  ultimately show ?thesis by simp
qed

end
