(* ===== verification/Interop_Runner.thy ===== *)
theory Interop_Runner
  imports Interop_Fixture
begin

text \<open>
  The runner of the interoperability fixtures (\<^verbatim>\<open>interop/runner.go\<close>): each step of a fixture is carried out with
  the client and its outcome compared with the expected one. The clients of a concurrent read run in goroutines of
  their own; what they stored is a parameter of the step that compares it, and \<open>concurrentOne\<close> is the body of
  one of them. The test framework appears as its verdict: the step that failed and its error.
\<close>

section \<open>Clients, addresses and outcomes\<close>

abbreviation opTimeout :: int where "opTimeout \<equiv> 10000000000"

definition knownDifferences :: "string \<Rightarrow> Outcome option" where
  "knownDifferences k = (if k = ''otfabric/read-only-reject/1'' then Some OutcomeWriteProtected else None)"

definition newClient :: "string \<Rightarrow> int \<Rightarrow> int \<Rightarrow> int \<Rightarrow> 'c Client" where
  "newClient host port rack slot =
     Client_New host [WithPort port, WithRackSlot rack slot, WithTimeoutOption opTimeout, WithMaxPDU 480]"

text \<open>\<^verbatim>\<open>%q\<close> of a text, whose bytes above 127 are taken as printable characters\<close>

definition quotedChar :: "char \<Rightarrow> string" where
  "quotedChar c =
    (let n = (of_char c :: nat) in
     if c = CHR 0x22 \<or> c = CHR 0x5C then [CHR 0x5C, c]
     else if 7 \<le> n \<and> n \<le> 13 then [CHR 0x5C, ''abtnvfr'' ! (n - 7)]
     else if n < 32 \<or> n = 127 then [CHR 0x5C, CHR ''x'', lower_digit_char (n div 16), lower_digit_char (n mod 16)]
     else [c])"

definition quoted :: "string \<Rightarrow> string" where
  "quoted s = [CHR 0x22] @ concat (map quotedChar s) @ [CHR 0x22]"

definition modelAddress :: "string \<Rightarrow> int \<Rightarrow> int \<Rightarrow> int \<Rightarrow> Address res" where
  "modelAddress areaType number offset sz =
    (if areaType = ''db'' then Ok \<lparr>adArea = AreaDB, adDBNumber = number, adStart = offset, adSize = sz\<rparr>
     else if areaType = ''markers'' then Ok \<lparr>adArea = AreaMerkers, adDBNumber = 0, adStart = offset, adSize = sz\<rparr>
     else if areaType = ''inputs'' then Ok \<lparr>adArea = AreaInputs, adDBNumber = 0, adStart = offset, adSize = sz\<rparr>
     else if areaType = ''outputs'' then Ok \<lparr>adArea = AreaOutputs, adDBNumber = 0, adStart = offset, adSize = sz\<rparr>
     else Err (OtherError (''unsupported area type '' @ quoted areaType)))"

definition modelBitAddress :: "string \<Rightarrow> int \<Rightarrow> int \<Rightarrow> int \<Rightarrow> BitAddress res" where
  "modelBitAddress areaType number byteOffset bitOffset =
     bindR (modelAddress areaType number byteOffset 1) (\<lambda>addr.
     Ok \<lparr>baArea = adArea addr, baDBNumber = adDBNumber addr, baByteOffset = byteOffset, baBitOffset = bitOffset\<rparr>)"

definition mapItemReturnCode :: "byte \<Rightarrow> Outcome" where
  "mapItemReturnCode code =
    (if code = RetCodeAddressFault \<or> code = RetCodeNotAvailable then OutcomeAddressOutOfRange
     else if code = RetCodeAccessFault then OutcomeWriteProtected
     else OutcomeProtocolFailure)"

definition classifyTransportOrProtocol :: "go_error option \<Rightarrow> Outcome" where
  "classifyTransportOrProtocol err =
    (case err of
       None \<Rightarrow> OutcomeSuccess
     | Some e \<Rightarrow>
        if errors_is e DeadlineExceeded \<or> errors_is e Canceled then OutcomeTransportFailure
        else if as_net_error e \<noteq> None then OutcomeTransportFailure
        else OutcomeProtocolFailure)"

text \<open>\<^verbatim>\<open>errors.AsType[*wire.S7Error]\<close>: the code of the first one in the tree.\<close>

fun s7Code :: "go_error \<Rightarrow> byte option" where
  "s7Code (S7Error _ code _) = Some code"
| "s7Code (Errorf _ es) = (case [c. Some c \<leftarrow> map s7Code es] of [] \<Rightarrow> None | c # _ \<Rightarrow> Some c)"
| "s7Code (Join es) = (case [c. Some c \<leftarrow> map s7Code es] of [] \<Rightarrow> None | c # _ \<Rightarrow> Some c)"
| "s7Code _ = None"

definition classifyWriteError :: "go_error option \<Rightarrow> Outcome" where
  "classifyWriteError err =
    (case err of
       None \<Rightarrow> OutcomeSuccess
     | Some e \<Rightarrow> (case s7Code e of Some code \<Rightarrow> mapItemReturnCode code | None \<Rightarrow> classifyTransportOrProtocol (Some e)))"

definition classifyReadResult :: "ReadResult option \<Rightarrow> Outcome" where
  "classifyReadResult res =
    (case res of
       None \<Rightarrow> OutcomeProtocolFailure
     | Some r \<Rightarrow>
        (case rsStatus r of
           ReadStatusRejected \<Rightarrow> mapItemReturnCode (rsReturnCode r)
         | ReadStatusTransportErr \<Rightarrow> OutcomeTransportFailure
         | ReadStatusTimeout \<Rightarrow> OutcomeTransportFailure
         | ReadStatusProtocolErr \<Rightarrow> OutcomeProtocolFailure
         | _ \<Rightarrow> (if ReadResult_OK (Some r) then OutcomeSuccess else OutcomeProtocolFailure)))"

section \<open>Reads and writes of a step\<close>

definition runReadArea :: "('w, 'r, 'c) transport \<Rightarrow> go_ctx \<Rightarrow> 'c Client \<Rightarrow> string \<Rightarrow> int \<Rightarrow> int \<Rightarrow> int \<Rightarrow> 'w \<Rightarrow>
    ReadResult res \<times> 'c Client \<times> 'w" where
  "runReadArea tr ctx c areaType number offset len w =
    (case modelAddress areaType number offset len of
       Panic \<Rightarrow> (Panic, c, w)
     | Err e \<Rightarrow> (Err e, c, w)
     | Ok addr \<Rightarrow> ReadArea tr c ctx addr w)"

definition runWriteArea :: "('w, 'r, 'c) transport \<Rightarrow> go_ctx \<Rightarrow> 'c Client \<Rightarrow> string \<Rightarrow> int \<Rightarrow> int \<Rightarrow> bytes \<Rightarrow> 'w \<Rightarrow>
    unit res \<times> 'c Client \<times> 'w" where
  "runWriteArea tr ctx c areaType number offset data w =
    (case modelAddress areaType number offset (int (length data)) of
       Panic \<Rightarrow> (Panic, c, w)
     | Err e \<Rightarrow> (Err e, c, w)
     | Ok addr \<Rightarrow> WriteArea tr c ctx addr data w)"

definition readLength :: "Expectation \<Rightarrow> int" where
  "readLength exp = (if exLength exp = 0 \<and> exHasBytes exp then int (length (exWantBytes exp)) else exLength exp)"

text \<open>The bytes read, the outcome and the error.\<close>

definition doRead :: "('w, 'r, 'c) transport \<Rightarrow> go_ctx \<Rightarrow> 'c Client \<Rightarrow> Expectation \<Rightarrow> 'w \<Rightarrow>
    (bytes \<times> Outcome \<times> go_error option) res \<times> 'c Client \<times> 'w" where
  "doRead tr ctx c exp w =
    (if exHasBit exp then
      (case modelBitAddress (exAreaType exp) (exAreaNum exp) (exOffset exp) (exBit exp) of
         Panic \<Rightarrow> (Panic, c, w)
       | Err e \<Rightarrow> (Ok ([], OutcomeProtocolFailure, Some e), c, w)
       | Ok addr \<Rightarrow>
        (case ReadBit tr c ctx addr w of
           (Panic, c, w) \<Rightarrow> (Panic, c, w)
         | (Err e, c, w) \<Rightarrow> (Ok ([], classifyWriteError (Some e), Some e), c, w)
         | (Ok v, c, w) \<Rightarrow> (Ok ([if v then 1 else 0], OutcomeSuccess, None), c, w)))
     else
      (case runReadArea tr ctx c (exAreaType exp) (exAreaNum exp) (exOffset exp) (readLength exp) w of
         (Panic, c, w) \<Rightarrow> (Panic, c, w)
       | (Err e, c, w) \<Rightarrow> (Ok ([], classifyTransportOrProtocol (Some e), Some e), c, w)
       | (Ok res, c, w) \<Rightarrow>
          if \<not> ReadResult_OK (Some res)
          then (Ok (rsData res, classifyReadResult (Some res), ReadResult_Err (Some res)), c, w)
          else (Ok (rsData res, OutcomeSuccess, None), c, w)))"

definition doWrite :: "('w, 'r, 'c) transport \<Rightarrow> go_ctx \<Rightarrow> 'c Client \<Rightarrow> Expectation \<Rightarrow> 'w \<Rightarrow>
    (Outcome \<times> go_error option) res \<times> 'c Client \<times> 'w" where
  "doWrite tr ctx c exp w =
    (if exHasBit exp then
      (case modelBitAddress (exAreaType exp) (exAreaNum exp) (exOffset exp) (exBit exp) of
         Panic \<Rightarrow> (Panic, c, w)
       | Err e \<Rightarrow> (Ok (OutcomeProtocolFailure, Some e), c, w)
       | Ok addr \<Rightarrow>
        (let v = (case exData exp of [] \<Rightarrow> False | b # _ \<Rightarrow> b \<noteq> 0) in
         case WriteBit tr c ctx addr v w of
           (Panic, c, w) \<Rightarrow> (Panic, c, w)
         | (Err e, c, w) \<Rightarrow> (Ok (classifyWriteError (Some e), Some e), c, w)
         | (Ok _, c, w) \<Rightarrow> (Ok (OutcomeSuccess, None), c, w)))
     else
      (case runWriteArea tr ctx c (exAreaType exp) (exAreaNum exp) (exOffset exp) (exData exp) w of
         (Panic, c, w) \<Rightarrow> (Panic, c, w)
       | (Err e, c, w) \<Rightarrow> (Ok (classifyWriteError (Some e), Some e), c, w)
       | (Ok _, c, w) \<Rightarrow> (Ok (OutcomeSuccess, None), c, w)))"

section \<open>Concurrent reads\<close>

record readOutcome =
  roData :: bytes
  roOutcome :: Outcome
  roErr :: "go_error option"

text \<open>The body of one goroutine, on its own client: the deferred close runs after the result is stored.\<close>

definition concurrentOne :: "('w, 'r, 'c) transport \<Rightarrow> go_ctx \<Rightarrow> string \<Rightarrow> int \<Rightarrow> int \<Rightarrow> int \<Rightarrow> Expectation \<Rightarrow> 'w \<Rightarrow>
    readOutcome res \<times> 'w" where
  "concurrentOne tr ctx host port rack slot exp w =
    (case Connect tr (newClient host port rack slot) ctx w of
       (Panic, c, w) \<Rightarrow> (Panic, w)
     | (Err e, c, w) \<Rightarrow> (Ok \<lparr>roData = [], roOutcome = OutcomeTransportFailure, roErr = Some e\<rparr>, w)
     | (Ok _, c, w) \<Rightarrow>
        (case doRead tr ctx c \<lparr>exOperation = ''read'', exAreaType = exAreaType exp, exAreaNum = exAreaNum exp,
               exOffset = exOffset exp, exLength = readLength exp, exBit = 0, exHasBit = False, exClients = 0, exData = [],
               exWantOutcome = [], exWantBytes = [], exHasBytes = False\<rparr> w of
           (Panic, c, w) \<Rightarrow> (Panic, w)
         | (Err e, c, w) \<Rightarrow> (Err e, w)
         | (Ok (data, outcome, err), c, w) \<Rightarrow>
            (case Client_Close tr c w of
               (Panic, c, w) \<Rightarrow> (Panic, w)
             | (_, c, w) \<Rightarrow> (Ok \<lparr>roData = data, roOutcome = outcome, roErr = err\<rparr>, w))))"

definition concurrentClients :: "Expectation \<Rightarrow> int" where
  "concurrentClients exp = max (exClients exp) 2"

text \<open>\<^verbatim>\<open>%v\<close> of an error that may be nil\<close>

definition errText :: "go_error option \<Rightarrow> string" where
  "errText e = (case e of None \<Rightarrow> ''<nil>'' | Some e \<Rightarrow> error_text e)"

fun compareConcurrent :: "Expectation \<Rightarrow> bytes \<Rightarrow> nat \<Rightarrow> readOutcome list \<Rightarrow> go_error option" where
  "compareConcurrent exp first i [] = None"
| "compareConcurrent exp first i (r # rs) =
    (if roOutcome r \<noteq> exWantOutcome exp
     then Some (OtherError (''client '' @ utoa i @ '' outcome '' @ roOutcome r @ '' (err='' @ errText (roErr r) @ ''), want '' @ exWantOutcome exp))
     else if exHasBytes exp \<and> hexEncode (roData r) \<noteq> hexEncode (exWantBytes exp)
     then Some (OtherError (''client '' @ utoa i @ '' bytes '' @ hexEncode (roData r) @ '', want '' @ hexEncode (exWantBytes exp)))
     else if 0 < i \<and> hexEncode (roData r) \<noteq> hexEncode first
     then Some (OtherError ''concurrent clients returned differing bytes'')
     else compareConcurrent exp first (i + 1) rs)"

definition executeConcurrentRead :: "Expectation \<Rightarrow> readOutcome list \<Rightarrow> go_error option" where
  "executeConcurrentRead exp results = compareConcurrent exp (case results of [] \<Rightarrow> [] | r # _ \<Rightarrow> roData r) 0 results"

section \<open>Steps and fixtures\<close>

definition outcomeError :: "Outcome \<Rightarrow> go_error option \<Rightarrow> string \<Rightarrow> Outcome \<Rightarrow> go_error" where
  "outcomeError outcome err rejected want =
     OtherError (''outcome '' @ outcome @ '' (err='' @ errText err @ ''), want '' @ rejected @ want)"

definition checkRead :: "Expectation \<Rightarrow> bytes \<Rightarrow> Outcome \<Rightarrow> go_error option \<Rightarrow> go_error option" where
  "checkRead exp data outcome err =
    (if outcome \<noteq> exWantOutcome exp then Some (outcomeError outcome err '''' (exWantOutcome exp))
     else if exHasBytes exp \<and> outcome = OutcomeSuccess \<and> data \<noteq> exWantBytes exp
     then Some (OtherError (''bytes '' @ hexEncode data @ '', want '' @ hexEncode (exWantBytes exp)))
     else None)"

definition checkRejected :: "Expectation \<Rightarrow> Outcome \<Rightarrow> go_error option \<Rightarrow> go_error option" where
  "checkRejected exp outcome err =
    (if outcome \<noteq> exWantOutcome exp \<or> outcome = OutcomeSuccess
     then Some (outcomeError outcome err ''rejected '' (exWantOutcome exp)) else None)"

text \<open>The error of a step, the client after it (a reconnect replaces it) and the network; \<open>results\<close> is what the
  goroutines of a concurrent read stored.\<close>

definition executeExpectation :: "('w, 'r, 'c) transport \<Rightarrow> go_ctx \<Rightarrow> string \<Rightarrow> int \<Rightarrow> int \<Rightarrow> int \<Rightarrow> readOutcome list \<Rightarrow>
    Expectation \<Rightarrow> 'c Client \<Rightarrow> 'w \<Rightarrow> go_error option res \<times> 'c Client \<times> 'w" where
  "executeExpectation tr ctx host port rack slot results exp c w =
    (if exOperation exp = ''reconnect'' then
      (case Client_Close tr c w of
         (Panic, c, w) \<Rightarrow> (Panic, c, w)
       | (_, c, w) \<Rightarrow>
        (case Connect tr (newClient host port rack slot) ctx w of
           (Panic, c', w) \<Rightarrow> (Panic, c, w)
         | (Err e, c', w) \<Rightarrow>
            (Ok (Some (Errorf (''reconnect: '' @ error_text e @ '' (want '' @ exWantOutcome exp @ '')'') [e])), c, w)
         | (Ok _, c', w) \<Rightarrow>
            (Ok (if exWantOutcome exp \<noteq> OutcomeSuccess
                 then Some (OtherError (''reconnect succeeded, want '' @ exWantOutcome exp)) else None), c', w)))
     else if exOperation exp = ''concurrent-read'' then (Ok (executeConcurrentRead exp results), c, w)
     else if exOperation exp = ''read'' \<or> exOperation exp = ''final-state'' then
      (case doRead tr ctx c exp w of
         (Panic, c, w) \<Rightarrow> (Panic, c, w)
       | (Err e, c, w) \<Rightarrow> (Err e, c, w)
       | (Ok (data, outcome, err), c, w) \<Rightarrow> (Ok (checkRead exp data outcome err), c, w))
     else if exOperation exp = ''write'' then
      (case doWrite tr ctx c exp w of
         (Panic, c, w) \<Rightarrow> (Panic, c, w)
       | (Err e, c, w) \<Rightarrow> (Err e, c, w)
       | (Ok (outcome, err), c, w) \<Rightarrow>
          (Ok (if outcome \<noteq> exWantOutcome exp then Some (outcomeError outcome err '''' (exWantOutcome exp)) else None), c, w))
     else if exOperation exp = ''rejected-read'' then
      (case doRead tr ctx c exp w of
         (Panic, c, w) \<Rightarrow> (Panic, c, w)
       | (Err e, c, w) \<Rightarrow> (Err e, c, w)
       | (Ok (data, outcome, err), c, w) \<Rightarrow> (Ok (checkRejected exp outcome err), c, w))
     else if exOperation exp = ''rejected-write'' then
      (case doWrite tr ctx c exp w of
         (Panic, c, w) \<Rightarrow> (Panic, c, w)
       | (Err e, c, w) \<Rightarrow> (Err e, c, w)
       | (Ok (outcome, err), c, w) \<Rightarrow> (Ok (checkRejected exp outcome err), c, w))
     else (Ok (Some (OtherError (''unsupported operation '' @ quoted (exOperation exp)))), c, w))"

text \<open>The expected outcome of a step of a fixture on a server.\<close>

definition expected :: "string \<Rightarrow> string \<Rightarrow> nat \<Rightarrow> Expectation \<Rightarrow> Expectation" where
  "expected server fx i exp =
    (case knownDifferences (server @ ''/'' @ fx @ ''/'' @ utoa i) of
       Some want \<Rightarrow> exp\<lparr>exWantOutcome := want\<rparr>
     | None \<Rightarrow> exp)"

text \<open>The loop over the steps: it ends at the first one that fails, with its index and error.\<close>

fun runSteps :: "('w, 'r, 'c) transport \<Rightarrow> go_ctx \<Rightarrow> string \<Rightarrow> int \<Rightarrow> int \<Rightarrow> int \<Rightarrow> (nat \<Rightarrow> readOutcome list) \<Rightarrow> nat \<Rightarrow>
    Expectation list \<Rightarrow> 'c Client \<Rightarrow> 'w \<Rightarrow> (nat \<times> go_error) option res \<times> 'c Client \<times> 'w" where
  "runSteps tr ctx host port rack slot results i [] c w = (Ok None, c, w)"
| "runSteps tr ctx host port rack slot results i (exp # exps) c w =
    (case executeExpectation tr (WithTimeout ctx opTimeout) host port rack slot (results i) exp c w of
       (Panic, c, w) \<Rightarrow> (Panic, c, w)
     | (Err e, c, w) \<Rightarrow> (Err e, c, w)
     | (Ok (Some e), c, w) \<Rightarrow> (Ok (Some (i, e)), c, w)
     | (Ok None, c, w) \<Rightarrow> runSteps tr ctx host port rack slot results (i + 1) exps c w)"

text \<open>The steps with the outcomes expected of this server.\<close>

fun expectedSteps :: "string \<Rightarrow> string \<Rightarrow> nat \<Rightarrow> Expectation list \<Rightarrow> Expectation list" where
  "expectedSteps server fx i [] = []"
| "expectedSteps server fx i (exp # exps) = expected server fx i exp # expectedSteps server fx (i + 1) exps"

definition runFixtureAgainst :: "('w, 'r, 'c) transport \<Rightarrow> string \<Rightarrow> string \<Rightarrow> int \<Rightarrow> int \<Rightarrow> int \<Rightarrow> CompiledFixture \<Rightarrow>
    (nat \<Rightarrow> readOutcome list) \<Rightarrow> 'w \<Rightarrow> (nat \<times> go_error) option res \<times> 'w" where
  "runFixtureAgainst tr server host port rack slot fx results w =
    (let ctx = WithTimeout BackgroundCtx 120000000000 in
     case Connect tr (newClient host port rack slot) ctx w of
       (Panic, c, w) \<Rightarrow> (Panic, w)
     | (Err e, c, w) \<Rightarrow> (Err e, w)
     | (Ok _, c, w) \<Rightarrow>
        (case runSteps tr ctx host port rack slot results 0 (expectedSteps server (fxID fx) 0 (fxExpectations fx)) c w of
           (r, c, w) \<Rightarrow> (case Client_Close tr c w of (Panic, c, w) \<Rightarrow> (Panic, w) | (_, c, w) \<Rightarrow> (r, w))))"

end
