(* ===== verification/Link_Interop.thy ===== *)
theory Link_Interop
  imports Link_Discover Interop_Runner
begin

text \<open>
  The interoperability runner against the server of this repository. What a step shows is told by the host's view of the
  server's memory: \<open>hostSees\<close> and \<open>hostStores\<close> are the reads and writes of a step on that memory, with the
  outcome a client is told, and \<open>stepHolds\<close> and \<open>stepAfter\<close> are a step in these terms. The runner, the client, the network
  and the server together refine them: a fixture passes exactly when it holds of the memory.
\<close>

section \<open>Refused writes and bits\<close>

text \<open>The code a write is refused with: the span is inside a read-only area, or it is not in the memory.\<close>

definition refusedWith :: "Server \<Rightarrow> byte \<Rightarrow> int \<Rightarrow> int \<Rightarrow> int \<Rightarrow> byte \<Rightarrow> bool" where
  "refusedWith srv area db start n code \<longleftrightarrow>
     (if \<exists>xs. Server_Read srv area db start n = Ok xs then code = RetCodeAccessFault else code \<in> refusals)"

lemma refused_job:
  assumes "encodeMessage ROSCTRJob ref ([FuncWriteVar, 1] @ item) data = Ok req"
    "ParseWriteVarRequest ([FuncWriteVar, 1] @ item) data = Ok ([spec], [wd])"
    "writeItem (svMem (ssSrv s)) spec wd = Ok (code, svMem (ssSrv s))" "P code"
  shows "\<exists>out h param data code. handle s req = Ok ((out, True), s) \<and>
    ParseS7Header out = Ok (h, param @ data) \<and> PDURef h = ref \<and> ErrorClass h = 0 \<and> ErrorCode h = 0 \<and>
    unat (ParamLength h) = length param \<and> unat (DataLength h) = length data \<and>
    ParseWriteVarResponseCodes param data = Ok [code] \<and> length out = 15 \<and> P code"
proof -
  have "s\<lparr>ssSrv := (ssSrv s)\<lparr>svMem := svMem (ssSrv s)\<rparr>\<rparr> = s" by simp
  then show ?thesis using handle_write_job [OF assms(1-3)] assms(4) by metis
qed

lemma handle_write_refused:
  assumes req: "EncodeWriteVarRequest ref addr v = Ok req" and len: "saSize addr = int (length v)" "v \<noteq> []"
    and area: "\<not> timerOrCounter (saArea addr)"
    and no: "\<not> (writable (ssSrv s) (saArea addr) (saDBNumber addr) \<and>
      (\<exists>xs. Server_Read (ssSrv s) (saArea addr) (saDBNumber addr) (saStart addr) (saSize addr) = Ok xs))"
  shows "\<exists>out h param data code. handle s req = Ok ((out, True), s) \<and>
    ParseS7Header out = Ok (h, param @ data) \<and> PDURef h = ref \<and> ErrorClass h = 0 \<and> ErrorCode h = 0 \<and>
    unat (ParamLength h) = length param \<and> unat (DataLength h) = length data \<and>
    ParseWriteVarResponseCodes param data = Ok [code] \<and> length out = 15 \<and>
    refusedWith (ssSrv s) (saArea addr) (saDBNumber addr) (saStart addr) (saSize addr) code"
proof (cases "\<exists>xs. Server_Read (ssSrv s) (saArea addr) (saDBNumber addr) (saStart addr) (saSize addr) = Ok xs")
  case True
  then obtain k r where k: "keyOf (saArea addr) (saDBNumber addr) = Ok k" "svMem (ssSrv s) k = Some r"
      "saStart addr + int (length v) \<le> int (length (rgData r))"
    using len(1) by (auto simp: Server_Read_def mem_read_eq_Ok)
  then have "rgReadOnly r" using no True area by (auto simp: writable_def)
  from handle_write_read_only [OF req len k(1,2) this area k(3)] True show ?thesis
    unfolding refusedWith_def by auto
next
  case False
  obtain item data spec wd where
    e: "encodeMessage ROSCTRJob ref ([FuncWriteVar, 1] @ item) data = Ok req"
       "ParseWriteVarRequest ([FuncWriteVar, 1] @ item) data = Ok ([spec], [wd])"
    and m: "addr_matches addr spec"
    using req by (rule EncodeWriteVarRequest_job) blast
  have "0 \<le> saStart addr" using req
    by (auto simp: EncodeWriteVarRequest_def Let_def bindR_eq_Ok EncodeS7Any_eq_Ok split: if_splits)
  then have code: "snd (resolve (svMem (ssSrv s)) spec) \<in> refusals"
    using False len by (intro resolve_addr_refused [OF m]) (auto simp: Server_Read_def)
  then have "writeItem (svMem (ssSrv s)) spec wd = Ok (snd (resolve (svMem (ssSrv s)) spec), svMem (ssSrv s))"
    by (auto simp: writeItem_def split: prod.split)
  then show ?thesis by (rule refused_job [OF e]) (use code False in \<open>simp add: refusedWith_def\<close>)
qed

lemma resolve_bit_refused:
  assumes "bit_addr_matches addr spec" "0 \<le> sbByteOffset addr" "0 \<le> sbBitOffset addr" "sbBitOffset addr \<le> 7"
    "\<nexists>xs. mem_read m (sbArea addr) (sbDBNumber addr) (sbByteOffset addr) 1 = Ok xs"
  shows "snd (resolve m spec) \<in> refusals"
proof -
  from assms(1) have f: "vsTransportSize spec = TransportSizeBit" "vsArea spec = sbArea addr"
    "uint (vsDBNumber spec) = sbDBNumber addr" "vsCount spec = 1"
    "uint (vsStartBit spec) = 8 * sbByteOffset addr + sbBitOffset addr"
    by (auto simp: bit_addr_matches_def)
  have w: "unat (drop_bit 3 (vsStartBit spec)) = nat (sbByteOffset addr)" using word_start [OF f(5) assms(3,4,2)] by simp
  have "length (rgData r) < nat (sbByteOffset addr) + 1" if "keyOf (sbArea addr) (sbDBNumber addr) = Ok k" "m k = Some r" for k r
    using assms(2,5) that by (auto simp: mem_read_eq_Ok)
  then show ?thesis
    by (auto simp: resolve_def elementSize_def f w Let_def split: res.split option.split)
qed

lemma handle_bit_write_refused:
  assumes req: "EncodeWriteVarBitRequest ref addr v = Ok req" and area: "\<not> timerOrCounter (sbArea addr)"
    and no: "\<not> (writable (ssSrv s) (sbArea addr) (sbDBNumber addr) \<and>
      (\<exists>xs. Server_Read (ssSrv s) (sbArea addr) (sbDBNumber addr) (sbByteOffset addr) 1 = Ok xs))"
  shows "\<exists>out h param data code. handle s req = Ok ((out, True), s) \<and>
    ParseS7Header out = Ok (h, param @ data) \<and> PDURef h = ref \<and> ErrorClass h = 0 \<and> ErrorCode h = 0 \<and>
    unat (ParamLength h) = length param \<and> unat (DataLength h) = length data \<and>
    ParseWriteVarResponseCodes param data = Ok [code] \<and> length out = 15 \<and>
    refusedWith (ssSrv s) (sbArea addr) (sbDBNumber addr) (sbByteOffset addr) 1 code"
proof -
  obtain item spec where e: "EncodeS7AnyBit addr = Ok item"
      "encodeMessage ROSCTRJob ref ([FuncWriteVar, 1] @ item) (bit_data v) = Ok req"
      "ParseWriteVarRequest ([FuncWriteVar, 1] @ item) (bit_data v) = Ok ([spec], [bit_item v])"
      and m: "bit_addr_matches addr spec"
    using req by (rule EncodeWriteVarBitRequest_job)
  from e(1) have a: "0 \<le> sbByteOffset addr" "0 \<le> sbBitOffset addr" "sbBitOffset addr \<le> 7"
    by (auto simp: EncodeS7AnyBit_eq_Ok)
  have "\<exists>code. writeItem (svMem (ssSrv s)) spec (bit_item v) = Ok (code, svMem (ssSrv s)) \<and>
    refusedWith (ssSrv s) (sbArea addr) (sbDBNumber addr) (sbByteOffset addr) 1 code"
  proof (cases "\<exists>xs. Server_Read (ssSrv s) (sbArea addr) (sbDBNumber addr) (sbByteOffset addr) 1 = Ok xs")
    case True
    then obtain k r where k: "keyOf (sbArea addr) (sbDBNumber addr) = Ok k" "svMem (ssSrv s) k = Some r"
        "sbByteOffset addr < int (length (rgData r))"
      by (auto simp: Server_Read_def mem_read_eq_Ok)
    then have "rgReadOnly r" using no True area by (auto simp: writable_def)
    with resolve_bit_addr [where m = "svMem (ssSrv s)", OF m k(1,2) a(1) k(3) a(2,3) area] k True
    show ?thesis by (simp add: writeItem_def bit_item_def refusedWith_def)
  next
    case False
    then have code: "snd (resolve (svMem (ssSrv s)) spec) \<in> refusals"
      by (intro resolve_bit_refused [OF m a]) (simp add: Server_Read_def)
    then have "writeItem (svMem (ssSrv s)) spec (bit_item v) = Ok (snd (resolve (svMem (ssSrv s)) spec), svMem (ssSrv s))"
      by (auto simp: writeItem_def split: prod.split)
    with code False show ?thesis by (auto simp: refusedWith_def)
  qed
  then obtain code where w: "writeItem (svMem (ssSrv s)) spec (bit_item v) = Ok (code, svMem (ssSrv s))"
    "refusedWith (ssSrv s) (sbArea addr) (sbDBNumber addr) (sbByteOffset addr) 1 code" by blast
  show ?thesis by (rule refused_job [OF e(2,3) w(1)]) (rule w(2))
qed

lemma handle_bit_read_refused:
  assumes req: "EncodeReadVarBitRequest ref addr = Ok req" and pdu: "18 \<le> ssPduSize s"
    and no: "\<nexists>xs. Server_Read (ssSrv s) (sbArea addr) (sbDBNumber addr) (sbByteOffset addr) 1 = Ok xs"
  shows "\<exists>out h param data item. handle s req = Ok ((out, True), s) \<and>
    ParseS7Header out = Ok (h, param @ data) \<and> PDURef h = ref \<and> ErrorClass h = 0 \<and> ErrorCode h = 0 \<and>
    unat (ParamLength h) = length param \<and> unat (DataLength h) = length data \<and>
    ParseReadVarResponse param data = Ok [item] \<and> ReturnCode item \<in> refusals \<and> length out = 18"
proof -
  obtain item spec where e: "EncodeS7AnyBit addr = Ok item"
      "encodeMessage ROSCTRJob ref ([FuncReadVar, 1] @ item) [] = Ok req"
      "ParseReadVarRequest ([FuncReadVar, 1] @ item) = Ok [spec]" and m: "bit_addr_matches addr spec"
    using req by (rule EncodeReadVarBitRequest_job)
  from e(1) have a: "0 \<le> sbByteOffset addr" "0 \<le> sbBitOffset addr" "sbBitOffset addr \<le> 7"
    by (auto simp: EncodeS7AnyBit_eq_Ok)
  obtain t code where r: "resolve (svMem (ssSrv s)) spec = (t, code)" by fastforce
  have codes: "code \<in> refusals"
    using resolve_bit_refused [OF m a, of "svMem (ssSrv s)"] no r by (simp add: Server_Read_def)
  then have code: "code \<noteq> RetCodeSuccess" by auto
  have "session_read s ref ([FuncReadVar, 1] @ item) = EncodeReadVarResponse ref [refusal code]"
    by (rule session_read_refused [OF e(3) _ r code pdu]) (use m in \<open>simp add: bit_addr_matches_def\<close>)
  moreover obtain out where out: "EncodeReadVarResponse ref [refusal code] = Ok out"
    using EncodeReadVarResponse_one [of "refusal code" ref] by auto
  ultimately have "handle s req = Ok ((out, True), s)"
    using answer_of_job [OF e(2)] by (simp add: handle_framed [OF job_framed(1) [OF e(2)]])
  moreover have "length out = 18" using EncodeReadVarResponse_length [OF out] by simp
  moreover obtain h param data where "ParseS7Header out = Ok (h, param @ data)" "PDURef h = ref" "ErrorClass h = 0"
      "ErrorCode h = 0" "unat (ParamLength h) = length param" "unat (DataLength h) = length data"
      "ParseReadVarResponse param data = Ok [item_of_result (refusal code)]"
    using ReadVarResponse_parsed [OF out] result_ok_refusal [OF code] by auto
  moreover have "ReturnCode (item_of_result (refusal code)) \<in> refusals"
    using codes by (simp add: item_of_result_def refusal_def)
  ultimately show ?thesis by blast
qed

section \<open>The client on a refusing server\<close>

lemma writeChunks_keeps:
  assumes "writeChunks tr ctx addr data chunks first off c w = (r, c', w')"
  shows "clConn c' = clConn c \<and> clPduSize c' = clPduSize c"
  using assms
proof (induction chunks arbitrary: first off c w)
  case (Cons k ks)
  show ?case
    using Cons.prems fresh_ref_keeps [of c]
    by (auto simp: Let_def split: prod.splits res.splits sum.splits dest: Cons.IH)
qed simp

lemma WriteArea_keeps:
  assumes "WriteArea tr c ctx addr data w = (r, c', w')"
  shows "clConn c' = clConn c \<and> clPduSize c' = clPduSize c"
  using assms by (auto simp: WriteArea_def Let_def dest: writeChunks_keeps split: option.splits prod.splits res.splits)

lemma bits_keep:
  "ReadBit tr c ctx baddr w = (r, c', w') \<Longrightarrow> clConn c' = clConn c \<and> clPduSize c' = clPduSize c"
  "WriteBit tr c ctx baddr v w = (u, c', w') \<Longrightarrow> clConn c' = clConn c \<and> clPduSize c' = clPduSize c"
  using fresh_ref_keeps [of c]
  by (auto simp: ReadBit_def WriteBit_def Let_def split: option.splits prod.splits res.splits if_splits)

lemma refused_code: "ParseWriteVarResponseCodes param data = Ok [code] \<Longrightarrow> code \<noteq> RetCodeSuccess \<Longrightarrow>
    ParseWriteVarResponse param data = Err (S7Error 0 code (ItemReturnCodeString code))"
  by (simp add: ParseWriteVarResponse_def ReturnCodeError_def)

lemma refusedWith_not_success: "refusedWith srv area db start n code \<Longrightarrow> code \<noteq> RetCodeSuccess"
  by (auto simp: refusedWith_def split: if_splits)

lemma planReadChunks_one:
  assumes "0 < n" "n \<le> k"
  shows "planReadChunks n k = [n]"
  using assms cutChunks.simps [of n k] cutChunks.simps [of 0 k] by (simp add: planReadChunks_def min_def)

lemma WriteArea_refused_net:
  assumes "netReady w conn" "clConn c = Some conn" "clPduSize c = netLimit w conn" "30 \<le> netLimit w conn"
    "even (netLimit w conn)" "validateAddress addr = None" "validateRangeEnd (adStart addr) (int (length v)) = None"
    "\<not> timerOrCounter (adArea addr)" "v \<noteq> []" "28 + int (length v) \<le> netLimit w conn"
    "\<not> (writable (ntSrv w) (adArea addr) (adDBNumber addr) \<and>
      (\<exists>xs. Server_Read (ntSrv w) (adArea addr) (adDBNumber addr) (adStart addr) (int (length v)) = Ok xs))"
  shows "\<exists>code msg c'. WriteArea netTransport c ctx addr v w = (Err (S7Error 0 code msg), c', w) \<and>
    refusedWith (ntSrv w) (adArea addr) (adDBNumber addr) (adStart addr) (int (length v)) code"
proof -
  obtain p where p: "ntConns w conn = Some (p, [])" "netLimit w conn = p" "p \<le> MaxPDUSize" "p \<le> cfgMaxPDUSize (svCfg (ntSrv w))"
    using assms(1) by (rule netReady_facts)
  have a: "0 \<le> adStart addr" "0 \<le> adDBNumber addr" "adDBNumber addr \<le> MaxS7AnyDBNumber" "adStart addr \<le> MaxS7AnyByteOffset"
    using assms(6) by (simp_all add: validateAddress_eq_None)
  obtain ref c' where ref: "fresh_ref c = (ref, c')" by fastforce
  then have c': "clConn c' = Some conn" "clPduSize c' = netLimit w conn" using assms(2,3) fresh_ref_keeps [of c] by simp_all
  define sa where "sa = \<lparr>saArea = adArea addr, saDBNumber = adDBNumber addr, saStart = adStart addr, saSize = int (length v)\<rparr>"
  have sel: "saSize sa = int (length v)" "saArea sa = adArea addr" "saDBNumber sa = adDBNumber addr" "saStart sa = adStart addr"
    by (simp_all add: sa_def)
  have small: "length v \<le> MaxWriteVarBytes" using assms(10) p(2,3) by simp
  obtain req where req: "EncodeWriteVarRequest ref sa v = Ok req" "length req = 28 + length v + length v mod 2"
    using EncodeWriteVarRequest_total [of sa v ref] a small assms(9) by (auto simp: sel)
  have l: "int (length req) \<le> netLimit w conn" using req(2) assms(5,10) by presburger
  obtain out h param data code where o: "handle (sess w p) req = Ok ((out, True), sess w p)"
    "ParseS7Header out = Ok (h, param @ data)" "PDURef h = ref" "ErrorClass h = 0" "ErrorCode h = 0"
    "unat (ParamLength h) = length param" "unat (DataLength h) = length data"
    "ParseWriteVarResponseCodes param data = Ok [code]" "length out = 15"
    "refusedWith (ntSrv w) (adArea addr) (adDBNumber addr) (adStart addr) (int (length v)) code"
    using handle_write_refused [OF req(1) sel(1) assms(9), of "sess w p"] assms(8,11) by (auto simp: sel)
  have "decodeReply out ref = Ok (param, data)" using o(2-7,9) by (intro decodeReply_small) simp_all
  moreover have serve: "netServe w conn req = Some (out, w)"
    using netServe_answer [OF p(1), of req out "ntSrv w"] o(1) l p(2,4) by simp
  ultimately have sr: "sendReceive netTransport c' ctx req ref w = (Ok (param, data), w)"
    using net.sendReceive_serve [OF c'(1) assms(1) serve] c'(2) l by simp
  have plan: "planReadChunks (int (length v)) (netLimit w conn - 28) = [int (length v)]"
    using assms(9,10) by (intro planReadChunks_one) simp_all
  have slice: "go_slice v 0 (length v) = Ok v" by (simp add: go_slice_def)
  have "WriteArea netTransport c ctx addr v w = writeChunks netTransport ctx addr v [int (length v)] True 0 c w"
    using assms(3,4,6,7) plan by (simp add: WriteArea_def Let_def)
  also have "\<dots> = (Err (S7Error 0 code (ItemReturnCodeString code)), c', w)"
    using sr refused_code [OF o(8) refusedWith_not_success [OF o(10)]] req(1)
    by (simp add: net.ratePause_over ref slice sa_def)
  finally show ?thesis using o(10) by blast
qed

lemma WriteBit_refused_net:
  assumes "netReady w conn" "clConn c = Some conn" "clPduSize c = netLimit w conn" "30 \<le> netLimit w conn"
    "validateBitAddress addr = None" "\<not> timerOrCounter (baArea addr)"
    "\<not> (writable (ntSrv w) (baArea addr) (baDBNumber addr) \<and>
      (\<exists>xs. Server_Read (ntSrv w) (baArea addr) (baDBNumber addr) (baByteOffset addr) 1 = Ok xs))"
  shows "\<exists>code msg c'. WriteBit netTransport c ctx addr v w = (Err (S7Error 0 code msg), c', w) \<and>
    refusedWith (ntSrv w) (baArea addr) (baDBNumber addr) (baByteOffset addr) 1 code"
proof -
  obtain p where p: "ntConns w conn = Some (p, [])" "netLimit w conn = p" "p \<le> cfgMaxPDUSize (svCfg (ntSrv w))"
    using assms(1) by (rule netReady_facts)
  obtain ref c' where ref: "fresh_ref c = (ref, c')" by fastforce
  then have c': "clConn c' = Some conn" "clPduSize c' = netLimit w conn" using assms(2,3) fresh_ref_keeps [of c] by simp_all
  obtain req where req: "EncodeWriteVarBitRequest ref (bitAddr addr) v = Ok req" "length req = 30"
    using bit_requests_total(2) [OF assms(5)] by blast
  obtain out h param data code where o: "handle (sess w p) req = Ok ((out, True), sess w p)"
    "ParseS7Header out = Ok (h, param @ data)" "PDURef h = ref" "ErrorClass h = 0" "ErrorCode h = 0"
    "unat (ParamLength h) = length param" "unat (DataLength h) = length data"
    "ParseWriteVarResponseCodes param data = Ok [code]" "length out = 15"
    "refusedWith (ntSrv w) (baArea addr) (baDBNumber addr) (baByteOffset addr) 1 code"
    using handle_bit_write_refused [OF req(1), of "sess w p"] assms(6,7) by (auto simp: bitAddr_def)
  have "decodeReply out ref = Ok (param, data)" using o(2-7,9) by (intro decodeReply_small) simp_all
  moreover have serve: "netServe w conn req = Some (out, w)"
    using netServe_answer [OF p(1), of req out "ntSrv w"] o(1) req(2) assms(4) p(2,3) by simp
  ultimately have "sendReceive netTransport c' ctx req ref w = (Ok (param, data), w)"
    using net.sendReceive_serve [OF c'(1) assms(1) serve] c'(2) req(2) assms(4) by simp
  then have "WriteBit netTransport c ctx addr v w = (Err (S7Error 0 code (ItemReturnCodeString code)), c', w)"
    using assms(2,5) req(1) refused_code [OF o(8) refusedWith_not_success [OF o(10)]] by (simp add: WriteBit_def ref)
  with o(10) show ?thesis by blast
qed

lemma ReadBit_refused_net:
  assumes "netReady w conn" "clConn c = Some conn" "clPduSize c = netLimit w conn" "24 \<le> netLimit w conn"
    "validateBitAddress addr = None"
    "\<nexists>xs. Server_Read (ntSrv w) (baArea addr) (baDBNumber addr) (baByteOffset addr) 1 = Ok xs"
  shows "\<exists>code msg c'. ReadBit netTransport c ctx addr w = (Err (S7Error 0 code msg), c', w) \<and> code \<in> refusals"
proof -
  obtain p where p: "ntConns w conn = Some (p, [])" "netLimit w conn = p" "p \<le> cfgMaxPDUSize (svCfg (ntSrv w))"
    using assms(1) by (rule netReady_facts)
  obtain ref c' where ref: "fresh_ref c = (ref, c')" by fastforce
  then have c': "clConn c' = Some conn" "clPduSize c' = netLimit w conn" using assms(2,3) fresh_ref_keeps [of c] by simp_all
  obtain req where req: "EncodeReadVarBitRequest ref (bitAddr addr) = Ok req" "length req = 24"
    using bit_requests_total(1) [OF assms(5)] by blast
  obtain out h param data item where o: "handle (sess w p) req = Ok ((out, True), sess w p)"
    "ParseS7Header out = Ok (h, param @ data)" "PDURef h = ref" "ErrorClass h = 0" "ErrorCode h = 0"
    "unat (ParamLength h) = length param" "unat (DataLength h) = length data"
    "ParseReadVarResponse param data = Ok [item]" "ReturnCode item \<in> refusals" "length out = 18"
    using handle_bit_read_refused [OF req(1), of "sess w p"] assms(4,6) p(2) by (auto simp: bitAddr_def)
  have "decodeReply out ref = Ok (param, data)" using o(2-7,10) by (intro decodeReply_small) simp_all
  moreover have serve: "netServe w conn req = Some (out, w)"
    using netServe_answer [OF p(1), of req out "ntSrv w"] o(1) req(2) assms(4) p(2,3) by simp
  ultimately have "sendReceive netTransport c' ctx req ref w = (Ok (param, data), w)"
    using net.sendReceive_serve [OF c'(1) assms(1) serve] c'(2) req(2) assms(4) by simp
  moreover have "bitReply param data = Err (S7Error 0 (ReturnCode item) (ItemReturnCodeString (ReturnCode item)))"
    using o(8,9) by (auto simp: bitReply_def idx_def ReturnCodeError_def)
  ultimately have "ReadBit netTransport c ctx addr w =
      (Err (S7Error 0 (ReturnCode item) (ItemReturnCodeString (ReturnCode item))), c', w)"
    using assms(2,5) req(1) by (simp add: ReadBit_def ref)
  with o(9) show ?thesis by blast
qed

lemma Server_Write_facts:
  assumes "Server_Write srv area db s v = Ok srv'"
  shows "svCfg srv' = svCfg srv" "server_ok srv \<Longrightarrow> server_ok srv'" "Server_Read srv' area db s (int (length v)) = Ok v"
proof -
  obtain m where m: "mem_write (svMem srv) area db s v = Ok m" "srv' = srv\<lparr>svMem := m\<rparr>"
    using assms by (auto simp: Server_Write_def bindR_eq_Ok)
  then show "svCfg srv' = svCfg srv" "server_ok srv \<Longrightarrow> server_ok srv'"
    using mem_ok_same_shape [OF _ mem_write_same_shape [OF m(1)]] by (auto simp: server_ok_def)
  show "Server_Read srv' area db s (int (length v)) = Ok v"
    using host.read_after_write [of "svMem srv" "(area, db)" s v m "(area, db)"] m
    by (auto simp: Server_Read_def same_area_def mem_write_eq_Ok)
qed

section \<open>What a step shows of the memory\<close>

text \<open>A read of a step as the host sees it: the outcome and, for a success, the bytes.\<close>

definition hostRead :: "Server \<Rightarrow> Expectation \<Rightarrow> Outcome \<times> bytes" where
  "hostRead srv exp =
    (if exHasBit exp then
      (case modelBitAddress (exAreaType exp) (exAreaNum exp) (exOffset exp) (exBit exp) of
         Ok a \<Rightarrow>
          if validateBitAddress a \<noteq> None then (OutcomeProtocolFailure, [])
          else (case Server_Read srv (baArea a) (baDBNumber a) (baByteOffset a) 1 of
             Ok xs \<Rightarrow> (OutcomeSuccess, [if bit (hd xs) (nat (baBitOffset a)) then 1 else 0])
           | _ \<Rightarrow> (OutcomeAddressOutOfRange, []))
       | _ \<Rightarrow> (OutcomeProtocolFailure, []))
     else
      (case modelAddress (exAreaType exp) (exAreaNum exp) (exOffset exp) (readLength exp) of
         Ok a \<Rightarrow>
          if validateAddress a \<noteq> None \<or> validateRangeEnd (adStart a) (adSize a) \<noteq> None then (OutcomeProtocolFailure, [])
          else (case Server_Read srv (adArea a) (adDBNumber a) (adStart a) (adSize a) of
             Ok xs \<Rightarrow> (OutcomeSuccess, xs)
           | _ \<Rightarrow> (OutcomeAddressOutOfRange, []))
       | _ \<Rightarrow> (OutcomeProtocolFailure, [])))"

text \<open>The bytes \<open>v\<close> stored where clients may write them.\<close>

definition hostStore :: "Server \<Rightarrow> byte \<Rightarrow> int \<Rightarrow> int \<Rightarrow> bytes \<Rightarrow> Outcome \<times> Server" where
  "hostStore srv area db start v =
    (case Server_Write srv area db start v of
       Ok srv' \<Rightarrow> if writable srv area db then (OutcomeSuccess, srv') else (OutcomeWriteProtected, srv)
     | _ \<Rightarrow> (OutcomeAddressOutOfRange, srv))"

definition withBit :: "byte \<Rightarrow> nat \<Rightarrow> bool \<Rightarrow> byte" where
  "withBit x n v = (if v then x OR push_bit n 1 else x AND NOT (push_bit n 1))"

definition hostStoreBit :: "Server \<Rightarrow> byte \<Rightarrow> int \<Rightarrow> int \<Rightarrow> nat \<Rightarrow> bool \<Rightarrow> Outcome \<times> Server" where
  "hostStoreBit srv area db start n v =
    (case Server_Read srv area db start 1 of
       Ok xs \<Rightarrow> hostStore srv area db start [withBit (hd xs) n v]
     | _ \<Rightarrow> (OutcomeAddressOutOfRange, srv))"

definition hostWrite :: "Server \<Rightarrow> Expectation \<Rightarrow> Outcome \<times> Server" where
  "hostWrite srv exp =
    (if exHasBit exp then
      (case modelBitAddress (exAreaType exp) (exAreaNum exp) (exOffset exp) (exBit exp) of
         Ok a \<Rightarrow>
          if validateBitAddress a \<noteq> None then (OutcomeProtocolFailure, srv)
          else hostStoreBit srv (baArea a) (baDBNumber a) (baByteOffset a) (nat (baBitOffset a))
            (exData exp \<noteq> [] \<and> hd (exData exp) \<noteq> 0)
       | _ \<Rightarrow> (OutcomeProtocolFailure, srv))
     else
      (case modelAddress (exAreaType exp) (exAreaNum exp) (exOffset exp) (int (length (exData exp))) of
         Ok a \<Rightarrow>
          if validateAddress a \<noteq> None \<or> validateRangeEnd (adStart a) (adSize a) \<noteq> None then (OutcomeProtocolFailure, srv)
          else if exData exp = [] then (OutcomeSuccess, srv)
          else hostStore srv (adArea a) (adDBNumber a) (adStart a) (exData exp)
       | _ \<Rightarrow> (OutcomeProtocolFailure, srv)))"

text \<open>A step holds of the memory, and the memory after it.\<close>

definition stepHolds :: "Server \<Rightarrow> Expectation \<Rightarrow> bool" where
  "stepHolds srv exp =
    (let want = exWantOutcome exp; wantBytes = exWantBytes exp in
     if exOperation exp = ''reconnect'' then want = OutcomeSuccess
     else if exOperation exp = ''concurrent-read'' then
       fst (hostRead srv (exp\<lparr>exHasBit := False\<rparr>)) = want \<and> (exHasBytes exp \<longrightarrow> snd (hostRead srv (exp\<lparr>exHasBit := False\<rparr>)) = wantBytes)
     else if exOperation exp = ''read'' \<or> exOperation exp = ''final-state'' then
       fst (hostRead srv exp) = want \<and> (exHasBytes exp \<and> want = OutcomeSuccess \<longrightarrow> snd (hostRead srv exp) = wantBytes)
     else if exOperation exp = ''write'' then fst (hostWrite srv exp) = want
     else if exOperation exp = ''rejected-read'' then fst (hostRead srv exp) = want \<and> want \<noteq> OutcomeSuccess
     else if exOperation exp = ''rejected-write'' then fst (hostWrite srv exp) = want \<and> want \<noteq> OutcomeSuccess
     else False)"

definition stepAfter :: "Server \<Rightarrow> Expectation \<Rightarrow> Server" where
  "stepAfter srv exp =
    (if exOperation exp = ''write'' \<or> exOperation exp = ''rejected-write'' then snd (hostWrite srv exp) else srv)"

text \<open>The first step that does not hold, and the memory after it.\<close>

fun fixtureVerdict :: "Server \<Rightarrow> nat \<Rightarrow> Expectation list \<Rightarrow> nat option \<times> Server" where
  "fixtureVerdict srv i [] = (None, srv)"
| "fixtureVerdict srv i (exp # exps) =
    (if stepHolds srv exp then fixtureVerdict (stepAfter srv exp) (i + 1) exps else (Some i, stepAfter srv exp))"

text \<open>The steps covered: reads ask for at least one byte, written bytes fit into one request of the PDU size \<open>lim\<close>, and
  a concurrent read expects success.\<close>

definition covered :: "int \<Rightarrow> Expectation \<Rightarrow> bool" where
  "covered lim exp \<longleftrightarrow> (exHasBit exp \<or> (readLength exp \<noteq> 0 \<or> exOperation exp \<in> {''write'', ''rejected-write''}) \<and>
       28 + int (length (exData exp)) \<le> lim) \<and>
     (exOperation exp = ''concurrent-read'' \<longrightarrow> readLength exp \<noteq> 0 \<and> exWantOutcome exp = OutcomeSuccess)"

text \<open>What the goroutines of the concurrent reads stored: each ran against the server as it was at that step.\<close>

fun servedReads :: "string \<Rightarrow> int \<Rightarrow> int \<Rightarrow> int \<Rightarrow> (nat \<Rightarrow> readOutcome list) \<Rightarrow> Server \<Rightarrow> nat \<Rightarrow> Expectation list \<Rightarrow> bool" where
  "servedReads host port rack slot results srv i [] \<longleftrightarrow> True"
| "servedReads host port rack slot results srv i (exp # exps) \<longleftrightarrow>
    (exOperation exp = ''concurrent-read'' \<longrightarrow> int (length (results i)) = concurrentClients exp \<and>
      (\<forall>r \<in> set (results i). \<exists>ctx w w'. ntSrv w = srv \<and>
        concurrentOne netTransport ctx host port rack slot exp w = (Ok r, w'))) \<and>
    (stepHolds srv exp \<longrightarrow> servedReads host port rack slot results (stepAfter srv exp) (i + 1) exps)"

section \<open>Reads and writes of a step on the server\<close>

text \<open>A client of the runner on its connection.\<close>

definition attached :: "nat Client \<Rightarrow> net \<Rightarrow> bool" where
  "attached c w \<longleftrightarrow> (\<exists>conn. clConn c = Some conn \<and> netReady w conn \<and> clPduSize c = netLimit w conn \<and>
     netLimit w conn = min 480 (cfgMaxPDUSize (svCfg (ntSrv w))))"

lemma attachedE:
  assumes "attached c w"
  obtains conn where "clConn c = Some conn" "netReady w conn" "clPduSize c = netLimit w conn"
    "netLimit w conn = min 480 (cfgMaxPDUSize (svCfg (ntSrv w)))" "240 \<le> netLimit w conn" "netLimit w conn \<le> 65535"
    "server_ok (ntSrv w)"
  using assms by (auto simp: attached_def netReady_def session_ok_def server_ok_def)

lemma attached_keeps:
  "attached c w \<Longrightarrow> clConn c' = clConn c \<and> clPduSize c' = clPduSize c \<Longrightarrow> attached c' w"
  by (auto simp: attached_def)

lemma attached_store:
  assumes "attached c w" "Server_Write (ntSrv w) area db start v = Ok srv"
  shows "attached c (w\<lparr>ntSrv := srv\<rparr>)"
  using assms Server_Write_facts(1,2) [OF assms(2)] by (fastforce simp: attached_def netReady_def netLimit_def session_ok_def)

lemma validation_errors:
  "validateAddress a = Some e \<Longrightarrow> \<exists>t. e = ValidationError t" "validateRangeEnd s n = Some e \<Longrightarrow> \<exists>t. e = ValidationError t"
  "validateBitAddress b = Some e \<Longrightarrow> \<exists>t. e = ValidationError t"
  by (auto simp: validateAddress_def validateRangeEnd_def validateBitAddress_def split: if_splits res.splits option.splits)

lemma classify_validation [simp]:
  "classifyTransportOrProtocol (Some (ValidationError t)) = OutcomeProtocolFailure"
  "classifyWriteError (Some (ValidationError t)) = OutcomeProtocolFailure"
  "classifyTransportOrProtocol (Some (OtherError t)) = OutcomeProtocolFailure"
  "classifyWriteError (Some (OtherError t)) = OutcomeProtocolFailure"
  by (simp_all add: classifyTransportOrProtocol_def classifyWriteError_def)

lemma classify_refused:
  "code \<in> refusals \<Longrightarrow> mapItemReturnCode code = OutcomeAddressOutOfRange"
  "mapItemReturnCode RetCodeAccessFault = OutcomeWriteProtected"
  "classifyWriteError (Some (S7Error cl code t)) = mapItemReturnCode code"
  by (auto simp: mapItemReturnCode_def classifyWriteError_def)

lemma modelAddress_Ok:
  assumes "modelAddress areaType number offset n = Ok a"
  shows "\<not> timerOrCounter (adArea a) \<and> adStart a = offset \<and> adSize a = n \<and> ValidateArea (adArea a) = None"
  using assms by (auto simp: modelAddress_def ValidateArea_def timerOrCounter_def Area_valid_def split: if_splits)

lemma modelAddress_cases:
  obtains a where "modelAddress areaType number offset n = Ok a"
  | t where "modelAddress areaType number offset n = Err (OtherError t)"
proof -
  have "(\<exists>a. modelAddress areaType number offset n = Ok a) \<or> (\<exists>t. modelAddress areaType number offset n = Err (OtherError t))"
    by (simp add: modelAddress_def)
  then show ?thesis using that by blast
qed

lemma modelBitAddress_cases:
  obtains a where "modelBitAddress areaType number offset b = Ok a" "\<not> timerOrCounter (baArea a)"
  | t where "modelBitAddress areaType number offset b = Err (OtherError t)"
  by (rule modelAddress_cases [of areaType number offset 1])
    (auto simp: modelBitAddress_def dest: modelAddress_Ok)

lemma Server_Read_one:
  assumes "Server_Read srv area db s 1 = Ok xs"
  obtains k r where "keyOf area db = Ok k" "svMem srv k = Some r" "0 \<le> s" "s < int (length (rgData r))" "hd xs = rgData r ! nat s"
  using assms by (auto simp: Server_Read_def mem_read_eq_Ok hd_drop_conv_nth nat_less_iff hd_take)

lemma Server_Write_span: "(\<exists>srv'. Server_Write srv area db s v = Ok srv') \<longleftrightarrow> (\<exists>xs. Server_Read srv area db s (int (length v)) = Ok xs)"
  by (auto simp: Server_Write_def Server_Read_def bindR_eq_Ok mem_write_eq_Ok mem_read_eq_Ok)

text \<open>Refused stores, and the code a client is told.\<close>

lemma hostStore_refused:
  assumes "\<not> (writable srv area db \<and> (\<exists>xs. Server_Read srv area db s (int (length v)) = Ok xs))"
    "refusedWith srv area db s (int (length v)) code"
  shows "hostStore srv area db s v = (mapItemReturnCode code, srv)"
proof (cases "Server_Write srv area db s v")
  case (Ok srv')
  then have "\<exists>xs. Server_Read srv area db s (int (length v)) = Ok xs" using Server_Write_span by blast
  with assms Ok show ?thesis by (auto simp: hostStore_def refusedWith_def classify_refused)
next
  case (Err e)
  then have "\<nexists>xs. Server_Read srv area db s (int (length v)) = Ok xs" using Server_Write_span [of srv area db s v] by auto
  with assms(2) Err show ?thesis by (auto simp: hostStore_def refusedWith_def classify_refused)
next
  case Panic
  then have "\<nexists>xs. Server_Read srv area db s (int (length v)) = Ok xs" using Server_Write_span [of srv area db s v] by auto
  with assms(2) Panic show ?thesis by (auto simp: hostStore_def refusedWith_def classify_refused)
qed

lemma hostStore_done:
  assumes "writable srv area db" "Server_Write srv area db s v = Ok srv'"
  shows "hostStore srv area db s v = (OutcomeSuccess, srv')"
  using assms by (simp add: hostStore_def)

lemma ReadArea_step:
  assumes "attached c w" "validateAddress a = None" "validateRangeEnd (adStart a) (adSize a) = None"
    "\<not> timerOrCounter (adArea a)" "adSize a \<noteq> 0"
  shows "\<exists>r c'. ReadArea netTransport c ctx a w = (Ok r, c', w) \<and> attached c' w \<and>
    (case Server_Read (ntSrv w) (adArea a) (adDBNumber a) (adStart a) (adSize a) of
       Ok xs \<Rightarrow> rsStatus r = ReadStatusSuccess \<and> rsData r = xs
     | _ \<Rightarrow> rsStatus r = ReadStatusRejected \<and> rsReturnCode r \<in> refusals)"
proof -
  obtain conn where c: "clConn c = Some conn" "netReady w conn" "clPduSize c = netLimit w conn"
    "240 \<le> netLimit w conn" "netLimit w conn \<le> 65535"
    using assms(1) by (rule attachedE)
  have "0 < adSize a" using assms(2,5) by (simp add: validateAddress_def split: if_splits)
  then have s: "case netGet w (adArea a) (adDBNumber a) (adStart a) (adSize a) of
      Some ys \<Rightarrow> steady netTransport ctx a w conn (netLimit w conn) ReadStatusSuccess ys
    | None \<Rightarrow> \<exists>d. steady netTransport ctx a w conn (netLimit w conn) ReadStatusRejected d"
    using refusing_net.ReadArea_steady [OF c(2) _ c(5) assms(2,3)] c(4) by simp
  have st: "\<exists>r c'. ReadArea netTransport c ctx a w = (Ok r, c', w) \<and> attached c' w \<and> rsStatus r = st \<and> rsData r = d \<and>
      (st = ReadStatusRejected \<longrightarrow> rsReturnCode r \<in> refusals)"
    if "steady netTransport ctx a w conn (netLimit w conn) st d" for st d
  proof -
    note steady = that
    obtain r c' where r: "ReadArea netTransport c ctx a w = (Ok r, c', w)" "rsStatus r = st" "rsData r = d"
      "clConn c' = Some conn" "clPduSize c' = netLimit w conn" "st = ReadStatusRejected \<longrightarrow> rsReturnCode r \<in> refusals"
      using steadyE [OF steady c(1,3)] by blast
    moreover have "attached c' w" using attached_keeps [OF assms(1)] r(4,5) c(1,3) by simp
    ultimately show ?thesis by blast
  qed
  show ?thesis
  proof (cases "netGet w (adArea a) (adDBNumber a) (adStart a) (adSize a)")
    case (Some xs)
    then have "Server_Read (ntSrv w) (adArea a) (adDBNumber a) (adStart a) (adSize a) = Ok xs"
      by (simp add: netGet_def split: if_splits res.splits)
    with st [of ReadStatusSuccess xs] s Some show ?thesis by auto
  next
    case None
    then obtain d where "steady netTransport ctx a w conn (netLimit w conn) ReadStatusRejected d" using s by auto
    moreover have "Server_Read (ntSrv w) (adArea a) (adDBNumber a) (adStart a) (adSize a) \<noteq> Ok xs" for xs
      using None assms(4) by (auto simp: netGet_def)
    ultimately show ?thesis using st by (fastforce split: res.split)
  qed
qed

lemma ReadBit_step:
  assumes "attached c w" "validateBitAddress a = None" "\<not> timerOrCounter (baArea a)"
  shows "case Server_Read (ntSrv w) (baArea a) (baDBNumber a) (baByteOffset a) 1 of
      Ok xs \<Rightarrow> \<exists>c'. ReadBit netTransport c ctx a w = (Ok (bit (hd xs) (nat (baBitOffset a))), c', w) \<and> attached c' w
    | _ \<Rightarrow> \<exists>code msg c'. ReadBit netTransport c ctx a w = (Err (S7Error 0 code msg), c', w) \<and> code \<in> refusals \<and> attached c' w"
proof -
  obtain conn where c: "clConn c = Some conn" "netReady w conn" "clPduSize c = netLimit w conn" "240 \<le> netLimit w conn"
    using assms(1) by (rule attachedE)
  have keep: "attached c' w" if "ReadBit netTransport c ctx a w = (r, c', w)" for r c'
    using attached_keeps [OF assms(1)] bits_keep(1) [OF that] by blast
  show ?thesis
  proof (cases "\<exists>xs. Server_Read (ntSrv w) (baArea a) (baDBNumber a) (baByteOffset a) 1 = Ok xs")
    case True
    then obtain xs where xs: "Server_Read (ntSrv w) (baArea a) (baDBNumber a) (baByteOffset a) 1 = Ok xs" ..
    then obtain k r where "keyOf (baArea a) (baDBNumber a) = Ok k" "svMem (ntSrv w) k = Some r"
      "baByteOffset a < int (length (rgData r))" "hd xs = rgData r ! nat (baByteOffset a)"
      by (rule Server_Read_one)
    with net_read_bit [OF c(2,1,3) _ assms(2) _ _ assms(3)] c(4) keep xs show ?thesis by fastforce
  next
    case False
    then obtain code msg c' where "ReadBit netTransport c ctx a w = (Err (S7Error 0 code msg), c', w)" "code \<in> refusals"
      using ReadBit_refused_net [OF c(2,1,3) _ assms(2), of ctx] c(4) by auto
    with False keep show ?thesis by (fastforce split: res.split)
  qed
qed

text \<open>A read of a step gives what the host sees.\<close>

lemma doRead_net:
  assumes "attached c w" "exHasBit exp \<or> readLength exp \<noteq> 0"
  shows "\<exists>data err c'. doRead netTransport ctx c exp w = (Ok (data, fst (hostRead (ntSrv w) exp), err), c', w) \<and>
    (fst (hostRead (ntSrv w) exp) = OutcomeSuccess \<longrightarrow> data = snd (hostRead (ntSrv w) exp)) \<and> attached c' w"
proof (cases "exHasBit exp")
  case True
  show ?thesis
  proof (rule modelBitAddress_cases [of "exAreaType exp" "exAreaNum exp" "exOffset exp" "exBit exp"])
    fix a assume a: "modelBitAddress (exAreaType exp) (exAreaNum exp) (exOffset exp) (exBit exp) = Ok a" "\<not> timerOrCounter (baArea a)"
    show ?thesis
    proof (cases "validateBitAddress a")
      case None
      from ReadBit_step [OF assms(1) None a(2), of ctx] True a None show ?thesis
        by (auto simp: doRead_def hostRead_def classify_refused split: res.splits)
    next
      case (Some e)
      then obtain t where "e = ValidationError t" using validation_errors(3) by blast
      with Some True a assms(1) show ?thesis by (auto simp: doRead_def hostRead_def ReadBit_def)
    qed
  next
    fix t assume "modelBitAddress (exAreaType exp) (exAreaNum exp) (exOffset exp) (exBit exp) = Err (OtherError t)"
    with True assms(1) show ?thesis by (auto simp: doRead_def hostRead_def)
  qed
next
  case False
  show ?thesis
  proof (rule modelAddress_cases [of "exAreaType exp" "exAreaNum exp" "exOffset exp" "readLength exp"])
    fix a assume a: "modelAddress (exAreaType exp) (exAreaNum exp) (exOffset exp) (readLength exp) = Ok a"
    then have a': "\<not> timerOrCounter (adArea a)" "adSize a \<noteq> 0" using modelAddress_Ok [OF a] False assms(2) by simp_all
    consider (ok) "validateAddress a = None" "validateRangeEnd (adStart a) (adSize a) = None"
      | (bad) t where "ReadArea netTransport c ctx a w = (Err (ValidationError t), c, w)"
          "validateAddress a \<noteq> None \<or> validateRangeEnd (adStart a) (adSize a) \<noteq> None"
      using validation_errors(1) [of a] validation_errors(2) [of "adStart a" "adSize a"]
      by (cases "validateAddress a"; cases "validateRangeEnd (adStart a) (adSize a)") (auto simp: ReadArea_def)
    then show ?thesis
    proof cases
      case ok
      obtain r c' where r: "ReadArea netTransport c ctx a w = (Ok r, c', w)" "attached c' w"
        "case Server_Read (ntSrv w) (adArea a) (adDBNumber a) (adStart a) (adSize a) of
           Ok xs \<Rightarrow> rsStatus r = ReadStatusSuccess \<and> rsData r = xs
         | _ \<Rightarrow> rsStatus r = ReadStatusRejected \<and> rsReturnCode r \<in> refusals"
        using ReadArea_step [OF assms(1) ok a'] by blast
      then show ?thesis using False a ok
        by (auto simp: doRead_def hostRead_def runReadArea_def ReadResult_OK_def classifyReadResult_def mapItemReturnCode_def split: res.splits)
    qed (use False a assms(1) in \<open>auto simp: doRead_def hostRead_def runReadArea_def\<close>)
  next
    fix t assume "modelAddress (exAreaType exp) (exAreaNum exp) (exOffset exp) (readLength exp) = Err (OtherError t)"
    with False assms(1) show ?thesis by (auto simp: doRead_def hostRead_def runReadArea_def)
  qed
qed

lemma WriteArea_step:
  assumes "attached c w" "even (min 480 (cfgMaxPDUSize (svCfg (ntSrv w))))" "validateAddress a = None"
    "validateRangeEnd (adStart a) (int (length v)) = None" "\<not> timerOrCounter (adArea a)" "v \<noteq> []"
    "28 + int (length v) \<le> min 480 (cfgMaxPDUSize (svCfg (ntSrv w)))"
    "hostStore (ntSrv w) (adArea a) (adDBNumber a) (adStart a) v = (outcome, srv)"
  shows "\<exists>u c' w'. WriteArea netTransport c ctx a v w = (u, c', w') \<and> attached c' w' \<and> ntSrv w' = srv \<and>
    (u = Ok () \<and> outcome = OutcomeSuccess \<or> (\<exists>e. u = Err e \<and> classifyWriteError (Some e) = outcome))"
proof -
  obtain conn where c: "clConn c = Some conn" "netReady w conn" "clPduSize c = netLimit w conn"
    "netLimit w conn = min 480 (cfgMaxPDUSize (svCfg (ntSrv w)))" "240 \<le> netLimit w conn"
    using assms(1) by (rule attachedE)
  show ?thesis
  proof (cases "writable (ntSrv w) (adArea a) (adDBNumber a) \<and>
      (\<exists>xs. Server_Read (ntSrv w) (adArea a) (adDBNumber a) (adStart a) (int (length v)) = Ok xs)")
    case True
    then obtain srv' where s: "Server_Write (ntSrv w) (adArea a) (adDBNumber a) (adStart a) v = Ok srv'"
      using Server_Write_span by blast
    then have "outcome = OutcomeSuccess" "srv = srv'" using True assms(8) hostStore_done by fastforce+
    moreover obtain c' where "WriteArea netTransport c ctx a v w = (Ok (), c', w\<lparr>ntSrv := srv'\<rparr>)"
      "clConn c' = clConn c" "clPduSize c' = clPduSize c"
      using WriteArea_net [OF c(2,1,3) _ _ assms(3,4) _ s, of ctx] True c(4,5) assms(2) by auto
    moreover have "attached c' (w\<lparr>ntSrv := srv'\<rparr>)"
      using attached_keeps [OF attached_store [OF assms(1) s]] calculation by blast
    ultimately show ?thesis by auto
  next
    case False
    obtain code msg c' where r: "WriteArea netTransport c ctx a v w = (Err (S7Error 0 code msg), c', w)"
      "refusedWith (ntSrv w) (adArea a) (adDBNumber a) (adStart a) (int (length v)) code"
      using WriteArea_refused_net [OF c(2,1,3) _ _ assms(3-6) _ False, of ctx] c(4,5) assms(2,7) by auto
    then have "outcome = mapItemReturnCode code" "srv = ntSrv w" using hostStore_refused [OF False r(2)] assms(8) by simp_all
    with r attached_keeps [OF assms(1) WriteArea_keeps [OF r(1)]] show ?thesis by (auto simp: classify_refused)
  qed
qed

lemma put_bit_write:
  assumes "keyOf area db = Ok k" "svMem srv k = Some r" "0 \<le> s" "s < int (length (rgData r))"
  shows "Server_Write srv area db s [withBit (rgData r ! nat s) n v] =
    Ok (srv\<lparr>svMem := (svMem srv)(k \<mapsto> r\<lparr>rgData := put_bit (rgData r) (nat s) n v\<rparr>)\<rparr>)"
proof -
  have "nat s < length (rgData r)" using assms(3,4) by linarith
  then have "put_bit (rgData r) (nat s) n v = take (nat s) (rgData r) @ [withBit (rgData r ! nat s) n v] @ drop (nat s + 1) (rgData r)"
    by (simp add: put_bit_def withBit_def upd_conv_take_nth_drop)
  then have "mem_write (svMem srv) area db s [withBit (rgData r ! nat s) n v] =
      Ok ((svMem srv)(k \<mapsto> r\<lparr>rgData := put_bit (rgData r) (nat s) n v\<rparr>))"
    using assms by (simp add: mem_write_eq_Ok)
  then show ?thesis by (simp add: Server_Write_def)
qed

lemma WriteBit_step:
  assumes "attached c w" "validateBitAddress a = None" "\<not> timerOrCounter (baArea a)"
    "hostStoreBit (ntSrv w) (baArea a) (baDBNumber a) (baByteOffset a) (nat (baBitOffset a)) v = (outcome, srv)"
  shows "\<exists>u c' w'. WriteBit netTransport c ctx a v w = (u, c', w') \<and> attached c' w' \<and> ntSrv w' = srv \<and>
    (u = Ok () \<and> outcome = OutcomeSuccess \<or> (\<exists>e. u = Err e \<and> classifyWriteError (Some e) = outcome))"
proof -
  obtain conn where c: "clConn c = Some conn" "netReady w conn" "clPduSize c = netLimit w conn" "240 \<le> netLimit w conn"
    using assms(1) by (rule attachedE)
  show ?thesis
  proof (cases "writable (ntSrv w) (baArea a) (baDBNumber a) \<and>
      (\<exists>xs. Server_Read (ntSrv w) (baArea a) (baDBNumber a) (baByteOffset a) 1 = Ok xs)")
    case True
    then obtain xs where xs: "Server_Read (ntSrv w) (baArea a) (baDBNumber a) (baByteOffset a) 1 = Ok xs" by blast
    then obtain k r where k: "keyOf (baArea a) (baDBNumber a) = Ok k" "svMem (ntSrv w) k = Some r" "0 \<le> baByteOffset a"
      "baByteOffset a < int (length (rgData r))" "hd xs = rgData r ! nat (baByteOffset a)"
      by (rule Server_Read_one)
    note s = put_bit_write [OF k(1-4), of "nat (baBitOffset a)" v]
    have "\<not> rgReadOnly r" using True k(1,2) by (simp add: writable_def)
    then obtain c' where r: "WriteBit netTransport c ctx a v w = (Ok (), c', w\<lparr>ntSrv := (ntSrv w)\<lparr>svMem := (svMem (ntSrv w))(k \<mapsto>
        r\<lparr>rgData := put_bit (rgData r) (nat (baByteOffset a)) (nat (baBitOffset a)) v\<rparr>)\<rparr>\<rparr>)"
      using net_write_bit [OF c(2,1,3) _ assms(2) k(1,2) _ assms(3) k(4), of ctx v] c(4) by auto
    with attached_keeps [OF attached_store [OF assms(1) s] bits_keep(2) [OF r]] hostStore_done [OF conjunct1 [OF True] s] xs k(5) assms(4)
    show ?thesis by (auto simp: hostStoreBit_def)
  next
    case False
    obtain code msg c' where r: "WriteBit netTransport c ctx a v w = (Err (S7Error 0 code msg), c', w)"
      "refusedWith (ntSrv w) (baArea a) (baDBNumber a) (baByteOffset a) 1 code"
      using WriteBit_refused_net [OF c(2,1,3) _ assms(2,3) False, of ctx v] c(4) by auto
    have at: "attached c' w" using attached_keeps [OF assms(1) bits_keep(2) [OF r(1)]] .
    show ?thesis
    proof (cases "\<exists>xs. Server_Read (ntSrv w) (baArea a) (baDBNumber a) (baByteOffset a) 1 = Ok xs")
      case True
      then obtain xs where xs: "Server_Read (ntSrv w) (baArea a) (baDBNumber a) (baByteOffset a) 1 = Ok xs" ..
      show ?thesis
        using hostStore_refused [of "ntSrv w" "baArea a" "baDBNumber a" "baByteOffset a" "[withBit (hd xs) (nat (baBitOffset a)) v]" code]
          False r at xs assms(4) by (auto simp: classify_refused hostStoreBit_def)
    next
      case no: False
      then have "classifyWriteError (Some (S7Error 0 code msg)) = OutcomeAddressOutOfRange"
        using r(2) unfolding refusedWith_def classify_refused(3) by (auto intro: classify_refused(1))
      with r(1) no at assms(4) show ?thesis by (auto simp: hostStoreBit_def split: res.splits)
    qed
  qed
qed

text \<open>A write of a step has the outcome and the effect of the host's.\<close>

lemma doWrite_net:
  assumes "attached c w" "even (min 480 (cfgMaxPDUSize (svCfg (ntSrv w))))"
    "exHasBit exp \<or> 28 + int (length (exData exp)) \<le> min 480 (cfgMaxPDUSize (svCfg (ntSrv w)))"
  shows "\<exists>err c' w'. doWrite netTransport ctx c exp w = (Ok (fst (hostWrite (ntSrv w) exp), err), c', w') \<and>
    ntSrv w' = snd (hostWrite (ntSrv w) exp) \<and> attached c' w'"
proof (cases "exHasBit exp")
  case True
  have v: "(case exData exp of [] \<Rightarrow> False | b # _ \<Rightarrow> b \<noteq> 0) \<longleftrightarrow> exData exp \<noteq> [] \<and> hd (exData exp) \<noteq> 0"
    by (simp split: list.split)
  show ?thesis
  proof (rule modelBitAddress_cases [of "exAreaType exp" "exAreaNum exp" "exOffset exp" "exBit exp"])
    fix a assume a: "modelBitAddress (exAreaType exp) (exAreaNum exp) (exOffset exp) (exBit exp) = Ok a" "\<not> timerOrCounter (baArea a)"
    show ?thesis
    proof (cases "validateBitAddress a")
      case None
      let ?v = "exData exp \<noteq> [] \<and> hd (exData exp) \<noteq> 0"
      obtain outcome srv where h: "hostStoreBit (ntSrv w) (baArea a) (baDBNumber a) (baByteOffset a) (nat (baBitOffset a)) ?v = (outcome, srv)"
        by fastforce
      obtain u c' w' where "WriteBit netTransport c ctx a ?v w = (u, c', w')" "attached c' w'" "ntSrv w' = srv"
        "u = Ok () \<and> outcome = OutcomeSuccess \<or> (\<exists>e. u = Err e \<and> classifyWriteError (Some e) = outcome)"
        using WriteBit_step [OF assms(1) None a(2) h, of ctx] by blast
      moreover have "hostWrite (ntSrv w) exp = (outcome, srv)" using True a(1) None h by (simp add: hostWrite_def)
      ultimately show ?thesis using True a(1) unfolding doWrite_def v by auto
    next
      case (Some e)
      then obtain t where "e = ValidationError t" using validation_errors(3) by blast
      with Some True a assms(1) show ?thesis by (auto simp: doWrite_def hostWrite_def WriteBit_def)
    qed
  next
    fix t assume "modelBitAddress (exAreaType exp) (exAreaNum exp) (exOffset exp) (exBit exp) = Err (OtherError t)"
    with True assms(1) show ?thesis by (auto simp: doWrite_def hostWrite_def)
  qed
next
  case False
  show ?thesis
  proof (rule modelAddress_cases [of "exAreaType exp" "exAreaNum exp" "exOffset exp" "int (length (exData exp))"])
    fix a assume a: "modelAddress (exAreaType exp) (exAreaNum exp) (exOffset exp) (int (length (exData exp))) = Ok a"
    then have a': "\<not> timerOrCounter (adArea a)" "adSize a = int (length (exData exp))" using modelAddress_Ok [OF a] by simp_all
    consider (none) "exData exp = []" "validateAddress a = None" "validateRangeEnd (adStart a) (adSize a) = None"
      | (ok) "exData exp \<noteq> []" "validateAddress a = None" "validateRangeEnd (adStart a) (adSize a) = None"
      | (bad) t where "WriteArea netTransport c ctx a (exData exp) w = (Err (ValidationError t), c, w)"
          "validateAddress a \<noteq> None \<or> validateRangeEnd (adStart a) (adSize a) \<noteq> None"
      using validation_errors(1) [of a] validation_errors(2) [of "adStart a" "adSize a"] a'(2)
      by (cases "exData exp = []"; cases "validateAddress a"; cases "validateRangeEnd (adStart a) (adSize a)") (auto simp: WriteArea_def)
    then show ?thesis
    proof cases
      case none
      then have "WriteArea netTransport c ctx a [] w = (Ok (), c, w)"
        using a'(2) by (simp add: WriteArea_def planReadChunks_def Let_def)
      with none False a assms(1) show ?thesis by (auto simp: doWrite_def hostWrite_def runWriteArea_def)
    next
      case ok
      obtain outcome srv where h: "hostStore (ntSrv w) (adArea a) (adDBNumber a) (adStart a) (exData exp) = (outcome, srv)"
        by fastforce
      obtain u c' w' where "WriteArea netTransport c ctx a (exData exp) w = (u, c', w')" "attached c' w'" "ntSrv w' = srv"
        "u = Ok () \<and> outcome = OutcomeSuccess \<or> (\<exists>e. u = Err e \<and> classifyWriteError (Some e) = outcome)"
        using WriteArea_step [OF assms(1,2) ok(2) _ a'(1) ok(1) _ h, of ctx] ok(3) a'(2) False assms(3) by auto
      moreover have "hostWrite (ntSrv w) exp = (outcome, srv)" using False a ok h by (simp add: hostWrite_def)
      ultimately show ?thesis using False a by (auto simp: doWrite_def runWriteArea_def)
    qed (use False a assms(1) in \<open>auto simp: doWrite_def hostWrite_def runWriteArea_def\<close>)
  next
    fix t assume "modelAddress (exAreaType exp) (exAreaNum exp) (exOffset exp) (int (length (exData exp))) = Err (OtherError t)"
    with False assms(1) show ?thesis by (auto simp: doWrite_def hostWrite_def runWriteArea_def)
  qed
qed

section \<open>Steps and fixtures on the server\<close>

lemma newClient_net:
  assumes "server_ok (ntSrv w)" "0 \<le> port" "port \<le> 65535" "ValidateRackSlot rack slot = None"
  shows "\<exists>c' w'. Connect netTransport (newClient host port rack slot) ctx w = (Ok (), c', w') \<and> attached c' w' \<and> ntSrv w' = ntSrv w"
proof -
  let ?cl = "newClient host port rack slot :: nat Client"
  have o: "options_ok (clOpts ?cl)" "optMaxPDU (clOpts ?cl) = 480"
    "clConn ?cl \<noteq> Some (ntNext w)"
    using assms(2-4) by (auto simp: newClient_def Client_New_def defaultOptions_def WithPort_def WithRackSlot_def
        WithTimeoutOption_def WithMaxPDU_def options_ok_def)
  obtain c' w' where c: "Connect netTransport ?cl ctx w = (Ok (), c', w')"
    "connected ?cl w c' w'"
    using Connect_net [OF assms(1) o(1,3), of ctx] by blast
  moreover have "attached c' w'" "ntSrv w' = ntSrv w"
    using c(2) o(2) unfolding connected_def attached_def by auto
  ultimately show ?thesis by blast
qed

lemma Close_net: "\<exists>c' w'. Client_Close netTransport c w = (Ok (), c', w') \<and> ntSrv w' = ntSrv w"
  by (cases "clConn c") (auto simp: Client_Close_def closeConnLocked_def closeCOTP_def Let_def)

lemma hostRead_cong:
  "exHasBit e = exHasBit e' \<Longrightarrow> exAreaType e = exAreaType e' \<Longrightarrow> exAreaNum e = exAreaNum e' \<Longrightarrow> exOffset e = exOffset e' \<Longrightarrow>
   exBit e = exBit e' \<or> \<not> exHasBit e \<Longrightarrow> readLength e = readLength e' \<Longrightarrow> hostRead srv e = hostRead srv e'"
  by (auto simp: hostRead_def)

lemma concurrentOne_net:
  assumes "concurrentOne netTransport ctx host port rack slot exp w = (Ok r, w')" "server_ok (ntSrv w)"
    "0 \<le> port" "port \<le> 65535" "ValidateRackSlot rack slot = None" "readLength exp \<noteq> 0"
  shows "roOutcome r = fst (hostRead (ntSrv w) (exp\<lparr>exHasBit := False\<rparr>)) \<and>
    (roOutcome r = OutcomeSuccess \<longrightarrow> roData r = snd (hostRead (ntSrv w) (exp\<lparr>exHasBit := False\<rparr>)))"
proof -
  define e where "e = \<lparr>exOperation = ''read'', exAreaType = exAreaType exp, exAreaNum = exAreaNum exp,
    exOffset = exOffset exp, exLength = readLength exp, exBit = 0, exHasBit = False, exClients = 0, exData = [],
    exWantOutcome = [], exWantBytes = [], exHasBytes = False\<rparr>"
  have e: "readLength e \<noteq> 0" "hostRead srv e = hostRead srv (exp\<lparr>exHasBit := False\<rparr>)" for srv
    using assms(6) by (auto simp: e_def readLength_def intro!: hostRead_cong)
  obtain c1 w1 where 1: "Connect netTransport (newClient host port rack slot) ctx w = (Ok (), c1, w1)" "attached c1 w1" "ntSrv w1 = ntSrv w"
    using newClient_net [OF assms(2-5)] by blast
  obtain data err c2 where 2: "doRead netTransport ctx c1 e w1 = (Ok (data, fst (hostRead (ntSrv w) e), err), c2, w1)"
    "fst (hostRead (ntSrv w) e) = OutcomeSuccess \<longrightarrow> data = snd (hostRead (ntSrv w) e)"
    using doRead_net [OF 1(2), of e ctx] e(1) 1(3) by auto
  obtain c3 w3 where "Client_Close netTransport c2 w1 = (Ok (), c3, w3)" using Close_net by blast
  with 1(1) 2(1) have "r = \<lparr>roData = data, roOutcome = fst (hostRead (ntSrv w) e), roErr = err\<rparr>"
    using assms(1) unfolding concurrentOne_def e_def [symmetric] by simp
  with 2(2) show ?thesis unfolding e(2) by simp
qed

lemma compareConcurrent_same:
  assumes "\<forall>r \<in> set rs. roOutcome r = out \<and> (out = OutcomeSuccess \<longrightarrow> roData r = d)" "exWantOutcome exp = OutcomeSuccess"
    "out = OutcomeSuccess \<Longrightarrow> first = d"
  shows "compareConcurrent exp first i rs = None \<longleftrightarrow>
    rs = [] \<or> out = OutcomeSuccess \<and> (exHasBytes exp \<longrightarrow> d = exWantBytes exp)"
  using assms(1)
proof (induction rs arbitrary: i)
  case (Cons r rs)
  have r: "roOutcome r = out" "out = OutcomeSuccess \<Longrightarrow> roData r = d" using Cons.prems by simp_all
  have ih: "compareConcurrent exp first (i + 1) rs = None \<longleftrightarrow>
      rs = [] \<or> out = OutcomeSuccess \<and> (exHasBytes exp \<longrightarrow> d = exWantBytes exp)"
    using Cons.prems by (intro Cons.IH) simp
  show ?case
  proof (cases "out = OutcomeSuccess")
    case True
    then show ?thesis using r ih assms(2,3) by (simp add: hexEncode_inj)
  next
    case False
    then show ?thesis using r(1) assms(2) by simp
  qed
qed simp

lemma executeConcurrentRead_net:
  assumes "int (length results) = concurrentClients exp" "server_ok srv" "0 \<le> port" "port \<le> 65535" "ValidateRackSlot rack slot = None"
    "\<forall>r \<in> set results. \<exists>ctx w w'. ntSrv w = srv \<and> concurrentOne netTransport ctx host port rack slot exp w = (Ok r, w')"
    "readLength exp \<noteq> 0" "exWantOutcome exp = OutcomeSuccess" "exOperation exp = ''concurrent-read''"
  shows "executeConcurrentRead exp results = None \<longleftrightarrow> stepHolds srv exp"
proof -
  have ne: "results \<noteq> []" using assms(1) by (auto simp: concurrentClients_def)
  let ?h = "hostRead srv (exp\<lparr>exHasBit := False\<rparr>)"
  have all: "\<forall>r \<in> set results. roOutcome r = fst ?h \<and> (fst ?h = OutcomeSuccess \<longrightarrow> roData r = snd ?h)"
  proof
    fix r assume "r \<in> set results"
    then obtain ctx w w' where "ntSrv w = srv" "concurrentOne netTransport ctx host port rack slot exp w = (Ok r, w')"
      using assms(6) by blast
    with concurrentOne_net [OF this(2) _ assms(3-5,7)] assms(2)
    show "roOutcome r = fst ?h \<and> (fst ?h = OutcomeSuccess \<longrightarrow> roData r = snd ?h)" by simp
  qed
  have "executeConcurrentRead exp results = None \<longleftrightarrow> fst ?h = OutcomeSuccess \<and> (exHasBytes exp \<longrightarrow> snd ?h = exWantBytes exp)"
    using compareConcurrent_same [OF all assms(8), of "roData (hd results)" 0] all ne
    by (cases results) (auto simp: executeConcurrentRead_def)
  then show ?thesis using assms(8,9) by (auto simp: stepHolds_def)
qed

lemma stepAfter_cfg: "svCfg (stepAfter srv exp) = svCfg srv"
proof -
  have store: "svCfg (snd (hostStore srv area db s v)) = svCfg srv" for area db s v
    by (auto simp: hostStore_def Server_Write_facts(1) split: res.split)
  then have "svCfg (snd (hostStoreBit srv area db s n v)) = svCfg srv" for area db s n v
    by (auto simp: hostStoreBit_def split: res.split)
  with store show ?thesis by (auto simp: stepAfter_def hostWrite_def split: res.split)
qed

lemma checkRead_None:
  assumes "outcome = OutcomeSuccess \<longrightarrow> data = d"
  shows "checkRead exp data outcome err = None \<longleftrightarrow> outcome = exWantOutcome exp \<and>
    (exHasBytes exp \<and> exWantOutcome exp = OutcomeSuccess \<longrightarrow> d = exWantBytes exp)"
proof (cases "outcome = exWantOutcome exp")
  case True
  then show ?thesis using assms by (simp add: checkRead_def) blast
qed (simp add: checkRead_def)

text \<open>A step passes exactly when it holds of the memory.\<close>

lemma executeExpectation_net:
  assumes "attached c w" "lim = min 480 (cfgMaxPDUSize (svCfg (ntSrv w)))" "even lim" "covered lim exp"
    "0 \<le> port" "port \<le> 65535" "ValidateRackSlot rack slot = None"
    "exOperation exp = ''concurrent-read'' \<Longrightarrow> int (length results) = concurrentClients exp \<and>
      (\<forall>r \<in> set results. \<exists>ctx u u'. ntSrv u = ntSrv w \<and> concurrentOne netTransport ctx host port rack slot exp u = (Ok r, u'))"
  shows "\<exists>e c' w'. executeExpectation netTransport ctx host port rack slot results exp c w = (Ok e, c', w') \<and>
    (e = None \<longleftrightarrow> stepHolds (ntSrv w) exp) \<and> ntSrv w' = stepAfter (ntSrv w) exp \<and> attached c' w'"
proof -
  have ok: "server_ok (ntSrv w)" using assms(1) by (rule attachedE)
  have rd: "\<exists>data err c'. doRead netTransport ctx c exp w = (Ok (data, fst (hostRead (ntSrv w) exp), err), c', w) \<and>
      (fst (hostRead (ntSrv w) exp) = OutcomeSuccess \<longrightarrow> data = snd (hostRead (ntSrv w) exp)) \<and> attached c' w"
    if "exOperation exp \<notin> {''write'', ''rejected-write''}"
    using doRead_net [OF assms(1)] assms(4) that by (auto simp: covered_def)
  have wr: "\<exists>err c' w'. doWrite netTransport ctx c exp w = (Ok (fst (hostWrite (ntSrv w) exp), err), c', w') \<and>
      ntSrv w' = snd (hostWrite (ntSrv w) exp) \<and> attached c' w'"
    using doWrite_net [OF assms(1)] assms(2-4) by (auto simp: covered_def)
  consider "exOperation exp = ''reconnect''" | "exOperation exp = ''concurrent-read''"
    | "exOperation exp = ''read'' \<or> exOperation exp = ''final-state''" | "exOperation exp = ''write''"
    | "exOperation exp = ''rejected-read''" | "exOperation exp = ''rejected-write''"
    | "exOperation exp \<notin> {''reconnect'', ''concurrent-read'', ''read'', ''final-state'', ''write'', ''rejected-read'', ''rejected-write''}"
    by blast
  then show ?thesis
  proof cases
    case 1
    obtain c1 w1 where 2: "Client_Close netTransport c w = (Ok (), c1, w1)" "ntSrv w1 = ntSrv w" using Close_net by blast
    then obtain c2 w2 where "Connect netTransport (newClient host port rack slot) ctx w1 = (Ok (), c2, w2)" "attached c2 w2"
      "ntSrv w2 = ntSrv w"
      using newClient_net [of w1 port rack slot host ctx] ok assms(5-7) by auto
    with 1 2 show ?thesis by (simp add: executeExpectation_def stepHolds_def Let_def stepAfter_def)
  next
    case 2
    then have "readLength exp \<noteq> 0" "exWantOutcome exp = OutcomeSuccess" using assms(4) by (simp_all add: covered_def)
    with 2 assms(1,5-8) ok executeConcurrentRead_net [of results exp "ntSrv w" port rack slot host]
    show ?thesis by (simp add: executeExpectation_def stepAfter_def)
  next
    case 3
    then have "exOperation exp \<notin> {''write'', ''rejected-write''}" by auto
    then obtain data err c' where d: "doRead netTransport ctx c exp w = (Ok (data, fst (hostRead (ntSrv w) exp), err), c', w)"
      "fst (hostRead (ntSrv w) exp) = OutcomeSuccess \<longrightarrow> data = snd (hostRead (ntSrv w) exp)" "attached c' w"
      using rd by blast
    then have "executeExpectation netTransport ctx host port rack slot results exp c w =
        (Ok (checkRead exp data (fst (hostRead (ntSrv w) exp)) err), c', w)"
      "stepAfter (ntSrv w) exp = ntSrv w"
      using 3 by (elim disjE; simp add: executeExpectation_def stepAfter_def)+
    moreover have "checkRead exp data (fst (hostRead (ntSrv w) exp)) err = None \<longleftrightarrow> stepHolds (ntSrv w) exp"
    proof -
      have "stepHolds (ntSrv w) exp \<longleftrightarrow> fst (hostRead (ntSrv w) exp) = exWantOutcome exp \<and>
          (exHasBytes exp \<and> exWantOutcome exp = OutcomeSuccess \<longrightarrow> snd (hostRead (ntSrv w) exp) = exWantBytes exp)"
        using 3 by (elim disjE) (simp_all add: stepHolds_def Let_def)
      then show ?thesis unfolding checkRead_None [OF d(2)] by (rule sym)
    qed
    ultimately show ?thesis using d(3) by simp
  next
    case 4
    obtain err c' w' where "doWrite netTransport ctx c exp w = (Ok (fst (hostWrite (ntSrv w) exp), err), c', w')"
      "ntSrv w' = snd (hostWrite (ntSrv w) exp)" "attached c' w'"
      using wr by blast
    with 4 show ?thesis by (simp add: executeExpectation_def stepHolds_def Let_def stepAfter_def)
  next
    case 5
    then have "exOperation exp \<notin> {''write'', ''rejected-write''}" by auto
    then obtain data err c' where d: "doRead netTransport ctx c exp w = (Ok (data, fst (hostRead (ntSrv w) exp), err), c', w)"
      "fst (hostRead (ntSrv w) exp) = OutcomeSuccess \<longrightarrow> data = snd (hostRead (ntSrv w) exp)" "attached c' w"
      using rd by blast
    with 5 show ?thesis by (simp add: executeExpectation_def stepHolds_def Let_def stepAfter_def checkRejected_def)
  next
    case 6
    obtain err c' w' where "doWrite netTransport ctx c exp w = (Ok (fst (hostWrite (ntSrv w) exp), err), c', w')"
      "ntSrv w' = snd (hostWrite (ntSrv w) exp)" "attached c' w'"
      using wr by blast
    with 6 show ?thesis by (simp add: executeExpectation_def stepHolds_def Let_def stepAfter_def checkRejected_def)
  next
    case 7
    then show ?thesis using assms(1) by (simp add: executeExpectation_def stepHolds_def Let_def stepAfter_def)
  qed
qed

lemma runSteps_net:
  assumes "attached c w" "lim = min 480 (cfgMaxPDUSize (svCfg (ntSrv w)))" "even lim" "list_all (covered lim) exps"
    "0 \<le> port" "port \<le> 65535" "ValidateRackSlot rack slot = None"
    "servedReads host port rack slot results (ntSrv w) i exps"
  shows "\<exists>r c' w'. runSteps netTransport ctx host port rack slot results i exps c w = (Ok r, c', w') \<and>
    (map_option fst r, ntSrv w') = fixtureVerdict (ntSrv w) i exps"
  using assms(1,2,4,8)
proof (induction exps arbitrary: i c w)
  case (Cons exp exps)
  have cov: "covered lim exp" "list_all (covered lim) exps" using Cons.prems(3) by simp_all
  have res: "exOperation exp = ''concurrent-read'' \<Longrightarrow> int (length (results i)) = concurrentClients exp \<and>
      (\<forall>r \<in> set (results i). \<exists>ctx u u'. ntSrv u = ntSrv w \<and> concurrentOne netTransport ctx host port rack slot exp u = (Ok r, u'))"
    and rest: "stepHolds (ntSrv w) exp \<Longrightarrow> servedReads host port rack slot results (stepAfter (ntSrv w) exp) (i + 1) exps"
    using Cons.prems(4) unfolding servedReads.simps by blast+
  obtain e c1 w1 where e: "executeExpectation netTransport (WithTimeout ctx opTimeout) host port rack slot (results i) exp c w = (Ok e, c1, w1)"
    "e = None \<longleftrightarrow> stepHolds (ntSrv w) exp" "ntSrv w1 = stepAfter (ntSrv w) exp" "attached c1 w1"
    using executeExpectation_net [OF Cons.prems(1,2) assms(3) cov(1) assms(5-7) res] by blast
  show ?case
  proof (cases e)
    case None
    have "lim = min 480 (cfgMaxPDUSize (svCfg (ntSrv w1)))" using Cons.prems(2) e(3) by (simp add: stepAfter_cfg)
    moreover have "servedReads host port rack slot results (ntSrv w1) (i + 1) exps" using rest e(2,3) None by simp
    ultimately obtain r c2 w2 where "runSteps netTransport ctx host port rack slot results (i + 1) exps c1 w1 = (Ok r, c2, w2)"
      "(map_option fst r, ntSrv w2) = fixtureVerdict (ntSrv w1) (i + 1) exps"
      using Cons.IH [OF e(4) _ cov(2)] by blast
    with e None show ?thesis by simp
  qed (use e in simp)
qed simp

text \<open>C8 A fixture run against the server of this repository is decided by the server's memory: the run ends without a
  panic or an error of its own, its verdict is the first step that does not hold of the memory (none when it passes), and
  the memory it leaves is the one the host-side writes of the steps leave. The steps may read and write bytes and bits, reconnect,
  and read concurrently; refused addresses and read-only areas are part of what holds.\<close>

theorem fixture_shows_memory:
  assumes "server_ok (ntSrv w)" "even (cfgMaxPDUSize (svCfg (ntSrv w)))" "0 \<le> port" "port \<le> 65535" "ValidateRackSlot rack slot = None"
    "exps = expectedSteps server (fxID fx) 0 (fxExpectations fx)"
    "list_all (covered (min 480 (cfgMaxPDUSize (svCfg (ntSrv w))))) exps"
    "servedReads host port rack slot results (ntSrv w) 0 exps"
  shows "\<exists>r w'. runFixtureAgainst netTransport server host port rack slot fx results w = (Ok r, w') \<and>
    (map_option fst r, ntSrv w') = fixtureVerdict (ntSrv w) 0 exps"
proof -
  let ?ctx = "WithTimeout BackgroundCtx 120000000000"
  obtain c1 w1 where c: "Connect netTransport (newClient host port rack slot) ?ctx w = (Ok (), c1, w1)" "attached c1 w1" "ntSrv w1 = ntSrv w"
    using newClient_net [OF assms(1,3-5)] by blast
  have "even (min 480 (cfgMaxPDUSize (svCfg (ntSrv w))))" using assms(2) by (simp add: min_def)
  then obtain r c2 w2 where r: "runSteps netTransport ?ctx host port rack slot results 0 exps c1 w1 = (Ok r, c2, w2)"
    "(map_option fst r, ntSrv w2) = fixtureVerdict (ntSrv w) 0 exps"
    using runSteps_net [OF c(2) refl _ _ assms(3-5), of exps host results 0 ?ctx] assms(7,8) unfolding c(3) by blast
  obtain c3 w3 where "Client_Close netTransport c2 w2 = (Ok (), c3, w3)" "ntSrv w3 = ntSrv w2" using Close_net by blast
  with c r show ?thesis by (simp add: runFixtureAgainst_def assms(6))
qed

text \<open>The fixture \<^verbatim>\<open>read-only-reject\<close> against a server whose data block is read-only: as the server named otfabric, for which
  the runner knows the difference, it passes; under another name its step 1 fails, since the server says write-protected.\<close>

definition readOnlyNet :: net where
  "readOnlyNet = demoNet\<lparr>ntSrv := (ntSrv demoNet)\<lparr>svMem := [\<lparr>akArea = 0x84, akDb = 1\<rparr> \<mapsto>
     \<lparr>rgData = [0xCA, 0xFE, 0xBA, 0xBE, 0], rgReadOnly = True\<rparr>]\<rparr>\<rparr>"

lemma readOnlyNet_facts:
  "server_ok (ntSrv readOnlyNet)" "cfgMaxPDUSize (svCfg (ntSrv readOnlyNet)) = 480"
  "Server_Read (ntSrv readOnlyNet) AreaDB 1 0 4 = Ok [0xCA, 0xFE, 0xBA, 0xBE]"
  "\<not> writable (ntSrv readOnlyNet) AreaDB 1"
  by (simp_all add: readOnlyNet_def demoNet_def demo_defs server_ok_def mem_ok_def key_ok_def demo_check)

lemma readOnlyNet_store:
  "hostStore (ntSrv readOnlyNet) AreaDB 1 0 [0xDE, 0xAD, 0xBE, 0xEF] = (OutcomeWriteProtected, ntSrv readOnlyNet)"
  using hostStore_refused [of "ntSrv readOnlyNet" AreaDB 1 0 "[0xDE, 0xAD, 0xBE, 0xEF]" RetCodeAccessFault]
  by (simp add: refusedWith_def readOnlyNet_facts classify_refused(2))

lemma readOnly_steps:
  "expectedSteps ''otfabric'' ''read-only-reject'' 0 (fxExpectations readOnlyFixture) = [plainStep,
     plainStep\<lparr>exOperation := ''rejected-write'', exLength := 0, exData := [0xDE, 0xAD, 0xBE, 0xEF],
         exWantOutcome := OutcomeWriteProtected, exWantBytes := [], exHasBytes := False\<rparr>, plainStep]"
  "expectedSteps ''snap7'' ''read-only-reject'' 0 (fxExpectations readOnlyFixture) = fxExpectations readOnlyFixture"
  by code_simp+

theorem fixture_shows_memory_witness:
  "(\<exists>w'. runFixtureAgainst netTransport ''otfabric'' ''plc'' 102 0 1 readOnlyFixture (\<lambda>_. []) readOnlyNet = (Ok None, w') \<and>
     ntSrv w' = ntSrv readOnlyNet) \<and>
   (\<exists>e w'. runFixtureAgainst netTransport ''snap7'' ''plc'' 102 0 1 readOnlyFixture (\<lambda>_. []) readOnlyNet = (Ok (Some (1, e)), w') \<and>
     ntSrv w' = ntSrv readOnlyNet)"
proof -
  define a where "a = plainStep\<lparr>exOperation := ''rejected-write'', exLength := 0, exData := [0xDE, 0xAD, 0xBE, 0xEF],
    exWantOutcome := OutcomeWriteProtected, exWantBytes := [], exHasBytes := False\<rparr>"
  define b where "b = plainStep\<lparr>exOperation := ''rejected-write'', exLength := 0, exData := [0xDE, 0xAD, 0xBE, 0xEF],
    exWantOutcome := OutcomeAddressOutOfRange, exWantBytes := [], exHasBytes := False\<rparr>"
  have id: "fxID readOnlyFixture = ''read-only-reject''" by (simp add: readOnlyFixture_def)
  have steps: "expectedSteps ''otfabric'' ''read-only-reject'' 0 (fxExpectations readOnlyFixture) = [plainStep, a, plainStep]"
    "expectedSteps ''snap7'' ''read-only-reject'' 0 (fxExpectations readOnlyFixture) = [plainStep, b, plainStep]"
    unfolding readOnly_steps a_def b_def by (simp_all add: readOnlyFixture_def)
  have rs: "ValidateRackSlot 0 1 = None" by (simp add: ValidateRackSlot_def)
  have cov: "covered 480 plainStep" "covered 480 a" "covered 480 b"
    by (simp_all add: covered_def a_def b_def plainStep_def readLength_def)
  have h: "stepHolds (ntSrv readOnlyNet) plainStep" "stepHolds (ntSrv readOnlyNet) a" "\<not> stepHolds (ntSrv readOnlyNet) b"
    "stepAfter (ntSrv readOnlyNet) plainStep = ntSrv readOnlyNet" "stepAfter (ntSrv readOnlyNet) a = ntSrv readOnlyNet"
    "stepAfter (ntSrv readOnlyNet) b = ntSrv readOnlyNet"
    by (simp_all add: stepHolds_def stepAfter_def hostRead_def hostWrite_def a_def b_def plainStep_def readLength_def modelAddress_def Let_def
        validateAddress_def validateRangeEnd_def readOnlyNet_facts readOnlyNet_store)
  have op: "exOperation plainStep \<noteq> ''concurrent-read''" "exOperation a \<noteq> ''concurrent-read''" "exOperation b \<noteq> ''concurrent-read''"
    by (simp_all add: plainStep_def a_def b_def)
  note run = fixture_shows_memory [where w = readOnlyNet and port = 102 and rack = 0 and slot = 1 and host = "''plc''" and
      fx = readOnlyFixture and results = "\<lambda>_. []", unfolded id]
  have 1: "\<exists>r w'. runFixtureAgainst netTransport ''otfabric'' ''plc'' 102 0 1 readOnlyFixture (\<lambda>_. []) readOnlyNet = (Ok r, w') \<and>
      (map_option fst r, ntSrv w') = fixtureVerdict (ntSrv readOnlyNet) 0 [plainStep, a, plainStep]"
    by (rule run) (use cov rs h op in \<open>simp_all add: readOnlyNet_facts steps\<close>)
  have 2: "\<exists>r w'. runFixtureAgainst netTransport ''snap7'' ''plc'' 102 0 1 readOnlyFixture (\<lambda>_. []) readOnlyNet = (Ok r, w') \<and>
      (map_option fst r, ntSrv w') = fixtureVerdict (ntSrv readOnlyNet) 0 [plainStep, b, plainStep]"
    by (rule run) (use cov rs h op in \<open>simp_all add: readOnlyNet_facts steps\<close>)
  from 1 2 h show ?thesis by fastforce
qed

end
