(* ===== verification/Interop_Harness.thy ===== *)
theory Interop_Harness
  imports Link_Interop
begin

text \<open>
  The part of the interoperability harness (\<^verbatim>\<open>interop/harness.go\<close>) that chooses the servers and waits for one to answer. The
  environment is a function from names to values (empty when not set), the clock a function from the number of readings
  to the time, and a failed test an error. Containers are started by other programs and are not modelled.
\<close>

section \<open>The servers\<close>

record serverEndpoint =
  seName :: string
  seHostPort :: int
  seImageEnv :: string
  seDefaultImage :: string
  seContainer :: string

abbreviation defaultNativeImage :: string where
  "defaultNativeImage \<equiv>
    ''ghcr.io/otfabric/snap7-interop-native@sha256:b2ac7b3d0d8cb1dc1ac5d7e465a118eb484a2506ea67b10be6ff7579ac5d5a97''"

abbreviation defaultPythonImage :: string where
  "defaultPythonImage \<equiv>
    ''ghcr.io/otfabric/snap7-interop-python@sha256:7b2d7691e6f4ea95af6699025ad31946c542f237af543ccae686f6fe79b5cd5e''"

abbreviation otfabric :: string where "otfabric \<equiv> ''otfabric''"

definition defaultServers :: "serverEndpoint list" where
  "defaultServers =
    [\<lparr>seName = ''native'', seHostPort = 1102, seImageEnv = ''SNAP_INTEROP_NATIVE_IMAGE'', seDefaultImage = defaultNativeImage,
       seContainer = ''''\<rparr>,
     \<lparr>seName = ''python'', seHostPort = 2102, seImageEnv = ''SNAP_INTEROP_PYTHON_IMAGE'', seDefaultImage = defaultPythonImage,
       seContainer = ''''\<rparr>]"

definition getenv :: "(string \<Rightarrow> string) \<Rightarrow> string \<Rightarrow> string \<Rightarrow> string" where
  "getenv env key def = (if env key \<noteq> '''' then env key else def)"

text \<open>\<^verbatim>\<open>strings.Split(s, ",")\<close>\<close>

fun splitComma :: "string \<Rightarrow> string list" where
  "splitComma [] = [[]]"
| "splitComma (c # cs) =
    (if c = CHR '','' then [] # splitComma cs
     else (case splitComma cs of [] \<Rightarrow> [[c]] | p # ps \<Rightarrow> (c # p) # ps))"

text \<open>\<^verbatim>\<open>want == strings.TrimSpace(name)\<close> for a name \<open>want\<close> that does not begin or end with white space\<close>

definition trimmedIs :: "string \<Rightarrow> string \<Rightarrow> bool" where
  "trimmedIs name want = list_ex (\<lambda>k. is_blank (take k name) \<and> take (length want) (drop k name) = want \<and>
     is_blank (drop (k + length want) name)) [0..<Suc (length name)]"

definition allServers :: "(string \<Rightarrow> string) \<Rightarrow> serverEndpoint list" where
  "allServers env =
    (let image = env ''SNAP_INTEROP_OTFABRIC_IMAGE'' in
     if image \<noteq> ''''
     then defaultServers @ [\<lparr>seName = otfabric, seHostPort = 3102, seImageEnv = ''SNAP_INTEROP_OTFABRIC_IMAGE'',
       seDefaultImage = image, seContainer = ''''\<rparr>]
     else defaultServers)"

fun restrictServers :: "serverEndpoint list \<Rightarrow> string list \<Rightarrow> serverEndpoint list res" where
  "restrictServers servers [] = Ok []"
| "restrictServers servers (name # names) =
    (let found = filter (\<lambda>s. trimmedIs name (seName s)) servers in
     if found = []
     then Err (OtherError (''SNAP_INTEROP_SERVERS: no server '' @ quoted name @ '' (otfabric needs SNAP_INTEROP_OTFABRIC_IMAGE)''))
     else bindR (restrictServers servers names) (\<lambda>rest. Ok (found @ rest)))"

definition selectedServers :: "(string \<Rightarrow> string) \<Rightarrow> serverEndpoint list res" where
  "selectedServers env =
    (let only = env ''SNAP_INTEROP_SERVERS'' in
     if only = '''' then Ok (allServers env) else restrictServers (allServers env) (splitComma only))"

section \<open>Waiting for a server\<close>

text \<open>The loop of \<^verbatim>\<open>waitS7Ready\<close> from the \<open>i\<close>-th reading of the clock; it need not end when the clock stands still.\<close>

partial_function (option) waitFrom :: "('w, 'r, 'c) transport \<Rightarrow> (nat \<Rightarrow> int) \<Rightarrow> string \<Rightarrow> int \<Rightarrow> int \<Rightarrow> go_error option \<Rightarrow> nat \<Rightarrow> 'w \<Rightarrow>
    (unit res \<times> 'w) option" where
  "waitFrom tr now host port deadline lastErr i w =
    (if now i < deadline then
      (let ctx = WithTimeout BackgroundCtx 2000000000 in
       case Connect tr (newClient host port 0 2) ctx w of
         (Panic, c, w) \<Rightarrow> Some (Panic, w)
       | (r, c, w) \<Rightarrow>
          (case Client_Close tr c w of
             (Panic, c, w) \<Rightarrow> Some (Panic, w)
           | (_, c, w) \<Rightarrow>
              (case r of
                 Err e \<Rightarrow>
                  (case trSleep tr w BackgroundCtx 300000000 of (_, w) \<Rightarrow> waitFrom tr now host port deadline (Some e) (i + 1) w)
               | _ \<Rightarrow> Some (Ok (), w))))
     else Some (Err (OtherError (''timeout waiting for S7 on '' @ host @ '':'' @ itoa port @ '': '' @ errText lastErr)), w))"

definition waitS7Ready :: "('w, 'r, 'c) transport \<Rightarrow> (nat \<Rightarrow> int) \<Rightarrow> string \<Rightarrow> int \<Rightarrow> int \<Rightarrow> 'w \<Rightarrow> (unit res \<times> 'w) option" where
  "waitS7Ready tr now host port timeout = waitFrom tr now host port (now 0 + timeout) None 1"

section \<open>Facts\<close>

lemma restrictServers_facts:
  "restrictServers servers names = Ok out \<Longrightarrow> set out \<subseteq> set servers \<and>
     (\<forall>name \<in> set names. \<exists>s \<in> set out. trimmedIs name (seName s))"
proof (induction names arbitrary: out)
  case (Cons name names)
  then obtain rest where r: "filter (\<lambda>s. trimmedIs name (seName s)) servers \<noteq> []" "restrictServers servers names = Ok rest"
    "out = filter (\<lambda>s. trimmedIs name (seName s)) servers @ rest"
    by (auto simp: Let_def bindR_eq_Ok split: if_splits)
  then show ?case using Cons.IH [OF r(2)] by (fastforce simp: filter_empty_conv)
qed simp

text \<open>Only known servers are chosen, each name asked for is among them, and the server of this repository is one only when an
  image of it was named.\<close>

lemma selectedServers_known:
  assumes "selectedServers env = Ok out"
  shows "set out \<subseteq> set (allServers env) \<and>
    (\<forall>s \<in> set out. seName s = otfabric \<longrightarrow> env ''SNAP_INTEROP_OTFABRIC_IMAGE'' \<noteq> '''' \<and> seDefaultImage s = env ''SNAP_INTEROP_OTFABRIC_IMAGE'') \<and>
    (env ''SNAP_INTEROP_SERVERS'' \<noteq> '''' \<longrightarrow>
      (\<forall>name \<in> set (splitComma (env ''SNAP_INTEROP_SERVERS'')). \<exists>s \<in> set out. trimmedIs name (seName s)))"
proof -
  have sub: "set out \<subseteq> set (allServers env)"
    using assms restrictServers_facts [of "allServers env" _ out] by (auto simp: selectedServers_def Let_def split: if_splits)
  then have "\<forall>s \<in> set out. seName s = otfabric \<longrightarrow>
      env ''SNAP_INTEROP_OTFABRIC_IMAGE'' \<noteq> '''' \<and> seDefaultImage s = env ''SNAP_INTEROP_OTFABRIC_IMAGE''"
    by (auto simp: allServers_def defaultServers_def Let_def split: if_splits)
  then show ?thesis
    using sub assms restrictServers_facts [of "allServers env" _ out] by (auto simp: selectedServers_def Let_def split: if_splits)
qed

text \<open>Waiting ends when the clock gets to the deadline, on any network.\<close>

lemma waitFrom_ends:
  assumes "deadline \<le> now (i + k)"
  shows "\<exists>r. waitFrom tr now host port deadline lastErr i w = Some r"
  using assms
proof (induction k arbitrary: i lastErr w)
  case 0
  then show ?case by (simp add: waitFrom.simps)
next
  case (Suc k)
  have ih: "\<exists>r. waitFrom tr now host port deadline lastErr (i + 1) w = Some r" for lastErr w
    using Suc.IH [of "i + 1"] Suc.prems by simp
  show ?case
    by (subst waitFrom.simps) (auto simp: Let_def ih [simplified] split: prod.split res.split)
qed

text \<open>The server of this repository is ready at the first attempt, and waiting for it leaves its memory as it is.\<close>

lemma waitS7Ready_server:
  assumes "server_ok (ntSrv w)" "0 \<le> port" "port \<le> 65535" "now 1 < now 0 + timeout"
  shows "\<exists>w'. waitS7Ready netTransport now host port timeout w = Some (Ok (), w') \<and> ntSrv w' = ntSrv w"
proof -
  have "ValidateRackSlot 0 2 = None" by (simp add: ValidateRackSlot_def)
  then obtain c1 w1 where c: "Connect netTransport (newClient host port 0 2) (WithTimeout BackgroundCtx 2000000000) w = (Ok (), c1, w1)"
    "ntSrv w1 = ntSrv w"
    using newClient_net [OF assms(1-3)] by blast
  obtain c2 w2 where "Client_Close netTransport c1 w1 = (Ok (), c2, w2)" "ntSrv w2 = ntSrv w1" using Close_net by blast
  with c assms(4) show ?thesis unfolding waitS7Ready_def by (subst waitFrom.simps) (simp add: Let_def)
qed

end
