(* ===== verification/Client_Compare.thy ===== *)
theory Client_Compare
  imports Client_Scan
begin

text \<open>
  The comparison of rack and slot candidates with any parallelism (\<^verbatim>\<open>client/compare.go\<close>, \<^verbatim>\<open>CompareRead\<close>): the main loop and the
  goroutines of the candidates as a step relation. \<open>compareOne\<close> of \<open>Client_Scan\<close> is the body of a goroutine; its
  outcome is a parameter here. Under every interleaving the comparison ends, has a result for each candidate in order,
  and never holds more connections than its parallelism.
\<close>

section \<open>The goroutines\<close>

definition parallelismOf :: "CompareReadRequest \<Rightarrow> int" where
  "parallelismOf req = (if cqParallelism req \<le> 0 then 1 else cqParallelism req)"

text \<open>
  The index of the next candidate, whether the loop was left, the candidates whose goroutines run (each holds a place of
  the semaphore), the results (\<^const>\<open>None\<close> is the zero value of the slice) and the error of the context once it has
  ended. A goroutine stores its result and releases its place in one step: nothing looks at the results before all have
  ended.
\<close>

record comparing =
  cmNext :: nat
  cmLeft :: bool
  cmRunning :: "nat list"
  cmResults :: "CompareReadCandidate option list"
  cmCtxErr :: "go_error option"

definition compareStart :: "CompareReadRequest \<Rightarrow> comparing" where
  "compareStart req = \<lparr>cmNext = 0, cmLeft = False, cmRunning = [], cmResults = replicate (length (cqCandidates req)) None,
     cmCtxErr = None\<rparr>"

type_synonym compare_outcome = "CompareReadRequest \<Rightarrow> RackSlot \<Rightarrow> CompareReadCandidate \<Rightarrow> bool"

inductive compare_step :: "compare_outcome \<Rightarrow> CompareReadRequest \<Rightarrow> comparing \<Rightarrow> comparing \<Rightarrow> bool" for outcome req where
  loop_over: "\<not> cmLeft s \<Longrightarrow> length (cqCandidates req) \<le> cmNext s \<Longrightarrow> compare_step outcome req s (s\<lparr>cmLeft := True\<rparr>)"
| acquire: "\<not> cmLeft s \<Longrightarrow> cmNext s < length (cqCandidates req) \<Longrightarrow> int (length (cmRunning s)) < parallelismOf req \<Longrightarrow>
    compare_step outcome req s (s\<lparr>cmNext := cmNext s + 1, cmRunning := cmNext s # cmRunning s\<rparr>)"
| ctx_done: "\<not> cmLeft s \<Longrightarrow> cmNext s < length (cqCandidates req) \<Longrightarrow> cmCtxErr s = Some e \<Longrightarrow>
    compare_step outcome req s (s\<lparr>cmLeft := True, cmResults := take (cmNext s) (cmResults s) @
      map (\<lambda>x. Some (compareCandidateFailure x (cqSize req) e)) (drop (cmNext s) (cqCandidates req))\<rparr>)"
| one_over: "i \<in> set (cmRunning s) \<Longrightarrow> outcome req (cqCandidates req ! i) r \<Longrightarrow>
    compare_step outcome req s (s\<lparr>cmRunning := remove1 i (cmRunning s), cmResults := (cmResults s)[i := Some r]\<rparr>)"
| ctx_ends: "cmCtxErr s = None \<Longrightarrow> compare_step outcome req s (s\<lparr>cmCtxErr := Some e\<rparr>)"

text \<open>What a comparison returns, and the error its context had ended with by then.\<close>

inductive CompareReads :: "compare_outcome \<Rightarrow> CompareReadRequest \<Rightarrow> CompareReadResult res \<Rightarrow> go_error option \<Rightarrow> bool"
  for outcome req where
  refused: "validateCompareReadRequest req = Some e \<Longrightarrow> CompareReads outcome req (Err e) None"
| no_reads: "validateCompareReadRequest req = None \<Longrightarrow> cqCandidates req = [] \<Longrightarrow>
    CompareReads outcome req (Ok \<lparr>crRequest = req, crByCandidate = [], crRackSlotInsensitive = False\<rparr>) None"
| all_over: "validateCompareReadRequest req = None \<Longrightarrow> cqCandidates req \<noteq> [] \<Longrightarrow>
    (compare_step outcome req)\<^sup>*\<^sup>* (compareStart req) s \<Longrightarrow> cmLeft s \<Longrightarrow> cmRunning s = [] \<Longrightarrow> cmResults s = map Some rs \<Longrightarrow>
    CompareReads outcome req (Ok \<lparr>crRequest = req, crByCandidate = rs, crRackSlotInsensitive = insensitive rs\<rparr>) (cmCtxErr s)"

section \<open>Facts about every interleaving\<close>

text \<open>Goroutines run for candidates before the next one, each once; a candidate before the next one that does not run
  has its outcome; once the loop was left early, the others carry the error of the context.\<close>

definition comparing_ok :: "compare_outcome \<Rightarrow> CompareReadRequest \<Rightarrow> comparing \<Rightarrow> bool" where
  "comparing_ok outcome req s \<longleftrightarrow> length (cmResults s) = length (cqCandidates req) \<and> cmNext s \<le> length (cqCandidates req) \<and>
     distinct (cmRunning s) \<and> set (cmRunning s) \<subseteq> {..<cmNext s} \<and> int (length (cmRunning s)) \<le> parallelismOf req \<and>
     (\<forall>i < cmNext s. i \<notin> set (cmRunning s) \<longrightarrow> (\<exists>r. cmResults s ! i = Some r \<and> outcome req (cqCandidates req ! i) r)) \<and>
     (cmLeft s \<longrightarrow> cmNext s = length (cqCandidates req) \<or>
       (\<exists>e. cmCtxErr s = Some e \<and> (\<forall>i. cmNext s \<le> i \<and> i < length (cqCandidates req) \<longrightarrow>
          cmResults s ! i = Some (compareCandidateFailure (cqCandidates req ! i) (cqSize req) e))))"

lemma parallelismOf_pos: "1 \<le> parallelismOf req"
  by (simp add: parallelismOf_def)

lemma comparing_ok_start: "comparing_ok outcome req (compareStart req)"
  using parallelismOf_pos [of req] by (simp add: comparing_ok_def compareStart_def)

lemma comparing_ok_step:
  assumes "compare_step outcome req s s'" "comparing_ok outcome req s"
  shows "comparing_ok outcome req s'"
  using assms
proof cases
  case acquire
  then show ?thesis using assms(2) by (auto simp: comparing_ok_def less_Suc_eq)
next
  case (ctx_done e)
  then show ?thesis using assms(2) by (auto simp: comparing_ok_def nth_append)
next
  case (one_over i r)
  then have "i < cmNext s" "length (cmRunning s) \<noteq> 0" using assms(2) by (auto simp: comparing_ok_def)
  with one_over assms(2) show ?thesis
    by (auto simp: comparing_ok_def nth_list_update length_remove1 set_remove1_eq)
qed (auto simp: comparing_ok_def)

lemma comparing_ok_reachable:
  "(compare_step outcome req)\<^sup>*\<^sup>* (compareStart req) s \<Longrightarrow> comparing_ok outcome req s"
  by (induction rule: rtranclp_induct) (auto intro: comparing_ok_start comparing_ok_step)

text \<open>The steps that are left.\<close>

definition compareWork :: "CompareReadRequest \<Rightarrow> comparing \<Rightarrow> nat" where
  "compareWork req s = 2 * (length (cqCandidates req) - cmNext s) + length (cmRunning s) +
     (if cmLeft s then 0 else 1) + (if cmCtxErr s = None then 1 else 0)"

lemma compareWork_step:
  assumes "compare_step outcome req s s'"
  shows "compareWork req s' < compareWork req s"
  using assms
proof cases
  case (one_over i r)
  then have "length (cmRunning s) \<noteq> 0" by auto
  with one_over show ?thesis by (simp add: compareWork_def length_remove1)
qed (auto simp: compareWork_def)

lemma compareWork_steps:
  "(compare_step outcome req ^^ n) (compareStart req) s \<Longrightarrow> n + compareWork req s \<le> 2 * length (cqCandidates req) + 2"
proof (induction n arbitrary: s)
  case 0
  then have "s = compareStart req" by simp
  then show ?case by (simp add: compareWork_def compareStart_def)
next
  case (Suc n)
  then obtain s1 where "(compare_step outcome req ^^ n) (compareStart req) s1" "compare_step outcome req s1 s" by auto
  with Suc.IH compareWork_step show ?case by fastforce
qed

lemma compare_progress:
  assumes "comparing_ok outcome req s" "\<And>cand. cand \<in> set (cqCandidates req) \<Longrightarrow> \<exists>r. outcome req cand r"
  shows "cmLeft s \<and> cmRunning s = [] \<or> (\<exists>s'. compare_step outcome req s s' \<and> cmCtxErr s' = cmCtxErr s)"
proof (cases "cmRunning s")
  case Nil
  then show ?thesis
    using parallelismOf_pos [of req] compare_step.loop_over [of s req outcome] compare_step.acquire [of s req outcome]
    by (cases "cmNext s < length (cqCandidates req)") fastforce+
next
  case (Cons i rest)
  then have "i < length (cqCandidates req)" using assms(1) by (auto simp: comparing_ok_def)
  then obtain r where "outcome req (cqCandidates req ! i) r" using assms(2) nth_mem by blast
  with Cons compare_step.one_over [of i s outcome req r] show ?thesis by fastforce
qed

text \<open>A run whose context does not end gets to its end.\<close>

lemma compare_runs:
  assumes "\<And>cand. cand \<in> set (cqCandidates req) \<Longrightarrow> \<exists>r. outcome req cand r"
  shows "\<exists>s. (compare_step outcome req)\<^sup>*\<^sup>* (compareStart req) s \<and> cmLeft s \<and> cmRunning s = [] \<and> cmCtxErr s = None"
proof -
  have run: "\<exists>s'. (compare_step outcome req)\<^sup>*\<^sup>* (compareStart req) s' \<and> cmLeft s' \<and> cmRunning s' = [] \<and> cmCtxErr s' = None"
    if "(compare_step outcome req)\<^sup>*\<^sup>* (compareStart req) s" "cmCtxErr s = None" for s
    using that
  proof (induction "compareWork req s" arbitrary: s rule: less_induct)
    case less
    from compare_progress [where outcome = outcome and req = req, OF comparing_ok_reachable [OF less.prems(1)] assms] show ?case
    proof
      assume "cmLeft s \<and> cmRunning s = []"
      with less.prems show ?thesis by blast
    next
      assume "\<exists>s'. compare_step outcome req s s' \<and> cmCtxErr s' = cmCtxErr s"
      then obtain s' where "compare_step outcome req s s'" "cmCtxErr s' = None" using less.prems(2) by auto
      with less show ?thesis using compareWork_step rtranclp.rtrancl_into_rtrancl by metis
    qed
  qed
  have "cmCtxErr (compareStart req) = None" by (simp add: compareStart_def)
  with run [OF rtranclp.rtrancl_refl] show ?thesis by blast
qed

lemma compare_over:
  assumes "(compare_step outcome req)\<^sup>*\<^sup>* (compareStart req) s" "cmLeft s" "cmRunning s = []"
  shows "\<exists>rs. cmResults s = map Some rs \<and> length rs = length (cqCandidates req) \<and>
    (\<forall>i < length rs. outcome req (cqCandidates req ! i) (rs ! i) \<or>
      (\<exists>e. cmCtxErr s = Some e \<and> rs ! i = compareCandidateFailure (cqCandidates req ! i) (cqSize req) e))"
proof -
  have ok: "comparing_ok outcome req s" using assms(1) by (rule comparing_ok_reachable)
  have each: "\<exists>r. cmResults s ! i = Some r \<and> (outcome req (cqCandidates req ! i) r \<or>
      (\<exists>e. cmCtxErr s = Some e \<and> r = compareCandidateFailure (cqCandidates req ! i) (cqSize req) e))"
    if "i < length (cqCandidates req)" for i
    using ok assms(2,3) that by (cases "i < cmNext s") (auto simp: comparing_ok_def)
  have len: "length (cmResults s) = length (cqCandidates req)" using ok by (simp add: comparing_ok_def)
  then have "cmResults s = map Some (map the (cmResults s))"
    using each by (intro nth_equalityI) force+
  moreover have "outcome req (cqCandidates req ! i) (map the (cmResults s) ! i) \<or>
      (\<exists>e. cmCtxErr s = Some e \<and> map the (cmResults s) ! i = compareCandidateFailure (cqCandidates req ! i) (cqSize req) e)"
    if "i < length (cmResults s)" for i
    using each [of i] that len by auto
  ultimately show ?thesis using len by (intro exI [of _ "map the (cmResults s)"]) simp
qed

text \<open>A comparison ends under every interleaving: at most two steps per candidate and two more; it never waits for ever,
  never holds more connections than its parallelism, and returns. The results are in the order of the candidates: each is
  the outcome of the candidate's own read, or the failure with the error of the context when that ended before the
  candidate was started.\<close>

lemma CompareReads_interleaved:
  assumes "validateCompareReadRequest req = None" "\<And>cand. cand \<in> set (cqCandidates req) \<Longrightarrow> \<exists>r. outcome req cand r"
  shows "(\<forall>n s. (compare_step outcome req ^^ n) (compareStart req) s \<longrightarrow> n \<le> 2 * length (cqCandidates req) + 2) \<and>
    (\<forall>s. (compare_step outcome req)\<^sup>*\<^sup>* (compareStart req) s \<longrightarrow> int (length (cmRunning s)) \<le> parallelismOf req \<and>
      (cmLeft s \<and> cmRunning s = [] \<or> (\<exists>s'. compare_step outcome req s s' \<and> cmCtxErr s' = cmCtxErr s))) \<and>
    (\<exists>out. CompareReads outcome req (Ok out) None) \<and>
    (\<forall>out err. CompareReads outcome req (Ok out) err \<longrightarrow> crRequest out = req \<and>
      list_all2 (\<lambda>cand r. outcome req cand r \<or> (\<exists>e. err = Some e \<and> r = compareCandidateFailure cand (cqSize req) e))
        (cqCandidates req) (crByCandidate out) \<and>
      crRackSlotInsensitive out = insensitive (crByCandidate out))"
proof (intro conjI allI impI)
  show "n \<le> 2 * length (cqCandidates req) + 2" if "(compare_step outcome req ^^ n) (compareStart req) s" for n s
    using compareWork_steps [OF that] by simp
  show "int (length (cmRunning s)) \<le> parallelismOf req"
    "cmLeft s \<and> cmRunning s = [] \<or> (\<exists>s'. compare_step outcome req s s' \<and> cmCtxErr s' = cmCtxErr s)"
    if "(compare_step outcome req)\<^sup>*\<^sup>* (compareStart req) s" for s
    using comparing_ok_reachable [OF that] compare_progress [where outcome = outcome and req = req and s = s, OF _ assms(2)] by (auto simp: comparing_ok_def)
  show "\<exists>out. CompareReads outcome req (Ok out) None"
  proof (cases "cqCandidates req = []")
    case True
    then show ?thesis using no_reads [OF assms(1)] by blast
  next
    case False
    obtain s where s: "(compare_step outcome req)\<^sup>*\<^sup>* (compareStart req) s" "cmLeft s" "cmRunning s = []" "cmCtxErr s = None"
      using compare_runs [where outcome = outcome and req = req, OF assms(2)] by blast
    then show ?thesis using all_over [OF assms(1) False s(1-3)] compare_over [OF s(1-3)] by auto
  qed
  fix out err
  assume "CompareReads outcome req (Ok out) err"
  then have "crRequest out = req \<and>
      list_all2 (\<lambda>cand r. outcome req cand r \<or> (\<exists>e. err = Some e \<and> r = compareCandidateFailure cand (cqSize req) e))
        (cqCandidates req) (crByCandidate out) \<and> crRackSlotInsensitive out = insensitive (crByCandidate out)"
  proof cases
    case (all_over s rs)
    obtain rs' where "cmResults s = map Some rs'" "length rs' = length (cqCandidates req)"
      "\<forall>i < length rs'. outcome req (cqCandidates req ! i) (rs' ! i) \<or>
        (\<exists>e. cmCtxErr s = Some e \<and> rs' ! i = compareCandidateFailure (cqCandidates req ! i) (cqSize req) e)"
      using compare_over [OF all_over(5-7)] by blast
    moreover from this(1) all_over have "rs' = rs" by (simp add: inj_map_eq_map)
    ultimately show ?thesis using all_over(1,2) by (auto simp: list_all2_conv_all_nth)
  qed (simp add: insensitive_def)
  then show "crRequest out = req"
    "list_all2 (\<lambda>cand r. outcome req cand r \<or> (\<exists>e. err = Some e \<and> r = compareCandidateFailure cand (cqSize req) e))
      (cqCandidates req) (crByCandidate out)"
    "crRackSlotInsensitive out = insensitive (crByCandidate out)" by simp_all
qed

end
