(* ===== verification/Link_Compare.thy ===== *)
theory Link_Compare
  imports Link_Scan Client_Compare
begin

text \<open>
  Comparisons with any parallelism against the server. Each goroutine works on its own connection; whatever the others do in
  between, the server it sees has the same memory, since a comparison only reads.
\<close>

definition servedCompare :: "go_ctx \<Rightarrow> Server \<Rightarrow> compare_outcome" where
  "servedCompare ctx srv req cand r \<longleftrightarrow>
     (\<exists>w w'. ntSrv w = srv \<and> compareOne netTransport ctx req cand w = (Ok r, w'))"

lemma servedCompare_facts:
  assumes "server_ok (ntSrv w)" "validateCompareReadRequest req = None" "cqPort req \<le> 65535" "cand \<in> set (cqCandidates req)"
    "validateAddress (compareAddress req) = None" "validateRangeEnd (cqOffset req) (cqSize req) = None" "0 < cqSize req"
  shows "\<exists>r. servedCompare ctx (ntSrv w) req cand r"
    "servedCompare ctx (ntSrv w) req cand r \<Longrightarrow> shows_memory w req r \<and> ccRack r = rkRack cand \<and> ccSlot r = rkSlot cand"
proof -
  have v: "cqPort req \<in> {0..65535}" "0 \<le> cqTimeout req" "invalidCandidate 0 (cqCandidates req) = None"
    using assms(2,3) by (simp_all add: validateCompareReadRequest_def split: if_splits)
  note one = compareOne_net [OF _ v(1,2) invalidCandidate_None [OF v(3) assms(4)] assms(5-7), of _ ctx]
  show "\<exists>r. servedCompare ctx (ntSrv w) req cand r" using one [OF assms(1)] unfolding servedCompare_def by blast
  assume "servedCompare ctx (ntSrv w) req cand r"
  then obtain u u' where u: "ntSrv u = ntSrv w" "compareOne netTransport ctx req cand u = (Ok r, u')"
    unfolding servedCompare_def by blast
  then show "shows_memory w req r \<and> ccRack r = rkRack cand \<and> ccSlot r = rkSlot cand"
    using one [of u] assms(1) shows_memory_cong [OF u(1)] by auto
qed

lemma insensitive_shows_memory:
  assumes "list_all (shows_memory w req) rs"
  shows "insensitive rs \<longleftrightarrow> 2 \<le> length rs \<and> netGet w (cqArea req) (cqDBNumber req) (cqOffset req) (cqSize req) \<noteq> None"
  using assms by (cases rs) (auto simp: insensitive_iff insensitive_def shows_memory_def list_all_iff split: option.splits)

text \<open>C7 Comparing candidates on the server never misleads, whatever the parallelism and the interleaving: the server ignores rack
  and slot, so while the context lives every candidate is reported in order with the bytes of the host-side read, or as
  rejected when the span is not readable; the device is called insensitive exactly when there are two or more candidates and the
  span is readable. The comparison takes at most two steps per candidate and two more, never waits for ever, never holds more
  connections than its parallelism, and returns.\<close>

theorem compare_server:
  assumes "server_ok (ntSrv w)" "validateCompareReadRequest req = None" "cqPort req \<le> 65535"
    "validateAddress (compareAddress req) = None" "validateRangeEnd (cqOffset req) (cqSize req) = None" "0 < cqSize req"
    "outcome = servedCompare ctx (ntSrv w)"
  shows "(\<forall>n s. (compare_step outcome req ^^ n) (compareStart req) s \<longrightarrow> n \<le> 2 * length (cqCandidates req) + 2) \<and>
    (\<forall>s. (compare_step outcome req)\<^sup>*\<^sup>* (compareStart req) s \<longrightarrow> int (length (cmRunning s)) \<le> parallelismOf req \<and>
      (cmLeft s \<and> cmRunning s = [] \<or> (\<exists>s'. compare_step outcome req s s' \<and> cmCtxErr s' = cmCtxErr s))) \<and>
    (\<exists>out. CompareReads outcome req (Ok out) None) \<and>
    (\<forall>out. CompareReads outcome req (Ok out) None \<longrightarrow>
      map (\<lambda>r. (ccRack r, ccSlot r)) (crByCandidate out) = map (\<lambda>x. (rkRack x, rkSlot x)) (cqCandidates req) \<and>
      list_all (shows_memory w req) (crByCandidate out) \<and>
      (crRackSlotInsensitive out \<longleftrightarrow> 2 \<le> length (cqCandidates req) \<and>
         netGet w (cqArea req) (cqDBNumber req) (cqOffset req) (cqSize req) \<noteq> None))"
proof -
  have total: "\<exists>r. outcome req cand r" if "cand \<in> set (cqCandidates req)" for cand
    unfolding assms(7) by (rule servedCompare_facts(1) [OF assms(1-3) that assms(4-6)])
  note all = CompareReads_interleaved [where outcome = outcome and req = req, OF assms(2) total]
  have each: "map (\<lambda>r. (ccRack r, ccSlot r)) (crByCandidate out) = map (\<lambda>x. (rkRack x, rkSlot x)) (cqCandidates req) \<and>
      list_all (shows_memory w req) (crByCandidate out) \<and>
      (crRackSlotInsensitive out \<longleftrightarrow> 2 \<le> length (cqCandidates req) \<and>
         netGet w (cqArea req) (cqDBNumber req) (cqOffset req) (cqSize req) \<noteq> None)"
    if "CompareReads outcome req (Ok out) None" for out
  proof -
    have out: "list_all2 (\<lambda>cand r. outcome req cand r) (cqCandidates req) (crByCandidate out)"
      "crRackSlotInsensitive out = insensitive (crByCandidate out)"
      using conjunct2 [OF conjunct2 [OF conjunct2 [OF all]], rule_format, OF _ that] by simp_all
    then have nth: "length (crByCandidate out) = length (cqCandidates req)"
      "\<And>i. i < length (cqCandidates req) \<Longrightarrow> outcome req (cqCandidates req ! i) (crByCandidate out ! i)"
      by (simp_all add: list_all2_conv_all_nth)
    have r: "shows_memory w req (crByCandidate out ! i) \<and> ccRack (crByCandidate out ! i) = rkRack (cqCandidates req ! i) \<and>
        ccSlot (crByCandidate out ! i) = rkSlot (cqCandidates req ! i)" if "i < length (cqCandidates req)" for i
      using servedCompare_facts(2) [OF assms(1-3) nth_mem [OF that] assms(4-6)] nth(2) [OF that] unfolding assms(7) by blast
    have "list_all (shows_memory w req) (crByCandidate out)" using r nth(1) by (simp add: list_all_length)
    moreover have "map (\<lambda>r. (ccRack r, ccSlot r)) (crByCandidate out) = map (\<lambda>x. (rkRack x, rkSlot x)) (cqCandidates req)"
      using r nth(1) by (intro nth_equalityI) simp_all
    ultimately show ?thesis using insensitive_shows_memory [of w req "crByCandidate out"] out(2) nth(1) by simp
  qed
  from all each show ?thesis by blast
qed

theorem compare_server_witness:
  "\<exists>out. CompareReads (servedCompare CallerCtx (ntSrv demoNet)) (demoCompare\<lparr>cqParallelism := 2\<rparr>) (Ok out) None \<and>
     crRackSlotInsensitive out \<and> map (\<lambda>r. rsData (ccResult r)) (crByCandidate out) = [[1, 2, 3, 4], [1, 2, 3, 4]]"
proof -
  let ?q = "demoCompare\<lparr>cqParallelism := 2\<rparr>"
  have get: "netGet demoNet AreaDB 1 0 4 = Some [1, 2, 3, 4]" by (simp add: netGet_eq_Some demo_check)
  have sel: "cqArea ?q = AreaDB" "cqDBNumber ?q = 1" "cqOffset ?q = 0" "cqSize ?q = 4" "cqPort ?q = 0"
    "cqCandidates ?q = [\<lparr>rkRack = 0, rkSlot = 1\<rparr>, \<lparr>rkRack = 0, rkSlot = 2\<rparr>]"
    by (simp_all add: demoCompare_def)
  have v: "validateCompareReadRequest ?q = None" 
    by (simp add: validateCompareReadRequest_def demoCompare_def is_blank_def wide_space_def ValidateRackSlot_def)
  have c: "cqPort ?q \<le> 65535" "validateAddress (compareAddress ?q) = None" "validateRangeEnd (cqOffset ?q) (cqSize ?q) = None" "0 < cqSize ?q"
    by (simp_all add: sel validateAddress_def validateRangeEnd_def)
  note all = compare_server [OF demoNet_facts(5) v c refl, of CallerCtx]
  obtain out where out: "CompareReads (servedCompare CallerCtx (ntSrv demoNet)) ?q (Ok out) None" using all by blast
  then have o: "map (\<lambda>r. (ccRack r, ccSlot r)) (crByCandidate out) = [(0, 1), (0, 2)]"
    "list_all (shows_memory demoNet ?q) (crByCandidate out)" "crRackSlotInsensitive out"
    using all unfolding sel get by auto
  obtain a b where "crByCandidate out = [a, b]" using o(1) by (auto simp: map_eq_Cons_conv)
  then show ?thesis using out o(2,3) by (intro exI [of _ out]) (auto simp: shows_memory_def sel get)
qed

end
