(* ===== verification/Server_Lifecycle.thy ===== *)
theory Server_Lifecycle
  imports Server_Session
begin

text \<open>
  The life of a server (\<^verbatim>\<open>server/server.go\<close>): goroutines that accept on listeners, one goroutine per
  connection, the bound on connections, and shutdown. The session a connection runs is
  \<open>Server_Session.serveRequests\<close>; here a connection is served or not.

  A state holds what the goroutines share (the closed flag, the listener and connection tables,
  the slot channel as the number of tokens in it, the wait group's counter), which sockets are
  open, and the goroutines themselves as a list of program points. A step runs one goroutine up
  to its next access to shared state: a section under the mutex is one step, as is each channel
  operation, wait group operation and socket call outside it. Any goroutine may run next.

  Steps of the environment are calls of \<^verbatim>\<open>Serve\<close> and \<^verbatim>\<open>Close\<close> and the end of a context. Whether a
  listener delivers a connection, a time-out or an error, and when a connection ends, is open:
  every outcome the socket allows is a step. A context belongs to the \<^verbatim>\<open>Serve\<close> call it was passed
  to and is named by its listener.
\<close>

section \<open>State\<close>

datatype outcome = ServerClosed | ContextError | AcceptError

datatype proc =
    Tracking nat            \<comment> \<open>\<^verbatim>\<open>Serve\<close> was called with the listener\<close>
  | Rejecting nat           \<comment> \<open>\<^verbatim>\<open>track\<close> failed\<close>
  | Accepting nat           \<comment> \<open>at \<^verbatim>\<open>ln.Accept\<close>\<close>
  | AcceptFailed nat bool   \<comment> \<open>with an error, a time-out or not\<close>
  | AcceptChecked nat bool  \<comment> \<open>the context has not ended\<close>
  | Offered nat nat         \<comment> \<open>at the \<^verbatim>\<open>select\<close> with a new connection\<close>
  | TurnedAway nat nat      \<comment> \<open>no slot is free\<close>
  | Slotted nat nat         \<comment> \<open>before \<^verbatim>\<open>addConn\<close>\<close>
  | Undoing nat nat         \<comment> \<open>\<^verbatim>\<open>addConn\<close> failed\<close>
  | Dropping nat nat        \<comment> \<open>the slot is given back\<close>
  | Admitted nat nat        \<comment> \<open>before \<^verbatim>\<open>wg.Go\<close>\<close>
  | Leaving nat outcome     \<comment> \<open>returning, before \<^verbatim>\<open>stop\<close>\<close>
  | Untracking nat outcome  \<comment> \<open>before \<^verbatim>\<open>untrack\<close>\<close>
  | Unlistening nat outcome \<comment> \<open>before \<^verbatim>\<open>ln.Close\<close> in \<^verbatim>\<open>untrack\<close>\<close>
  | Returned outcome        \<comment> \<open>\<^verbatim>\<open>Serve\<close> has returned\<close>
  | Serving nat             \<comment> \<open>in \<^verbatim>\<open>serveConn\<close>\<close>
  | Removing nat            \<comment> \<open>before \<^verbatim>\<open>removeConn\<close>\<close>
  | Hanging nat             \<comment> \<open>before \<^verbatim>\<open>c.Close\<close> in \<^verbatim>\<open>removeConn\<close>\<close>
  | Releasing               \<comment> \<open>before the slot is given back\<close>
  | Finishing               \<comment> \<open>before the wait group counts down\<close>
  | Ended
  | Closing                 \<comment> \<open>\<^verbatim>\<open>Close\<close> was called\<close>
  | CloseWaiting            \<comment> \<open>at \<^verbatim>\<open>wg.Wait\<close>\<close>
  | CloseDone               \<comment> \<open>\<^verbatim>\<open>Close\<close> has returned\<close>

record lifecycle =
  lcClosed :: bool
  lcListeners :: "nat set"
  lcConns :: "nat set"
  lcSlots :: nat
  lcWait :: nat
  lcOpenLns :: "nat set"
  lcOpenConns :: "nat set"
  lcCtxEnded :: "nat set"
  lcHooks :: "nat set"
  lcProcs :: "proc list"
  lcFresh :: nat

definition initial :: lifecycle where
  "initial = \<lparr>lcClosed = False, lcListeners = {}, lcConns = {}, lcSlots = 0, lcWait = 0, lcOpenLns = {},
     lcOpenConns = {}, lcCtxEnded = {}, lcHooks = {}, lcProcs = [], lcFresh = 0\<rparr>"

section \<open>Sections under the mutex and socket calls\<close>

definition isClosed :: "lifecycle \<Rightarrow> bool" where
  "isClosed s = lcClosed s"

definition track :: "nat \<Rightarrow> lifecycle \<Rightarrow> bool \<times> lifecycle" where
  "track ln s = (if lcClosed s then (False, s) else (True, s\<lparr>lcListeners := insert ln (lcListeners s)\<rparr>))"

definition untrack :: "nat \<Rightarrow> lifecycle \<Rightarrow> lifecycle" where
  "untrack ln s = s\<lparr>lcListeners := lcListeners s - {ln}\<rparr>"

definition addConn :: "nat \<Rightarrow> lifecycle \<Rightarrow> bool \<times> lifecycle" where
  "addConn c s = (if lcClosed s then (False, s) else (True, s\<lparr>lcConns := insert c (lcConns s)\<rparr>))"

definition removeConn :: "nat \<Rightarrow> lifecycle \<Rightarrow> lifecycle" where
  "removeConn c s = s\<lparr>lcConns := lcConns s - {c}\<rparr>"

definition closeAll :: "lifecycle \<Rightarrow> lifecycle" where
  "closeAll s = s\<lparr>lcClosed := True, lcOpenLns := lcOpenLns s - lcListeners s,
     lcOpenConns := lcOpenConns s - lcConns s\<rparr>"

definition closeLn :: "nat \<Rightarrow> lifecycle \<Rightarrow> lifecycle" where
  "closeLn ln s = s\<lparr>lcOpenLns := lcOpenLns s - {ln}\<rparr>"

definition closeConn :: "nat \<Rightarrow> lifecycle \<Rightarrow> lifecycle" where
  "closeConn c s = s\<lparr>lcOpenConns := lcOpenConns s - {c}\<rparr>"

section \<open>Steps\<close>

definition running :: "nat \<Rightarrow> proc \<Rightarrow> lifecycle \<Rightarrow> bool" where
  "running i p s \<longleftrightarrow> i < length (lcProcs s) \<and> lcProcs s ! i = p"

definition goto :: "nat \<Rightarrow> proc \<Rightarrow> lifecycle \<Rightarrow> lifecycle" where
  "goto i p s = s\<lparr>lcProcs := (lcProcs s)[i := p]\<rparr>"

definition spawn :: "proc \<Rightarrow> lifecycle \<Rightarrow> lifecycle" where
  "spawn p s = s\<lparr>lcProcs := lcProcs s @ [p]\<rparr>"

text \<open>The body of \<^verbatim>\<open>Serve\<close>, step by step.\<close>

inductive serve_step :: "nat \<Rightarrow> lifecycle \<Rightarrow> lifecycle \<Rightarrow> bool" for limit where
  track_ok: "running i (Tracking ln) s \<Longrightarrow> track ln s = (True, s') \<Longrightarrow>
    serve_step limit s (goto i (Accepting ln) (s'\<lparr>lcHooks := insert ln (lcHooks s')\<rparr>))"
| track_closed: "running i (Tracking ln) s \<Longrightarrow> track ln s = (False, s') \<Longrightarrow>
    serve_step limit s (goto i (Rejecting ln) s')"
| reject: "running i (Rejecting ln) s \<Longrightarrow> serve_step limit s (goto i (Returned ServerClosed) (closeLn ln s))"
| accept: "running i (Accepting ln) s \<Longrightarrow> ln \<in> lcOpenLns s \<Longrightarrow> c = lcFresh s \<Longrightarrow>
    serve_step limit s (goto i (Offered ln c) (s\<lparr>lcOpenConns := insert c (lcOpenConns s), lcFresh := Suc c\<rparr>))"
| accept_error: "running i (Accepting ln) s \<Longrightarrow> (timeout \<Longrightarrow> ln \<in> lcOpenLns s) \<Longrightarrow>
    serve_step limit s (goto i (AcceptFailed ln timeout) s)"
| ctx_ended: "running i (AcceptFailed ln timeout) s \<Longrightarrow> ln \<in> lcCtxEnded s \<Longrightarrow>
    serve_step limit s (goto i (Leaving ln ContextError) s)"
| ctx_running: "running i (AcceptFailed ln timeout) s \<Longrightarrow> ln \<notin> lcCtxEnded s \<Longrightarrow>
    serve_step limit s (goto i (AcceptChecked ln timeout) s)"
| after_error: "running i (AcceptChecked ln timeout) s \<Longrightarrow>
    serve_step limit s (goto i (if isClosed s then Leaving ln ServerClosed
      else if timeout then Accepting ln else Leaving ln AcceptError) s)"
| slot: "running i (Offered ln c) s \<Longrightarrow> lcSlots s < limit \<Longrightarrow>
    serve_step limit s (goto i (Slotted ln c) (s\<lparr>lcSlots := lcSlots s + 1\<rparr>))"
| no_slot: "running i (Offered ln c) s \<Longrightarrow> limit \<le> lcSlots s \<Longrightarrow> serve_step limit s (goto i (TurnedAway ln c) s)"
| turn_away: "running i (TurnedAway ln c) s \<Longrightarrow> serve_step limit s (goto i (Accepting ln) (closeConn c s))"
| add_ok: "running i (Slotted ln c) s \<Longrightarrow> addConn c s = (True, s') \<Longrightarrow> serve_step limit s (goto i (Admitted ln c) s')"
| add_closed: "running i (Slotted ln c) s \<Longrightarrow> addConn c s = (False, s') \<Longrightarrow>
    serve_step limit s (goto i (Undoing ln c) s')"
| undo: "running i (Undoing ln c) s \<Longrightarrow>
    serve_step limit s (goto i (Dropping ln c) (s\<lparr>lcSlots := lcSlots s - 1\<rparr>))"
| drop_conn: "running i (Dropping ln c) s \<Longrightarrow> serve_step limit s (goto i (Leaving ln ServerClosed) (closeConn c s))"
| go: "running i (Admitted ln c) s \<Longrightarrow>
    serve_step limit s (spawn (Serving c) (goto i (Accepting ln) (s\<lparr>lcWait := lcWait s + 1\<rparr>)))"
| stop_hook: "running i (Leaving ln out) s \<Longrightarrow>
    serve_step limit s (goto i (Untracking ln out) (s\<lparr>lcHooks := lcHooks s - {ln}\<rparr>))"
| untrack: "running i (Untracking ln out) s \<Longrightarrow> serve_step limit s (goto i (Unlistening ln out) (untrack ln s))"
| unlisten: "running i (Unlistening ln out) s \<Longrightarrow> serve_step limit s (goto i (Returned out) (closeLn ln s))"

text \<open>The goroutine of a connection. \<^verbatim>\<open>serveConn\<close> returns with the connection closed, or, when the
  handshake failed, without closing it.\<close>

inductive conn_step :: "lifecycle \<Rightarrow> lifecycle \<Rightarrow> bool" where
  handshake_failed: "running i (Serving c) s \<Longrightarrow> conn_step s (goto i (Removing c) s)"
| conn_ended: "running i (Serving c) s \<Longrightarrow> conn_step s (goto i (Removing c) (closeConn c s))"
| remove: "running i (Removing c) s \<Longrightarrow> conn_step s (goto i (Hanging c) (removeConn c s))"
| hang_up: "running i (Hanging c) s \<Longrightarrow> conn_step s (goto i Releasing (closeConn c s))"
| release: "running i Releasing s \<Longrightarrow> conn_step s (goto i Finishing (s\<lparr>lcSlots := lcSlots s - 1\<rparr>))"
| finish: "running i Finishing s \<Longrightarrow> conn_step s (goto i Ended (s\<lparr>lcWait := lcWait s - 1\<rparr>))"

text \<open>\<^verbatim>\<open>Close\<close>, and the call of it that \<^verbatim>\<open>context.AfterFunc\<close> makes.\<close>

inductive close_step :: "lifecycle \<Rightarrow> lifecycle \<Rightarrow> bool" where
  close_first: "running i Closing s \<Longrightarrow> \<not> lcClosed s \<Longrightarrow> close_step s (goto i CloseWaiting (closeAll s))"
| close_again: "running i Closing s \<Longrightarrow> lcClosed s \<Longrightarrow> close_step s (goto i CloseWaiting s)"
| close_done: "running i CloseWaiting s \<Longrightarrow> lcWait s = 0 \<Longrightarrow> close_step s (goto i CloseDone s)"
| hook: "ln \<in> lcHooks s \<Longrightarrow> ln \<in> lcCtxEnded s \<Longrightarrow> close_step s (spawn Closing (s\<lparr>lcHooks := lcHooks s - {ln}\<rparr>))"

inductive env_step :: "lifecycle \<Rightarrow> lifecycle \<Rightarrow> bool" where
  call_serve: "ln = lcFresh s \<Longrightarrow>
    env_step s (spawn (Tracking ln) (s\<lparr>lcOpenLns := insert ln (lcOpenLns s), lcFresh := Suc ln\<rparr>))"
| call_close: "env_step s (spawn Closing s)"
| end_ctx: "env_step s (s\<lparr>lcCtxEnded := insert ln (lcCtxEnded s)\<rparr>)"

definition own_step :: "nat \<Rightarrow> lifecycle \<Rightarrow> lifecycle \<Rightarrow> bool" where
  "own_step limit s s' \<longleftrightarrow> serve_step limit s s' \<or> conn_step s s' \<or> close_step s s'"

inductive reachable :: "nat \<Rightarrow> lifecycle \<Rightarrow> bool" for limit where
  start: "reachable limit initial"
| own: "reachable limit s \<Longrightarrow> own_step limit s s' \<Longrightarrow> reachable limit s'"
| env: "reachable limit s \<Longrightarrow> env_step s s' \<Longrightarrow> reachable limit s'"

section \<open>Counting goroutines\<close>

definition tally :: "(proc \<Rightarrow> nat) \<Rightarrow> proc list \<Rightarrow> nat" where
  "tally f ps = sum_list (map f ps)"

fun holdsSlot :: "proc \<Rightarrow> nat" where
  "holdsSlot (Slotted ln c) = 1"
| "holdsSlot (Undoing ln c) = 1"
| "holdsSlot (Admitted ln c) = 1"
| "holdsSlot (Serving c) = 1"
| "holdsSlot (Removing c) = 1"
| "holdsSlot (Hanging c) = 1"
| "holdsSlot Releasing = 1"
| "holdsSlot _ = 0"

fun awaited :: "proc \<Rightarrow> nat" where
  "awaited (Serving c) = 1"
| "awaited (Removing c) = 1"
| "awaited (Hanging c) = 1"
| "awaited Releasing = 1"
| "awaited Finishing = 1"
| "awaited _ = 0"

text \<open>The connection a goroutine has, whether it is in the connection table, and the same for
  listeners.\<close>

fun connOf :: "proc \<Rightarrow> nat option" where
  "connOf (Offered ln c) = Some c"
| "connOf (TurnedAway ln c) = Some c"
| "connOf (Slotted ln c) = Some c"
| "connOf (Undoing ln c) = Some c"
| "connOf (Dropping ln c) = Some c"
| "connOf (Admitted ln c) = Some c"
| "connOf (Serving c) = Some c"
| "connOf (Removing c) = Some c"
| "connOf (Hanging c) = Some c"
| "connOf _ = None"

fun registered :: "proc \<Rightarrow> nat option" where
  "registered (Admitted ln c) = Some c"
| "registered (Serving c) = Some c"
| "registered (Removing c) = Some c"
| "registered _ = None"

fun listenerOf :: "proc \<Rightarrow> nat option" where
  "listenerOf (Tracking ln) = Some ln"
| "listenerOf (Rejecting ln) = Some ln"
| "listenerOf (Accepting ln) = Some ln"
| "listenerOf (AcceptFailed ln t) = Some ln"
| "listenerOf (AcceptChecked ln t) = Some ln"
| "listenerOf (Offered ln c) = Some ln"
| "listenerOf (TurnedAway ln c) = Some ln"
| "listenerOf (Slotted ln c) = Some ln"
| "listenerOf (Undoing ln c) = Some ln"
| "listenerOf (Dropping ln c) = Some ln"
| "listenerOf (Admitted ln c) = Some ln"
| "listenerOf (Leaving ln out) = Some ln"
| "listenerOf (Untracking ln out) = Some ln"
| "listenerOf (Unlistening ln out) = Some ln"
| "listenerOf _ = None"

fun tracked :: "proc \<Rightarrow> nat option" where
  "tracked (Tracking ln) = None"
| "tracked (Rejecting ln) = None"
| "tracked (Unlistening ln out) = None"
| "tracked p = listenerOf p"

definition has :: "(proc \<Rightarrow> nat option) \<Rightarrow> nat \<Rightarrow> proc \<Rightarrow> nat" where
  "has f x p = (if f p = Some x then 1 else 0)"

fun outcomeOf :: "proc \<Rightarrow> outcome option" where
  "outcomeOf (Leaving ln out) = Some out"
| "outcomeOf (Untracking ln out) = Some out"
| "outcomeOf (Unlistening ln out) = Some out"
| "outcomeOf (Returned out) = Some out"
| "outcomeOf (Dropping ln c) = Some ServerClosed"
| "outcomeOf (Undoing ln c) = Some ServerClosed"
| "outcomeOf (Rejecting ln) = Some ServerClosed"
| "outcomeOf _ = None"

definition closedOutcome :: "proc \<Rightarrow> nat" where
  "closedOutcome p = (if outcomeOf p = Some ServerClosed then 1 else 0)"

lemma tally_update:
  assumes "i < length ps"
  shows "tally f (ps[i := q]) = tally f ps + f q - f (ps ! i)"
proof -
  obtain xs ys where "ps = xs @ ps ! i # ys" "length xs = i"
    using assms by (metis id_take_nth_drop length_take min.absorb4)
  then have "ps[i := q] = xs @ q # ys" "tally f ps = tally f (xs @ ps ! i # ys)" by (metis list_update_length, simp)
  then show ?thesis by (simp add: tally_def)
qed

lemma tally_member: "i < length ps \<Longrightarrow> f (ps ! i) \<le> tally f ps"
  using elem_le_sum_list [of i "map f ps"] by (simp add: tally_def)

lemma tally_append [simp]: "tally f (ps @ [q]) = tally f ps + f q" "tally f [] = 0"
  by (simp_all add: tally_def)

lemma tally_mono: "(\<And>p. f p \<le> g p) \<Longrightarrow> tally f ps \<le> tally g ps"
  unfolding tally_def by (rule sum_list_mono)

lemma tally_0: "tally f ps = 0 \<longleftrightarrow> (\<forall>p \<in> set ps. f p = 0)"
  by (auto simp: tally_def)

lemma tally_has_0: "tally (has f x) ps = 0 \<longleftrightarrow> (\<forall>p \<in> set ps. f p \<noteq> Some x)"
  by (simp add: tally_0 has_def)

lemma tally_diff:
  assumes "\<And>p. g p \<le> f p" "i < length ps"
  shows "f (ps ! i) + tally g ps \<le> tally f ps + g (ps ! i)"
proof -
  have "tally f ps = tally g ps + tally (\<lambda>p. f p - g p) ps"
    unfolding tally_def sum_list_addf [symmetric] using assms(1) by (intro arg_cong [where f = sum_list]) simp
  moreover have "f (ps ! i) - g (ps ! i) \<le> tally (\<lambda>p. f p - g p) ps" by (rule tally_member [OF assms(2)])
  ultimately show ?thesis using assms(1) [of "ps ! i"] by linarith
qed

section \<open>Slots and the wait group\<close>

lemmas step_defs = running_def goto_def spawn_def track_def untrack_def addConn_def removeConn_def
  closeAll_def closeLn_def closeConn_def isClosed_def

definition counts_ok :: "nat \<Rightarrow> lifecycle \<Rightarrow> bool" where
  "counts_ok limit s \<longleftrightarrow> lcSlots s = tally holdsSlot (lcProcs s) \<and> lcSlots s \<le> limit \<and>
     lcWait s = tally awaited (lcProcs s)"

lemma counts_ok_step:
  assumes "counts_ok limit s" "own_step limit s s'"
  shows "counts_ok limit s'"
  using assms(2) unfolding own_step_def
proof (elim disjE)
  assume "serve_step limit s s'"
  then show ?thesis
  proof cases
    case (go i ln c)
    then show ?thesis
      using assms(1) tally_member [of i "lcProcs s" holdsSlot] by (simp add: counts_ok_def step_defs tally_update)
  qed (use assms(1) in \<open>auto simp: counts_ok_def step_defs tally_update split: if_splits\<close>)
next
  assume "conn_step s s'"
  then show ?thesis
    using assms(1) by cases (auto simp: counts_ok_def step_defs tally_update)
next
  assume "close_step s s'"
  then show ?thesis
    using assms(1) by cases (auto simp: counts_ok_def step_defs tally_update)
qed

lemma counts_ok_env: "counts_ok limit s \<Longrightarrow> env_step s s' \<Longrightarrow> counts_ok limit s'"
  by (erule env_step.cases) (auto simp: counts_ok_def step_defs)

lemma reachable_counts: "reachable limit s \<Longrightarrow> counts_ok limit s"
proof (induction rule: reachable.induct)
  case start
  show ?case by (simp add: counts_ok_def initial_def)
qed (blast intro: counts_ok_step counts_ok_env)+

section \<open>Connections and listeners\<close>

text \<open>Each connection and each listener has at most one goroutine, the tables hold exactly those whose
  goroutine registered them, and an open socket has a goroutine that will close it.\<close>

definition conns_ok :: "lifecycle \<Rightarrow> bool" where
  "conns_ok s \<longleftrightarrow> (\<forall>c. tally (has connOf c) (lcProcs s) \<le> 1 \<and>
     (lcFresh s \<le> c \<longrightarrow> tally (has connOf c) (lcProcs s) = 0) \<and>
     tally (has registered c) (lcProcs s) = of_bool (c \<in> lcConns s) \<and>
     (c \<in> lcOpenConns s \<longrightarrow> tally (has connOf c) (lcProcs s) = 1))"

definition listeners_ok :: "lifecycle \<Rightarrow> bool" where
  "listeners_ok s \<longleftrightarrow> (\<forall>ln. tally (has listenerOf ln) (lcProcs s) \<le> 1 \<and>
     (lcFresh s \<le> ln \<longrightarrow> tally (has listenerOf ln) (lcProcs s) = 0) \<and>
     tally (has tracked ln) (lcProcs s) = of_bool (ln \<in> lcListeners s) \<and>
     (ln \<in> lcOpenLns s \<longrightarrow> tally (has listenerOf ln) (lcProcs s) = 1))"

lemma has_le: "has registered c p \<le> has connOf c p" "has tracked ln p \<le> has listenerOf ln p"
  by (cases p; simp add: has_def)+

lemma tally_has_le:
  "tally (has registered c) ps \<le> tally (has connOf c) ps" "tally (has tracked ln) ps \<le> tally (has listenerOf ln) ps"
  by (intro tally_mono has_le)+

lemma conns_ok_serve:
  assumes "conns_ok s" "serve_step limit s s'"
  shows "conns_ok s'"
  unfolding conns_ok_def
proof (intro allI)
  fix x
  have own: "tally (has connOf x) (lcProcs s) \<le> 1" "lcFresh s \<le> x \<Longrightarrow> tally (has connOf x) (lcProcs s) = 0"
    "tally (has registered x) (lcProcs s) = of_bool (x \<in> lcConns s)"
    "x \<in> lcOpenConns s \<Longrightarrow> tally (has connOf x) (lcProcs s) = 1"
    using assms(1) unfolding conns_ok_def by blast+
  from assms(2) show "tally (has connOf x) (lcProcs s') \<le> 1 \<and>
     (lcFresh s' \<le> x \<longrightarrow> tally (has connOf x) (lcProcs s') = 0) \<and>
     tally (has registered x) (lcProcs s') = of_bool (x \<in> lcConns s') \<and>
     (x \<in> lcOpenConns s' \<longrightarrow> tally (has connOf x) (lcProcs s') = 1)"
  proof cases
    case (add_ok i ln c s1)
    then show ?thesis
      using own tally_diff [of "has registered x" "has connOf x" i "lcProcs s", OF has_le(1)]
      by (auto simp: step_defs tally_update has_def split: if_splits)
  next
    case (go i ln c)
    then show ?thesis
      using own tally_member [of i "lcProcs s" "has registered x"] tally_member [of i "lcProcs s" "has connOf x"]
      by (auto simp: step_defs tally_update has_def split: if_splits)
  qed (use own in \<open>auto simp: step_defs tally_update has_def split: if_splits\<close>)
qed
lemma conns_ok_conn:
  assumes "conns_ok s" "conn_step s s'"
  shows "conns_ok s'"
  unfolding conns_ok_def
proof (intro allI)
  fix x
  have own: "tally (has connOf x) (lcProcs s) \<le> 1" "lcFresh s \<le> x \<Longrightarrow> tally (has connOf x) (lcProcs s) = 0"
    "tally (has registered x) (lcProcs s) = of_bool (x \<in> lcConns s)"
    "x \<in> lcOpenConns s \<Longrightarrow> tally (has connOf x) (lcProcs s) = 1"
    using assms(1) unfolding conns_ok_def by blast+
  from assms(2) show "tally (has connOf x) (lcProcs s') \<le> 1 \<and>
     (lcFresh s' \<le> x \<longrightarrow> tally (has connOf x) (lcProcs s') = 0) \<and>
     tally (has registered x) (lcProcs s') = of_bool (x \<in> lcConns s') \<and>
     (x \<in> lcOpenConns s' \<longrightarrow> tally (has connOf x) (lcProcs s') = 1)"
    using own by cases (auto simp: step_defs tally_update has_def split: if_splits)
qed

lemma conns_ok_close:
  assumes "conns_ok s" "close_step s s'"
  shows "conns_ok s'"
  using assms(2,1) by cases (auto simp: conns_ok_def step_defs tally_update has_def)

lemma conns_ok_env:
  assumes "conns_ok s" "env_step s s'"
  shows "conns_ok s'"
  using assms(2,1) by cases (auto simp: conns_ok_def step_defs has_def)

lemma listeners_ok_serve:
  assumes "listeners_ok s" "serve_step limit s s'"
  shows "listeners_ok s'"
  unfolding listeners_ok_def
proof (intro allI)
  fix x
  have own: "tally (has listenerOf x) (lcProcs s) \<le> 1" "lcFresh s \<le> x \<Longrightarrow> tally (has listenerOf x) (lcProcs s) = 0"
    "tally (has tracked x) (lcProcs s) = of_bool (x \<in> lcListeners s)"
    "x \<in> lcOpenLns s \<Longrightarrow> tally (has listenerOf x) (lcProcs s) = 1"
    using assms(1) unfolding listeners_ok_def by blast+
  from assms(2) show "tally (has listenerOf x) (lcProcs s') \<le> 1 \<and>
     (lcFresh s' \<le> x \<longrightarrow> tally (has listenerOf x) (lcProcs s') = 0) \<and>
     tally (has tracked x) (lcProcs s') = of_bool (x \<in> lcListeners s') \<and>
     (x \<in> lcOpenLns s' \<longrightarrow> tally (has listenerOf x) (lcProcs s') = 1)"
  proof cases
    case (track_ok i ln s1)
    then show ?thesis
      using own tally_diff [of "has tracked x" "has listenerOf x" i "lcProcs s", OF has_le(2)]
      by (auto simp: step_defs tally_update has_def split: if_splits)
  qed (use own in \<open>auto simp: step_defs tally_update has_def split: if_splits\<close>)
qed

lemma listeners_ok_other:
  assumes "listeners_ok s" "conn_step s s' \<or> close_step s s' \<or> env_step s s'"
  shows "listeners_ok s'"
  using assms(2)
proof (elim disjE)
  assume "conn_step s s'"
  then show ?thesis using assms(1) by cases (auto simp: listeners_ok_def step_defs tally_update has_def)
next
  assume "close_step s s'"
  then show ?thesis using assms(1) by cases (auto simp: listeners_ok_def step_defs tally_update has_def)
next
  assume "env_step s s'"
  then show ?thesis using assms(1) by cases (auto simp: listeners_ok_def step_defs has_def)
qed

section \<open>After shutdown\<close>

text \<open>Once the server is closed, no listener and no connection in the tables is open. A goroutine
  that returns with \<^verbatim>\<open>ErrServerClosed\<close> means that the server is closed.\<close>

definition closed_ok :: "lifecycle \<Rightarrow> bool" where
  "closed_ok s \<longleftrightarrow>
     (if lcClosed s then lcListeners s \<inter> lcOpenLns s = {} \<and> lcConns s \<inter> lcOpenConns s = {}
      else tally closedOutcome (lcProcs s) = 0) \<and> finite (lcHooks s)"

lemma fresh_unused:
  assumes "conns_ok s" "listeners_ok s"
  shows "lcFresh s \<notin> lcConns s" "lcFresh s \<notin> lcListeners s"
proof -
  have "tally (has connOf (lcFresh s)) (lcProcs s) = 0" "tally (has registered (lcFresh s)) (lcProcs s) = of_bool (lcFresh s \<in> lcConns s)"
    "tally (has listenerOf (lcFresh s)) (lcProcs s) = 0" "tally (has tracked (lcFresh s)) (lcProcs s) = of_bool (lcFresh s \<in> lcListeners s)"
    using assms unfolding conns_ok_def listeners_ok_def by blast+
  then show "lcFresh s \<notin> lcConns s" "lcFresh s \<notin> lcListeners s"
    using tally_has_le(1) [of "lcFresh s" "lcProcs s"] tally_has_le(2) [of "lcFresh s" "lcProcs s"]
    by (auto split: if_splits)
qed

lemma closed_ok_serve:
  assumes "closed_ok s" "conns_ok s" "listeners_ok s" "serve_step limit s s'"
  shows "closed_ok s'"
  using assms(4,1) fresh_unused [OF assms(2,3)]
  by cases (auto simp: closed_ok_def step_defs tally_update closedOutcome_def split: if_splits)

lemma closed_ok_other:
  assumes "closed_ok s" "conns_ok s" "listeners_ok s" "conn_step s s' \<or> close_step s s' \<or> env_step s s'"
  shows "closed_ok s'"
  using assms(4)
proof (elim disjE)
  assume "conn_step s s'"
  then show ?thesis
    using assms(1) by cases (auto simp: closed_ok_def step_defs tally_update closedOutcome_def split: if_splits)
next
  assume "close_step s s'"
  then show ?thesis
    using assms(1) by cases (auto simp: closed_ok_def step_defs tally_update closedOutcome_def split: if_splits)
next
  assume "env_step s s'"
  then show ?thesis
    using assms(1) fresh_unused [OF assms(2,3)] by cases (auto simp: closed_ok_def step_defs closedOutcome_def split: if_splits)
qed

lemma reachable_inv: "reachable limit s \<Longrightarrow> conns_ok s \<and> listeners_ok s \<and> closed_ok s"
proof (induction rule: reachable.induct)
  case start
  show ?case by (simp add: conns_ok_def listeners_ok_def closed_ok_def initial_def)
next
  case (own s s')
  then show ?case
    unfolding own_step_def
    by (metis closed_ok_other closed_ok_serve conns_ok_close conns_ok_conn conns_ok_serve listeners_ok_other listeners_ok_serve)
next
  case (env s s')
  then show ?case by (metis closed_ok_other conns_ok_env listeners_ok_other)
qed
section \<open>Shutdown completes\<close>

text \<open>What a goroutine still has to do once the server is closed.\<close>

fun rank :: "proc \<Rightarrow> nat" where
  "rank (Tracking ln) = 2"
| "rank (Rejecting ln) = 1"
| "rank (Accepting ln) = 6"
| "rank (AcceptFailed ln t) = 5"
| "rank (AcceptChecked ln t) = 4"
| "rank (Offered ln c) = 8"
| "rank (TurnedAway ln c) = 7"
| "rank (Slotted ln c) = 6"
| "rank (Undoing ln c) = 5"
| "rank (Dropping ln c) = 4"
| "rank (Admitted ln c) = 12"
| "rank (Leaving ln out) = 3"
| "rank (Untracking ln out) = 2"
| "rank (Unlistening ln out) = 1"
| "rank (Returned out) = 0"
| "rank (Serving c) = 5"
| "rank (Removing c) = 4"
| "rank (Hanging c) = 3"
| "rank Releasing = 2"
| "rank Finishing = 1"
| "rank Ended = 0"
| "rank Closing = 2"
| "rank CloseWaiting = 1"
| "rank CloseDone = 0"

definition work :: "lifecycle \<Rightarrow> nat" where
  "work s = tally rank (lcProcs s) + 3 * card (lcHooks s)"

definition shut :: "lifecycle \<Rightarrow> bool" where
  "shut s \<longleftrightarrow> (\<forall>p \<in> set (lcProcs s). rank p = 0) \<and> lcSlots s = 0 \<and> lcWait s = 0 \<and> lcConns s = {} \<and>
     lcListeners s = {} \<and> lcOpenConns s = {} \<and> lcOpenLns s = {}"

lemma closed_listener_shut:
  assumes "listeners_ok s" "closed_ok s" "lcClosed s" "running i (Accepting ln) s"
  shows "ln \<notin> lcOpenLns s"
proof -
  have "1 \<le> tally (has tracked ln) (lcProcs s)"
    using tally_member [of i "lcProcs s" "has tracked ln"] assms(4) by (simp add: running_def has_def)
  moreover have "tally (has tracked ln) (lcProcs s) = of_bool (ln \<in> lcListeners s)"
    using assms(1) unfolding listeners_ok_def by blast
  ultimately have "ln \<in> lcListeners s" by (cases "ln \<in> lcListeners s") simp_all
  with assms(2,3) show ?thesis by (auto simp: closed_ok_def)
qed

lemma tally_drop: "i < length ps \<Longrightarrow> f q < f (ps ! i) \<Longrightarrow> tally f (ps[i := q]) < tally f ps"
  using tally_member [of i ps f] by (simp add: tally_update)

lemma card_remove_le: "finite A \<Longrightarrow> card (A - {x}) \<le> card A"
  by (simp add: card_mono)

lemma serve_step_work:
  assumes "listeners_ok s" "closed_ok s" "lcClosed s" "serve_step limit s s'"
  shows "work s' < work s \<and> lcClosed s'"
  using assms(4)
proof cases
  case (accept i ln c)
  then show ?thesis using closed_listener_shut [OF assms(1-3)] by blast
next
  case (stop_hook i ln out)
  have "finite (lcHooks s)" using assms(2) by (simp add: closed_ok_def)
  then have "card (lcHooks s - {ln}) \<le> card (lcHooks s)" by (rule card_remove_le)
  then show ?thesis
    using stop_hook assms(3) tally_member [of i "lcProcs s" rank] by (simp add: work_def step_defs tally_update)
next
  case (go i ln c)
  then show ?thesis
    using assms(3) tally_member [of i "lcProcs s" rank] by (simp add: work_def step_defs tally_update)
qed (use assms(3) in \<open>auto simp: work_def step_defs intro: tally_drop split: if_splits\<close>)

lemma other_step_work:
  assumes "closed_ok s" "lcClosed s" "conn_step s s' \<or> close_step s s'"
  shows "work s' < work s \<and> lcClosed s'"
  using assms(3)
proof
  assume "conn_step s s'"
  then show ?thesis using assms(2) by cases (auto simp: work_def step_defs intro: tally_drop)
next
  assume "close_step s s'"
  then show ?thesis
  proof cases
    case (hook ln)
    have "finite (lcHooks s)" using assms(1) by (simp add: closed_ok_def)
    then have "Suc (card (lcHooks s - {ln})) = card (lcHooks s)" using hook(2) by (rule card_Suc_Diff1)
    with hook assms(2) show ?thesis by (simp add: work_def step_defs)
  qed (use assms(2) in \<open>auto simp: work_def step_defs intro: tally_drop\<close>)
qed

lemma own_step_work:
  assumes "reachable limit s" "lcClosed s" "own_step limit s s'"
  shows "work s' < work s" "lcClosed s'" "reachable limit s'"
  using assms reachable_inv [OF assms(1)] serve_step_work other_step_work reachable.own
  unfolding own_step_def by blast+

lemma rank_awaited: "rank q = 0 \<or> q = CloseWaiting \<Longrightarrow> awaited q = 0"
  by (cases q) auto

lemma own_step_exists:
  assumes "reachable limit s" "lcClosed s" "p \<in> set (lcProcs s)" "rank p \<noteq> 0"
  shows "\<exists>s'. own_step limit s s'"
proof -
  have busy: "\<exists>s'. own_step limit s s'" if q: "q \<in> set (lcProcs s)" "rank q \<noteq> 0" "q \<noteq> CloseWaiting" for q
  proof -
    obtain i where i: "running i q s" using q(1) by (auto simp: in_set_conv_nth running_def)
    have t: "track ln s = (False, s)" "addConn c s = (False, s)" for ln c
      using assms(2) by (simp_all add: track_def addConn_def)
    have own: "serve_step limit s s' \<Longrightarrow> ?thesis" "conn_step s s' \<Longrightarrow> ?thesis" "close_step s s' \<Longrightarrow> ?thesis" for s'
      unfolding own_step_def by blast+
    show ?thesis
    proof (cases q)
      case (Offered ln c)
      with i show ?thesis by (cases "lcSlots s < limit") (auto intro: own serve_step.slot serve_step.no_slot simp: not_less)
    next
      case (Tracking ln)
      with i show ?thesis by (blast intro: own serve_step.track_closed [OF _ t(1)])
    next
      case (Slotted ln c)
      with i show ?thesis by (blast intro: own serve_step.add_closed [OF _ t(2)])
    next
      case (Accepting ln)
      with i show ?thesis by (blast intro: own serve_step.accept_error [where timeout = False])
    next
      case (AcceptFailed ln to)
      with i show ?thesis by (blast intro: own serve_step.ctx_ended serve_step.ctx_running)
    next
      case (AcceptChecked ln to)
      with i show ?thesis by (blast intro: own serve_step.after_error)
    next
      case Closing
      with i assms(2) show ?thesis by (blast intro: own close_step.close_again)
    qed (use i q in \<open>auto intro: own serve_step.intros conn_step.intros\<close>)
  qed
  show ?thesis
  proof (cases "\<exists>q \<in> set (lcProcs s). rank q \<noteq> 0 \<and> q \<noteq> CloseWaiting")
    case True
    then show ?thesis using busy by blast
  next
    case False
    then have "p = CloseWaiting" and "\<forall>q \<in> set (lcProcs s). awaited q = 0"
      using assms(3,4) rank_awaited by blast+
    then have "lcWait s = 0" using reachable_counts [OF assms(1)] by (simp add: counts_ok_def tally_0)
    moreover obtain i where "running i CloseWaiting s"
      using assms(3) \<open>p = CloseWaiting\<close> by (auto simp: in_set_conv_nth running_def)
    ultimately show ?thesis unfolding own_step_def by (blast intro: close_step.close_done)
  qed
qed
lemma quiet_shut:
  assumes "reachable limit s" "lcClosed s" "\<nexists>s'. own_step limit s s'"
  shows "shut s"
proof -
  have r: "\<forall>p \<in> set (lcProcs s). rank p = 0" using own_step_exists [OF assms(1,2)] assms(3) by blast
  have 0: "p \<in> set (lcProcs s) \<Longrightarrow> holdsSlot p = 0 \<and> awaited p = 0 \<and> connOf p = None \<and> registered p = None \<and>
      listenerOf p = None \<and> tracked p = None" for p
    using r by (cases p) auto
  then have t: "tally holdsSlot (lcProcs s) = 0" "tally awaited (lcProcs s) = 0" "tally (has connOf c) (lcProcs s) = 0"
    "tally (has registered c) (lcProcs s) = 0" "tally (has listenerOf c) (lcProcs s) = 0" "tally (has tracked c) (lcProcs s) = 0" for c
    by (auto simp: tally_0 has_def)
  have "counts_ok limit s" "conns_ok s" "listeners_ok s"
    using reachable_counts [OF assms(1)] reachable_inv [OF assms(1)] by simp_all
  then show ?thesis
    using r by (auto simp: shut_def counts_ok_def conns_ok_def listeners_ok_def t split: if_splits)
qed

lemma own_steps_work:
  "(own_step limit ^^ n) s s' \<Longrightarrow> reachable limit s \<Longrightarrow> lcClosed s \<Longrightarrow> n + work s' \<le> work s \<and> reachable limit s' \<and> lcClosed s'"
proof (induction n arbitrary: s')
  case (Suc n)
  then obtain t where "(own_step limit ^^ n) s t" "own_step limit t s'" by auto
  with Suc show ?case using own_step_work [of limit t s'] by force
qed simp

text \<open>A run: one connection is being served when the server is closed.\<close>

definition served :: lifecycle where
  "served = initial\<lparr>lcProcs := [Accepting 0, Serving 1], lcListeners := {0}, lcConns := {1}, lcSlots := 1,
     lcWait := 1, lcOpenLns := {0}, lcOpenConns := {1}, lcHooks := {0}, lcFresh := 2\<rparr>"

lemma reachable_admitted:
  "reachable 1 (initial\<lparr>lcProcs := [Admitted 0 1], lcListeners := {0}, lcConns := {1}, lcSlots := 1,
     lcOpenLns := {0}, lcOpenConns := {1}, lcHooks := {0}, lcFresh := 2\<rparr>)" (is "reachable 1 ?admitted")
proof -
  let ?s1 = "initial\<lparr>lcProcs := [Tracking 0], lcOpenLns := {0}, lcFresh := 1\<rparr>"
  let ?s2 = "?s1\<lparr>lcProcs := [Accepting 0], lcListeners := {0}, lcHooks := {0}\<rparr>"
  let ?s3 = "?s2\<lparr>lcProcs := [Offered 0 1], lcOpenConns := {1}, lcFresh := 2\<rparr>"
  let ?s4 = "?s3\<lparr>lcProcs := [Slotted 0 1], lcSlots := 1\<rparr>"
  have "env_step initial ?s1"
    using env_step.call_serve [of 0 initial] by (simp add: initial_def spawn_def)
  then have "reachable 1 ?s1" by (rule reachable.env [OF reachable.start])
  moreover have "serve_step 1 ?s1 ?s2"
    using serve_step.track_ok [of 0 0 ?s1 "?s1\<lparr>lcListeners := {0}\<rparr>"] by (simp add: step_defs initial_def)
  moreover have "serve_step 1 ?s2 ?s3"
    using serve_step.accept [of 0 0 ?s2 1] by (simp add: step_defs initial_def numeral_2_eq_2)
  moreover have "serve_step 1 ?s3 ?s4"
    using serve_step.slot [of 0 0 1 ?s3] by (simp add: step_defs initial_def)
  moreover have "serve_step 1 ?s4 ?admitted"
    using serve_step.add_ok [of 0 0 1 ?s4 "?s4\<lparr>lcConns := {1}\<rparr>"] by (simp add: step_defs initial_def)
  ultimately show ?thesis unfolding own_step_def [abs_def] by (meson own_step_def reachable.own)
qed

lemma reachable_served: "reachable 1 served"
proof -
  have "serve_step 1 (initial\<lparr>lcProcs := [Admitted 0 1], lcListeners := {0}, lcConns := {1}, lcSlots := 1,
     lcOpenLns := {0}, lcOpenConns := {1}, lcHooks := {0}, lcFresh := 2\<rparr>) served"
    using serve_step.go [of 0 0 1 "initial\<lparr>lcProcs := [Admitted 0 1], lcListeners := {0}, lcConns := {1}, lcSlots := 1,
     lcOpenLns := {0}, lcOpenConns := {1}, lcHooks := {0}, lcFresh := 2\<rparr>" 1] by (simp add: step_defs served_def initial_def)
  then show ?thesis using reachable_admitted by (meson own_step_def reachable.own)
qed

lemma reachable_closing:
  assumes "reachable limit s" "\<not> lcClosed s"
  shows "reachable limit (goto (length (lcProcs s)) CloseWaiting (closeAll (spawn Closing s)))"
proof -
  have "reachable limit (spawn Closing s)" using assms(1) env_step.call_close by (rule reachable.env)
  moreover have "close_step (spawn Closing s) (goto (length (lcProcs s)) CloseWaiting (closeAll (spawn Closing s)))"
    using assms(2) by (intro close_step.close_first) (simp_all add: running_def spawn_def)
  ultimately show ?thesis by (meson own_step_def reachable.own)
qed

section \<open>Properties\<close>

text \<open>C39 The connection limit holds at every moment: at most \<^verbatim>\<open>MaxConnections\<close> connections are served
  and that many slots are taken, whatever the interleaving of accepting, serving and closing
  goroutines; no two goroutines have the same connection, and the connection table holds
  exactly the admitted connections.\<close>

theorem connections_bounded:
  assumes "reachable limit s"
  shows "lcSlots s \<le> limit \<and> length [p \<leftarrow> lcProcs s. \<exists>c. p = Serving c] \<le> lcSlots s \<and>
    (\<forall>c. length [p \<leftarrow> lcProcs s. connOf p = Some c] \<le> 1) \<and>
    lcConns s = {c. \<exists>p \<in> set (lcProcs s). registered p = Some c}"
proof -
  have c: "counts_ok limit s" "conns_ok s" using reachable_counts [OF assms] reachable_inv [OF assms] by simp_all
  have len: "length (filter P ps) = tally (\<lambda>p. if P p then 1 else 0) ps" for P ps
    by (induction ps) (simp_all add: tally_def)
  have "tally (\<lambda>p. if \<exists>c. p = Serving c then 1 else 0) (lcProcs s) \<le> tally holdsSlot (lcProcs s)"
    by (rule tally_mono) auto
  moreover have "tally (has registered x) (lcProcs s) = of_bool (x \<in> lcConns s)" for x
    using c(2) unfolding conns_ok_def by blast
  then have "x \<in> lcConns s \<longleftrightarrow> \<not> (\<forall>p \<in> set (lcProcs s). registered p \<noteq> Some x)" for x
    unfolding tally_has_0 [symmetric] by simp
  then have "lcConns s = {x. \<exists>p \<in> set (lcProcs s). registered p = Some x}" by blast
  ultimately show ?thesis
    using c unfolding len by (auto simp: counts_ok_def conns_ok_def has_def [abs_def])
qed

theorem connections_bounded_witness:
  "lcSlots served \<le> 1 \<and> length [p \<leftarrow> lcProcs served. \<exists>c. p = Serving c] \<le> lcSlots served \<and>
    (\<forall>c. length [p \<leftarrow> lcProcs served. connOf p = Some c] \<le> 1) \<and>
    lcConns served = {c. \<exists>p \<in> set (lcProcs served). registered p = Some c}"
  by (rule connections_bounded [OF reachable_served])

text \<open>Once \<^verbatim>\<open>Close\<close> has run its section the server serves nothing: every connection a goroutine
  still serves is closed, every listener a goroutine still accepts on is closed, and the flag
  stays set.\<close>

lemma closed_serves_nothing:
  assumes "reachable limit s" "lcClosed s"
  shows "(Serving c \<in> set (lcProcs s) \<longrightarrow> c \<notin> lcOpenConns s) \<and> (Accepting ln \<in> set (lcProcs s) \<longrightarrow> ln \<notin> lcOpenLns s) \<and>
    (\<forall>s'. own_step limit s s' \<or> env_step s s' \<longrightarrow> lcClosed s')"
proof -
  have inv: "conns_ok s" "listeners_ok s" "closed_ok s" using reachable_inv [OF assms(1)] by simp_all
  have "c \<in> lcConns s" if "Serving c \<in> set (lcProcs s)"
  proof -
    have "tally (has registered c) (lcProcs s) \<noteq> 0" using that unfolding tally_has_0 by force
    moreover have "tally (has registered c) (lcProcs s) = of_bool (c \<in> lcConns s)"
      using inv(1) unfolding conns_ok_def by blast
    ultimately show ?thesis by (cases "c \<in> lcConns s") simp_all
  qed
  moreover have "ln \<notin> lcOpenLns s" if "Accepting ln \<in> set (lcProcs s)"
    using that closed_listener_shut [OF inv(2,3) assms(2)] by (auto simp: in_set_conv_nth running_def)
  moreover have "lcClosed s'" if "env_step s s'" for s'
    using that assms(2) by cases (simp_all add: spawn_def)
  ultimately show ?thesis
    using inv(3) assms(2) own_step_work(2) [OF assms] by (auto simp: closed_ok_def)
qed



text \<open>C40 \<^verbatim>\<open>Close\<close> can return while the goroutine of a connection is still to run: an accepted
  connection is added to the table before the wait group counts it, so a \<^verbatim>\<open>Close\<close> in between finds
  the counter at 0. The goroutine then starts on a closed connection.\<close>

theorem Close_returns_early:
  "\<exists>s. reachable 1 s \<and> CloseDone \<in> set (lcProcs s) \<and> Serving 1 \<in> set (lcProcs s) \<and> 1 \<notin> lcOpenConns s"
proof -
  let ?a = "initial\<lparr>lcProcs := [Admitted 0 1], lcListeners := {0}, lcConns := {1}, lcSlots := 1,
     lcOpenLns := {0}, lcOpenConns := {1}, lcHooks := {0}, lcFresh := 2\<rparr>"
  let ?b = "goto 1 CloseWaiting (closeAll (spawn Closing ?a))"
  have "reachable 1 ?b" using reachable_closing [OF reachable_admitted] by (simp add: initial_def)
  moreover have "close_step ?b (goto 1 CloseDone ?b)"
    by (rule close_step.close_done) (simp_all add: step_defs initial_def)
  ultimately have "reachable 1 (goto 1 CloseDone ?b)" by (meson own_step_def reachable.own)
  moreover have "serve_step 1 (goto 1 CloseDone ?b) (spawn (Serving 1) (goto 0 (Accepting 0) ((goto 1 CloseDone ?b)\<lparr>lcWait := 1\<rparr>)))"
    using serve_step.go [of 0 0 1 "goto 1 CloseDone ?b" 1] by (simp add: step_defs initial_def)
  ultimately have "reachable 1 (spawn (Serving 1) (goto 0 (Accepting 0) ((goto 1 CloseDone ?b)\<lparr>lcWait := 1\<rparr>)))"
    by (meson own_step_def reachable.own)
  moreover have "CloseDone \<in> set (lcProcs (spawn (Serving 1) (goto 0 (Accepting 0) ((goto 1 CloseDone ?b)\<lparr>lcWait := 1\<rparr>)))) \<and>
      Serving 1 \<in> set (lcProcs (spawn (Serving 1) (goto 0 (Accepting 0) ((goto 1 CloseDone ?b)\<lparr>lcWait := 1\<rparr>)))) \<and>
      1 \<notin> lcOpenConns (spawn (Serving 1) (goto 0 (Accepting 0) ((goto 1 CloseDone ?b)\<lparr>lcWait := 1\<rparr>)))"
    by (simp add: step_defs initial_def)
  ultimately show ?thesis by blast
qed

end
