(* ===== verification/Codec.thy ===== *)
theory Codec
  imports Wire_RW
begin

text \<open>
  Conversion between bytes and Go values (\<^verbatim>\<open>model/codec/codec.go\<close>; \<^verbatim>\<open>model/types.go\<close> forwards to it).
  A signed integer is the word that represents it, with Go's arithmetic right shift as
  \<open>signed_drop_bit\<close>. A \<^verbatim>\<open>float32\<close> is its IEEE 754 bit pattern: \<^verbatim>\<open>math.Float32bits\<close> and
  \<^verbatim>\<open>math.Float32frombits\<close> change the type and not the bits. A Go string is its bytes.
\<close>

definition DecodeBool :: "bytes \<Rightarrow> int \<Rightarrow> bool res" where
  "DecodeBool data b =
    (if b < 0 then Ok False
     else if length data = 0 then Ok False
     else
      (let byteOffset = nat b div 8; bitOffset = nat b mod 8 in
       if length data \<le> byteOffset then Ok False
       else bindR (idx data byteOffset) (\<lambda>x. Ok (x AND push_bit bitOffset 1 \<noteq> 0))))"

definition DecodeByte :: "bytes \<Rightarrow> byte res" where
  "DecodeByte data = (if length data < 1 then Ok 0 else idx data 0)"

definition DecodeWord :: "bytes \<Rightarrow> uint16 res" where
  "DecodeWord data = (if length data < 2 then Ok 0 else u16at data 0)"

definition DecodeInt :: "bytes \<Rightarrow> 16 word res" where
  "DecodeInt data =
    (if length data < 2 then Ok 0
     else bindR (idx data 0) (\<lambda>b0. bindR (idx data 1) (\<lambda>b1. Ok (push_bit 8 (ucast b0) OR ucast b1))))"

definition DecodeDWord :: "bytes \<Rightarrow> uint32 res" where
  "DecodeDWord data = (if length data < 4 then Ok 0 else u32at data 0)"

definition DecodeDInt :: "bytes \<Rightarrow> 32 word res" where
  "DecodeDInt data =
    (if length data < 4 then Ok 0
     else
       bindR (idx data 0) (\<lambda>b0. bindR (idx data 1) (\<lambda>b1. bindR (idx data 2) (\<lambda>b2. bindR (idx data 3) (\<lambda>b3.
       Ok (push_bit 24 (ucast b0) OR push_bit 16 (ucast b1) OR push_bit 8 (ucast b2) OR ucast b3))))))"

definition DecodeReal :: "bytes \<Rightarrow> uint32 res" where
  "DecodeReal data = DecodeDWord data"

definition DecodeString :: "bytes \<Rightarrow> bytes res" where
  "DecodeString data =
    (if length data < 2 then Ok []
     else
       bindR (idx data 1) (\<lambda>n.
       let actualLen = (if length data < 2 + unat n then length data - 2 else unat n) in
       go_slice data 2 (2 + actualLen)))"

definition EncodeBool :: "bool \<Rightarrow> bytes" where
  "EncodeBool v = (if v then [0x01] else [0x00])"

definition EncodeByte :: "byte \<Rightarrow> bytes" where
  "EncodeByte v = [v]"

definition EncodeWord :: "uint16 \<Rightarrow> bytes" where
  "EncodeWord v = put16 v"

definition EncodeInt :: "16 word \<Rightarrow> bytes" where
  "EncodeInt v = [ucast (signed_drop_bit 8 v AND 0xFF), ucast (v AND 0xFF)]"

definition EncodeDWord :: "uint32 \<Rightarrow> bytes" where
  "EncodeDWord v = put32 v"

definition EncodeDInt :: "32 word \<Rightarrow> bytes" where
  "EncodeDInt v = [ucast (signed_drop_bit 24 v AND 0xFF), ucast (signed_drop_bit 16 v AND 0xFF),
     ucast (signed_drop_bit 8 v AND 0xFF), ucast (v AND 0xFF)]"

definition EncodeReal :: "uint32 \<Rightarrow> bytes" where
  "EncodeReal v = EncodeDWord v"

definition EncodeString :: "bytes \<Rightarrow> int \<Rightarrow> bytes res" where
  "EncodeString v maxLen =
    (let maxLen = (if maxLen < 2 then 2 else maxLen);
         maxLen = (if 256 < maxLen then 256 else maxLen);
         maxChars = nat maxLen - 2;
         n = min (length v) maxChars;
         buf = (replicate (nat maxLen) 0)[0 := word_of_nat maxChars, 1 := word_of_nat n] in
     bindR (go_slice v 0 n) (\<lambda>s. copy_at buf 2 s))"

section \<open>Facts\<close>

lemma EncodeInt_put: "EncodeInt v = put16 v" "EncodeDInt w = put32 w"
proof -
  have m: "(0xFF :: 16 word) = mask 8" "(0xFF :: 32 word) = mask 8" by (simp_all add: mask_eq_exp_minus_1)
  show "EncodeInt v = put16 v" "EncodeDInt w = put32 w"
    unfolding EncodeInt_def EncodeDInt_def put16_def put32_def m
    by (auto intro!: bit_word_eqI simp: bit_simps bit_signed_drop_bit_iff)
qed

lemma EncodeString_eq:
  fixes k :: nat
  assumes "k = nat (max 2 (min 256 maxLen)) - 2"
  shows "EncodeString v maxLen =
    Ok ([word_of_nat k, word_of_nat (min (length v) k)] @ take k v @ replicate (k - length v) 0)"
proof -
  have k: "nat (if 256 < (if maxLen < 2 then 2 else maxLen) then 256 else (if maxLen < 2 then 2 else maxLen)) = Suc (Suc k)"
    using assms by (auto simp: max_def min_def)
  show ?thesis
    unfolding EncodeString_def Let_def k
    by (cases "length v \<le> k") (simp_all add: go_slice_def copy_at_Ok min_def add_2_eq_Suc)
qed

lemma DecodeString_EncodeString:
  fixes k :: nat
  assumes "k \<le> 254"
  shows "DecodeString ([word_of_nat k, word_of_nat (min (length v) k)] @ take k v @ replicate (k - length v) 0) = Ok (take k v)"
proof -
  have "unat (word_of_nat (min (length v) k) :: byte) = min (length v) k"
    using assms by (simp add: unsigned_of_nat take_bit_eq_mod)
  then show ?thesis
    by (cases "length v \<le> k") (simp_all add: DecodeString_def go_simps idx_def min_def add_2_eq_Suc)
qed

lemma DecodeInt_eq: "DecodeInt data = DecodeWord data" "DecodeDInt data = DecodeDWord data"
  by (simp_all add: DecodeInt_def DecodeWord_def DecodeDInt_def DecodeDWord_def go_simps be16_def be32_def)

text \<open>C32 Every value encoded by the codec is decoded to itself, signed and unsigned, at its width. A
  string comes back cut to what the declared maximum leaves room for (0 to 254 bytes), and its
  encoding has exactly the declared size.\<close>

theorem codec_roundtrip:
  "DecodeBool (EncodeBool b) 0 = Ok b \<and> DecodeByte (EncodeByte x) = Ok x \<and>
   DecodeWord (EncodeWord w) = Ok w \<and> DecodeInt (EncodeInt i) = Ok i \<and>
   DecodeDWord (EncodeDWord d) = Ok d \<and> DecodeDInt (EncodeDInt j) = Ok j \<and> DecodeReal (EncodeReal r) = Ok r \<and>
   (\<exists>buf. EncodeString v maxLen = Ok buf \<and> int (length buf) = max 2 (min 256 maxLen) \<and>
     DecodeString buf = Ok (take (length buf - 2) v))"
proof -
  define k where "k = nat (max 2 (min 256 maxLen)) - 2"
  have k: "k \<le> 254" "int (k + 2) = max 2 (min 256 maxLen)" by (auto simp: k_def)
  have "\<exists>buf. EncodeString v maxLen = Ok buf \<and> int (length buf) = max 2 (min 256 maxLen) \<and>
     DecodeString buf = Ok (take (length buf - 2) v)"
  proof (intro exI conjI)
    let ?buf = "[word_of_nat k, word_of_nat (min (length v) k)] @ take k v @ replicate (k - length v) 0 :: bytes"
    show "EncodeString v maxLen = Ok ?buf" by (rule EncodeString_eq [OF k_def])
    have len: "length ?buf = k + 2" by (simp add: min_def)
    then show "int (length ?buf) = max 2 (min 256 maxLen)" using k(2) by simp
    show "DecodeString ?buf = Ok (take (length ?buf - 2) v)"
      unfolding len using DecodeString_EncodeString [OF k(1), of v] by simp
  qed
  moreover have "DecodeBool (EncodeBool b) 0 = Ok b" by (simp add: DecodeBool_def EncodeBool_def idx_def)
  ultimately show ?thesis
    by (simp add: DecodeByte_def EncodeByte_def idx_def DecodeInt_eq EncodeInt_put DecodeWord_def DecodeDWord_def
        EncodeWord_def EncodeDWord_def DecodeReal_def EncodeReal_def u16at_put16 u32at_put32)
qed

text \<open>What a typed reader of an item returns, given what the codec decodes from its data and the
  number of bytes needed.\<close>

definition reads_as :: "'a res \<Rightarrow> 'a res \<Rightarrow> nat \<Rightarrow> ReadVarItem \<Rightarrow> bool" where
  "reads_as r v need item \<longleftrightarrow>
     (if ReturnCode item = RetCodeSuccess \<and> need \<le> length (Data item) then r = v else (\<exists>e. r = Err e))"

lemma reads_as_intro:
  assumes "need \<le> length (Data item) \<Longrightarrow> f (Data item) = v"
  shows "reads_as (bindR (decodeSuccessItem item need) f) v need item"
  using assms by (cases "length (Data item) < need") (auto simp: reads_as_def decodeSuccessItem_def)

text \<open>C33 The typed readers of a response item and the codec agree: on a successful item that holds
  enough bytes each gives the value the codec decodes from the item's data; on any other item
  the reader reports an error where the codec would give 0.\<close>

theorem typed_readers_agree:
  "reads_as (DecodeAsByte item) (DecodeByte (Data item)) 1 item \<and>
   reads_as (DecodeAsWord item) (DecodeWord (Data item)) 2 item \<and>
   reads_as (DecodeAsInt item) (DecodeInt (Data item)) 2 item \<and>
   reads_as (DecodeAsDWord item) (DecodeDWord (Data item)) 4 item \<and>
   reads_as (DecodeAsDInt item) (DecodeDInt (Data item)) 4 item \<and>
   reads_as (DecodeAsReal item) (DecodeReal (Data item)) 4 item"
  unfolding DecodeAsByte_def DecodeAsWord_def DecodeAsInt_def DecodeAsDWord_def DecodeAsDInt_def DecodeAsReal_def
  by (intro conjI reads_as_intro)
    (auto simp: DecodeByte_def DecodeWord_def DecodeInt_def DecodeDWord_def DecodeDInt_def DecodeReal_def)

end
