(* ===== verification/Capture.thy ===== *)
theory Capture
  imports Go_Prelude "HOL-Library.AList" "HOL-Library.Multiset"
begin

text \<open>
  The reader of recorded traffic (\<^verbatim>\<open>internal/capture/capture.go\<close>): frames of a pcap or pcapng file, the
  TCP segments of every connection to port 102 among them, the reassembly of each direction, and its
  split into TPKT packets, COTP data TPDUs and S7 PDUs. Reading the file from disk (\<^verbatim>\<open>ReadFile\<close>) is not
  modelled. A Go map of connections is an association list in the order of insertion; \<^verbatim>\<open>sort.SliceStable\<close> is
  \<open>sort_key\<close>, which is stable.
\<close>

section \<open>Data\<close>

abbreviation S7Port :: uint16 where "S7Port \<equiv> 102"
abbreviation linkEthernet :: uint32 where "linkEthernet \<equiv> 1"
abbreviation etherIPv4 :: uint16 where "etherIPv4 \<equiv> 0x0800"
abbreviation etherVLAN :: uint16 where "etherVLAN \<equiv> 0x8100"
abbreviation protoTCP :: byte where "protoTCP \<equiv> 6"

record PDU =
  pduFromClient :: bool
  pduFrame :: nat
  pduData :: bytes

record Conversation =
  cvClient :: string
  cvServer :: string
  cvConnectRequests :: nat
  cvConnectConfirms :: nat
  cvGaps :: nat
  cvDropped :: nat
  cvPDUs :: "PDU list"

record packet =
  pkLink :: uint32
  pkData :: bytes

record segment =
  sgFrame :: nat
  sgSeq :: uint32
  sgPayload :: bytes

record flow =
  flSrc :: string
  flDst :: string
  flSyn :: bool
  flIsn :: uint32
  flSegs :: "segment list"

record connKey =
  ckClient :: string
  ckServer :: string

record conn =
  cnKey :: connKey
  cnFirstFrame :: nat
  cnUp :: flow
  cnDown :: flow

record chunk =
  chData :: bytes
  chFrames :: "nat list"

type_synonym assembler = "(connKey \<times> conn) list"

section \<open>Byte orders\<close>

datatype ByteOrder = LittleEndian | BigEndian

text \<open>\<^verbatim>\<open>bo.Uint16(xs[i:])\<close> and \<^verbatim>\<open>bo.Uint32(xs[i:])\<close>.\<close>

definition bo16 :: "ByteOrder \<Rightarrow> bytes \<Rightarrow> nat \<Rightarrow> uint16 res" where
  "bo16 bo xs i = (case bo of
      BigEndian \<Rightarrow> u16at xs i
    | LittleEndian \<Rightarrow> bindR (go_slice xs i (i + 2)) (\<lambda>b. u16at (rev b) 0))"

definition bo32 :: "ByteOrder \<Rightarrow> bytes \<Rightarrow> nat \<Rightarrow> uint32 res" where
  "bo32 bo xs i = (case bo of
      BigEndian \<Rightarrow> u32at xs i
    | LittleEndian \<Rightarrow> bindR (go_slice xs i (i + 4)) (\<lambda>b. u32at (rev b) 0))"

section \<open>Frames of a file\<close>

declare bindR_cong [fundef_cong]

function pcapFrames :: "bytes \<Rightarrow> ByteOrder \<Rightarrow> uint32 \<Rightarrow> nat \<Rightarrow> packet list res" where
  "pcapFrames b bo link off =
    (if length b \<le> off then Ok []
     else if length b - off < 16 then Err (Sentinel ErrFormat)
     else
      bindR (bo32 bo b (off + 8)) (\<lambda>w.
      let n = unat w; off = off + 16 in
      if length b - off < n then Err (Sentinel ErrFormat)
      else
       bindR (go_slice b off (off + n)) (\<lambda>data.
       bindR (pcapFrames b bo link (off + n)) (\<lambda>out.
       Ok (\<lparr>pkLink = link, pkData = data\<rparr> # out)))))"
  by pat_completeness auto
termination
  by (relation "measure (\<lambda>(b, bo, link, off). length b - off)") auto

declare pcapFrames.simps [simp del]

definition pcapPackets :: "bytes \<Rightarrow> ByteOrder \<Rightarrow> packet list res" where
  "pcapPackets b bo =
    (if length b < 24 then Err (Sentinel ErrFormat)
     else bindR (bo32 bo b 20) (\<lambda>link. pcapFrames b bo (link AND 0x0fffffff) 24))"

text \<open>The packet a block holds, if any, and the links of the section afterwards.\<close>

definition pcapngBlock :: "ByteOrder \<Rightarrow> uint32 list \<Rightarrow> uint32 \<Rightarrow> bytes \<Rightarrow> (packet list \<times> uint32 list) res" where
  "pcapngBlock bo links typ body =
    (if typ = 1 then
       (if length body < 2 then Err (Sentinel ErrFormat)
        else bindR (bo16 bo body 0) (\<lambda>l. Ok ([], links @ [ucast l])))
     else if typ = 6 then
       (if length body < 20 then Err (Sentinel ErrFormat)
        else
         bindR (bo32 bo body 0) (\<lambda>ifc.
         bindR (bo32 bo body 12) (\<lambda>capLen.
         if length links \<le> unat ifc \<or> length body - 20 < unat capLen then Err (Sentinel ErrFormat)
         else
          bindR (idx links (unat ifc)) (\<lambda>link.
          bindR (go_slice body 20 (20 + unat capLen)) (\<lambda>data.
          Ok ([\<lparr>pkLink = link, pkData = data\<rparr>], links))))))
     else if typ = 3 then
       (if length body < 4 \<or> length links = 0 then Err (Sentinel ErrFormat)
        else
         bindR (bo32 bo body 0) (\<lambda>w.
         let capLen = min (unat w) (length body - 4) in
         bindR (idx links 0) (\<lambda>link.
         bindR (go_slice body 4 (4 + capLen)) (\<lambda>data.
         Ok ([\<lparr>pkLink = link, pkData = data\<rparr>], links)))))
     else Ok ([], links))"

text \<open>The byte order after the header of a section.\<close>

definition sectionOrder :: "bytes \<Rightarrow> nat \<Rightarrow> ByteOrder res" where
  "sectionOrder b off =
     bindR (bo32 LittleEndian b (off + 8)) (\<lambda>magic.
     if magic = 0x1a2b3c4d then Ok LittleEndian
     else if magic = 0x4d3c2b1a then Ok BigEndian
     else Err (Sentinel ErrFormat))"

function pcapngBlocks :: "bytes \<Rightarrow> ByteOrder \<Rightarrow> uint32 list \<Rightarrow> nat \<Rightarrow> packet list res" where
  "pcapngBlocks b bo links off =
    (if length b \<le> off then Ok []
     else if length b - off < 12 then Err (Sentinel ErrFormat)
     else
      bindR (bo32 bo b off) (\<lambda>typ.
      bindR (if typ = 0x0a0d0d0a then bindR (sectionOrder b off) (\<lambda>bo. Ok (bo, [])) else Ok (bo, links)) (\<lambda>(bo, links).
      bindR (bo32 bo b (off + 4)) (\<lambda>w.
      let n = unat w in
      if n < 12 \<or> n mod 4 \<noteq> 0 \<or> length b - off < n then Err (Sentinel ErrFormat)
      else
       bindR (go_slice b (off + 8) (off + n - 4)) (\<lambda>body.
       bindR (pcapngBlock bo links typ body) (\<lambda>(packets, links).
       bindR (pcapngBlocks b bo links (off + n)) (\<lambda>out.
       Ok (packets @ out))))))))"
  by pat_completeness auto
termination
  by (relation "measure (\<lambda>(b, bo, links, off). length b - off)") auto

declare pcapngBlocks.simps [simp del]

definition pcapngPackets :: "bytes \<Rightarrow> packet list res" where
  "pcapngPackets b = pcapngBlocks b LittleEndian [] 0"

definition packets :: "bytes \<Rightarrow> packet list res" where
  "packets b =
    (if length b < 4 then Err (Sentinel ErrFormat)
     else
      bindR (bo32 LittleEndian b 0) (\<lambda>magic.
      if magic = 0xa1b2c3d4 \<or> magic = 0xa1b23c4d then pcapPackets b LittleEndian
      else if magic = 0xd4c3b2a1 \<or> magic = 0x4d3cb2a1 then pcapPackets b BigEndian
      else if magic = 0x0a0d0d0a then pcapngPackets b
      else Err (Sentinel ErrFormat)))"

section \<open>Segments of connections\<close>

definition newAssembler :: assembler where
  "newAssembler = []"

definition emptyFlow :: "string \<Rightarrow> string \<Rightarrow> flow" where
  "emptyFlow src dst = \<lparr>flSrc = src, flDst = dst, flSyn = False, flIsn = 0, flSegs = []\<rparr>"

text \<open>What a segment does to its flow: a SYN starts it again, a payload is kept.\<close>

definition addSegment :: "nat \<Rightarrow> uint32 \<Rightarrow> bool \<Rightarrow> bytes \<Rightarrow> flow \<Rightarrow> flow" where
  "addSegment num seq syn payload f =
    (if syn then f\<lparr>flSyn := True, flIsn := seq, flSegs := []\<rparr>
     else if 0 < length payload
     then f\<lparr>flSegs := flSegs f @ [\<lparr>sgFrame = num, sgSeq = seq, sgPayload = payload\<rparr>]\<rparr>
     else f)"

text \<open>The connection of a segment, made at its first frame, with the flow of its direction changed.\<close>

definition onConn :: "connKey \<Rightarrow> nat \<Rightarrow> bool \<Rightarrow> (flow \<Rightarrow> flow) \<Rightarrow> assembler \<Rightarrow> assembler" where
  "onConn key num toServer g a =
    (let c = (case map_of a key of
         Some c \<Rightarrow> c
       | None \<Rightarrow> \<lparr>cnKey = key, cnFirstFrame = num, cnUp = emptyFlow (ckClient key) (ckServer key),
           cnDown = emptyFlow (ckServer key) (ckClient key)\<rparr>) in
     AList.update key (if toServer then c\<lparr>cnUp := g (cnUp c)\<rparr> else c\<lparr>cnDown := g (cnDown c)\<rparr>) a)"

definition endpoint :: "string \<Rightarrow> uint16 \<Rightarrow> string" where
  "endpoint ip port = ip @ '':'' @ utoa (unat port)"

text \<open>The part of \<^verbatim>\<open>frame\<close> after the IPv4 header, on the TCP segment.\<close>

definition tcpSegment :: "assembler \<Rightarrow> nat \<Rightarrow> string \<Rightarrow> string \<Rightarrow> bytes \<Rightarrow> assembler res" where
  "tcpSegment a num src dst t =
    (if length t < 20 then Ok a
     else
      bindR (u16at t 0) (\<lambda>sport.
      bindR (u16at t 2) (\<lambda>dport.
      bindR (idx t 12) (\<lambda>b12.
      let thl = unat (drop_bit 4 b12) * 4 in
      if thl < 20 \<or> length t < thl then Ok a
      else if dport \<noteq> S7Port \<and> sport \<noteq> S7Port then Ok a
      else
       (let toServer = (dport = S7Port);
            key = (if toServer then \<lparr>ckClient = endpoint src sport, ckServer = endpoint dst dport\<rparr>
                   else \<lparr>ckClient = endpoint dst dport, ckServer = endpoint src sport\<rparr>) in
        bindR (u32at t 4) (\<lambda>seq.
        bindR (idx t 13) (\<lambda>flags.
        bindR (go_slice t thl (length t)) (\<lambda>payload.
        Ok (onConn key num toServer (addSegment num seq (flags AND 0x02 \<noteq> 0) payload) a)))))))))"

definition dotted :: "byte \<Rightarrow> byte \<Rightarrow> byte \<Rightarrow> byte \<Rightarrow> string" where
  "dotted a b c d = utoa (unat a) @ ''.'' @ utoa (unat b) @ ''.'' @ utoa (unat c) @ ''.'' @ utoa (unat d)"

definition ipAt :: "bytes \<Rightarrow> nat \<Rightarrow> string res" where
  "ipAt d i = bindR (idx d i) (\<lambda>a. bindR (idx d (i + 1)) (\<lambda>b. bindR (idx d (i + 2)) (\<lambda>c. bindR (idx d (i + 3)) (\<lambda>e.
     Ok (dotted a b c e)))))"

text \<open>The part of \<^verbatim>\<open>frame\<close> after the link layer, on the IPv4 packet.\<close>

definition ipv4Packet :: "assembler \<Rightarrow> nat \<Rightarrow> bytes \<Rightarrow> assembler res" where
  "ipv4Packet a num d =
    (if length d < 20 then Ok a
     else
      bindR (idx d 0) (\<lambda>b0.
      if drop_bit 4 b0 \<noteq> 4 then Ok a
      else
       bindR (u16at d 2) (\<lambda>w.
       bindR (idx d 9) (\<lambda>proto.
       let ihl = unat (b0 AND 0x0f) * 4; total = unat w in
       if ihl < 20 \<or> total < ihl \<or> length d < total \<or> proto \<noteq> protoTCP then Ok a
       else
        bindR (u16at d 6) (\<lambda>frag.
        if frag AND 0x3fff \<noteq> 0 then Err (OtherError ''fragmented IPv4 is not supported'')
        else
         bindR (ipAt d 12) (\<lambda>src.
         bindR (ipAt d 16) (\<lambda>dst.
         bindR (go_slice d ihl total) (\<lambda>t.
         tcpSegment a num src dst t))))))))"

definition frame :: "assembler \<Rightarrow> nat \<Rightarrow> packet \<Rightarrow> assembler res" where
  "frame a num p =
    (if pkLink p \<noteq> linkEthernet
     then Err (OtherError (''link type '' @ utoa (unat (pkLink p)) @ '': only Ethernet is supported''))
     else if length (pkData p) < 14 then Ok a
     else
      bindR (u16at (pkData p) 12) (\<lambda>etherType.
      bindR (go_slice (pkData p) 14 (length (pkData p))) (\<lambda>d.
      if etherType = etherVLAN then
        (if length d < 4 then Ok a
         else
          bindR (u16at d 2) (\<lambda>etherType.
          bindR (go_slice d 4 (length d)) (\<lambda>d.
          if etherType \<noteq> etherIPv4 then Ok a else ipv4Packet a num d)))
      else if etherType \<noteq> etherIPv4 then Ok a else ipv4Packet a num d)))"

section \<open>Reassembly\<close>

definition seqDiff :: "uint32 \<Rightarrow> uint32 \<Rightarrow> int" where
  "seqDiff a b = (let d = uint (a - b) in if 2 ^ 31 \<le> d then d - 2 ^ 32 else d)"

text \<open>The loop over the sorted segments, with the run in progress and the next offset expected.\<close>

fun assemble :: "uint32 \<Rightarrow> segment list \<Rightarrow> chunk \<Rightarrow> int \<Rightarrow> chunk list res" where
  "assemble base [] cur next = Ok [cur]"
| "assemble base (s # ss) cur next =
    (let start = seqDiff (sgSeq s) base;
         end_off = start + int (length (sgPayload s)) in
     if end_off \<le> next then assemble base ss cur next
     else if next < start then
       bindR (assemble base ss
         \<lparr>chData = sgPayload s, chFrames = replicate (length (sgPayload s)) (sgFrame s)\<rparr> end_off) (\<lambda>out.
       Ok (cur # out))
     else
       bindR (go_slice (sgPayload s) (nat (next - start)) (length (sgPayload s))) (\<lambda>p.
       assemble base ss
         \<lparr>chData = chData cur @ p, chFrames = chFrames cur @ replicate (length p) (sgFrame s)\<rparr> end_off))"

definition stream :: "flow \<Rightarrow> chunk list res" where
  "stream f =
    (if length (flSegs f) = 0 then Ok []
     else
      bindR (idx (flSegs f) 0) (\<lambda>first.
      let base = (if flSyn f then flIsn f + 1 else sgSeq first) in
      assemble base (sort_key (\<lambda>s. seqDiff (sgSeq s) base) (flSegs f)) \<lparr>chData = [], chFrames = []\<rparr> 0))"

section \<open>PDUs of a flow\<close>

text \<open>What a loop over TPKT packets has found: PDUs, connect requests and confirms, and what was dropped.\<close>

record found =
  fdPDUs :: "PDU list"
  fdCR :: nat
  fdCC :: nat
  fdDropped :: nat

text \<open>The COTP TPDU of one packet: what it adds to the TSDU in progress and to what was found.\<close>

definition cotpTPDU :: "bool \<Rightarrow> nat list \<Rightarrow> nat \<Rightarrow> nat \<Rightarrow> bytes \<Rightarrow> bytes \<Rightarrow> found \<Rightarrow> (bytes \<times> found) res" where
  "cotpTPDU fromClient frames off n tpdu tsdu r =
     bindR (idx tpdu 0) (\<lambda>b0.
     let li = unat b0 in
     if length tpdu < li + 1 \<or> li < 1
     then Err (OtherError (''COTP length indicator '' @ utoa li @ '' at stream offset '' @ utoa off))
     else
      bindR (idx tpdu 1) (\<lambda>kind.
      if kind AND 0xf0 = 0xe0 then Ok (tsdu, r\<lparr>fdCR := fdCR r + 1\<rparr>)
      else if kind AND 0xf0 = 0xd0 then Ok (tsdu, r\<lparr>fdCC := fdCC r + 1\<rparr>)
      else if kind AND 0xf0 = 0xf0 then
        (if li < 2
         then Err (OtherError (''COTP DT length indicator '' @ utoa li @ '' at stream offset '' @ utoa off))
         else
          bindR (go_slice tpdu (li + 1) (length tpdu)) (\<lambda>d.
          bindR (idx tpdu 2) (\<lambda>eot.
          let tsdu = tsdu @ d in
          if eot AND 0x80 = 0 then Ok (tsdu, r)
          else if length tsdu = 0 then Ok ([], r)
          else
           bindR (idx tsdu 0) (\<lambda>proto.
           if proto \<noteq> 0x32 then Ok ([], r)
           else
            bindR (idx frames (off + n - 1)) (\<lambda>num.
            Ok ([], r\<lparr>fdPDUs := fdPDUs r @ [\<lparr>pduFromClient = fromClient, pduFrame = num, pduData = tsdu\<rparr>]\<rparr>))))))
      else Ok (tsdu, r)))"

function pdusFrom :: "chunk \<Rightarrow> bool \<Rightarrow> nat \<Rightarrow> bytes \<Rightarrow> found \<Rightarrow> found res" where
  "pdusFrom c fromClient off tsdu r =
    (if length (chData c) \<le> off
     then Ok (if 0 < length tsdu then r\<lparr>fdDropped := fdDropped r + 1\<rparr> else r)
     else
      bindR (if length (chData c) - off < 4 then Ok None else bindR (u16at (chData c) (off + 2)) (\<lambda>w. Ok (Some (unat w)))) (\<lambda>len.
      case len of
        None \<Rightarrow> Ok (r\<lparr>fdDropped := fdDropped r + (if 0 < length tsdu then 2 else 1)\<rparr>)
      | Some n \<Rightarrow>
        if length (chData c) - off < n then Ok (r\<lparr>fdDropped := fdDropped r + (if 0 < length tsdu then 2 else 1)\<rparr>)
        else
         bindR (idx (chData c) off) (\<lambda>version.
         if version \<noteq> 3
         then Err (OtherError (''TPKT version '' @ utoa (unat version) @ '' at stream offset '' @ utoa off))
         else if n < 7 then Err (OtherError (''TPKT length '' @ utoa n @ '' at stream offset '' @ utoa off))
         else
          bindR (go_slice (chData c) (off + 4) (off + n)) (\<lambda>tpdu.
          bindR (cotpTPDU fromClient (chFrames c) off n tpdu tsdu r) (\<lambda>(tsdu, r).
          pdusFrom c fromClient (off + n) tsdu r)))))"
  by pat_completeness auto
termination
  by (relation "measure (\<lambda>(c, fromClient, off, tsdu, r). length (chData c) - off)") auto

declare pdusFrom.simps [simp del]

definition pdus :: "chunk \<Rightarrow> bool \<Rightarrow> found res" where
  "pdus c fromClient = pdusFrom c fromClient 0 [] \<lparr>fdPDUs = [], fdCR = 0, fdCC = 0, fdDropped = 0\<rparr>"

fun runsPDUs :: "bool \<Rightarrow> chunk list \<Rightarrow> found \<Rightarrow> found res" where
  "runsPDUs fromClient [] r = Ok r"
| "runsPDUs fromClient (c # cs) r =
     bindR (pdus c fromClient) (\<lambda>p.
     runsPDUs fromClient cs \<lparr>fdPDUs = fdPDUs r @ fdPDUs p, fdCR = fdCR r + fdCR p, fdCC = fdCC r + fdCC p,
       fdDropped = fdDropped r + fdDropped p\<rparr>)"

text \<open>The number of gaps comes first.\<close>

definition flowPDUs :: "flow \<Rightarrow> bool \<Rightarrow> (nat \<times> found) res" where
  "flowPDUs f fromClient =
     bindR (stream f) (\<lambda>runs.
     bindR (runsPDUs fromClient runs \<lparr>fdPDUs = [], fdCR = 0, fdCC = 0, fdDropped = 0\<rparr>) (\<lambda>r.
     Ok (if 0 < length runs then length runs - 1 else 0, r)))"

section \<open>Conversations\<close>

text \<open>\<^verbatim>\<open>fmt.Errorf("%s -> %s: %w", ...)\<close>\<close>

definition inDirection :: "string \<Rightarrow> string \<Rightarrow> 'a res \<Rightarrow> 'a res" where
  "inDirection src dst m = (case m of Err e \<Rightarrow> Err (wrap_error (src @ '' -> '' @ dst) e) | _ \<Rightarrow> m)"

definition conversation :: "conn \<Rightarrow> Conversation res" where
  "conversation c =
     bindR (inDirection (ckClient (cnKey c)) (ckServer (cnKey c)) (flowPDUs (cnUp c) True)) (\<lambda>(g1, up).
     bindR (inDirection (ckServer (cnKey c)) (ckClient (cnKey c)) (flowPDUs (cnDown c) False)) (\<lambda>(g2, down).
     Ok \<lparr>cvClient = ckClient (cnKey c), cvServer = ckServer (cnKey c),
       cvConnectRequests = fdCR up + fdCR down, cvConnectConfirms = fdCC up + fdCC down,
       cvGaps = g1 + g2, cvDropped = fdDropped up + fdDropped down,
       cvPDUs = sort_key pduFrame (fdPDUs up @ fdPDUs down)\<rparr>))"

fun conversationsOf :: "conn list \<Rightarrow> Conversation list res" where
  "conversationsOf [] = Ok []"
| "conversationsOf (c # cs) = bindR (conversation c) (\<lambda>v. bindR (conversationsOf cs) (\<lambda>vs. Ok (v # vs)))"

definition conversations :: "assembler \<Rightarrow> Conversation list res" where
  "conversations a = conversationsOf (sort_key cnFirstFrame (map snd a))"

fun framesFrom :: "nat \<Rightarrow> packet list \<Rightarrow> assembler \<Rightarrow> assembler res" where
  "framesFrom i [] a = Ok a"
| "framesFrom i (f # fs) a =
    (case frame a (i + 1) f of
       Panic \<Rightarrow> Panic
     | Err e \<Rightarrow> Err (wrap_error (''frame '' @ utoa (i + 1)) e)
     | Ok a \<Rightarrow> framesFrom (i + 1) fs a)"

definition Read :: "bytes \<Rightarrow> Conversation list res" where
  "Read b =
     bindR (packets b) (\<lambda>fs.
     bindR (framesFrom 0 fs newAssembler) (\<lambda>a.
     conversations a))"

text \<open>Reading from disk: the parts of a path, and the directory that is opened as a root for the file, are a parameter.\<close>

record files =
  dirOf :: "string \<Rightarrow> string"
  baseOf :: "string \<Rightarrow> string"
  openRoot :: "string \<Rightarrow> (string \<Rightarrow> bytes res) res"

definition ReadFile :: "files \<Rightarrow> string \<Rightarrow> Conversation list res" where
  "ReadFile fs path =
     bindR (openRoot fs (dirOf fs path)) (\<lambda>readIn.
     bindR (readIn (baseOf fs path)) Read)"

definition Count :: "Conversation list \<Rightarrow> (PDU \<Rightarrow> bool) \<Rightarrow> nat" where
  "Count convs keep = sum_list (map (\<lambda>c. length (filter keep (cvPDUs c))) convs)"

section \<open>No input makes the reader panic\<close>

text \<open>An outcome that is not a panic and whose value, if any, satisfies a property.\<close>

definition yields :: "'a res \<Rightarrow> ('a \<Rightarrow> bool) \<Rightarrow> bool" where
  "yields r P \<longleftrightarrow> (case r of Ok x \<Rightarrow> P x | Err _ \<Rightarrow> True | Panic \<Rightarrow> False)"

named_theorems yields_intros "rules for outcomes that are no panic"

lemma yields_Ok [yields_intros]: "P x \<Longrightarrow> yields (Ok x) P"
  by (simp add: yields_def)

lemma yields_Err [yields_intros]: "yields (Err e) P"
  by (simp add: yields_def)

lemma yields_bindR: "yields m Q \<Longrightarrow> (\<And>x. Q x \<Longrightarrow> yields (f x) P) \<Longrightarrow> yields (bindR m f) P"
  by (cases m) (simp_all add: yields_def)

lemma yields_bindR_any: "yields m (\<lambda>_. True) \<Longrightarrow> (\<And>x. m = Ok x \<Longrightarrow> yields (f x) P) \<Longrightarrow> yields (bindR m f) P"
  by (cases m) (simp_all add: yields_def)

lemma yields_mono: "yields m Q \<Longrightarrow> (\<And>x. Q x \<Longrightarrow> P x) \<Longrightarrow> yields m P"
  by (cases m) (simp_all add: yields_def)

lemma yields_if [yields_intros]: "(c \<Longrightarrow> yields a P) \<Longrightarrow> (\<not> c \<Longrightarrow> yields b P) \<Longrightarrow> yields (if c then a else b) P"
  by simp

lemma yields_prod [yields_intros]: "(\<And>a b. x = (a, b) \<Longrightarrow> yields (f a b) P) \<Longrightarrow> yields (case x of (a, b) \<Rightarrow> f a b) P"
  by (cases x) simp

text \<open>Accesses within bounds.\<close>

lemma idx_within [yields_intros]:
  "i < length xs \<Longrightarrow> (\<And>x. idx xs i = Ok x \<Longrightarrow> yields (f x) P) \<Longrightarrow> yields (bindR (idx xs i) f) P"
  by (simp add: idx_def)

lemma slice_within [yields_intros]:
  "lo \<le> hi \<Longrightarrow> hi \<le> length xs \<Longrightarrow> (\<And>ys. go_slice xs lo hi = Ok ys \<Longrightarrow> yields (f ys) P) \<Longrightarrow> yields (bindR (go_slice xs lo hi) f) P"
  by (simp add: go_slice_def)

lemma u16at_within [yields_intros]:
  "i + 2 \<le> length xs \<Longrightarrow> (\<And>v. u16at xs i = Ok v \<Longrightarrow> yields (f v) P) \<Longrightarrow> yields (bindR (u16at xs i) f) P"
  by (simp add: u16at_Ok)

lemma u32at_within [yields_intros]:
  "i + 4 \<le> length xs \<Longrightarrow> (\<And>v. u32at xs i = Ok v \<Longrightarrow> yields (f v) P) \<Longrightarrow> yields (bindR (u32at xs i) f) P"
  by (simp add: u32at_Ok)

lemma bo16_within [yields_intros]:
  "i + 2 \<le> length xs \<Longrightarrow> (\<And>v. bo16 bo xs i = Ok v \<Longrightarrow> yields (f v) P) \<Longrightarrow> yields (bindR (bo16 bo xs i) f) P"
  by (cases bo) (simp_all add: bo16_def u16at_Ok go_slice_def)

lemma bo32_within [yields_intros]:
  "i + 4 \<le> length xs \<Longrightarrow> (\<And>v. bo32 bo xs i = Ok v \<Longrightarrow> yields (f v) P) \<Longrightarrow> yields (bindR (bo32 bo xs i) f) P"
  by (cases bo) (simp_all add: bo32_def u32at_Ok go_slice_def)

lemma pcapFrames_yields: "yields (pcapFrames b bo link off) (\<lambda>_. True)"
proof (induction b bo link off rule: pcapFrames.induct)
  case (1 b bo link off)
  show ?case
    unfolding pcapFrames.simps [of b bo link off] Let_def
    by (intro yields_intros yields_bindR [OF "1.IH"]) auto
qed

lemma pcapngBlock_yields: "yields (pcapngBlock bo links typ body) (\<lambda>_. True)"
  unfolding pcapngBlock_def Let_def by (intro yields_intros) auto

lemma sectionOrder_yields: "off + 12 \<le> length b \<Longrightarrow> yields (sectionOrder b off) (\<lambda>_. True)"
  unfolding sectionOrder_def by (intro yields_intros) auto

lemma pcapngBlocks_yields: "yields (pcapngBlocks b bo links off) (\<lambda>_. True)"
proof (induction "length b - off" arbitrary: bo links off rule: less_induct)
  case less
  have IH: "yields (pcapngBlocks b bo' links' (off + n)) (\<lambda>_. True)" if "off < length b" "12 \<le> n" for bo' links' n
    using that by (intro less) simp
  show ?case
    unfolding pcapngBlocks.simps [of b bo links off] Let_def
    by (intro yields_intros yields_bindR_any) (auto intro: sectionOrder_yields pcapngBlock_yields IH)
qed

lemma packets_yields: "yields (packets b) (\<lambda>_. True)"
  unfolding packets_def pcapPackets_def pcapngPackets_def
  by (intro yields_intros pcapFrames_yields pcapngBlocks_yields) auto

subsection \<open>Frames\<close>

text \<open>What the reader keeps of every connection: the segments come from frames seen so far.\<close>

definition segs_upto :: "nat \<Rightarrow> flow \<Rightarrow> bool" where
  "segs_upto num f \<longleftrightarrow> list_all (\<lambda>s. 1 \<le> sgFrame s \<and> sgFrame s \<le> num) (flSegs f)"

definition conn_ok :: "nat \<Rightarrow> connKey \<times> conn \<Rightarrow> bool" where
  "conn_ok num p \<longleftrightarrow> cnKey (snd p) = fst p \<and> 1 \<le> cnFirstFrame (snd p) \<and> cnFirstFrame (snd p) \<le> num \<and>
     segs_upto num (cnUp (snd p)) \<and> segs_upto num (cnDown (snd p))"

definition asm_ok :: "nat \<Rightarrow> assembler \<Rightarrow> bool" where
  "asm_ok num a \<longleftrightarrow> distinct (map fst a) \<and> sorted_wrt (<) (map (cnFirstFrame \<circ> snd) a) \<and> list_all (conn_ok num) a"

lemma update_present:
  "map_of a k = Some c \<Longrightarrow> \<exists>xs ys. a = xs @ (k, c) # ys \<and> AList.update k v a = xs @ (k, v) # ys"
proof (induction a)
  case (Cons p a)
  show ?case
  proof (cases "fst p = k")
    case True
    with Cons.prems show ?thesis by (cases p) (auto intro: exI [of _ "[]"])
  next
    case False
    with Cons obtain xs ys where "a = xs @ (k, c) # ys" "AList.update k v a = xs @ (k, v) # ys" by auto
    with False show ?thesis by (intro exI [of _ "p # xs"] exI [of _ ys]) simp
  qed
qed simp

lemma update_absent: "map_of a k = None \<Longrightarrow> AList.update k v a = a @ [(k, v)]"
  by (induction a) (auto simp: dom_def split: if_splits)

lemma segs_upto_mono: "segs_upto n f \<Longrightarrow> n \<le> m \<Longrightarrow> segs_upto m f"
  by (auto simp: segs_upto_def list_all_iff)

lemma addSegment_upto: "segs_upto n f \<Longrightarrow> segs_upto (Suc n) (addSegment (Suc n) seq syn payload f)"
  by (auto simp: addSegment_def segs_upto_def list_all_iff)

lemma conn_ok_mono: "conn_ok n p \<Longrightarrow> n \<le> m \<Longrightarrow> conn_ok m p"
  by (auto simp: conn_ok_def segs_upto_mono)

lemma asm_ok_mono: "asm_ok n a \<Longrightarrow> n \<le> m \<Longrightarrow> asm_ok m a"
  by (auto simp: asm_ok_def list_all_iff intro: conn_ok_mono)

lemma onConn_ok:
  assumes "asm_ok n a" "\<And>f. segs_upto n f \<Longrightarrow> segs_upto (Suc n) (g f)"
  shows "asm_ok (Suc n) (onConn key (Suc n) toServer g a)"
proof -
  note later = asm_ok_mono [OF assms(1), of "Suc n"]
  show ?thesis
  proof (cases "map_of a key")
    case None
    define c where "c = \<lparr>cnKey = key, cnFirstFrame = Suc n, cnUp = emptyFlow (ckClient key) (ckServer key),
      cnDown = emptyFlow (ckServer key) (ckClient key)\<rparr>"
    define v where "v = (if toServer then c\<lparr>cnUp := g (cnUp c)\<rparr> else c\<lparr>cnDown := g (cnDown c)\<rparr>)"
    have "segs_upto k (emptyFlow s d)" for k s d by (simp add: segs_upto_def emptyFlow_def)
    then have "conn_ok (Suc n) (key, v)" using assms(2) by (simp add: v_def c_def conn_ok_def)
    moreover have "cnFirstFrame v = Suc n" by (simp add: v_def c_def)
    moreover have "onConn key (Suc n) toServer g a = a @ [(key, v)]"
      unfolding onConn_def None option.case Let_def c_def [symmetric] v_def [symmetric] by (rule update_absent [OF None])
    moreover have "key \<notin> fst ` set a" using None by (simp add: map_of_eq_None_iff)
    moreover have "\<forall>p\<in>set a. cnFirstFrame (snd p) < Suc n"
      using assms(1) by (auto simp: asm_ok_def list_all_iff conn_ok_def less_Suc_eq_le)
    ultimately show ?thesis
      using later by (simp add: asm_ok_def sorted_wrt_append)
  next
    case (Some c)
    define v where "v = (if toServer then c\<lparr>cnUp := g (cnUp c)\<rparr> else c\<lparr>cnDown := g (cnDown c)\<rparr>)"
    obtain xs ys where a: "a = xs @ (key, c) # ys" "AList.update key v a = xs @ (key, v) # ys"
      using update_present [OF Some] by blast
    have "conn_ok n (key, c)" using assms(1) a(1) by (simp add: asm_ok_def)
    then have "conn_ok (Suc n) (key, v)" using assms(2) by (auto simp: v_def conn_ok_def segs_upto_mono)
    moreover have "cnFirstFrame v = cnFirstFrame c" by (simp add: v_def)
    moreover have "onConn key (Suc n) toServer g a = xs @ (key, v) # ys"
      unfolding onConn_def Some option.case Let_def v_def [symmetric] by (rule a(2))
    ultimately show ?thesis
      using later unfolding a(1) asm_ok_def by (simp add: sorted_wrt_append)
  qed
qed

lemma tcpSegment_yields:
  assumes "asm_ok n a"
  shows "yields (tcpSegment a (Suc n) src dst t) (asm_ok (Suc n))"
  unfolding tcpSegment_def Let_def
  by (intro yields_intros onConn_ok [OF assms] addSegment_upto) (auto intro: asm_ok_mono [OF assms])

lemma yields_ipAt [yields_intros]:
  "i + 4 \<le> length d \<Longrightarrow> (\<And>s. yields (f s) P) \<Longrightarrow> yields (bindR (ipAt d i) f) P"
  by (simp add: ipAt_def idx_Ok)

lemma ipv4Packet_yields:
  assumes "asm_ok n a"
  shows "yields (ipv4Packet a (Suc n) d) (asm_ok (Suc n))"
  unfolding ipv4Packet_def Let_def
  by (intro yields_intros tcpSegment_yields [OF assms]) (auto intro: asm_ok_mono [OF assms])

lemma frame_yields:
  assumes "asm_ok n a"
  shows "yields (frame a (Suc n) p) (asm_ok (Suc n))"
  unfolding frame_def
  by (intro yields_intros ipv4Packet_yields [OF assms]) (auto intro: asm_ok_mono [OF assms])

lemma framesFrom_yields: "asm_ok i a \<Longrightarrow> yields (framesFrom i fs a) (asm_ok (i + length fs))"
proof (induction fs arbitrary: i a)
  case (Cons p fs)
  show ?case
    using frame_yields [OF Cons.prems, of p] Cons.IH [of "Suc i"]
    by (cases "frame a (Suc i) p") (auto simp: yields_def)
qed (simp add: yields_def)

subsection \<open>Runs and PDUs\<close>

definition chunk_ok :: "(nat \<Rightarrow> bool) \<Rightarrow> chunk \<Rightarrow> bool" where
  "chunk_ok P c \<longleftrightarrow> length (chFrames c) = length (chData c) \<and> list_all P (chFrames c)"

lemma assemble_ok:
  assumes "list_all (\<lambda>s. P (sgFrame s)) segs" "chunk_ok P cur"
  shows "\<exists>cs. assemble base segs cur next = Ok cs \<and> cs \<noteq> [] \<and> list_all (chunk_ok P) cs"
  using assms
proof (induction base segs cur "next" rule: assemble.induct)
  case (2 base s ss cur nxt)
  define start where "start = seqDiff (sgSeq s) base"
  define end_off where "end_off = start + int (length (sgPayload s))"
  have p: "P (sgFrame s)" "list_all (\<lambda>s. P (sgFrame s)) ss" using "2.prems"(1) by simp_all
  have rep: "list_all P (replicate k (sgFrame s))" for k using p(1) by (simp add: list_all_iff)
  consider "end_off \<le> nxt" | "nxt < end_off" "nxt < start" | "nxt < end_off" "start \<le> nxt" by linarith
  then show ?case
  proof cases
    case 1
    then show ?thesis using "2.IH"(1) [OF start_def end_off_def] "2.prems"(2) p(2)
      by (simp add: start_def end_off_def)
  next
    case 2
    have "chunk_ok P \<lparr>chData = sgPayload s, chFrames = replicate (length (sgPayload s)) (sgFrame s)\<rparr>"
      using rep by (simp add: chunk_ok_def)
    then obtain cs where "assemble base ss \<lparr>chData = sgPayload s, chFrames = replicate (length (sgPayload s)) (sgFrame s)\<rparr> end_off = Ok cs"
        "list_all (chunk_ok P) cs"
      using "2.IH"(2) [OF start_def end_off_def] 2 p(2) by auto
    then show ?thesis using 2 "2.prems"(2) by (simp add: start_def [symmetric] end_off_def [symmetric])
  next
    case 3
    then have le: "nat (nxt - start) \<le> length (sgPayload s)" by (simp add: end_off_def)
    define q where "q = drop (nat (nxt - start)) (sgPayload s)"
    have q: "go_slice (sgPayload s) (nat (nxt - start)) (length (sgPayload s)) = Ok q"
      using le by (simp add: q_def go_slice_def)
    have "chunk_ok P \<lparr>chData = chData cur @ q, chFrames = chFrames cur @ replicate (length q) (sgFrame s)\<rparr>"
      using rep "2.prems"(2) by (simp add: chunk_ok_def)
    then obtain cs where "assemble base ss \<lparr>chData = chData cur @ q, chFrames = chFrames cur @ replicate (length q) (sgFrame s)\<rparr> end_off = Ok cs"
        "cs \<noteq> []" "list_all (chunk_ok P) cs"
      using "2.IH"(3) [OF start_def end_off_def _ _ q] 3 p(2) by auto
    then show ?thesis using 3 q by (simp add: start_def [symmetric] end_off_def [symmetric])
  qed
qed simp

lemma stream_ok:
  assumes "segs_upto n f"
  shows "\<exists>cs. stream f = Ok cs \<and> list_all (chunk_ok (\<lambda>k. 1 \<le> k \<and> k \<le> n)) cs"
proof (cases "flSegs f = []")
  case False
  define base where "base = (if flSyn f then flIsn f + 1 else sgSeq (flSegs f ! 0))"
  have "list_all (\<lambda>s. 1 \<le> sgFrame s \<and> sgFrame s \<le> n) (sort_key (\<lambda>s. seqDiff (sgSeq s) base) (flSegs f))"
    using assms by (simp add: segs_upto_def list_all_iff)
  then have "\<exists>cs. assemble base (sort_key (\<lambda>s. seqDiff (sgSeq s) base) (flSegs f)) \<lparr>chData = [], chFrames = []\<rparr> 0 = Ok cs \<and>
      cs \<noteq> [] \<and> list_all (chunk_ok (\<lambda>k. 1 \<le> k \<and> k \<le> n)) cs"
    by (rule assemble_ok) (simp add: chunk_ok_def)
  then show ?thesis using False by (auto simp: stream_def idx_Ok base_def)
qed (simp add: stream_def)

text \<open>What every PDU found satisfies.\<close>

definition pdu_ok :: "bool \<Rightarrow> (nat \<Rightarrow> bool) \<Rightarrow> PDU \<Rightarrow> bool" where
  "pdu_ok fromClient P p \<longleftrightarrow> pduFromClient p = fromClient \<and> P (pduFrame p) \<and> (\<exists>rest. pduData p = 0x32 # rest)"

lemma cotpTPDU_yields:
  assumes "3 \<le> length tpdu" "off + n \<le> length frames" "0 < n" "list_all P frames" "list_all (pdu_ok fromClient P) (fdPDUs r)"
  shows "yields (cotpTPDU fromClient frames off n tpdu tsdu r) (\<lambda>(tsdu, r). list_all (pdu_ok fromClient P) (fdPDUs r))"
  unfolding cotpTPDU_def Let_def
proof (intro yields_intros)
  fix b0 kind eot proto num d
  assume "idx (tsdu @ d) 0 = Ok proto" "\<not> proto \<noteq> 0x32" "idx frames (off + n - 1) = Ok num"
  then have "\<exists>rest. tsdu @ d = 0x32 # rest" "P num"
    using assms(4) by (cases "tsdu @ d"; auto simp: idx_def list_all_length split: if_splits)+
  then show "case ([], r\<lparr>fdPDUs := fdPDUs r @ [\<lparr>pduFromClient = fromClient, pduFrame = num, pduData = tsdu @ d\<rparr>]\<rparr>) of
      (tsdu, r) \<Rightarrow> list_all (pdu_ok fromClient P) (fdPDUs r)"
    using assms(5) by (simp add: pdu_ok_def)
qed (use assms in auto)
lemma pdusFrom_yields:
  assumes "chunk_ok P c" "list_all (pdu_ok fromClient P) (fdPDUs r)"
  shows "yields (pdusFrom c fromClient off tsdu r) (\<lambda>r. list_all (pdu_ok fromClient P) (fdPDUs r))"
  using assms(2)
proof (induction "length (chData c) - off" arbitrary: off tsdu r rule: less_induct)
  case less
  have frames: "length (chFrames c) = length (chData c)" "list_all P (chFrames c)"
    using assms(1) by (simp_all add: chunk_ok_def)
  show ?case
  proof (cases "length (chData c) - off < 4")
    case True
    then show ?thesis using less.prems by (simp add: pdusFrom.simps [of c] yields_def)
  next
    case False
    define n where "n = unat (be16 (chData c ! (off + 2)) (chData c ! (off + 2 + 1)))"
    have n: "u16at (chData c) (off + 2) = Ok (be16 (chData c ! (off + 2)) (chData c ! (off + 2 + 1)))"
      using False by (intro u16at_Ok) simp
    have rest: "yields (pdusFrom c fromClient (off + n) tsdu' r') (\<lambda>r. list_all (pdu_ok fromClient P) (fdPDUs r))"
      if "7 \<le> n" "list_all (pdu_ok fromClient P) (fdPDUs r')" for tsdu' r'
      using that False by (intro less) simp_all
    have tpdu: "yields (bindR (cotpTPDU fromClient (chFrames c) off n tpdu tsdu r) (\<lambda>(tsdu, r). pdusFrom c fromClient (off + n) tsdu r))
        (\<lambda>r. list_all (pdu_ok fromClient P) (fdPDUs r))"
      if "7 \<le> n" "off + n \<le> length (chData c)" "length tpdu = n - 4" for tpdu
      by (rule yields_bindR [OF cotpTPDU_yields [of tpdu off n "chFrames c" P]]) (use that frames less.prems rest in auto)
    have long: "(length (chData c) \<le> off) = False" "(length (chData c) - off < 4) = False" using False by auto
    show ?thesis
      unfolding pdusFrom.simps [of c fromClient off tsdu r] long if_False n bindR.simps option.case n_def [symmetric]
      by (intro yields_intros tpdu) (use less.prems long in \<open>auto dest!: go_slice_length\<close>)
  qed
qed

lemma pdus_yields:
  "chunk_ok P c \<Longrightarrow> yields (pdus c fromClient) (\<lambda>r. list_all (pdu_ok fromClient P) (fdPDUs r))"
  unfolding pdus_def by (rule pdusFrom_yields) simp_all

lemma runsPDUs_yields:
  "list_all (chunk_ok P) cs \<Longrightarrow> list_all (pdu_ok fromClient P) (fdPDUs r) \<Longrightarrow>
   yields (runsPDUs fromClient cs r) (\<lambda>r. list_all (pdu_ok fromClient P) (fdPDUs r))"
  by (induction cs arbitrary: r) (auto intro!: yields_bindR [OF pdus_yields] yields_Ok)

lemma flowPDUs_yields:
  assumes "segs_upto n f"
  shows "yields (flowPDUs f fromClient) (\<lambda>(g, r). list_all (pdu_ok fromClient (\<lambda>k. 1 \<le> k \<and> k \<le> n)) (fdPDUs r))"
proof -
  obtain cs where "stream f = Ok cs" "list_all (chunk_ok (\<lambda>k. 1 \<le> k \<and> k \<le> n)) cs" using stream_ok [OF assms] by blast
  then show ?thesis
    by (auto simp: flowPDUs_def intro!: yields_bindR [OF runsPDUs_yields] yields_Ok)
qed

text \<open>A conversation as the reader promises it, for a capture of \<open>n\<close> frames.\<close>

definition conversation_ok :: "nat \<Rightarrow> Conversation \<Rightarrow> bool" where
  "conversation_ok n v \<longleftrightarrow> sorted (map pduFrame (cvPDUs v)) \<and>
     list_all (\<lambda>p. 1 \<le> pduFrame p \<and> pduFrame p \<le> n \<and> (\<exists>rest. pduData p = 0x32 # rest)) (cvPDUs v)"

lemma yields_inDirection: "yields m P \<Longrightarrow> yields (inDirection src dst m) P"
  by (cases m) (simp_all add: inDirection_def yields_def)

lemma conversation_yields:
  assumes "conn_ok n (k, c)"
  shows "yields (conversation c) (\<lambda>v. conversation_ok n v \<and> cvClient v = ckClient k \<and> cvServer v = ckServer k)"
proof -
  have "segs_upto n (cnUp c)" "segs_upto n (cnDown c)" "cnKey c = k" using assms by (simp_all add: conn_ok_def)
  then show ?thesis
    unfolding conversation_def
    by (auto intro!: yields_bindR [OF yields_inDirection [OF flowPDUs_yields]] yields_Ok
        simp: conversation_ok_def list_all_iff pdu_ok_def)
qed

lemma conversationsOf_yields:
  "list_all (conn_ok n) a \<Longrightarrow>
   yields (conversationsOf (map snd a)) (\<lambda>vs. list_all (conversation_ok n) vs \<and>
     map (\<lambda>v. \<lparr>ckClient = cvClient v, ckServer = cvServer v\<rparr>) vs = map fst a)"
proof (induction a)
  case (Cons p a)
  have "yields (conversation (snd p)) (\<lambda>v. conversation_ok n v \<and> cvClient v = ckClient (fst p) \<and> cvServer v = ckServer (fst p))"
    using Cons.prems by (intro conversation_yields) simp
  then show ?case
    using Cons by (auto intro!: yields_bindR [OF _ yields_bindR] yields_Ok elim: yields_mono)
qed (simp add: yields_def)

lemma sort_conns: "asm_ok n a \<Longrightarrow> sort_key cnFirstFrame (map snd a) = map snd a"
  by (intro sort_key_id_if_sorted) (auto simp: asm_ok_def sorted_wrt_map elim: sorted_wrt_mono_rel [rotated])

text \<open>The order in which Go's map yields the connections makes no difference.\<close>

lemma conversations_order_free:
  assumes "asm_ok n a" "mset a' = mset a"
  shows "conversations a' = conversations a"
proof -
  have "distinct (map cnFirstFrame (map snd a))"
    using assms(1) by (simp add: asm_ok_def strict_sorted_iff)
  then have "inj_on cnFirstFrame (set (map snd a'))"
    using mset_eq_setD [OF assms(2)] by (simp only: distinct_map set_map)
  moreover have "mset (map snd a') = mset (sort_key cnFirstFrame (map snd a))" using assms(2) by simp
  ultimately have "sort_key cnFirstFrame (map snd a') = sort_key cnFirstFrame (map snd a)"
    by (intro sort_key_inj_key_eq) simp_all
  then show ?thesis by (simp add: conversations_def)
qed

lemma Read_yields:
  "yields (Read b) (\<lambda>convs. distinct (map (\<lambda>v. \<lparr>ckClient = cvClient v, ckServer = cvServer v\<rparr>) convs) \<and>
      (\<exists>fs. packets b = Ok fs \<and> list_all (conversation_ok (length fs)) convs))"
  unfolding Read_def
proof (rule yields_bindR_any [OF packets_yields])
  fix fs
  assume fs: "packets b = Ok fs"
  have "asm_ok 0 newAssembler" by (simp add: asm_ok_def newAssembler_def)
  from framesFrom_yields [OF this, of fs]
  show "yields (bindR (framesFrom 0 fs newAssembler) conversations) (\<lambda>convs.
      distinct (map (\<lambda>v. \<lparr>ckClient = cvClient v, ckServer = cvServer v\<rparr>) convs) \<and>
      (\<exists>fs. packets b = Ok fs \<and> list_all (conversation_ok (length fs)) convs))"
  proof (rule yields_bindR)
    fix a
    assume a: "asm_ok (0 + length fs) a"
    then have "yields (conversations a) (\<lambda>vs. list_all (conversation_ok (length fs)) vs \<and>
        map (\<lambda>v. \<lparr>ckClient = cvClient v, ckServer = cvServer v\<rparr>) vs = map fst a)"
      using conversationsOf_yields [of "length fs" a] by (simp add: conversations_def sort_conns [OF a] asm_ok_def)
    then show "yields (conversations a) (\<lambda>convs.
        distinct (map (\<lambda>v. \<lparr>ckClient = cvClient v, ckServer = cvServer v\<rparr>) convs) \<and>
        (\<exists>fs. packets b = Ok fs \<and> list_all (conversation_ok (length fs)) convs))"
      by (rule yields_mono) (use a fs in \<open>auto simp: asm_ok_def\<close>)
  qed
qed

text \<open>A file that can be read is read like its content, and one that cannot gives the error of the file system.\<close>

lemma ReadFile_content:
  assumes "openRoot fs (dirOf fs path) = Ok readIn"
  shows "readIn (baseOf fs path) = Ok b \<Longrightarrow> ReadFile fs path = Read b" "readIn (baseOf fs path) = Err e \<Longrightarrow> ReadFile fs path = Err e"
  using assms by (simp_all add: ReadFile_def)

text \<open>C37 No byte string makes the capture reader panic: every length it reads is checked. What it returns are
  conversations of distinct pairs of end points; their PDUs are in the order of the frames that completed them, begin with the
  S7 protocol identifier and name a frame of the file.\<close>

theorem Read_checked:
  "case Read b of
     Panic \<Rightarrow> False
   | Err e \<Rightarrow> True
   | Ok convs \<Rightarrow> distinct (map (\<lambda>v. (cvClient v, cvServer v)) convs) \<and>
       (\<exists>fs. packets b = Ok fs \<and> list_all (conversation_ok (length fs)) convs)"
proof -
  have "distinct (map (\<lambda>v. (cvClient v, cvServer v)) convs)"
    if "distinct (map (\<lambda>v. \<lparr>ckClient = cvClient v, ckServer = cvServer v\<rparr>) convs)" for convs
    using that by (auto simp: distinct_map inj_on_def)
  then show ?thesis using Read_yields [of b] by (cases "Read b") (auto simp: yields_def)
qed

end
