(* ===== verification/Capture_Roundtrip.thy ===== *)
theory Capture_Roundtrip
  imports Capture
begin

text \<open>
  What the reader of recorded traffic recovers: the byte stream of a flow from its segments, the S7 PDUs and the
  connection TPDUs from a stream of TPKT packets, and the conversation of a connection from the capture file that
  recorded it. The encoders of this theory (TPKT, COTP, TCP, IPv4, Ethernet, pcap) write the formats the reader
  reads; they are the other side of the round trip and model no code.
\<close>

section \<open>Reassembly\<close>

text \<open>The offset of a segment in its stream, and that it carries the bytes of the stream there.\<close>

definition offsetIn :: "uint32 \<Rightarrow> segment \<Rightarrow> nat" where
  "offsetIn base s = nat (seqDiff (sgSeq s) base)"

definition carries :: "bytes \<Rightarrow> uint32 \<Rightarrow> segment \<Rightarrow> bool" where
  "carries S base s \<longleftrightarrow> 0 \<le> seqDiff (sgSeq s) base \<and> sgPayload s \<noteq> [] \<and>
     offsetIn base s + length (sgPayload s) \<le> length S \<and>
     sgPayload s = take (length (sgPayload s)) (drop (offsetIn base s) S)"

definition covers :: "uint32 \<Rightarrow> segment \<Rightarrow> nat \<Rightarrow> bool" where
  "covers base s i \<longleftrightarrow> offsetIn base s \<le> i \<and> i < offsetIn base s + length (sgPayload s)"

text \<open>The bytes of the stream in an interval, and intervals in order with gaps between them.\<close>

definition within :: "nat \<times> nat \<Rightarrow> nat \<Rightarrow> bool" where
  "within iv i \<longleftrightarrow> fst iv \<le> i \<and> i < snd iv"

definition part :: "bytes \<Rightarrow> nat \<times> nat \<Rightarrow> bytes" where
  "part S iv = take (snd iv - fst iv) (drop (fst iv) S)"

definition gapped :: "(nat \<times> nat) list \<Rightarrow> bool" where
  "gapped ivs \<longleftrightarrow> sorted_wrt (\<lambda>i j. snd i < fst j) ivs \<and> list_all (\<lambda>iv. fst iv \<le> snd iv) ivs"

lemma gapped_above: "gapped (iv # ivs) \<Longrightarrow> jv \<in> set ivs \<Longrightarrow> fst iv \<le> fst jv"
  by (auto simp: gapped_def list_all_iff)

lemma gapped_Cons:
  assumes "gapped (jv # ivs)" "a \<le> n" "n < fst jv"
  shows "gapped ((a, n) # jv # ivs)"
  using assms gapped_above [OF assms(1)] by (fastforce simp: gapped_def)

lemma part_append:
  assumes "a \<le> n" "n \<le> m" "m \<le> length S"
  shows "part S (a, n) @ part S (n, m) = part S (a, m)"
proof -
  have "m - a = (n - a) + (m - n)" "drop n S = drop (n - a) (drop a S)" using assms by simp_all
  then show ?thesis by (simp only: part_def fst_conv snd_conv take_add)
qed

lemma carries_part:
  assumes "carries S base s" "offsetIn base s \<le> n" "n \<le> offsetIn base s + length (sgPayload s)"
  shows "drop (n - offsetIn base s) (sgPayload s) = part S (n, offsetIn base s + length (sgPayload s))"
proof -
  let ?o = "offsetIn base s" and ?l = "length (sgPayload s)"
  have "drop (n - ?o) (sgPayload s) = drop (n - ?o) (take ?l (drop ?o S))" using assms(1) by (simp add: carries_def)
  also have "\<dots> = take (?o + ?l - n) (drop n S)" using assms(2) by (simp add: drop_take add.commute)
  finally show ?thesis by (simp add: part_def)
qed

lemma assemble_runs:
  assumes "sorted (map (offsetIn base) segs)" "\<forall>s\<in>set segs. carries S base s \<and> a \<le> offsetIn base s"
    "a \<le> n" "n \<le> length S" "chData cur = part S (a, n)"
  shows "\<exists>cs ivs b. assemble base segs cur (int n) = Ok cs \<and> map chData cs = map (part S) ((a, b) # ivs) \<and>
    gapped ((a, b) # ivs) \<and> n \<le> b \<and> list_all (\<lambda>iv. fst iv < snd iv) ivs \<and>
    (\<forall>i. list_ex (\<lambda>iv. within iv i) ((a, b) # ivs) \<longleftrightarrow> within (a, n) i \<or> list_ex (\<lambda>s. covers base s i) segs)"
  using assms
proof (induction segs arbitrary: a n cur)
  case Nil
  then show ?case by (intro exI [of _ "[cur]"] exI [of _ "[]"] exI [of _ n]) (simp add: gapped_def)
next
  case (Cons s ss)
  define p l where "p = offsetIn base s" and "l = length (sgPayload s)"
  have s: "carries S base s" "a \<le> p" using Cons.prems(2) by (simp_all add: p_def)
  then have start: "seqDiff (sgSeq s) base = int p" and len: "0 < l" "p + l \<le> length S"
    by (auto simp: carries_def offsetIn_def p_def l_def)
  have ss: "sorted (map (offsetIn base) ss)" "\<forall>s\<in>set ss. p \<le> offsetIn base s"
      "\<forall>s\<in>set ss. carries S base s \<and> a \<le> offsetIn base s"
    using Cons.prems(1,2) by (auto simp: p_def)
  have whole: "sgPayload s = part S (p, p + l)"
    using carries_part [OF s(1), of p] by (simp add: p_def l_def)
  consider "p + l \<le> n" | "n < p" | "p \<le> n" "n < p + l" by linarith
  then show ?case
  proof cases
    case 1
    then have "assemble base (s # ss) cur (int n) = assemble base ss cur (int n)"
      using start by (simp add: l_def [symmetric])
    moreover have "within (a, n) i \<or> list_ex (\<lambda>s. covers base s i) (s # ss) \<longleftrightarrow>
        within (a, n) i \<or> list_ex (\<lambda>s. covers base s i) ss" for i
      using 1 s(2) by (auto simp: covers_def within_def p_def [symmetric] l_def [symmetric])
    ultimately show ?thesis
      using Cons.IH [OF ss(1,3) Cons.prems(3-5)] by (simp only:)
  next
    case 2
    define c where "c = \<lparr>chData = sgPayload s, chFrames = replicate (length (sgPayload s)) (sgFrame s)\<rparr>"
    have "chData c = part S (p, p + l)" using whole by (simp add: c_def)
    then obtain cs ivs b where cs: "assemble base ss c (int (p + l)) = Ok cs" "map chData cs = map (part S) ((p, b) # ivs)"
        "gapped ((p, b) # ivs)" "p + l \<le> b" "list_all (\<lambda>iv. fst iv < snd iv) ivs"
        "\<And>i. list_ex (\<lambda>iv. within iv i) ((p, b) # ivs) \<longleftrightarrow> within (p, p + l) i \<or> list_ex (\<lambda>s. covers base s i) ss"
      using Cons.IH [OF ss(1), of p "p + l" c] ss(2,3) len by auto
    have "assemble base (s # ss) cur (int n) = Ok (cur # cs)"
      using 2 start len cs(1) by (simp add: l_def [symmetric] c_def)
    moreover have "map chData (cur # cs) = map (part S) ((a, n) # (p, b) # ivs)" using cs(2) Cons.prems(5) by simp
    moreover have "gapped ((a, n) # (p, b) # ivs)" using gapped_Cons [OF cs(3) Cons.prems(3)] 2 by simp
    moreover have "within (p, p + l) i \<longleftrightarrow> covers base s i" for i
      by (simp add: covers_def within_def p_def l_def)
    ultimately show ?thesis
      using cs(4-6) len(1) by (intro exI [of _ "cur # cs"] exI [of _ "(p, b) # ivs"] exI [of _ n]) auto
  next
    case 3
    define q where "q = drop (n - p) (sgPayload s)"
    define c where "c = \<lparr>chData = chData cur @ q, chFrames = chFrames cur @ replicate (length q) (sgFrame s)\<rparr>"
    have "q = part S (n, p + l)" using carries_part [OF s(1), of n] 3 by (simp add: q_def p_def l_def)
    then have "chData c = part S (a, p + l)"
      using part_append [OF Cons.prems(3), of "p + l" S] 3 len Cons.prems(5) by (simp add: c_def)
    then obtain cs ivs b where cs: "assemble base ss c (int (p + l)) = Ok cs" "map chData cs = map (part S) ((a, b) # ivs)"
        "gapped ((a, b) # ivs)" "p + l \<le> b" "list_all (\<lambda>iv. fst iv < snd iv) ivs"
        "\<And>i. list_ex (\<lambda>iv. within iv i) ((a, b) # ivs) \<longleftrightarrow> within (a, p + l) i \<or> list_ex (\<lambda>s. covers base s i) ss"
      using Cons.IH [OF ss(1,3), of "p + l" c] s(2) len by auto
    have "nat (int n - int p) = n - p" by simp
    then have "go_slice (sgPayload s) (nat (int n - int p)) l = Ok q"
      using 3 by (simp add: go_slice_def q_def l_def)
    then have "assemble base (s # ss) cur (int n) = Ok cs"
      using 3 start cs(1) by (simp add: l_def [symmetric] c_def del: nat_diff_distrib')
    moreover have "within (a, p + l) i \<longleftrightarrow> within (a, n) i \<or> covers base s i" for i
      using 3 s(2) by (auto simp: covers_def within_def p_def [symmetric] l_def [symmetric])
    ultimately show ?thesis using cs(2-6) 3 by (intro exI [of _ cs] exI [of _ ivs] exI [of _ b]) auto
  qed
qed

text \<open>Segments that cover the whole stream leave no gap.\<close>

lemma gapped_whole:
  assumes "gapped ((0, b) # ivs)" "list_all (\<lambda>iv. fst iv < snd iv) ivs"
    "\<And>i. list_ex (\<lambda>iv. within iv i) ((0, b) # ivs) \<longleftrightarrow> i < n"
  shows "b = n \<and> ivs = []"
proof -
  have "\<not> within iv b" if "iv \<in> set ((0, b) # ivs)" for iv
    using that assms(1) by (auto simp: within_def gapped_def)
  then have "n \<le> b" using assms(3) [of b] by (auto simp: list_ex_iff)
  moreover have "b \<le> n" using assms(3) [of "b - 1"] by (cases b) (auto simp: within_def)
  moreover have "ivs = []"
  proof (cases ivs)
    case (Cons iv rest)
    then have "within iv (fst iv)" "b < fst iv" using assms(1,2) by (auto simp: within_def gapped_def)
    then show ?thesis using Cons assms(3) [of "fst iv"] \<open>n \<le> b\<close> by auto
  qed
  ultimately show ?thesis by simp
qed

lemma stream_runs:
  assumes "flSegs f \<noteq> []" "base = (if flSyn f then flIsn f + 1 else sgSeq (hd (flSegs f)))"
    "list_all (carries S base) (flSegs f)"
  shows "\<exists>cs b ivs. stream f = Ok cs \<and> map chData cs = map (part S) ((0, b) # ivs) \<and> gapped ((0, b) # ivs) \<and>
    (\<forall>i. list_ex (\<lambda>iv. within iv i) ((0, b) # ivs) \<longleftrightarrow> list_ex (\<lambda>s. covers base s i) (flSegs f)) \<and>
    ((\<forall>i < length S. list_ex (\<lambda>s. covers base s i) (flSegs f)) \<longrightarrow> map chData cs = [S])"
proof -
  let ?segs = "sort_key (\<lambda>s. seqDiff (sgSeq s) base) (flSegs f)"
  have c: "carries S base s" if "s \<in> set (flSegs f)" for s using that assms(3) by (simp add: list_all_iff)
  have "sorted (map (\<lambda>s. seqDiff (sgSeq s) base) ?segs)" by simp
  then have "sorted (map (offsetIn base) ?segs)"
    by (auto simp: sorted_map offsetIn_def elim!: sorted_wrt_mono_rel [rotated] intro: nat_mono)
  then obtain cs b ivs where cs: "assemble base ?segs \<lparr>chData = [], chFrames = []\<rparr> (int 0) = Ok cs"
      "map chData cs = map (part S) ((0, b) # ivs)" "gapped ((0, b) # ivs)" "list_all (\<lambda>iv. fst iv < snd iv) ivs"
      "\<And>i. list_ex (\<lambda>iv. within iv i) ((0, b) # ivs) \<longleftrightarrow> list_ex (\<lambda>s. covers base s i) (flSegs f)"
    using assemble_runs [of base ?segs S 0 0 "\<lparr>chData = [], chFrames = []\<rparr>"] c
    by (auto simp: part_def within_def list_ex_iff)
  have "idx (flSegs f) 0 = Ok (hd (flSegs f))" using assms(1) by (simp add: idx_def hd_conv_nth)
  then have "stream f = Ok cs"
    using cs(1) assms(1) by (simp add: stream_def Let_def assms(2) [symmetric])
  moreover have "map chData cs = [S]" if "\<forall>i < length S. list_ex (\<lambda>s. covers base s i) (flSegs f)"
  proof -
    have "list_ex (\<lambda>s. covers base s i) (flSegs f) \<longleftrightarrow> i < length S" for i
      using that c by (auto simp: list_ex_iff covers_def carries_def) (meson c carries_def covers_def less_le_trans that)
    then have "b = length S \<and> ivs = []" using gapped_whole [OF cs(3,4)] cs(5) by simp
    then show ?thesis using cs(2) by (simp add: part_def)
  qed
  ultimately show ?thesis
    using cs(2,3,5) by (intro exI [of _ cs] exI [of _ b] exI [of _ ivs] conjI allI impI) simp_all
qed

section \<open>From a byte stream to PDUs\<close>

text \<open>TPKT packets (RFC 1006) and the COTP TPDUs in them, as the two sides send them.\<close>

definition tpkt :: "bytes \<Rightarrow> bytes" where
  "tpkt t = [3, 0] @ put16 (word_of_nat (length t + 4)) @ t"

definition dataTPDU :: "bool \<Rightarrow> bytes \<Rightarrow> bytes" where
  "dataTPDU eot d = [2, 0xF0, if eot then 0x80 else 0] @ d"

fun dataTPDUs :: "bytes list \<Rightarrow> bytes" where
  "dataTPDUs [] = []"
| "dataTPDUs [d] = tpkt (dataTPDU True d)"
| "dataTPDUs (d # e # ds) = tpkt (dataTPDU False d) @ dataTPDUs (e # ds)"

datatype message = ConnectRequest bytes | ConnectConfirm bytes | Sent "bytes list"

text \<open>Well-formed messages: a connection TPDU with its length indicator and kind, and an S7 PDU cut into pieces.\<close>

definition connectTPDU :: "byte \<Rightarrow> bytes \<Rightarrow> bool" where
  "connectTPDU kind t \<longleftrightarrow> 3 \<le> length t \<and> length t \<le> 65531 \<and> 1 \<le> unat (t ! 0) \<and> unat (t ! 0) < length t \<and> t ! 1 AND 0xf0 = kind"

fun message_ok :: "message \<Rightarrow> bool" where
  "message_ok (ConnectRequest t) = connectTPDU 0xe0 t"
| "message_ok (ConnectConfirm t) = connectTPDU 0xd0 t"
| "message_ok (Sent ds) = (ds \<noteq> [] \<and> list_all (\<lambda>d. length d \<le> 65528) ds \<and> (\<exists>rest. concat ds = 0x32 # rest))"

fun onWire :: "message \<Rightarrow> bytes" where
  "onWire (ConnectRequest t) = tpkt t"
| "onWire (ConnectConfirm t) = tpkt t"
| "onWire (Sent ds) = dataTPDUs ds"

fun pdusOf :: "message list \<Rightarrow> bytes list" where
  "pdusOf [] = []"
| "pdusOf (Sent ds # ms) = concat ds # pdusOf ms"
| "pdusOf (_ # ms) = pdusOf ms"

definition isRequest :: "message \<Rightarrow> bool" where
  "isRequest m = (case m of ConnectRequest _ \<Rightarrow> True | _ \<Rightarrow> False)"

definition isConfirm :: "message \<Rightarrow> bool" where
  "isConfirm m = (case m of ConnectConfirm _ \<Rightarrow> True | _ \<Rightarrow> False)"

lemma length_tpkt [simp]: "length (tpkt t) = length t + 4"
  by (simp add: tpkt_def)

lemma length_dataTPDU [simp]: "length (dataTPDU eot d) = length d + 3"
  by (simp add: dataTPDU_def)

lemma pdusFrom_tpkt:
  assumes "chData c = pre @ tpkt t @ post" "3 \<le> length t" "length t \<le> 65531"
  shows "pdusFrom c fromClient (length pre) tsdu r =
    bindR (cotpTPDU fromClient (chFrames c) (length pre) (length t + 4) t tsdu r) (\<lambda>(tsdu, r).
      pdusFrom c fromClient (length (pre @ tpkt t)) tsdu r)"
proof -
  define n where "n = length t + 4"
  have w: "unat (word_of_nat n :: uint16) = n" using assms(3) by (intro unat_word_of_nat_uint16) (simp add: n_def)
  have len: "length (chData c) = length pre + n + length post" by (simp add: assms(1) n_def)
  have u: "u16at (chData c) (length pre + 2) = Ok (word_of_nat n)"
  proof -
    have "chData c ! (length pre + 2) = ucast (drop_bit 8 (word_of_nat n :: uint16))"
      "chData c ! (length pre + 2 + 1) = ucast (word_of_nat n :: uint16)"
      by (simp_all add: assms(1) tpkt_def put16_def nth_append n_def)
    then show ?thesis using len by (simp add: u16at_Ok n_def del: add_2_eq_Suc' add_2_eq_Suc)
  qed
  have v: "idx (chData c) (length pre) = Ok 3" using len by (simp add: idx_def assms(1) tpkt_def nth_append n_def)
  have s: "go_slice (chData c) (length pre + 4) (length pre + n) = Ok t"
    by (simp add: go_slice_def assms(1) tpkt_def n_def put16_def)
  have long: "(length (chData c) \<le> length pre) = False" "(length (chData c) - length pre < 4) = False"
    "(length (chData c) - length pre < n) = False" "(n < 7) = False"
    using len assms(2) by (simp_all add: n_def)
  have "length (pre @ tpkt t) = length pre + n" by (simp add: n_def)
  then show ?thesis
    unfolding pdusFrom.simps [of c fromClient "length pre" tsdu r] long if_False u bindR.simps option.case w v s n_def [symmetric]
    by simp
qed

lemma cotpTPDU_connect:
  assumes "connectTPDU kind t"
  shows "kind = 0xe0 \<Longrightarrow> cotpTPDU fromClient frames off n t tsdu r = Ok (tsdu, r\<lparr>fdCR := fdCR r + 1\<rparr>)"
    "kind = 0xd0 \<Longrightarrow> cotpTPDU fromClient frames off n t tsdu r = Ok (tsdu, r\<lparr>fdCC := fdCC r + 1\<rparr>)"
proof -
  have "idx t 0 = Ok (t ! 0)" "idx t 1 = Ok (t ! 1)" using assms by (auto simp: connectTPDU_def idx_def)
  then show "kind = 0xe0 \<Longrightarrow> cotpTPDU fromClient frames off n t tsdu r = Ok (tsdu, r\<lparr>fdCR := fdCR r + 1\<rparr>)"
    "kind = 0xd0 \<Longrightarrow> cotpTPDU fromClient frames off n t tsdu r = Ok (tsdu, r\<lparr>fdCC := fdCC r + 1\<rparr>)"
    using assms by (simp_all add: cotpTPDU_def connectTPDU_def Let_def)
qed

lemma cotpTPDU_data:
  assumes "off + n \<le> length frames" "0 < n"
  shows "cotpTPDU fromClient frames off n (dataTPDU False d) tsdu r = Ok (tsdu @ d, r)"
    "tsdu @ d = 0x32 # rest \<Longrightarrow> cotpTPDU fromClient frames off n (dataTPDU True d) tsdu r =
      Ok ([], r\<lparr>fdPDUs := fdPDUs r @ [\<lparr>pduFromClient = fromClient, pduFrame = frames ! (off + n - 1), pduData = tsdu @ d\<rparr>]\<rparr>)"
  using assms by (auto simp: cotpTPDU_def dataTPDU_def idx_def go_slice_def Let_def)

lemma pdusFrom_dataTPDUs:
  assumes "chData c = pre @ dataTPDUs ds @ post" "length (chFrames c) = length (chData c)" "ds \<noteq> []"
    "list_all (\<lambda>d. length d \<le> 65528) ds" "tsdu @ concat ds = 0x32 # rest"
  shows "\<exists>num. pdusFrom c fromClient (length pre) tsdu r =
    pdusFrom c fromClient (length (pre @ dataTPDUs ds)) []
      (r\<lparr>fdPDUs := fdPDUs r @ [\<lparr>pduFromClient = fromClient, pduFrame = num, pduData = tsdu @ concat ds\<rparr>]\<rparr>)"
  using assms
proof (induction ds arbitrary: pre tsdu rule: dataTPDUs.induct)
  case (2 d)
  have "length pre + (length (dataTPDU True d) + 4) \<le> length (chFrames c)" using "2.prems"(1,2) by simp
  from cotpTPDU_data(2) [OF this, of tsdu d rest fromClient r] show ?case
    using pdusFrom_tpkt [of c pre "dataTPDU True d" post fromClient tsdu r] "2.prems" by auto
next
  case (3 d e ds)
  have "length pre + (length (dataTPDU False d) + 4) \<le> length (chFrames c)" using "3.prems"(1,2) by simp
  from cotpTPDU_data(1) [OF this, of fromClient d tsdu r]
  have "pdusFrom c fromClient (length pre) tsdu r =
      pdusFrom c fromClient (length (pre @ tpkt (dataTPDU False d))) (tsdu @ d) r"
    using pdusFrom_tpkt [of c pre "dataTPDU False d" "dataTPDUs (e # ds) @ post" fromClient tsdu r] "3.prems" by auto
  then show ?case
    using "3.IH" [of "pre @ tpkt (dataTPDU False d)" "tsdu @ d"] "3.prems" by simp
qed simp

text \<open>What the messages of a stream add to what was found.\<close>

definition found_by :: "bool \<Rightarrow> message list \<Rightarrow> found \<Rightarrow> found \<Rightarrow> bool" where
  "found_by fromClient ms r r' \<longleftrightarrow>
     map pduData (fdPDUs r') = map pduData (fdPDUs r) @ pdusOf ms \<and>
     (\<exists>new. fdPDUs r' = fdPDUs r @ new \<and> list_all (\<lambda>p. pduFromClient p = fromClient) new) \<and>
     fdCR r' = fdCR r + length (filter isRequest ms) \<and> fdCC r' = fdCC r + length (filter isConfirm ms) \<and>
     fdDropped r' = fdDropped r"

lemma pdusFrom_messages:
  assumes "chData c = pre @ concat (map onWire ms)" "length (chFrames c) = length (chData c)" "list_all message_ok ms"
  shows "\<exists>r'. pdusFrom c fromClient (length pre) [] r = Ok r' \<and> found_by fromClient ms r r'"
  using assms
proof (induction ms arbitrary: pre r)
  case Nil
  then show ?case by (simp add: pdusFrom.simps [of c] found_by_def)
next
  case (Cons m ms)
  have next_one: "\<exists>r'. pdusFrom c fromClient (length (pre @ onWire m)) [] r1 = Ok r' \<and> found_by fromClient ms r1 r'" for r1
    using Cons.IH [of "pre @ onWire m" r1] Cons.prems by simp
  show ?case
  proof (cases m)
    case (ConnectRequest t)
    have t: "connectTPDU 0xe0 t" using Cons.prems(3) by (simp add: ConnectRequest)
    then have "pdusFrom c fromClient (length pre) [] r = pdusFrom c fromClient (length (pre @ onWire m)) [] (r\<lparr>fdCR := fdCR r + 1\<rparr>)"
      using pdusFrom_tpkt [of c pre t "concat (map onWire ms)" fromClient "[]" r] Cons.prems(1)
      by (simp add: ConnectRequest cotpTPDU_connect(1) connectTPDU_def)
    then show ?thesis using next_one [of "r\<lparr>fdCR := fdCR r + 1\<rparr>"] by (auto simp: found_by_def ConnectRequest isRequest_def isConfirm_def)
  next
    case (ConnectConfirm t)
    have t: "connectTPDU 0xd0 t" using Cons.prems(3) by (simp add: ConnectConfirm)
    then have "pdusFrom c fromClient (length pre) [] r = pdusFrom c fromClient (length (pre @ onWire m)) [] (r\<lparr>fdCC := fdCC r + 1\<rparr>)"
      using pdusFrom_tpkt [of c pre t "concat (map onWire ms)" fromClient "[]" r] Cons.prems(1)
      by (simp add: ConnectConfirm cotpTPDU_connect(2) connectTPDU_def)
    then show ?thesis using next_one [of "r\<lparr>fdCC := fdCC r + 1\<rparr>"] by (auto simp: found_by_def ConnectConfirm isRequest_def isConfirm_def)
  next
    case (Sent ds)
    obtain rest where ds: "ds \<noteq> []" "list_all (\<lambda>d. length d \<le> 65528) ds" "[] @ concat ds = 0x32 # rest"
      using Cons.prems(3) by (auto simp: Sent)
    obtain num where num: "pdusFrom c fromClient (length pre) [] r = pdusFrom c fromClient (length (pre @ onWire m)) []
        (r\<lparr>fdPDUs := fdPDUs r @ [\<lparr>pduFromClient = fromClient, pduFrame = num, pduData = concat ds\<rparr>]\<rparr>)"
      using pdusFrom_dataTPDUs [OF _ Cons.prems(2) ds, of pre "concat (map onWire ms)"] Cons.prems(1) by (auto simp: Sent)
    show ?thesis
      using next_one [of "r\<lparr>fdPDUs := fdPDUs r @ [\<lparr>pduFromClient = fromClient, pduFrame = num, pduData = concat ds\<rparr>]\<rparr>"] num
      by (auto simp: found_by_def Sent isRequest_def isConfirm_def)
  qed
qed

section \<open>From the segments of a flow to its PDUs\<close>

definition nothing :: found where
  "nothing = \<lparr>fdPDUs = [], fdCR = 0, fdCC = 0, fdDropped = 0\<rparr>"

lemma dataTPDUs_nonempty: "ds \<noteq> [] \<Longrightarrow> dataTPDUs ds \<noteq> []"
  by (cases ds rule: dataTPDUs.cases) (simp_all add: tpkt_def)

lemma onWire_nonempty: "message_ok m \<Longrightarrow> onWire m \<noteq> []"
  by (cases m) (simp_all add: tpkt_def dataTPDUs_nonempty)

lemma flow_messages:
  assumes "flSyn f" "segs_upto n f" "list_all (carries (concat (map onWire ms)) (flIsn f + 1)) (flSegs f)"
    "\<forall>i < length (concat (map onWire ms)). list_ex (\<lambda>s. covers (flIsn f + 1) s i) (flSegs f)" "list_all message_ok ms"
  shows "\<exists>r. flowPDUs f fromClient = Ok (0, r) \<and> found_by fromClient ms nothing r"
proof (cases "flSegs f = []")
  case True
  then have "concat (map onWire ms) = []" using assms(4) by (cases "concat (map onWire ms)") auto
  then have "ms = []" using assms(5) onWire_nonempty by (cases ms) auto
  then show ?thesis using True by (simp add: flowPDUs_def stream_def found_by_def nothing_def)
next
  case False
  obtain cs where cs: "stream f = Ok cs" "map chData cs = [concat (map onWire ms)]"
    using stream_runs [OF False refl, of "concat (map onWire ms)"] assms(1,3,4) by auto
  then obtain c where c: "cs = [c]" "chData c = concat (map onWire ms)" by auto
  have "length (chFrames c) = length (chData c)" using stream_ok [OF assms(2)] cs(1) c(1) by (simp add: chunk_ok_def)
  then obtain r where "pdus c fromClient = Ok r" "found_by fromClient ms nothing r"
    using pdusFrom_messages [of c "[]" ms fromClient nothing] c(2) assms(5) by (auto simp: pdus_def nothing_def)
  then show ?thesis using cs(1) c(1) by (simp add: flowPDUs_def found_by_def nothing_def)
qed

section \<open>From a capture file to conversations\<close>

text \<open>A pcap file in little-endian order, with Ethernet frames.\<close>

definition le32 :: "uint32 \<Rightarrow> bytes" where
  "le32 w = rev (put32 w)"

definition pcapRecord :: "bytes \<Rightarrow> bytes" where
  "pcapRecord d = replicate 8 0 @ le32 (word_of_nat (length d)) @ le32 (word_of_nat (length d)) @ d"

definition pcapFile :: "bytes list \<Rightarrow> bytes" where
  "pcapFile ds = le32 0xa1b2c3d4 @ replicate 16 0 @ le32 1 @ concat (map pcapRecord ds)"

lemma length_le32 [simp]: "length (le32 w) = 4"
  by (simp add: le32_def)

lemma bo32_le32: "xs = pre @ le32 w @ post \<Longrightarrow> bo32 LittleEndian xs (length pre) = Ok w"
  by (simp add: bo32_def go_slice_def le32_def u32at_put32)

lemma length_pcapRecord: "length (pcapRecord d) = 16 + length d"
  by (simp add: pcapRecord_def)

lemma pcapFrames_records:
  assumes "b = pre @ concat (map pcapRecord ds)" "list_all (\<lambda>d. length d < 2 ^ 32) ds"
  shows "pcapFrames b LittleEndian link (length pre) = Ok (map (\<lambda>d. \<lparr>pkLink = link, pkData = d\<rparr>) ds)"
  using assms
proof (induction ds arbitrary: pre)
  case Nil
  then show ?case by (simp add: pcapFrames.simps)
next
  case (Cons d ds)
  define w :: uint32 where "w = word_of_nat (length d)"
  have w: "unat w = length d" using Cons.prems(2) by (simp add: w_def unat_of_nat)
  have b: "b = (pre @ replicate 8 0) @ le32 w @ le32 w @ d @ concat (map pcapRecord ds)"
    using Cons.prems(1) by (simp add: pcapRecord_def [of d] w_def)
  have len: "length b = length pre + 16 + length d + length (concat (map pcapRecord ds))" by (simp add: b)
  have u: "bo32 LittleEndian b (length pre + 8) = Ok w" using bo32_le32 [OF b] by simp
  have s: "go_slice b (length pre + 16) (length pre + 16 + length d) = Ok d"
    by (simp add: b go_slice_def)
  have rest: "pcapFrames b LittleEndian link (length pre + 16 + length d) = Ok (map (\<lambda>d. \<lparr>pkLink = link, pkData = d\<rparr>) ds)"
    using Cons.IH [of "pre @ pcapRecord d"] Cons.prems by (simp add: length_pcapRecord add.assoc)
  show ?case
    unfolding pcapFrames.simps [of b LittleEndian link "length pre"] u bindR.simps Let_def w s rest
    using len by simp
qed

lemma packets_pcapFile:
  assumes "list_all (\<lambda>d. length d < 2 ^ 32) ds"
  shows "packets (pcapFile ds) = Ok (map (\<lambda>d. \<lparr>pkLink = 1, pkData = d\<rparr>) ds)"
proof -
  define b where "b = pcapFile ds"
  have magic: "bo32 LittleEndian b 0 = Ok 0xa1b2c3d4"
    using bo32_le32 [of b "[]" "0xa1b2c3d4"] by (simp add: b_def pcapFile_def)
  have link: "bo32 LittleEndian b 20 = Ok 1"
    using bo32_le32 [of b "le32 0xa1b2c3d4 @ replicate 16 0" 1] by (simp add: b_def pcapFile_def)
  have "pcapFrames b LittleEndian 1 24 = Ok (map (\<lambda>d. \<lparr>pkLink = 1, pkData = d\<rparr>) ds)"
    using pcapFrames_records [of b "le32 0xa1b2c3d4 @ replicate 16 0 @ le32 1" ds 1] assms
    by (simp add: b_def pcapFile_def)
  moreover have "(length b < 4) = False" "(length b < 24) = False" by (simp_all add: b_def pcapFile_def)
  ultimately show ?thesis using magic link by (simp add: packets_def pcapPackets_def b_def [symmetric])
qed

text \<open>An Ethernet frame with the IPv4 packet of a TCP segment, and the segments of one connection.\<close>

type_synonym ipv4 = "byte \<times> byte \<times> byte \<times> byte"

fun octets :: "ipv4 \<Rightarrow> bytes" where
  "octets (a, b, c, d) = [a, b, c, d]"

fun dottedIP :: "ipv4 \<Rightarrow> string" where
  "dottedIP (a, b, c, d) = dotted a b c d"

definition tcpFrame :: "ipv4 \<times> uint16 \<Rightarrow> ipv4 \<times> uint16 \<Rightarrow> uint32 \<Rightarrow> byte \<Rightarrow> bytes \<Rightarrow> bytes" where
  "tcpFrame src dst seq flags payload =
     replicate 12 0 @ [0x08, 0x00] @
     [0x45, 0] @ put16 (word_of_nat (40 + length payload)) @ [0, 0, 0x40, 0, 64, 6, 0, 0] @ octets (fst src) @ octets (fst dst) @
     put16 (snd src) @ put16 (snd dst) @ put32 seq @ [0, 0, 0, 0, 0x50, flags, 0, 0, 0, 0, 0, 0] @ payload"

lemma length_octets [simp]: "length (octets ip) = 4"
  by (cases ip) simp

lemma tcpSegment_segment:
  assumes "t = put16 sport @ put16 dport @ put32 seq @ [0, 0, 0, 0, 0x50, flags, 0, 0, 0, 0, 0, 0] @ payload"
    "dport = 102 \<or> sport = 102"
  shows "tcpSegment a num src dst t = Ok (onConn
    (if dport = 102 then \<lparr>ckClient = endpoint src sport, ckServer = endpoint dst dport\<rparr>
     else \<lparr>ckClient = endpoint dst dport, ckServer = endpoint src sport\<rparr>)
    num (dport = 102) (addSegment num seq (flags AND 0x02 \<noteq> 0) payload) a)"
proof -
  have len: "length t = 20 + length payload" by (simp add: assms(1))
  have "u16at t 0 = Ok sport" "u16at t 2 = Ok dport" "u32at t 4 = Ok seq" "idx t 12 = Ok 0x50" "idx t 13 = Ok flags"
    "go_slice t 20 (length t) = Ok payload"
    using len by (simp_all add: u16at_Ok u32at_Ok idx_def go_slice_def)
      (simp_all add: assms(1) put16_def put32_def)
  moreover have "unat (drop_bit 4 (0x50 :: byte)) * 4 = 20" by simp
  ultimately show ?thesis using assms(2) len by (auto simp: tcpSegment_def Let_def)
qed

lemma ipAt_octets: "xs = pre @ octets ip @ post \<Longrightarrow> ipAt xs (length pre) = Ok (dottedIP ip)"
  by (cases ip) (simp add: ipAt_def idx_def nth_append)

lemma ipv4Packet_segment:
  assumes "d = [0x45, 0] @ put16 (word_of_nat (20 + length t)) @ [0, 0, 0x40, 0, 64, 6, 0, 0] @ octets src @ octets dst @ t"
    "length t < 65516"
  shows "ipv4Packet a num d = tcpSegment a num (dottedIP src) (dottedIP dst) t"
proof -
  define w :: uint16 where "w = word_of_nat (20 + length t)"
  have w: "unat w = 20 + length t" unfolding w_def using assms(2) by (intro unat_word_of_nat_uint16) simp
  have d: "d = [0x45, 0] @ put16 w @ [0, 0, 0x40, 0, 64, 6, 0, 0] @ octets src @ octets dst @ t"
    using assms(1) by (simp add: w_def)
  have len: "length d = 20 + length t" by (simp add: d)
  have "u16at d 2 = Ok w" using len by (simp add: u16at_Ok) (simp add: d put16_def)
  moreover have "u16at d 6 = Ok 0x4000" "idx d 0 = Ok 0x45" "idx d 9 = Ok 6"
    "go_slice d 20 (20 + length t) = Ok t"
    using len by (simp_all add: u16at_Ok idx_def go_slice_def) (simp_all add: d put16_def be16_def)
  moreover have "ipAt d 12 = Ok (dottedIP src)"
    using ipAt_octets [of d "[0x45, 0] @ put16 w @ [0, 0, 0x40, 0, 64, 6, 0, 0]" src "octets dst @ t"] by (simp add: d)
  moreover have "ipAt d 16 = Ok (dottedIP dst)"
    using ipAt_octets [of d "[0x45, 0] @ put16 w @ [0, 0, 0x40, 0, 64, 6, 0, 0] @ octets src" dst t] by (simp add: d)
  ultimately show ?thesis using len w by (simp add: ipv4Packet_def Let_def)
qed

lemma frame_tcpFrame:
  assumes "length payload \<le> 65495" "snd dst = 102 \<or> snd src = 102"
  shows "frame a num \<lparr>pkLink = 1, pkData = tcpFrame src dst seq flags payload\<rparr> = Ok (onConn
    (if snd dst = 102 then \<lparr>ckClient = endpoint (dottedIP (fst src)) (snd src), ckServer = endpoint (dottedIP (fst dst)) (snd dst)\<rparr>
     else \<lparr>ckClient = endpoint (dottedIP (fst dst)) (snd dst), ckServer = endpoint (dottedIP (fst src)) (snd src)\<rparr>)
    num (snd dst = 102) (addSegment num seq (flags AND 0x02 \<noteq> 0) payload) a)"
proof -
  define t where "t = put16 (snd src) @ put16 (snd dst) @ put32 seq @ [0, 0, 0, 0, 0x50, flags, 0, 0, 0, 0, 0, 0] @ payload"
  define d where "d = [0x45, 0] @ put16 (word_of_nat (20 + length t)) @ [0, 0, 0x40, 0, 64, 6, 0, 0] @ octets (fst src) @ octets (fst dst) @ t"
  define e where "e = tcpFrame src dst seq flags payload"
  have e: "e = replicate 12 0 @ [0x08, 0x00] @ d" by (simp add: e_def d_def t_def tcpFrame_def)
  have len: "length e = 14 + length d" by (simp add: e)
  have "u16at e 12 = Ok 0x0800" "go_slice e 14 (length e) = Ok d"
    using len by (simp_all add: u16at_Ok go_slice_def) (simp_all add: e be16_def nth_append)
  then have "frame a num \<lparr>pkLink = 1, pkData = e\<rparr> = ipv4Packet a num d"
    using len by (simp add: frame_def)
  also have "\<dots> = tcpSegment a num (dottedIP (fst src)) (dottedIP (fst dst)) t"
    using assms(1) by (intro ipv4Packet_segment [OF d_def]) (simp add: t_def)
  finally show ?thesis using tcpSegment_segment [OF t_def assms(2)] by (simp add: e_def)
qed

text \<open>A TCP segment of one connection as it was captured: its direction, number, SYN flag and payload.\<close>

record captured =
  cpUp :: bool
  cpSeq :: uint32
  cpSyn :: bool
  cpPayload :: bytes

definition capturedFrame :: "ipv4 \<times> uint16 \<Rightarrow> ipv4 \<Rightarrow> captured \<Rightarrow> bytes" where
  "capturedFrame client server s =
     (let flags = (if cpSyn s then 0x02 else 0x18) in
      if cpUp s then tcpFrame client (server, 102) (cpSeq s) flags (cpPayload s)
      else tcpFrame (server, 102) client (cpSeq s) flags (cpPayload s))"

definition keyOf :: "ipv4 \<times> uint16 \<Rightarrow> ipv4 \<Rightarrow> connKey" where
  "keyOf client server = \<lparr>ckClient = endpoint (dottedIP (fst client)) (snd client), ckServer = endpoint (dottedIP server) 102\<rparr>"

fun recordedFlow :: "bool \<Rightarrow> nat \<Rightarrow> captured list \<Rightarrow> flow \<Rightarrow> flow" where
  "recordedFlow up i [] f = f"
| "recordedFlow up i (s # ss) f = recordedFlow up (i + 1) ss
     (if cpUp s = up then addSegment (i + 1) (cpSeq s) (cpSyn s) (cpPayload s) f else f)"

lemma frame_captured:
  assumes "snd client \<noteq> 102" "length (cpPayload s) \<le> 65495"
  shows "frame a num \<lparr>pkLink = 1, pkData = capturedFrame client server s\<rparr> =
    Ok (onConn (keyOf client server) num (cpUp s) (addSegment num (cpSeq s) (cpSyn s) (cpPayload s)) a)"
  using assms by (auto simp: capturedFrame_def Let_def frame_tcpFrame keyOf_def)

lemma framesFrom_captured:
  assumes "snd client \<noteq> 102" "list_all (\<lambda>s. length (cpPayload s) \<le> 65495) ss"
  shows "framesFrom i (map (\<lambda>s. \<lparr>pkLink = 1, pkData = capturedFrame client server s\<rparr>) ss) [(keyOf client server, c)] =
    Ok [(keyOf client server, c\<lparr>cnUp := recordedFlow True i ss (cnUp c), cnDown := recordedFlow False i ss (cnDown c)\<rparr>)]"
  using assms(2)
proof (induction ss arbitrary: i c)
  case (Cons s ss)
  then show ?case using assms(1) by (simp add: frame_captured onConn_def)
qed simp

text \<open>That a direction's segments, after the SYN, carry a stream and all of it.\<close>

definition delivers :: "bool \<Rightarrow> bytes \<Rightarrow> uint32 \<Rightarrow> captured list \<Rightarrow> bool" where
  "delivers up S isn ss \<longleftrightarrow>
     list_all (\<lambda>s. cpUp s = up \<and> cpPayload s \<noteq> [] \<longrightarrow> carries S (isn + 1) \<lparr>sgFrame = 0, sgSeq = cpSeq s, sgPayload = cpPayload s\<rparr>) ss \<and>
     (\<forall>i < length S. list_ex (\<lambda>s. cpUp s = up \<and> covers (isn + 1) \<lparr>sgFrame = 0, sgSeq = cpSeq s, sgPayload = cpPayload s\<rparr> i) ss)"

lemma carries_frame: "carries S base \<lparr>sgFrame = k, sgSeq = q, sgPayload = p\<rparr> = carries S base \<lparr>sgFrame = 0, sgSeq = q, sgPayload = p\<rparr>"
  by (simp add: carries_def offsetIn_def)

lemma recordedFlow_segments:
  assumes "list_all (\<lambda>s. \<not> cpSyn s) ss"
  shows "flSyn (recordedFlow up i ss f) = flSyn f \<and> flIsn (recordedFlow up i ss f) = flIsn f \<and>
    (segs_upto i f \<longrightarrow> segs_upto (i + length ss) (recordedFlow up i ss f)) \<and>
    (list_all (carries S base) (flSegs f) \<longrightarrow>
     list_all (\<lambda>s. cpUp s = up \<and> cpPayload s \<noteq> [] \<longrightarrow> carries S base \<lparr>sgFrame = 0, sgSeq = cpSeq s, sgPayload = cpPayload s\<rparr>) ss \<longrightarrow>
     list_all (carries S base) (flSegs (recordedFlow up i ss f))) \<and>
    (list_ex (\<lambda>s. covers base s j) (flSegs f) \<or>
     list_ex (\<lambda>s. cpUp s = up \<and> covers base \<lparr>sgFrame = 0, sgSeq = cpSeq s, sgPayload = cpPayload s\<rparr> j) ss \<longrightarrow>
     list_ex (\<lambda>s. covers base s j) (flSegs (recordedFlow up i ss f)))"
  using assms
proof (induction ss arbitrary: i f)
  case (Cons s ss)
  define f' where "f' = (if cpUp s = up then addSegment (i + 1) (cpSeq s) (cpSyn s) (cpPayload s) f else f)"
  have "flSyn f' = flSyn f" "flIsn f' = flIsn f" using Cons.prems by (simp_all add: f'_def addSegment_def)
  moreover have "segs_upto i f \<Longrightarrow> segs_upto (i + 1) f'"
    by (auto simp: f'_def addSegment_def segs_upto_def list_all_iff)
  moreover have "list_all (carries S base) (flSegs f')" if "list_all (carries S base) (flSegs f)"
      "cpUp s = up \<and> cpPayload s \<noteq> [] \<longrightarrow> carries S base \<lparr>sgFrame = 0, sgSeq = cpSeq s, sgPayload = cpPayload s\<rparr>"
    using that Cons.prems carries_frame [of S base "Suc i" "cpSeq s" "cpPayload s"] by (simp add: f'_def addSegment_def)
  moreover have "list_ex (\<lambda>s. covers base s j) (flSegs f')" if "list_ex (\<lambda>s. covers base s j) (flSegs f) \<or>
      cpUp s = up \<and> covers base \<lparr>sgFrame = 0, sgSeq = cpSeq s, sgPayload = cpPayload s\<rparr> j"
    using that Cons.prems by (auto simp: f'_def addSegment_def covers_def offsetIn_def)
  moreover have "recordedFlow up i (s # ss) f = recordedFlow up (i + 1) ss f'" by (simp add: f'_def)
  ultimately show ?case using Cons.IH [of "i + 1" f'] Cons.prems
    by (simp del: recordedFlow.simps)
qed simp

lemma delivers_flow:
  assumes "delivers up (concat (map onWire ms)) isn ss" "list_all (\<lambda>s. \<not> cpSyn s) ss" "list_all message_ok ms"
    "flSyn f" "flIsn f = isn" "flSegs f = []"
  shows "\<exists>r. flowPDUs (recordedFlow up i ss f) fromClient = Ok (0, r) \<and> found_by fromClient ms nothing r"
proof (rule flow_messages [where n = "i + length ss"])
  note rec = recordedFlow_segments [OF assms(2), of up i f "concat (map onWire ms)" "isn + 1"]
  show "flSyn (recordedFlow up i ss f)" using rec assms(4) by blast
  show "segs_upto (i + length ss) (recordedFlow up i ss f)" using rec assms(6) by (simp add: segs_upto_def)
  have isn: "flIsn (recordedFlow up i ss f) = isn" using rec assms(5) by simp
  show "list_all (carries (concat (map onWire ms)) (flIsn (recordedFlow up i ss f) + 1)) (flSegs (recordedFlow up i ss f))"
    unfolding isn using rec assms(1,6) by (simp add: delivers_def)
  show "\<forall>j < length (concat (map onWire ms)). list_ex (\<lambda>s. covers (flIsn (recordedFlow up i ss f) + 1) s j) (flSegs (recordedFlow up i ss f))"
    unfolding isn using rec assms(1) by (simp add: delivers_def)
qed (fact assms(3))

text \<open>The connection after the two SYN segments of its start.\<close>

definition synSegments :: "uint32 \<Rightarrow> uint32 \<Rightarrow> captured list" where
  "synSegments isnUp isnDown = [\<lparr>cpUp = True, cpSeq = isnUp, cpSyn = True, cpPayload = []\<rparr>,
     \<lparr>cpUp = False, cpSeq = isnDown, cpSyn = True, cpPayload = []\<rparr>]"

definition recordedConn :: "connKey \<Rightarrow> uint32 \<Rightarrow> uint32 \<Rightarrow> captured list \<Rightarrow> conn" where
  "recordedConn key isnUp isnDown ss = \<lparr>cnKey = key, cnFirstFrame = 1,
     cnUp = recordedFlow True 2 ss ((emptyFlow (ckClient key) (ckServer key))\<lparr>flSyn := True, flIsn := isnUp\<rparr>),
     cnDown = recordedFlow False 2 ss ((emptyFlow (ckServer key) (ckClient key))\<lparr>flSyn := True, flIsn := isnDown\<rparr>)\<rparr>"

lemma framesFrom_connection:
  assumes "snd client \<noteq> 102" "list_all (\<lambda>s. length (cpPayload s) \<le> 65495) ss"
  shows "framesFrom 0 (map (\<lambda>s. \<lparr>pkLink = 1, pkData = capturedFrame client server s\<rparr>) (synSegments isnUp isnDown @ ss)) newAssembler =
    Ok [(keyOf client server, recordedConn (keyOf client server) isnUp isnDown ss)]"
  using assms framesFrom_captured [OF assms, where i = "Suc (Suc 0)"]
  by (simp add: synSegments_def frame_captured newAssembler_def onConn_def recordedConn_def addSegment_def emptyFlow_def numeral_2_eq_2)

lemma length_capturedFrame: "length (capturedFrame client server s) = 54 + length (cpPayload s)"
  by (simp add: capturedFrame_def Let_def tcpFrame_def)

text \<open>What the reader gives for one connection.\<close>

definition conversation_of :: "connKey \<Rightarrow> message list \<Rightarrow> message list \<Rightarrow> Conversation \<Rightarrow> bool" where
  "conversation_of key up down v \<longleftrightarrow>
     cvClient v = ckClient key \<and> cvServer v = ckServer key \<and> cvGaps v = 0 \<and> cvDropped v = 0 \<and>
     cvConnectRequests v = length (filter isRequest (up @ down)) \<and> cvConnectConfirms v = length (filter isConfirm (up @ down)) \<and>
     mset (map pduData (filter pduFromClient (cvPDUs v))) = mset (pdusOf up) \<and>
     mset (map pduData (filter (\<lambda>p. \<not> pduFromClient p) (cvPDUs v))) = mset (pdusOf down)"

lemma found_by_filter:
  assumes "found_by True up nothing r" "found_by False down nothing s"
  shows "map pduData (filter pduFromClient (fdPDUs r @ fdPDUs s)) = pdusOf up"
    "map pduData (filter (\<lambda>p. \<not> pduFromClient p) (fdPDUs r @ fdPDUs s)) = pdusOf down"
proof -
  have "filter pduFromClient (fdPDUs r) = fdPDUs r" "filter pduFromClient (fdPDUs s) = []"
    "filter (\<lambda>p. \<not> pduFromClient p) (fdPDUs r) = []" "filter (\<lambda>p. \<not> pduFromClient p) (fdPDUs s) = fdPDUs s"
    using assms by (auto simp: found_by_def nothing_def list_all_iff filter_id_conv filter_empty_conv)
  then show "map pduData (filter pduFromClient (fdPDUs r @ fdPDUs s)) = pdusOf up"
    "map pduData (filter (\<lambda>p. \<not> pduFromClient p) (fdPDUs r @ fdPDUs s)) = pdusOf down"
    using assms by (simp_all add: found_by_def nothing_def)
qed

lemma Read_connection:
  assumes "snd client \<noteq> 102" "list_all (\<lambda>s. \<not> cpSyn s \<and> length (cpPayload s) \<le> 65495) ss"
    "list_all message_ok up" "list_all message_ok down"
    "delivers True (concat (map onWire up)) isnUp ss" "delivers False (concat (map onWire down)) isnDown ss"
  shows "\<exists>v. Read (pcapFile (map (capturedFrame client server) (synSegments isnUp isnDown @ ss))) = Ok [v] \<and>
    conversation_of (keyOf client server) up down v"
proof -
  let ?key = "keyOf client server" and ?c = "recordedConn (keyOf client server) isnUp isnDown ss"
  have ss: "list_all (\<lambda>s. \<not> cpSyn s) ss" "list_all (\<lambda>s. length (cpPayload s) \<le> 65495) ss"
    using assms(2) by (simp_all add: list_all_iff)
  have "list_all (\<lambda>d. length d < 2 ^ 32) (map (capturedFrame client server) (synSegments isnUp isnDown @ ss))"
    using ss(2) by (auto simp: list_all_iff length_capturedFrame synSegments_def)
  note packets = packets_pcapFile [OF this]
  have asm: "framesFrom 0 (map (\<lambda>d. \<lparr>pkLink = 1, pkData = d\<rparr>) (map (capturedFrame client server) (synSegments isnUp isnDown @ ss))) newAssembler =
      Ok [(?key, ?c)]"
    using framesFrom_connection [OF assms(1) ss(2)] by (simp add: comp_def)
  obtain r where r: "flowPDUs (cnUp ?c) True = Ok (0, r)" "found_by True up nothing r"
    using delivers_flow [OF assms(5) ss(1) assms(3), of "(emptyFlow (ckClient ?key) (ckServer ?key))\<lparr>flSyn := True, flIsn := isnUp\<rparr>" 2 True]
    by (auto simp: recordedConn_def emptyFlow_def)
  obtain s where s: "flowPDUs (cnDown ?c) False = Ok (0, s)" "found_by False down nothing s"
    using delivers_flow [OF assms(6) ss(1) assms(4), of "(emptyFlow (ckServer ?key) (ckClient ?key))\<lparr>flSyn := True, flIsn := isnDown\<rparr>" 2 False]
    by (auto simp: recordedConn_def emptyFlow_def)
  have key: "cnKey ?c = ?key" by (simp add: recordedConn_def)
  define v where "v = \<lparr>cvClient = ckClient ?key, cvServer = ckServer ?key, cvConnectRequests = fdCR r + fdCR s,
    cvConnectConfirms = fdCC r + fdCC s, cvGaps = 0, cvDropped = fdDropped r + fdDropped s, cvPDUs = sort_key pduFrame (fdPDUs r @ fdPDUs s)\<rparr>"
  have "conversation ?c = Ok v" by (simp add: conversation_def r(1) s(1) inDirection_def v_def key)
  then have "Read (pcapFile (map (capturedFrame client server) (synSegments isnUp isnDown @ ss))) = Ok [v]"
    unfolding Read_def packets asm bindR.simps by (simp add: conversations_def)
  moreover have "conversation_of ?key up down v"
    using found_by_filter [OF r(2) s(2), THEN arg_cong [where f = mset]] r(2) s(2)
    by (simp add: conversation_of_def v_def filter_sort found_by_def nothing_def)
  ultimately show ?thesis by blast
qed

section \<open>Reassembly rebuilds the stream\<close>

text \<open>C36 The reassembly of a flow rebuilds the bytes sent: when every segment carries a piece of one byte stream at the
  offset its sequence number says (retransmitted, overlapping and reordered pieces included, across a wrap of
  the sequence numbers), the runs it gives are the parts of the stream that the segments cover, in order, with a gap
  between any two of them and starting at the beginning of the stream; when the segments cover
  the whole stream there is one run, the stream itself.\<close>

theorem stream_reassembles:
  assumes "flSegs f \<noteq> []" "base = (if flSyn f then flIsn f + 1 else sgSeq (hd (flSegs f)))"
    "list_all (carries S base) (flSegs f)"
  shows "\<exists>cs b ivs. stream f = Ok cs \<and> map chData cs = map (part S) ((0, b) # ivs) \<and> gapped ((0, b) # ivs) \<and>
    (\<forall>i. list_ex (\<lambda>iv. within iv i) ((0, b) # ivs) \<longleftrightarrow> list_ex (\<lambda>s. covers base s i) (flSegs f)) \<and>
    ((\<forall>i < length S. list_ex (\<lambda>s. covers base s i) (flSegs f)) \<longrightarrow> map chData cs = [S])"
  using assms by (rule stream_runs)

text \<open>Two segments, reordered, overlapping, and with sequence numbers on both sides of the wrap.\<close>

definition demoFlow :: flow where
  "demoFlow = \<lparr>flSrc = ''a'', flDst = ''b'', flSyn = True, flIsn = 0xFFFFFFFE,
     flSegs = [\<lparr>sgFrame = 5, sgSeq = 1, sgPayload = [3, 4]\<rparr>, \<lparr>sgFrame = 7, sgSeq = 0xFFFFFFFF, sgPayload = [1, 2, 3]\<rparr>]\<rparr>"

theorem stream_reassembles_witness: "\<exists>cs. stream demoFlow = Ok cs \<and> map chData cs = [[1, 2, 3, 4]]"
proof -
  have d: "seqDiff 1 0xFFFFFFFF = 2" "seqDiff 0xFFFFFFFF 0xFFFFFFFF = 0" by (simp_all add: seqDiff_def)
  have all: "\<forall>i < length [1, 2, 3, 4 :: byte]. list_ex (\<lambda>s. covers 0xFFFFFFFF s i) (flSegs demoFlow)"
    by (simp add: demoFlow_def covers_def offsetIn_def d All_less_Suc)
  have c: "list_all (carries [1, 2, 3, 4] 0xFFFFFFFF) (flSegs demoFlow)"
    by (simp add: demoFlow_def carries_def offsetIn_def d)
  have f: "flSegs demoFlow \<noteq> []" "(0xFFFFFFFF :: uint32) = (if flSyn demoFlow then flIsn demoFlow + 1 else sgSeq (hd (flSegs demoFlow)))"
    by (simp_all add: demoFlow_def)
  show ?thesis using stream_reassembles [OF f c] all by (elim exE conjE) simp
qed

section \<open>A recorded connection is read back\<close>

text \<open>C35 Reading a capture gives back what was sent: of a pcap file with the frames of one TCP connection to
  port 102, its two SYN segments and then the segments of both directions in any order, retransmitted or
  overlapping, the reader makes one conversation between the two endpoints, without gaps and without dropped
  packets, with the S7 PDUs each side sent (cut into COTP data TPDUs in any way) under the right direction and
  with the number of connect requests and confirms.\<close>

theorem Read_recovers:
  assumes "snd client \<noteq> 102" "list_all (\<lambda>s. \<not> cpSyn s \<and> length (cpPayload s) \<le> 65495) ss"
    "list_all message_ok up" "list_all message_ok down"
    "delivers True (concat (map onWire up)) isnUp ss" "delivers False (concat (map onWire down)) isnDown ss"
  shows "\<exists>v. Read (pcapFile (map (capturedFrame client server) (synSegments isnUp isnDown @ ss))) = Ok [v] \<and>
    conversation_of (keyOf client server) up down v"
  using assms by (rule Read_connection)

definition demoUp :: "message list" where
  "demoUp = [ConnectRequest [2, 0xe0, 0], Sent [[0x32, 1], [2]]]"

definition demoDown :: "message list" where
  "demoDown = [ConnectConfirm [2, 0xd0, 0]]"

text \<open>The second half of what the client sent comes before the first, which is sent twice.\<close>

definition demoSegments :: "captured list" where
  "demoSegments = [\<lparr>cpUp = True, cpSeq = 8, cpSyn = False, cpPayload = drop 7 (concat (map onWire demoUp))\<rparr>,
     \<lparr>cpUp = True, cpSeq = 1, cpSyn = False, cpPayload = take 7 (concat (map onWire demoUp))\<rparr>,
     \<lparr>cpUp = False, cpSeq = 101, cpSyn = False, cpPayload = concat (map onWire demoDown)\<rparr>,
     \<lparr>cpUp = True, cpSeq = 1, cpSyn = False, cpPayload = take 9 (concat (map onWire demoUp))\<rparr>]"

theorem Read_recovers_witness:
  "\<exists>v. Read (pcapFile (map (capturedFrame ((10, 0, 0, 1), 50000) (10, 0, 0, 2)) (synSegments 0 100 @ demoSegments))) = Ok [v] \<and>
    conversation_of (keyOf ((10, 0, 0, 1), 50000) (10, 0, 0, 2)) demoUp demoDown v"
proof -
  define S where "S = concat (map onWire demoUp)"
  define T where "T = concat (map onWire demoDown)"
  have lens: "length S = 24" "length T = 7" by (simp_all add: S_def T_def demoUp_def demoDown_def)
  have d: "seqDiff 8 1 = 7" "seqDiff 1 1 = 0" "seqDiff 101 101 = 0" by (simp_all add: seqDiff_def)
  have ss: "demoSegments = [\<lparr>cpUp = True, cpSeq = 8, cpSyn = False, cpPayload = drop 7 S\<rparr>,
     \<lparr>cpUp = True, cpSeq = 1, cpSyn = False, cpPayload = take 7 S\<rparr>,
     \<lparr>cpUp = False, cpSeq = 101, cpSyn = False, cpPayload = T\<rparr>,
     \<lparr>cpUp = True, cpSeq = 1, cpSyn = False, cpPayload = take 9 S\<rparr>]"
    by (simp add: demoSegments_def S_def T_def)
  have up: "delivers True S 0 demoSegments"
    using lens by (auto simp: delivers_def ss carries_def covers_def offsetIn_def d)
  have down: "delivers False T 100 demoSegments"
    using lens by (auto simp: delivers_def ss carries_def covers_def offsetIn_def d)
  have small: "list_all (\<lambda>s. \<not> cpSyn s \<and> length (cpPayload s) \<le> 65495) demoSegments" by (simp add: ss lens)
  have ok: "list_all message_ok demoUp" "list_all message_ok demoDown"
    by (simp_all add: demoUp_def demoDown_def connectTPDU_def)
  show ?thesis
    using Read_recovers [OF _ small ok up [unfolded S_def] down [unfolded T_def], of "((10, 0, 0, 1), 50000)" "(10, 0, 0, 2)"] by simp
qed

end
