(* ===== verification/Spec2Isabelle.thy ===== *)
theory Spec2Isabelle
  imports Interop_Harness Link_Compare Server_Lifecycle Codec Capture_Roundtrip
begin

text \<open>
  Verification of \<^verbatim>\<open>go-s7comm\<close>, a client and a server for the Siemens S7 protocol over ISO-on-TCP.

  \<^bold>\<open>The program.\<close> Package \<^verbatim>\<open>wire\<close> encodes and decodes PDUs, package \<^verbatim>\<open>client\<close> runs operations
  on a device over one connection, package \<^verbatim>\<open>server\<close> answers them from registered memory areas, and
  \<^verbatim>\<open>model\<close> holds the shared types and the value codec. Package \<^verbatim>\<open>internal/capture\<close> reads S7 conversations out of capture
  files, and \<^verbatim>\<open>interop\<close> runs recorded fixtures against servers with the client. A client operation encodes a request,
  sends it as one TSDU over \<^verbatim>\<open>go-cotp\<close>, reads one TSDU, checks header, PDU reference and lengths and decodes the
  answer; a server session reads a TSDU, decodes the job, reads or changes the memory and encodes the answer.

  \<^bold>\<open>How it is modelled.\<close> A Go function is a HOL function of the same name; its outcome is of type
  \<open>'a res\<close>: a value, an error or a run-time panic, so that every index, slice and dereference of the source can
  fail in the model as it can in Go. Sized integers are words, \<^verbatim>\<open>int\<close> is \<open>int\<close>, slices are lists with \<open>idx\<close>,
  \<open>go_slice\<close> and \<open>copy_at\<close> for the checked accesses, structs are records, enumerations are datatypes or byte
  constants. A method of the client takes and returns the client and the state of the world; the network, \<^verbatim>\<open>go-cotp\<close>
  and the context are a parameter, the record \<open>transport\<close> of \<open>Client_Core\<close>, whose functions may do anything that
  the hypotheses of a theorem do not exclude. Goroutines (of the server, of a comparison, of a rack and slot probe, of a discovery scan) are
  inductive step relations; what one of them computes on its own is a definition, and its result a parameter of the step.

  \<^bold>\<open>The theories.\<close>
  \<^item> \<open>Go_Prelude\<close>: bytes, words, results, error values, text formatting, generic lemmas.
  \<^item> \<open>Wire_S7\<close>: \<^verbatim>\<open>wire/s7.go\<close>, \<^verbatim>\<open>wire/errors.go\<close>, \<^verbatim>\<open>wire/param_error.go\<close>, \<^verbatim>\<open>wire/cotp.go\<close>,
    \<^verbatim>\<open>wire/inspect.go\<close>, \<^verbatim>\<open>wire/pdu_setup.go\<close>. The header decoder is total and accepts only frames whose lengths fit.
  \<^item> \<open>Wire_RW\<close>: \<^verbatim>\<open>wire/pdu_rw.go\<close>, item addresses, requests, responses and typed item readers.
  \<^item> \<open>Wire_Server\<close>: \<^verbatim>\<open>wire/pdu_server.go\<close>, the job decoders and response encoders of the server.
  \<^item> \<open>Wire_Roundtrip\<close>: each encoder of one side is inverted by the decoder of the other side.
  \<^item> \<open>Wire_Userdata\<close>: \<^verbatim>\<open>wire/pdu_szl.go\<close> and \<^verbatim>\<open>wire/pdu_blocks.go\<close>.
  \<^item> \<open>Server_Memory\<close>: \<^verbatim>\<open>server/memory.go\<close>; the locale of byte areas, interpreted on the memory, carries what a
    read gives after a write.
  \<^item> \<open>Server_Session\<close>: \<^verbatim>\<open>server/session.go\<close> and the configuration of \<^verbatim>\<open>server/server.go\<close>. \<open>handle\<close> is total on every byte string,
    keeps the invariant \<open>session_ok\<close>, stays within the negotiated size, and does what the host-side operations do.
  \<^item> \<open>Server_Lifecycle\<close>: the goroutines of \<^verbatim>\<open>server/server.go\<close>; invariants of every reachable state and
    termination of a shutdown.
  \<^item> \<open>Client_Core\<close>: \<^verbatim>\<open>client/client.go\<close>, \<^verbatim>\<open>client/options.go\<close>, \<^verbatim>\<open>client/handshake.go\<close>.
  \<^item> \<open>Client_RW\<close>: \<^verbatim>\<open>client/readwrite.go\<close>, \<^verbatim>\<open>client/bit.go\<close>, \<^verbatim>\<open>client/result.go\<close>, \<^verbatim>\<open>client/validation.go\<close>.
  \<^item> \<open>Client_Data\<close>: \<^verbatim>\<open>client/szl.go\<close>, \<^verbatim>\<open>client/blocks.go\<close>, with the rules for operations that never panic.
  \<^item> \<open>Client_Scan\<close>: \<^verbatim>\<open>client/rangescan.go\<close> and \<^verbatim>\<open>client/compare.go\<close>.
  \<^item> \<open>Client_Compare\<close>: \<^verbatim>\<open>CompareRead\<close> with any parallelism. It ends under every interleaving with a result per candidate in order.
  \<^item> \<open>Client_Probe\<close>: \<^verbatim>\<open>client/probe.go\<close>. Under every interleaving the candidates of a probe are the outcomes of the first
    jobs in order, and the probe returns.
  \<^item> \<open>Client_Discover\<close>: \<^verbatim>\<open>client/discover.go\<close> with the IPv4 part of \<^verbatim>\<open>net.ParseCIDR\<close>. The addresses of a range, the probe of a
    host, and the workers of a scan, which returns one result per address in order.
  \<^item> \<open>Interop_Fixture\<close>: \<^verbatim>\<open>interop/fixture.go\<close>; which documents load, and that the steps loaded are typed as the runner needs.
  \<^item> \<open>Interop_Runner\<close>: \<^verbatim>\<open>interop/runner.go\<close>, the operations of a step and the run of a fixture.
  \<^item> \<open>Interop_Harness\<close>: the choice of servers and the wait for one in \<^verbatim>\<open>interop/harness.go\<close>.
  \<^item> \<open>Capture\<close> and \<open>Capture_Roundtrip\<close>: \<^verbatim>\<open>internal/capture/capture.go\<close>; the reader is total, reassembly gives what the segments
    cover, and reading back a recorded connection gives the PDUs sent.
  \<^item> \<open>Codec\<close>: \<^verbatim>\<open>model/codec/codec.go\<close>.
  \<^item> \<open>Link\<close>: the client over a network whose peer is the server; the locales \<open>exchange\<close> and \<open>area_peer\<close> say what the
    client relies on, and their interpretation on that network gives the end-to-end theorems.
  \<^item> \<open>Link_Scan\<close>: the same for peers that also refuse, with scans and comparisons end to end.
  \<^item> \<open>Link_Compare\<close>: comparisons of any parallelism with the server.
  \<^item> \<open>Link_Discover\<close>: rack and slot probes and discovery scans of networks whose hosts are the server.
  \<^item> \<open>Link_Interop\<close>: fixtures against the server; \<open>hostRead\<close>, \<open>hostWrite\<close> and \<open>fixtureVerdict\<close> specify a run by the memory alone, and
    the run of the source refines them.

  \<^bold>\<open>Bounds.\<close> Loops of the source are structural recursion or have a termination proof; where the source bounds a
  loop (packets of a user data answer, chunks and tries of an upload) the counter of the model is that
  bound. \<^verbatim>\<open>int\<close> arithmetic is unbounded in the model; the values stay far below \<open>2 ^ 63\<close>. Only the additions that the source
  does in 16 or 32 bits wrap.

  \<^bold>\<open>Not modelled.\<close> Logging and the loggers handed to clients, which no result depends on; the containers the interoperability
  harness starts, stops and reads the logs of through other programs; files, the environment and the clock beyond parameters that stand for
  them; TCP, TLS and \<^verbatim>\<open>go-cotp\<close> beyond what the \<open>transport\<close> record promises; the server's handling of \<^verbatim>\<open>go-cotp\<close> connections
  (\<^verbatim>\<open>serveConn\<close>) beyond its request loop and its steps on the shared tables.
\<close>

section \<open>Two clients and one server\<close>

lemma netReady_other:
  assumes "netReady w conn" "ntConns w' conn = ntConns w conn" "server_ok (ntSrv w')" "svCfg (ntSrv w') = svCfg (ntSrv w)"
  shows "netReady w' conn" "netLimit w' conn = netLimit w conn"
  using assms by (auto simp: netReady_def netLimit_def session_ok_def)

text \<open>C1 Clients share the server's memory: when two clients connect and the first writes bytes to a
  writable span, the second reads exactly these bytes from it, on its own connection and with its
  own negotiated PDU size, and the server's memory is the one a host-side write would leave.\<close>

theorem clients_share_memory:
  assumes "server_ok (ntSrv w)" "options_ok (clOpts a)" "options_ok (clOpts b)" "clConn a = None" "clConn b = None"
    "30 \<le> min (optMaxPDU (clOpts a)) (cfgMaxPDUSize (svCfg (ntSrv w)))"
    "even (min (optMaxPDU (clOpts a)) (cfgMaxPDUSize (svCfg (ntSrv w))))"
    "25 \<le> optMaxPDU (clOpts b)"
    "validateAddress addr = None" "validateRangeEnd (adStart addr) (adSize addr) = None" "adSize addr = int (length v)"
    "writable (ntSrv w) (adArea addr) (adDBNumber addr)"
    "Server_Write (ntSrv w) (adArea addr) (adDBNumber addr) (adStart addr) v = Ok srv"
  shows "\<exists>a1 w1 b1 w2 a2 w3 b2 r.
    Connect netTransport a ctx w = (Ok (), a1, w1) \<and> Connect netTransport b ctx w1 = (Ok (), b1, w2) \<and>
    WriteArea netTransport a1 ctx addr v w2 = (Ok (), a2, w3) \<and> ntSrv w3 = srv \<and>
    ReadArea netTransport b1 ctx addr w3 = (Ok r, b2, w3) \<and> rsStatus r = ReadStatusSuccess \<and> rsData r = v"
proof -
  obtain a1 w1 where 1: "Connect netTransport a ctx w = (Ok (), a1, w1)" "connected a w a1 w1"
    using Connect_net [OF assms(1,2), of ctx] assms(4) by auto
  from 1(2) have w1: "clConn a1 = Some (ntNext w)" "netReady w1 (ntNext w)" "clPduSize a1 = netLimit w1 (ntNext w)"
    "netLimit w1 (ntNext w) = min (optMaxPDU (clOpts a)) (cfgMaxPDUSize (svCfg (ntSrv w)))"
    "ntSrv w1 = ntSrv w" "ntNext w1 = ntNext w + 1"
    by (simp_all add: connected_def)
  obtain b1 w2 where 2: "Connect netTransport b ctx w1 = (Ok (), b1, w2)" "connected b w1 b1 w2"
    using Connect_net [of w1 b ctx] assms(1,3,5) w1(5) by auto
  from 2(2) have w2: "clConn b1 = Some (ntNext w1)" "netReady w2 (ntNext w1)" "clPduSize b1 = netLimit w2 (ntNext w1)"
    "netLimit w2 (ntNext w1) = min (optMaxPDU (clOpts b)) (cfgMaxPDUSize (svCfg (ntSrv w)))"
    "ntSrv w2 = ntSrv w"
    using w1(5) by (simp_all add: connected_def)
  have "ntNext w \<noteq> ntNext w1" using w1(6) by simp
  then have w2': "ntConns w2 (ntNext w) = ntConns w1 (ntNext w)"
    using 2(2) assms(5) by (auto simp: connected_def)
  have ra: "netReady w2 (ntNext w)" "netLimit w2 (ntNext w) = netLimit w1 (ntNext w)"
    using netReady_other [OF w1(2) w2'] assms(1) w1(5) w2(5) by simp_all
  obtain a2 where 3: "WriteArea netTransport a1 ctx addr v w2 = (Ok (), a2, w2\<lparr>ntSrv := srv\<rparr>)"
    using WriteArea_net [OF ra(1) w1(1), of addr v srv ctx] assms(6,7,9-13) w1(3,4) w2(5) ra(2) by auto
  define w3 where "w3 = w2\<lparr>ntSrv := srv\<rparr>"
  have srv: "svCfg srv = svCfg (ntSrv w)" "server_ok srv" "Server_Read srv (adArea addr) (adDBNumber addr) (adStart addr) (int (length v)) = Ok v"
    using Server_Write_facts [OF assms(13)] assms(1) by simp_all
  have rb: "netReady w3 (ntNext w1)" "netLimit w3 (ntNext w1) = netLimit w2 (ntNext w1)"
    using netReady_other [OF w2(2), of w3] srv(1,2) w2(5) by (simp_all add: w3_def)
  have t: "\<not> timerOrCounter (adArea addr)" using assms(12) by (simp add: writable_def)
  have "MinPDUSize \<le> cfgMaxPDUSize (svCfg (ntSrv w))" using assms(1) by (simp add: server_ok_def)
  then have "25 \<le> netLimit w3 (ntNext w1)" using w2(4) assms(8) rb(2) by simp
  moreover have "Server_Read (ntSrv w3) (adArea addr) (adDBNumber addr) (adStart addr) (adSize addr) = Ok v"
    using srv(3) assms(11) by (simp add: w3_def)
  ultimately obtain b2 r where "ReadArea netTransport b1 ctx addr w3 = (Ok r, b2, w3)" "rsStatus r = ReadStatusSuccess" "rsData r = v"
    using ReadArea_net [OF rb(1) w2(1) _ _ assms(9,10) t, of v ctx] w2(3) rb(2) by auto
  with 1(1) 2(1) 3 show ?thesis by (auto simp: w3_def)
qed

theorem clients_share_memory_witness:
  "\<exists>a1 w1 b1 w2 a2 w3 b2 r.
    Connect netTransport (Client_New ''plc'' []) CallerCtx demoNet = (Ok (), a1, w1) \<and>
    Connect netTransport (Client_New ''plc'' [WithMaxPDU 100]) CallerCtx w1 = (Ok (), b1, w2) \<and>
    WriteArea netTransport a1 CallerCtx demoAddr [7, 8] w2 = (Ok (), a2, w3) \<and>
    ntSrv w3 = (ssSrv demoSession)\<lparr>svMem := demoMem(\<lparr>akArea = 0x84, akDb = 1\<rparr> \<mapsto>
         \<lparr>rgData = [1, 7, 8, 4], rgReadOnly = False\<rparr>)\<rparr> \<and>
    ReadArea netTransport b1 CallerCtx demoAddr w3 = (Ok r, b2, w3) \<and> rsStatus r = ReadStatusSuccess \<and> rsData r = [7, 8]"
proof -
  have c: "clConn (Client_New h os) = None" for h and os :: "(options \<Rightarrow> options) list" by (simp add: Client_New_def)
  have o: "options_ok (clOpts (Client_New ''plc'' []))" "options_ok (clOpts (Client_New ''plc'' [WithMaxPDU 100]))"
    by (simp_all add: Client_New_def defaultOptions_def WithMaxPDU_def options_ok_def ValidateRackSlot_def)
  show ?thesis
    by (rule clients_share_memory [OF demoNet_facts(5) o c c])
      (simp_all add: demo_check Client_New_def defaultOptions_def WithMaxPDU_def)
qed

end
